(* ===== verification/Prelude.thy ===== *)
theory Prelude
  imports Main "HOL-Library.Sublist" "HOL-Library.Char_ord" "HOL-Library.List_Lexorder"
    "HOL-Library.Product_Lexorder" "HOL-Library.Multiset" "HOL-Library.AList"
begin

text \<open>
  What the components share: the names of the common types, the collections of rewrite and
  case-split facts the component proofs draw on, the Go string functions the sources call
  (package \<^verbatim>\<open>strings\<close>, \<^verbatim>\<open>path\<close> and \<^verbatim>\<open>unicode/utf8\<close>), and generic lemmas on
  lists and association lists.

  A Go string or byte slice is a list of bytes, that is Isabelle's \<^typ>\<open>string\<close>: a
  \<^typ>\<open>char\<close> is one byte, \<^const>\<open>length\<close> is Go's \<^verbatim>\<open>len\<close>, and a rune above
  U+007F is the several bytes of its UTF-8 encoding. A Go slice of strings is a list, a Go map is
  an association list with distinct keys (its order standing for the unspecified iteration order)
  or a HOL map where nothing iterates over it. A function that returns an error returns a sum:
  \<^const>\<open>Inl\<close> the error, \<^const>\<open>Inr\<close> the result.
\<close>

section \<open>Collections and type names\<close>

named_theorems go_simps \<open>unfolding equations of modelled operations\<close>
named_theorems go_splits \<open>case splits used by the component proofs\<close>

type_synonym ('e, 'a) result = "'e + 'a"
type_synonym run_id = string
type_synonym digest = string

text \<open>An instant (\<^verbatim>\<open>time.Time\<close>): nanoseconds since the Unix epoch, unbounded as Go's
  are in practice; the location is not modelled. A \<^verbatim>\<open>time.Duration\<close> is an int64.\<close>

type_synonym gtime = int
type_synonym duration = int

definition max_int64 :: int where
  "max_int64 = 9223372036854775807"

definition min_int64 :: int where
  "min_int64 = - 9223372036854775808"

lemmas int64_bounds = max_int64_def min_int64_def

definition time_sub :: "gtime \<Rightarrow> gtime \<Rightarrow> duration" where
  \<comment> \<open>\<^verbatim>\<open>Time.Sub\<close> saturates at the ends of int64\<close>
  "time_sub t u = max min_int64 (min max_int64 (t - u))"

text \<open>\<^verbatim>\<open>Time{}\<close>, the zero instant (1 January of year 1, UTC).\<close>

definition zero_time :: gtime where
  "zero_time = - 62135596800000000000"

text \<open>\<^verbatim>\<open>Time.UnixNano\<close>: the instant reduced to an int64, wrapping around when it does not fit.\<close>

definition unix_nano :: "gtime \<Rightarrow> int" where
  "unix_nano t = (t - min_int64) mod 18446744073709551616 + min_int64"

lemma unix_nano_in_range: "min_int64 \<le> t \<Longrightarrow> t \<le> max_int64 \<Longrightarrow> unix_nano t = t"
  by (simp add: unix_nano_def int64_bounds)

lemma unix_nano_bounds: "min_int64 \<le> unix_nano t \<and> unix_nano t \<le> max_int64"
proof -
  have "0 \<le> (t - min_int64) mod 18446744073709551616"
    and "(t - min_int64) mod 18446744073709551616 < 18446744073709551616"
    by simp_all
  then show ?thesis by (simp add: unix_nano_def int64_bounds)
qed

section \<open>Go strings\<close>

abbreviation has_prefix :: "string \<Rightarrow> string \<Rightarrow> bool" where
  "has_prefix s p \<equiv> prefix p s"

abbreviation has_suffix :: "string \<Rightarrow> string \<Rightarrow> bool" where
  "has_suffix s p \<equiv> suffix p s"

abbreviation contains :: "string \<Rightarrow> string \<Rightarrow> bool" where
  "contains s t \<equiv> sublist t s"

abbreviation code :: "char \<Rightarrow> nat" where
  "code c \<equiv> of_char c"

definition byte_at :: "string \<Rightarrow> nat \<Rightarrow> nat" where
  \<comment> \<open>the byte at an index, 0 when there is none\<close>
  "byte_at s i = (if i < length s then code (s ! i) else 0)"

text \<open>\<^verbatim>\<open>strings.Split\<close> on a one-byte separator: always at least one piece.\<close>

fun split_on :: "char \<Rightarrow> string \<Rightarrow> string list" where
  "split_on c [] = [[]]"
| "split_on c (x # xs) =
     (if x = c then [] # split_on c xs
      else (case split_on c xs of [] \<Rightarrow> [[x]] | l # ls \<Rightarrow> (x # l) # ls))"

fun join_with :: "string \<Rightarrow> string list \<Rightarrow> string" where
  "join_with sep [] = []"
| "join_with sep [x] = x"
| "join_with sep (x # y # ys) = x @ sep @ join_with sep (y # ys)"

definition trim_prefix :: "string \<Rightarrow> string \<Rightarrow> string" where
  "trim_prefix s p = (if has_prefix s p then drop (length p) s else s)"

definition trim_suffix :: "string \<Rightarrow> string \<Rightarrow> string" where
  "trim_suffix s p = (if has_suffix s p then take (length s - length p) s else s)"

text \<open>\<^verbatim>\<open>unicode.IsSpace\<close> on the UTF-8 bytes: the number of bytes of the white-space rune
  a string starts with, 0 if it does not start with one. A white-space rune begins with an ASCII
  byte or a lead byte, so no other rune's bytes contain one and scanning byte by byte is exact.\<close>

definition ascii_space :: "char \<Rightarrow> bool" where
  "ascii_space c \<longleftrightarrow> (9 \<le> code c \<and> code c \<le> 13) \<or> code c = 32"

definition ws_len :: "string \<Rightarrow> nat" where
  "ws_len s =
     (case s of
        [] \<Rightarrow> 0
      | c # _ \<Rightarrow>
          if ascii_space c then 1
          else (let a = byte_at s 0; b = byte_at s 1; d = byte_at s 2 in
            if a = 194 \<and> (b = 133 \<or> b = 160) then 2
            else if a = 225 \<and> b = 154 \<and> d = 128 then 3
            else if a = 226 \<and> b = 128 \<and> ((128 \<le> d \<and> d \<le> 138) \<or> d = 168 \<or> d = 169 \<or> d = 175) then 3
            else if a = 226 \<and> b = 129 \<and> d = 159 then 3
            else if a = 227 \<and> b = 128 \<and> d = 128 then 3
            else 0))"

text \<open>\<^verbatim>\<open>strings.Fields\<close>: the maximal runs of non-space runes.\<close>

function go_fields_from :: "string \<Rightarrow> string \<Rightarrow> string list" where
  "go_fields_from cur [] = (if cur = [] then [] else [rev cur])"
| "go_fields_from cur (c # s) =
     (let n = ws_len (c # s) in
      if n = 0 then go_fields_from (c # cur) s
      else (if cur = [] then [] else [rev cur]) @ go_fields_from [] (drop (n - 1) s))"
  by pat_completeness auto
termination
  by (relation "measure (\<lambda>(cur, s). length s)") auto

definition go_fields :: "string \<Rightarrow> string list" where
  "go_fields s = go_fields_from [] s"

text \<open>\<^verbatim>\<open>strings.TrimSpace\<close>.\<close>

function trim_left :: "string \<Rightarrow> string" where
  "trim_left s = (if s = [] \<or> ws_len s = 0 then s else trim_left (drop (ws_len s) s))"
  by pat_completeness auto
termination
  by (relation "measure length") auto

function all_space :: "string \<Rightarrow> bool" where
  "all_space s = (if s = [] then True else if ws_len s = 0 then False else all_space (drop (ws_len s) s))"
  by pat_completeness auto
termination
  by (relation "measure length") auto

declare trim_left.simps [simp del] all_space.simps [simp del]

fun trim_right :: "string \<Rightarrow> string" where
  "trim_right [] = []"
| "trim_right (c # s) = (if all_space (c # s) then [] else c # trim_right s)"

definition trim_space :: "string \<Rightarrow> string" where
  "trim_space s = trim_right (trim_left s)"

text \<open>
  \<^verbatim>\<open>strings.ToLower\<close> and \<^verbatim>\<open>strings.ToUpper\<close>, as far as the sources look at the result: they only
  compare it with ASCII text. Every rune with an ASCII image is mapped (A to Z; the dotted capital
  I, bytes C4 B0, and the Kelvin sign, bytes E2 84 AA, for lower case; the dotless i, bytes C4 B1,
  and the long s, bytes C5 BF, for upper case); every other rune maps to a non-ASCII rune, and its
  bytes stay as they are.
\<close>

definition ascii_lower :: "char \<Rightarrow> char" where
  "ascii_lower c = (if 65 \<le> code c \<and> code c \<le> 90 then char_of (code c + 32) else c)"

definition ascii_upper :: "char \<Rightarrow> char" where
  "ascii_upper c = (if 97 \<le> code c \<and> code c \<le> 122 then char_of (code c - 32) else c)"

fun to_lower :: "string \<Rightarrow> string" where
  "to_lower [] = []"
| "to_lower (c # s) =
     (if code c = 196 \<and> byte_at s 0 = 176 then CHR ''i'' # to_lower (drop 1 s)
      else if code c = 226 \<and> byte_at s 0 = 132 \<and> byte_at s 1 = 170 then CHR ''k'' # to_lower (drop 2 s)
      else ascii_lower c # to_lower s)"

fun to_upper :: "string \<Rightarrow> string" where
  "to_upper [] = []"
| "to_upper (c # s) =
     (if code c = 196 \<and> byte_at s 0 = 177 then CHR ''I'' # to_upper (drop 1 s)
      else if code c = 197 \<and> byte_at s 0 = 191 then CHR ''S'' # to_upper (drop 1 s)
      else ascii_upper c # to_upper s)"

text \<open>\<^verbatim>\<open>strings.ReplaceAll\<close> for a non-empty pattern, and its one-byte case.\<close>

function replace_all :: "string \<Rightarrow> string \<Rightarrow> string \<Rightarrow> string" where
  "replace_all old new [] = []"
| "replace_all old new (c # s) =
     (if old \<noteq> [] \<and> has_prefix (c # s) old
      then new @ replace_all old new (drop (length old - 1) s)
      else c # replace_all old new s)"
  by pat_completeness auto
termination
  by (relation "measure (\<lambda>(old, new, s). length s)") auto

definition replace_char :: "char \<Rightarrow> char \<Rightarrow> string \<Rightarrow> string" where
  "replace_char a b s = map (\<lambda>c. if c = a then b else c) s"

abbreviation newline :: char where
  "newline \<equiv> CHR 0x0A"

abbreviation slash :: char where
  "slash \<equiv> CHR ''/''"

abbreviation backslash :: char where
  "backslash \<equiv> CHR 0x5C"

text \<open>
  \<^verbatim>\<open>path.Clean\<close>: the elements between slashes, without empty and dot elements, a dot-dot
  removing the element before it; at the front of a rooted path it is dropped, at the front of a
  relative one it stays. The accumulator is the kept elements, last first.
\<close>

fun clean_elems :: "bool \<Rightarrow> string list \<Rightarrow> string list \<Rightarrow> string list" where
  "clean_elems rooted acc [] = rev acc"
| "clean_elems rooted acc (e # es) =
     (if e = [] \<or> e = ''.'' then clean_elems rooted acc es
      else if e = ''..'' then
        (case acc of
           [] \<Rightarrow> clean_elems rooted (if rooted then [] else [''..'']) es
         | a # as \<Rightarrow>
             if a = ''..'' then clean_elems rooted (''..'' # acc) es
             else clean_elems rooted as es)
      else clean_elems rooted (e # acc) es)"

definition path_elems :: "string \<Rightarrow> string list" where
  "path_elems s = clean_elems (has_prefix s ''/'') [] (split_on slash s)"

definition path_clean :: "string \<Rightarrow> string" where
  "path_clean s =
     (let es = path_elems s in
      if has_prefix s ''/'' then ''/'' @ join_with ''/'' es
      else if es = [] then ''.'' else join_with ''/'' es)"

section \<open>Facts about the string functions\<close>

lemma split_on_nonempty [simp]: "split_on c s \<noteq> []"
  by (induction s) (auto split: list.splits)

lemma split_on_no_sep: "e \<in> set (split_on c s) \<Longrightarrow> c \<notin> set e"
proof (induction s arbitrary: e)
  case (Cons x s)
  obtain l ls where "split_on c s = l # ls" by (cases "split_on c s") simp_all
  with Cons show ?case by (auto split: if_splits)
qed simp

lemma join_split_on: "join_with [c] (split_on c s) = s"
proof (induction s)
  case (Cons x s)
  obtain l ls where "split_on c s = l # ls" by (cases "split_on c s") simp_all
  with Cons show ?case by (cases ls) auto
qed simp

lemma split_join_with:
  assumes "es \<noteq> []" and "\<And>e. e \<in> set es \<Longrightarrow> c \<notin> set e"
  shows "split_on c (join_with [c] es) = es"
proof -
  have app: "c \<notin> set e \<Longrightarrow> split_on c (e @ c # r) = e # split_on c r"
    and single: "c \<notin> set e \<Longrightarrow> split_on c e = [e]" for e r
    by (induction e) auto
  show ?thesis
    using assms
  proof (induction "[c]" es rule: join_with.induct)
    case (3 x y ys)
    then show ?case by (simp add: app)
  qed (simp_all add: single)
qed

text \<open>Walking through the elements of a relative path from a directory: the stack of directories
  entered, \<^const>\<open>None\<close> as soon as a dot-dot would leave the starting directory.\<close>

fun walk :: "string list \<Rightarrow> string list \<Rightarrow> string list option" where
  "walk stack [] = Some (rev stack)"
| "walk stack (e # es) =
     (if e = [] \<or> e = ''.'' then walk stack es
      else if e = ''..'' then (case stack of [] \<Rightarrow> None | _ # st \<Rightarrow> walk st es)
      else walk (e # stack) es)"

text \<open>Once a relative path has left its directory, a dot-dot stays at the front.\<close>

lemma clean_elems_escaped: "''..'' \<in> set acc \<Longrightarrow> ''..'' \<in> set (clean_elems False acc es)"
  by (induction "False" acc es rule: clean_elems.induct) (auto split: list.splits)

lemma clean_elems_walk:
  assumes "''..'' \<notin> set acc"
  shows "walk acc es = (if ''..'' \<in> set (clean_elems False acc es) then None
                        else Some (clean_elems False acc es))"
  using assms
proof (induction acc es rule: walk.induct)
  case (2 stack e es)
  then show ?case
    by (cases stack) (auto simp: clean_elems_escaped)
qed simp

lemma clean_elems_front:
  assumes "rev acc = replicate n ''..'' @ ys" and "''..'' \<notin> set ys"
  shows "\<exists>m zs. clean_elems False acc es = replicate m ''..'' @ zs \<and> ''..'' \<notin> set zs"
  using assms
proof (induction "False" acc es arbitrary: n ys rule: clean_elems.induct)
  case (2 acc e es)
  show ?case
  proof (cases "e = [] \<or> e = ''.''")
    case True
    then show ?thesis using 2 by simp
  next
    case normal: False
    show ?thesis
    proof (cases "e = ''..''")
      case False
      have "rev (e # acc) = replicate n ''..'' @ (ys @ [e])" "''..'' \<notin> set (ys @ [e])"
        using "2.prems" False by auto
      from "2.hyps"(5) [OF normal False this] show ?thesis using normal False by simp
    next
      case dd: True
      show ?thesis
      proof (cases acc)
        case Nil
        show ?thesis using "2.hyps"(2) [OF normal dd Nil, of 1 "[]"] Nil dd by simp
      next
        case (Cons a as)
        show ?thesis
        proof (cases "a = ''..''")
          case True
          have eq: "rev as @ [a] = replicate n ''..'' @ ys" using "2.prems" Cons by simp
          have "ys = []"
          proof (rule ccontr)
            assume "ys \<noteq> []"
            then have "last ys = a" using eq by (metis last_appendR last_snoc)
            then show False using \<open>ys \<noteq> []\<close> "2.prems"(2) True last_in_set by metis
          qed
          then have "rev (''..'' # acc) = replicate (Suc n) ''..'' @ []"
            using "2.prems"(1) by (simp add: replicate_append_same)
          from "2.hyps"(3) [OF normal dd Cons True this] show ?thesis using Cons dd True by simp
        next
          case False
          have eq: "rev as @ [a] = replicate n ''..'' @ ys" using "2.prems" Cons by simp
          have "ys \<noteq> []"
          proof
            assume "ys = []"
            then have "a \<in> set (replicate n ''..'')" using eq by (metis append_Nil2 in_set_conv_decomp)
            then show False using False by (simp split: if_splits)
          qed
          then obtain ys' where ys: "ys = ys' @ [a]" using eq by (metis append_butlast_last_id last_appendR last_snoc)
          then have "rev as = replicate n ''..'' @ ys'" "''..'' \<notin> set ys'"
            using "2.prems"(2) eq by simp_all
          from "2.hyps"(4) [OF normal dd Cons False this] show ?thesis using Cons dd False by simp
        qed
      qed
    qed
  qed
qed auto

lemma join_with_dotdot: "join_with ''/'' (''..'' # es) = ''..'' \<or> has_prefix (join_with ''/'' (''..'' # es)) ''../''"
  by (cases es) auto

text \<open>A relative path whose cleaned form neither is dot-dot nor starts with it stays inside.\<close>

lemma clean_inside:
  assumes "\<not> has_prefix s ''/''" and "path_clean s \<noteq> ''..''" and "\<not> has_prefix (path_clean s) ''../''"
  shows "walk [] (split_on slash s) = Some (path_elems s)"
proof -
  obtain m zs where dec: "path_elems s = replicate m ''..'' @ zs" "''..'' \<notin> set zs"
    using clean_elems_front [of "[]" 0 "[]" "split_on slash s"] assms(1) by (auto simp: path_elems_def)
  have "m = 0"
  proof (rule ccontr)
    assume "m \<noteq> 0"
    then obtain rest where "path_elems s = ''..'' # rest" using dec by (cases m) auto
    then have "path_clean s = join_with ''/'' (''..'' # rest)" using assms(1) by (simp add: path_clean_def)
    then show False using assms(2,3) join_with_dotdot by metis
  qed
  then have "''..'' \<notin> set (path_elems s)" using dec by simp
  then show ?thesis using assms(1) clean_elems_walk [of "[]"] by (simp add: path_elems_def)
qed

section \<open>Decimal numbers\<close>

definition digit_char :: "nat \<Rightarrow> char" where
  "digit_char d = char_of (48 + d mod 10)"

fun nat_string :: "nat \<Rightarrow> string" where
  "nat_string n = (if n < 10 then [digit_char n] else nat_string (n div 10) @ [digit_char n])"

declare nat_string.simps [simp del]

definition ascii_digit :: "char \<Rightarrow> bool" where
  "ascii_digit c \<longleftrightarrow> 48 \<le> code c \<and> code c \<le> 57"

definition decimal_value :: "string \<Rightarrow> int" where
  "decimal_value ds = foldl (\<lambda>v d. 10 * v + (int (code d) - 48)) 0 ds"

lemma code_digit_char: "code (digit_char d) = 48 + d mod 10"
  by (simp add: digit_char_def)

lemma nat_string_digits: "list_all ascii_digit (nat_string n) \<and> nat_string n \<noteq> []"
proof (induction n rule: nat_string.induct)
  case (1 n)
  have "ascii_digit (digit_char n)" by (simp add: ascii_digit_def code_digit_char)
  then show ?case using 1 by (subst (1 2) nat_string.simps) auto
qed

lemma decimal_value_nat_string: "decimal_value (nat_string n) = int n"
proof (induction n rule: nat_string.induct)
  case (1 n)
  show ?case
  proof (cases "n < 10")
    case True
    then show ?thesis by (simp add: nat_string.simps [of n] decimal_value_def code_digit_char)
  next
    case False
    have "decimal_value (nat_string n) = 10 * decimal_value (nat_string (n div 10)) + int (n mod 10)"
      using False by (simp add: nat_string.simps [of n] decimal_value_def code_digit_char)
    then show ?thesis using 1 False by (simp add: zdiv_int zmod_int)
  qed
qed

end
