(* ===== verification/Domain.thy ===== *)
theory Domain
  imports Prelude
begin

text \<open>
  Package \<^verbatim>\<open>internal/domain\<close>: the shared data types of a run and its state machine
  (\<^verbatim>\<open>state.go\<close>). The lemmas give the shape of the transition relation: terminal states, the
  ways into each state, and what every path to success goes through.
\<close>

section \<open>Types (types.go, events.go)\<close>

datatype run_state =
    StateCreated | StatePreflight | StateBaselineValidating | StateDeciding
  | StateAwaitingApproval | StateExecuting | StateValidating | StateFinalValidating
  | StateSucceeded | StateReviewComplete | StateStopped

text \<open>A permission profile is a string of the request; any other string than the three constants
  reaches the policy engine and the preflight check as it is.\<close>

datatype permission_profile =
    ProfileReview | ProfileSupervised | ProfileWorkspaceAuto | ProfileOther string

fun profile_string :: "permission_profile \<Rightarrow> string" where
  "profile_string ProfileReview = ''review''"
| "profile_string ProfileSupervised = ''supervised''"
| "profile_string ProfileWorkspaceAuto = ''workspace-auto''"
| "profile_string (ProfileOther s) = s"

text \<open>Go's JSON values as \<^verbatim>\<open>encoding/json\<close> decodes them. A number is kept as the text it is
  printed back as; an object keeps its members in source order, duplicates included.\<close>

datatype json =
    JNull
  | JBool bool
  | JNum string
  | JStr string
  | JArr "json list"
  | JObj "(string \<times> json) list"

text \<open>\<^verbatim>\<open>Action\<close>: the arguments are raw bytes, \<^const>\<open>None\<close> when those bytes are not one valid
  JSON text (the empty slice included), and otherwise the value they spell.\<close>

record action =
  kind :: string
  args :: "json option"

record agent_decision =
  version :: string
  action_of :: action
  expected_outcome :: string

record observation =
  obs_code :: string
  exit_code :: "int option"
  stdout :: string
  stderr :: string
  output_truncated :: bool
  started_at :: gtime
  ended_at :: gtime
  obs_data :: string

definition empty_observation :: observation where
  "empty_observation = \<lparr>obs_code = [], exit_code = None, stdout = [], stderr = [],
     output_truncated = False, started_at = zero_time, ended_at = zero_time, obs_data = []\<rparr>"

record evidence =
  ev_source :: string
  ev_message :: string
  ev_path :: string
  ev_line :: int

record structured_feedback =
  category :: string
  fb_stage_id :: string
  summary :: string
  fingerprint :: string
  evidence_of :: "evidence list"
  retryable_of :: bool
  fb_output_truncated :: bool
  previous_occurrences :: int

record run =
  rid :: run_id
  state :: run_state
  profile :: permission_profile
  task :: string
  repo_root :: string
  current_stage :: string
  created_at :: gtime
  updated_at :: gtime

record run_event =
  ev_run :: run_id
  ev_seq :: nat
  ev_type :: string
  ev_at :: gtime
  ev_payload :: string
  ev_prev :: digest
  ev_hash :: digest

record artifact =
  art_id :: string
  art_run :: run_id
  art_kind :: string
  art_sha256 :: string
  art_content :: string
  art_truncated :: bool

section \<open>The state machine (state.go)\<close>

datatype domain_error = ErrInvalidTransition

fun allowed_transitions :: "run_state \<Rightarrow> run_state list" where
  "allowed_transitions StateCreated = [StatePreflight, StateStopped]"
| "allowed_transitions StatePreflight =
     [StateBaselineValidating, StateDeciding, StateAwaitingApproval, StateStopped]"
| "allowed_transitions StateBaselineValidating = [StateDeciding, StateStopped]"
| "allowed_transitions StateDeciding =
     [StateAwaitingApproval, StateExecuting, StateReviewComplete, StateStopped]"
| "allowed_transitions StateAwaitingApproval =
     [StatePreflight, StateExecuting, StateDeciding, StateStopped]"
| "allowed_transitions StateExecuting = [StateDeciding, StateValidating, StateStopped]"
| "allowed_transitions StateValidating = [StateDeciding, StateFinalValidating, StateStopped]"
| "allowed_transitions StateFinalValidating = [StateSucceeded, StateDeciding, StateStopped]"
| "allowed_transitions StateSucceeded = []"
| "allowed_transitions StateReviewComplete = []"
| "allowed_transitions StateStopped = []"

definition transition :: "run_state \<Rightarrow> run_state \<Rightarrow> (domain_error, unit) result" where
  "transition from to =
     (if to \<notin> set (allowed_transitions from) then Inl ErrInvalidTransition else Inr ())"

text \<open>The service and the command line test for the three terminal states with the same
  disjunction (\<^verbatim>\<open>app/service.go\<close>, \<^verbatim>\<open>cmd/ai4se-harness/run.go\<close>).\<close>

definition terminal :: "run_state \<Rightarrow> bool" where
  "terminal s \<longleftrightarrow> s = StateSucceeded \<or> s = StateReviewComplete \<or> s = StateStopped"

definition may_step :: "run_state \<Rightarrow> run_state \<Rightarrow> bool" where
  "may_step s t \<longleftrightarrow> transition s t = Inr ()"

lemma may_step_iff: "may_step s t \<longleftrightarrow> t \<in> set (allowed_transitions s)"
  by (simp add: may_step_def transition_def)

lemma transition_cases:
  "transition s t = Inr () \<and> may_step s t \<or> transition s t = Inl ErrInvalidTransition \<and> \<not> may_step s t"
  by (simp add: may_step_iff transition_def)

lemma transition_ok [go_simps]: "may_step s t \<Longrightarrow> transition s t = Inr ()"
  by (simp add: may_step_def)

lemma transition_Inr [simp]: "transition s t = Inr u \<longleftrightarrow> may_step s t"
  by (cases u) (simp add: may_step_def)

lemma terminal_iff_no_step: "terminal s \<longleftrightarrow> (\<forall>t. \<not> may_step s t)"
  by (cases s) (auto simp: terminal_def may_step_iff)

lemma active_may_stop: "\<not> terminal s \<Longrightarrow> may_step s StateStopped"
  by (cases s) (auto simp: terminal_def may_step_iff)

lemma may_step_irrefl: "\<not> may_step s s"
  by (cases s) (auto simp: may_step_iff)

lemma into_succeeded: "may_step s StateSucceeded \<longleftrightarrow> s = StateFinalValidating"
  by (cases s) (auto simp: may_step_iff)

lemma into_final: "may_step s StateFinalValidating \<longleftrightarrow> s = StateValidating"
  by (cases s) (auto simp: may_step_iff)

lemma into_validating: "may_step s StateValidating \<longleftrightarrow> s = StateExecuting"
  by (cases s) (auto simp: may_step_iff)

lemma into_review_complete: "may_step s StateReviewComplete \<longleftrightarrow> s = StateDeciding"
  by (cases s) (auto simp: may_step_iff)

lemma into_executing: "may_step s StateExecuting \<longleftrightarrow> s = StateDeciding \<or> s = StateAwaitingApproval"
  by (cases s) (auto simp: may_step_iff)

section \<open>Histories of a run\<close>

text \<open>A history is the list of states a run goes through, each allowed after the one before.\<close>

fun history :: "run_state \<Rightarrow> run_state list \<Rightarrow> bool" where
  "history s [] \<longleftrightarrow> True"
| "history s (t # ts) \<longleftrightarrow> may_step s t \<and> history t ts"

lemma history_append: "history s (ts @ us) \<longleftrightarrow> history s ts \<and> history (last (s # ts)) us"
  by (induction ts arbitrary: s) auto

lemma history_terminal: "terminal s \<Longrightarrow> history s ts \<Longrightarrow> ts = []"
  by (cases ts) (auto simp: terminal_iff_no_step)

lemma history_last_step:
  assumes "history s ts" "ts \<noteq> []"
  shows "may_step (last (s # butlast ts)) (last ts)"
proof -
  have "ts = butlast ts @ [last ts]" using assms(2) by simp
  then have "history s (butlast ts @ [last ts])" using assms(1) by simp
  then show ?thesis by (simp only: history_append history.simps)
qed

lemma history_into:
  assumes "history s ts" and "last (s # ts) = t" and "s \<noteq> t" and "\<And>u. may_step u t \<Longrightarrow> u = v"
  shows "\<exists>us. ts = us @ [t] \<and> history s us \<and> last (s # us) = v"
proof -
  from assms(2,3) have ne: "ts \<noteq> []" by auto
  then have dec: "ts = butlast ts @ [t]" using assms(2) by (metis append_butlast_last_id last_ConsR)
  moreover have "history s (butlast ts)"
    using assms(1) dec by (metis history_append)
  moreover have "last (s # butlast ts) = v"
    using history_last_step [OF assms(1) ne] assms(2,4) ne by simp
  ultimately show ?thesis by blast
qed

text \<open>Success is never claimed: a run that starts in CREATED and reaches SUCCEEDED ends with
  the states EXECUTING, VALIDATING, FINAL_VALIDATING and SUCCEEDED, in this order and with nothing
  between, and goes nowhere afterwards.\<close>

theorem success_needs_validation:
  assumes "history StateCreated ts" and "last (StateCreated # ts) = StateSucceeded"
  shows "(\<exists>us. ts = us @ [StateExecuting, StateValidating, StateFinalValidating, StateSucceeded])
    \<and> (\<forall>more. history StateCreated (ts @ more) \<longrightarrow> more = [])"
proof (intro conjI allI impI)
  obtain t1 where t1: "ts = t1 @ [StateSucceeded]" "history StateCreated t1"
      "last (StateCreated # t1) = StateFinalValidating"
    using history_into [OF assms] into_succeeded by blast
  obtain t2 where t2: "t1 = t2 @ [StateFinalValidating]" "history StateCreated t2"
      "last (StateCreated # t2) = StateValidating"
    using history_into [OF t1(2,3)] into_final by blast
  obtain t3 where t3: "t2 = t3 @ [StateValidating]" "history StateCreated t3"
      "last (StateCreated # t3) = StateExecuting"
    using history_into [OF t2(2,3)] into_validating by blast
  have "t3 \<noteq> []" using t3(3) by auto
  then have "t3 = butlast t3 @ [StateExecuting]"
    using t3(3) by (metis append_butlast_last_id last_ConsR)
  with t1 t2 t3 show "\<exists>us. ts = us @ [StateExecuting, StateValidating, StateFinalValidating, StateSucceeded]"
    by (metis append.assoc append_Cons append_Nil)
next
  fix more assume "history StateCreated (ts @ more)"
  then have "history StateSucceeded more" using assms(2) by (simp only: history_append)
  then show "more = []" by (rule history_terminal [rotated]) (simp add: terminal_def)
qed

theorem success_needs_validation_witness:
  "history StateCreated [StatePreflight, StateDeciding, StateExecuting, StateValidating,
      StateFinalValidating, StateSucceeded]
   \<and> (\<exists>us. [StatePreflight, StateDeciding, StateExecuting, StateValidating,
      StateFinalValidating, StateSucceeded]
      = us @ [StateExecuting, StateValidating, StateFinalValidating, StateSucceeded])"
proof -
  let ?ts = "[StatePreflight, StateDeciding, StateExecuting, StateValidating,
      StateFinalValidating, StateSucceeded]"
  have h: "history StateCreated ?ts" by (simp add: may_step_iff)
  show ?thesis using success_needs_validation [OF h] h by simp
qed

text \<open>The terminal states are exactly those with no way out, and a run in any other state can
  be stopped.\<close>

theorem terminal_states:
  "(terminal s \<longleftrightarrow> (\<forall>t. transition s t = Inl ErrInvalidTransition))
   \<and> (terminal s \<or> transition s StateStopped = Inr ())"
  using terminal_iff_no_step [of s] active_may_stop [of s] transition_cases [of s]
  by (metis Inr_not_Inl)

end
