(* ===== verification/Budget.thy ===== *)
theory Budget
  imports Domain
begin

text \<open>
  Package \<^verbatim>\<open>internal/budget\<close>: the resource tracker (\<^verbatim>\<open>tracker.go\<close>) and the no-progress
  detector (\<^verbatim>\<open>progress.go\<close>). Both are guarded by a mutex in the code, so each operation is one
  atomic step on the record. Counters are Go ints below a limit that is itself an int, so they do
  not overflow; \<^verbatim>\<open>Time.Sub\<close> saturates.
\<close>

section \<open>The tracker (tracker.go)\<close>

datatype stop_reason =
    DecisionBudget | MutationBudget | ProtocolRepairBudget | WallClockBudget

record limits =
  max_decisions :: int
  max_mutations :: int
  max_protocol_repairs :: int
  wall_clock :: duration

record usage =
  decisions :: int
  mutations :: int
  protocol_repairs :: int
  u_started_at :: gtime

record tracker =
  limits_of :: limits
  usage_of :: usage
  t_started_at :: gtime

definition new_tracker :: "limits \<Rightarrow> gtime \<Rightarrow> tracker" where
  "new_tracker l now =
     \<lparr>limits_of = l,
      usage_of = \<lparr>decisions = 0, mutations = 0, protocol_repairs = 0, u_started_at = now\<rparr>,
      t_started_at = now\<rparr>"

text \<open>\<^verbatim>\<open>record\<close>: the counter after the attempt, or the reason to stop with the counter unchanged.\<close>

definition record_use :: "int \<Rightarrow> int \<Rightarrow> stop_reason \<Rightarrow> (stop_reason, int) result" where
  "record_use used limit reason =
     (if limit \<le> 0 \<or> used \<ge> limit then Inl reason else Inr (used + 1))"

definition record_decision :: "tracker \<Rightarrow> (stop_reason, unit) result \<times> tracker" where
  "record_decision t =
     (case record_use (decisions (usage_of t)) (max_decisions (limits_of t)) DecisionBudget of
        Inl e \<Rightarrow> (Inl e, t)
      | Inr n \<Rightarrow> (Inr (), t\<lparr>usage_of := (usage_of t)\<lparr>decisions := n, protocol_repairs := 0\<rparr>\<rparr>))"

definition record_mutation :: "tracker \<Rightarrow> (stop_reason, unit) result \<times> tracker" where
  "record_mutation t =
     (case record_use (mutations (usage_of t)) (max_mutations (limits_of t)) MutationBudget of
        Inl e \<Rightarrow> (Inl e, t)
      | Inr n \<Rightarrow> (Inr (), t\<lparr>usage_of := (usage_of t)\<lparr>mutations := n\<rparr>\<rparr>))"

definition record_protocol_repair :: "tracker \<Rightarrow> (stop_reason, unit) result \<times> tracker" where
  "record_protocol_repair t =
     (case record_use (protocol_repairs (usage_of t)) (max_protocol_repairs (limits_of t))
             ProtocolRepairBudget of
        Inl e \<Rightarrow> (Inl e, t)
      | Inr n \<Rightarrow> (Inr (), t\<lparr>usage_of := (usage_of t)\<lparr>protocol_repairs := n\<rparr>\<rparr>))"

definition check_time :: "tracker \<Rightarrow> gtime \<Rightarrow> (stop_reason, unit) result" where
  "check_time t now =
     (if wall_clock (limits_of t) \<le> 0 \<or> time_sub now (t_started_at t) \<ge> wall_clock (limits_of t)
      then Inl WallClockBudget else Inr ())"

definition snapshot :: "tracker \<Rightarrow> usage" where
  "snapshot t = usage_of t"

lemmas record_defs [go_simps] =
  record_decision_def record_mutation_def record_protocol_repair_def record_use_def

subsection \<open>Bounds\<close>

definition within_limit :: "int \<Rightarrow> int \<Rightarrow> bool" where
  "within_limit used limit \<longleftrightarrow> 0 \<le> used \<and> used \<le> max 0 limit"

definition tracker_ok :: "tracker \<Rightarrow> bool" where
  "tracker_ok t \<longleftrightarrow>
     within_limit (decisions (usage_of t)) (max_decisions (limits_of t))
     \<and> within_limit (mutations (usage_of t)) (max_mutations (limits_of t))
     \<and> within_limit (protocol_repairs (usage_of t)) (max_protocol_repairs (limits_of t))"

lemmas tracker_ok_defs = tracker_ok_def within_limit_def

lemma new_tracker_ok: "tracker_ok (new_tracker l now)"
  by (simp add: tracker_ok_defs new_tracker_def)

lemma record_decision_ok: "tracker_ok t \<Longrightarrow> tracker_ok (snd (record_decision t))"
  by (auto simp: tracker_ok_defs go_simps)

lemma record_mutation_ok: "tracker_ok t \<Longrightarrow> tracker_ok (snd (record_mutation t))"
  by (auto simp: tracker_ok_defs go_simps)

lemma record_protocol_repair_ok: "tracker_ok t \<Longrightarrow> tracker_ok (snd (record_protocol_repair t))"
  by (auto simp: tracker_ok_defs go_simps)

subsection \<open>Sequences of attempts\<close>

datatype budget_op = UseDecision | UseMutation | UseRepair

fun budget_step :: "budget_op \<Rightarrow> tracker \<Rightarrow> (stop_reason, unit) result \<times> tracker" where
  "budget_step UseDecision t = record_decision t"
| "budget_step UseMutation t = record_mutation t"
| "budget_step UseRepair t = record_protocol_repair t"

text \<open>The attempts that were granted, in order, and the final tracker.\<close>

fun budget_run :: "budget_op list \<Rightarrow> tracker \<Rightarrow> budget_op list \<times> tracker" where
  "budget_run [] t = ([], t)"
| "budget_run (x # xs) t =
     (case budget_step x t of
        (Inl _, t') \<Rightarrow> budget_run xs t'
      | (Inr _, t') \<Rightarrow> (let (ok, t'') = budget_run xs t' in (x # ok, t'')))"

lemma budget_step_cases:
  "budget_step x t = (Inl e, t') \<Longrightarrow> t' = t"
  by (cases x) (auto simp: go_simps split: if_splits)

lemma budget_step_grant:
  assumes "budget_step x t = (Inr u, t')"
  shows "limits_of t' = limits_of t
    \<and> decisions (usage_of t') = decisions (usage_of t) + (if x = UseDecision then 1 else 0)
    \<and> mutations (usage_of t') = mutations (usage_of t) + (if x = UseMutation then 1 else 0)"
  using assms by (cases x) (auto simp: go_simps split: if_splits)

lemma budget_step_ok: "tracker_ok t \<Longrightarrow> budget_step x t = (r, t') \<Longrightarrow> tracker_ok t'"
  by (cases x) (metis budget_step.simps snd_conv record_decision_ok record_mutation_ok
      record_protocol_repair_ok)+

lemma budget_run_counts:
  assumes "tracker_ok t" and "budget_run xs t = (ok, t')"
  shows "tracker_ok t' \<and> limits_of t' = limits_of t
    \<and> decisions (usage_of t') = decisions (usage_of t) + int (count_list ok UseDecision)
    \<and> mutations (usage_of t') = mutations (usage_of t) + int (count_list ok UseMutation)"
  using assms
proof (induction xs arbitrary: t ok t')
  case Nil
  then show ?case by simp
next
  case (Cons x xs)
  obtain r t1 where st: "budget_step x t = (r, t1)" by fastforce
  have ok1: "tracker_ok t1" using Cons.prems(1) st by (rule budget_step_ok)
  show ?case
  proof (cases r)
    case (Inl e)
    then have "t1 = t" using st budget_step_cases by blast
    then have "budget_run xs t = (ok, t')" using Cons.prems(2) Inl st by simp
    then show ?thesis by (rule Cons.IH [OF Cons.prems(1)])
  next
    case (Inr u)
    obtain ok2 where rest: "budget_run xs t1 = (ok2, t')" and ok: "ok = x # ok2"
      using Cons.prems(2) st Inr by (auto split: prod.splits)
    have "limits_of t1 = limits_of t"
      and "decisions (usage_of t1) = decisions (usage_of t) + (if x = UseDecision then 1 else 0)"
      and "mutations (usage_of t1) = mutations (usage_of t) + (if x = UseMutation then 1 else 0)"
      using budget_step_grant [of x t u t1] st Inr by simp_all
    then show ?thesis using Cons.IH [OF ok1 rest] ok by simp
  qed
qed

text \<open>C33. Whatever sequence of decisions, mutations and repairs is attempted, the tracker grants
  at most the configured number of decisions and of mutations over the whole run, its counters are
  the numbers of granted ones, and it never has more repairs recorded at the current decision point
  than allowed. At whatever point, an attempt is refused exactly when its counter has reached its
  limit (or the limit is not positive), and a refused attempt changes nothing.\<close>

theorem budget_never_exceeded:
  assumes "budget_run xs (new_tracker l now) = (granted, t)"
  shows "int (count_list granted UseDecision) \<le> max 0 (max_decisions l)
    \<and> int (count_list granted UseMutation) \<le> max 0 (max_mutations l)
    \<and> decisions (usage_of t) = int (count_list granted UseDecision)
    \<and> mutations (usage_of t) = int (count_list granted UseMutation)
    \<and> protocol_repairs (usage_of t) \<le> max 0 (max_protocol_repairs l)
    \<and> ((\<exists>e. fst (budget_step UseDecision t) = Inl e) \<longleftrightarrow> max_decisions l \<le> decisions (usage_of t) \<or> max_decisions l \<le> 0)
    \<and> ((\<exists>e. fst (budget_step UseMutation t) = Inl e) \<longleftrightarrow> max_mutations l \<le> mutations (usage_of t) \<or> max_mutations l \<le> 0)
    \<and> ((\<exists>e. fst (budget_step UseRepair t) = Inl e)
         \<longleftrightarrow> max_protocol_repairs l \<le> protocol_repairs (usage_of t) \<or> max_protocol_repairs l \<le> 0)
    \<and> (\<forall>attempt e t'. budget_step attempt t = (Inl e, t') \<longrightarrow> t' = t)"
proof -
  note counts = budget_run_counts [OF new_tracker_ok assms]
  have limits: "limits_of t = l" using counts by (simp add: new_tracker_def)
  have refused:
    "(\<exists>e. fst (budget_step UseDecision t) = Inl e) \<longleftrightarrow> max_decisions l \<le> decisions (usage_of t) \<or> max_decisions l \<le> 0"
    "(\<exists>e. fst (budget_step UseMutation t) = Inl e) \<longleftrightarrow> max_mutations l \<le> mutations (usage_of t) \<or> max_mutations l \<le> 0"
    "(\<exists>e. fst (budget_step UseRepair t) = Inl e)
       \<longleftrightarrow> max_protocol_repairs l \<le> protocol_repairs (usage_of t) \<or> max_protocol_repairs l \<le> 0"
    using limits by (auto simp: go_simps split: if_splits)
  have "int (count_list granted UseDecision) \<le> max 0 (max_decisions l)"
    "int (count_list granted UseMutation) \<le> max 0 (max_mutations l)"
    "decisions (usage_of t) = int (count_list granted UseDecision)"
    "mutations (usage_of t) = int (count_list granted UseMutation)"
    "protocol_repairs (usage_of t) \<le> max 0 (max_protocol_repairs l)"
    using counts by (auto simp: tracker_ok_defs new_tracker_def)
  then show ?thesis using refused budget_step_cases by blast
qed

theorem budget_never_exceeded_witness:
  "fst (budget_run [UseDecision, UseDecision, UseRepair, UseMutation, UseDecision]
     (new_tracker \<lparr>max_decisions = 2, max_mutations = 1, max_protocol_repairs = 1, wall_clock = 9\<rparr> 0))
     = [UseDecision, UseDecision, UseRepair, UseMutation]
   \<and> int (count_list [UseDecision, UseDecision, UseRepair, UseMutation] UseDecision) \<le> max 0 2"
proof -
  let ?l = "\<lparr>max_decisions = 2, max_mutations = 1, max_protocol_repairs = 1, wall_clock = 9\<rparr>"
  let ?xs = "[UseDecision, UseDecision, UseRepair, UseMutation, UseDecision]"
  have eq: "fst (budget_run ?xs (new_tracker ?l 0)) = [UseDecision, UseDecision, UseRepair, UseMutation]"
    by (simp add: go_simps new_tracker_def)
  show ?thesis
    using budget_never_exceeded [of ?xs ?l 0, OF prod.collapse [symmetric]] eq by simp
qed

section \<open>The progress detector (progress.go)\<close>

datatype progress_outcome = ProgressContinue | ProgressWarning | ProgressStop

record detector =
  threshold :: int
  last_fingerprint :: string
  last_diff_digest :: string
  consecutive :: int

definition new_detector :: "int \<Rightarrow> detector" where
  "new_detector n =
     \<lparr>threshold = (if n \<le> 1 then 1 else n), last_fingerprint = [], last_diff_digest = [],
      consecutive = 0\<rparr>"

definition observe :: "string \<Rightarrow> string \<Rightarrow> detector \<Rightarrow> progress_outcome \<times> detector" where
  "observe fp dd p =
     (if fp = [] \<or> dd = [] then
        (ProgressContinue, p\<lparr>last_fingerprint := [], last_diff_digest := [], consecutive := 0\<rparr>)
      else if fp = last_fingerprint p \<and> dd = last_diff_digest p then
        (let p' = p\<lparr>consecutive := consecutive p + 1\<rparr> in
         (if consecutive p' \<ge> threshold p' then ProgressStop else ProgressContinue, p'))
      else
        (let outcome = (if fp = last_fingerprint p \<and> last_diff_digest p \<noteq> []
                        then ProgressWarning else ProgressContinue);
             p' = p\<lparr>last_fingerprint := fp, last_diff_digest := dd, consecutive := 1\<rparr> in
         (if consecutive p' \<ge> threshold p' then ProgressStop else outcome, p')))"

fun observe_all :: "(string \<times> string) list \<Rightarrow> detector \<Rightarrow> progress_outcome list \<times> detector" where
  "observe_all [] p = ([], p)"
| "observe_all ((fp, dd) # xs) p =
     (let (r, p') = observe fp dd p; (rs, p'') = observe_all xs p' in (r # rs, p''))"

text \<open>The reference: how often the last observation was repeated without a break, an observation
  with an empty part counting as a break.\<close>

fun streak :: "(string \<times> string) list \<Rightarrow> nat" where
  "streak [] = 0"
| "streak (x # xs) =
     (if fst x = [] \<or> snd x = [] then 0
      else Suc (length (takeWhile (\<lambda>y. y = x) xs)))"

definition detector_matches :: "(string \<times> string) list \<Rightarrow> detector \<Rightarrow> bool" where
  \<comment> \<open>the detector after the observations, the latest first\<close>
  "detector_matches hist p \<longleftrightarrow>
     consecutive p = int (streak hist)
     \<and> (last_fingerprint p, last_diff_digest p) =
         (if streak hist = 0 then ([], []) else hd hist)"

lemma detector_matches_step:
  assumes "detector_matches hist p"
  shows "detector_matches ((fp, dd) # hist) (snd (observe fp dd p))
    \<and> threshold (snd (observe fp dd p)) = threshold p
    \<and> (0 < threshold p \<longrightarrow>
        (fst (observe fp dd p) = ProgressStop \<longleftrightarrow>
           streak ((fp, dd) # hist) \<noteq> 0 \<and> threshold p \<le> int (streak ((fp, dd) # hist))))"
proof (cases "fp = [] \<or> dd = []")
  case True
  then show ?thesis by (auto simp: detector_matches_def observe_def)
next
  case ne: False
  show ?thesis
  proof (cases "fp = last_fingerprint p \<and> dd = last_diff_digest p")
    case True
    then have pos: "streak hist \<noteq> 0" and hd: "hd hist = (fp, dd)"
      using assms ne by (auto simp: detector_matches_def split: if_splits)
    then have "streak ((fp, dd) # hist) = Suc (streak hist)"
      using ne by (cases hist) (auto split: if_splits)
    then show ?thesis
      using assms ne True pos hd by (simp add: detector_matches_def observe_def Let_def)
  next
    case False
    have one: "streak ((fp, dd) # hist) = 1"
      using assms ne False by (cases hist) (auto simp: detector_matches_def split: if_splits)
    have "observe fp dd p =
       (if 1 \<ge> threshold p then ProgressStop
        else if fp = last_fingerprint p \<and> last_diff_digest p \<noteq> [] then ProgressWarning
        else ProgressContinue,
        p\<lparr>last_fingerprint := fp, last_diff_digest := dd, consecutive := 1\<rparr>)"
      using ne False by (auto simp: observe_def Let_def)
    then show ?thesis using one by (simp add: detector_matches_def del: streak.simps)
  qed
qed

lemma observe_all_snoc:
  "observe_all (xs @ [(fp, dd)]) p =
     (let (rs, p') = observe_all xs p; (r, p'') = observe fp dd p' in (rs @ [r], p''))"
  by (induction xs p rule: observe_all.induct) (auto simp: Let_def split: prod.splits)

lemma observe_all_matches:
  "detector_matches (rev xs) (snd (observe_all xs (new_detector n)))
   \<and> threshold (snd (observe_all xs (new_detector n))) = max 1 n"
proof (induction xs rule: rev_induct)
  case Nil
  then show ?case by (simp add: detector_matches_def new_detector_def)
next
  case (snoc x xs)
  obtain fp dd where x: "x = (fp, dd)" by fastforce
  show ?case
    using detector_matches_step [of "rev xs" "snd (observe_all xs (new_detector n))" fp dd] snoc
    by (auto simp: x observe_all_snoc Let_def split: prod.splits)
qed

text \<open>After any sequence of observations the detector says stop exactly when the latest
  fingerprint and diff digest, both non-empty, have been seen at least the threshold number of
  times in a row (the threshold being at least one).\<close>

theorem progress_stop_iff_streak:
  "fst (observe fp dd (snd (observe_all xs (new_detector n)))) = ProgressStop
   \<longleftrightarrow> fp \<noteq> [] \<and> dd \<noteq> []
     \<and> max 1 n \<le> 1 + int (length (takeWhile (\<lambda>y. y = (fp, dd)) (rev xs)))"
  using observe_all_matches [of xs n]
    detector_matches_step [of "rev xs" "snd (observe_all xs (new_detector n))" fp dd]
  by auto

end
