(* ===== verification/Go_Json.thy ===== *)
theory Go_Json
  imports Domain
begin

text \<open>
  What the sources use of \<^verbatim>\<open>encoding/json\<close>, on decoded values (type \<^typ>\<open>json\<close>):
  decoding into \<^verbatim>\<open>any\<close>, into \<^verbatim>\<open>map[string]json.RawMessage\<close>, into a string or bool, into a
  string field of a struct, and the canonical form that encoding a decoded value gives.

  Two rules of the package matter to the harness. An object decoded into a map keeps the last of
  several members with the same key, and matches keys exactly. An object decoded into a struct
  assigns every member whose key equals the field's name or, failing that, equals it up to letter
  case, in source order, so the last such member wins.
\<close>

section \<open>Maps\<close>

text \<open>The members of an object decoded into a map: for each key the last one. The order of the
  result stands for the iteration order of the Go map, which is unspecified.\<close>

fun last_wins :: "(string \<times> 'a) list \<Rightarrow> (string \<times> 'a) list" where
  "last_wins [] = []"
| "last_wins ((k, v) # kvs) =
     (if k \<in> fst ` set kvs then last_wins kvs else (k, v) # last_wins kvs)"

lemma last_wins_subset: "set (last_wins kvs) \<subseteq> set kvs"
  by (induction kvs rule: last_wins.induct) auto

lemma last_wins_keys: "fst ` set (last_wins kvs) = fst ` set kvs"
  by (induction kvs rule: last_wins.induct) auto

lemma distinct_last_wins: "distinct (map fst (last_wins kvs))"
proof (induction kvs rule: last_wins.induct)
  case (2 k v kvs)
  then show ?case by (simp add: last_wins_keys)
qed simp

lemma map_of_rev_Cons:
  "map_of (rev ((k, v) # kvs)) x = (case map_of (rev kvs) x of None \<Rightarrow> if x = k then Some v else None | Some w \<Rightarrow> Some w)"
  by (simp add: map_add_def split: option.splits)

lemma map_of_last_wins: "map_of (last_wins kvs) x = map_of (rev kvs) x"
proof (induction kvs rule: last_wins.induct)
  case (2 k v kvs)
  have none: "map_of (rev kvs) k = None \<longleftrightarrow> k \<notin> fst ` set kvs"
    by (simp add: map_of_eq_None_iff)
  show ?case
  proof (cases "k \<in> fst ` set kvs")
    case True
    then obtain w where "map_of (rev kvs) k = Some w" using none by auto
    then show ?thesis using 2 True by (auto simp: map_of_rev_Cons simp del: rev.simps split: option.splits)
  next
    case False
    then show ?thesis
      using 2 none by (auto simp: map_of_rev_Cons simp del: rev.simps split: option.splits)
  qed
qed simp

text \<open>\<^verbatim>\<open>json.Unmarshal(raw, &fields)\<close> into \<^verbatim>\<open>map[string]json.RawMessage\<close>: an object gives its
  members, null leaves the map nil, anything else is an error.\<close>

fun as_fields :: "json \<Rightarrow> (string \<times> json) list option" where
  "as_fields (JObj kvs) = Some (last_wins kvs)"
| "as_fields JNull = Some []"
| "as_fields _ = None"

abbreviation field_of :: "(string \<times> json) list \<Rightarrow> string \<Rightarrow> json option" where
  "field_of fs k \<equiv> map_of fs k"

text \<open>\<^verbatim>\<open>json.Unmarshal(raw, &s)\<close> into an empty string variable: null leaves it empty.\<close>

fun as_string :: "json \<Rightarrow> string option" where
  "as_string (JStr s) = Some s"
| "as_string JNull = Some []"
| "as_string _ = None"

text \<open>\<^verbatim>\<open>json.Unmarshal(raw, &value)\<close> into \<^verbatim>\<open>any\<close>: the value with every object turned into a
  map. (Numbers become float64 there, and one beyond their range, such as 1e400, is an error; the
  model has only numbers within the range.)\<close>

fun decode_any :: "json \<Rightarrow> json" where
  "decode_any (JArr vs) = JArr (map decode_any vs)"
| "decode_any (JObj kvs) = JObj (last_wins (map (\<lambda>(k, v). (k, decode_any v)) kvs))"
| "decode_any v = v"

section \<open>Structs\<close>

text \<open>Key folding (\<^verbatim>\<open>foldName\<close>): letter case is ignored, and the long s (bytes C5 BF) and the Kelvin
  sign (bytes E2 84 AA) fold to s and k. Other runes fold to non-ASCII runes, and so never match
  the ASCII field names of the sources.\<close>

fun fold_key :: "string \<Rightarrow> string" where
  "fold_key [] = []"
| "fold_key (c # s) =
     (if code c = 197 \<and> byte_at s 0 = 191 then CHR ''s'' # fold_key (drop 1 s)
      else if code c = 226 \<and> byte_at s 0 = 132 \<and> byte_at s 1 = 170 then CHR ''k'' # fold_key (drop 2 s)
      else ascii_lower c # fold_key s)"

definition key_matches :: "string \<Rightarrow> string \<Rightarrow> bool" where
  "key_matches name k \<longleftrightarrow> k = name \<or> fold_key k = fold_key name"

text \<open>Decoding one string field of a struct: every matching member assigns it, null leaves it, and
  a member of another type is the error the call reports after it has decoded the rest.\<close>

fun decode_member :: "string \<Rightarrow> (string \<times> json) list \<Rightarrow> string \<times> bool \<Rightarrow> string \<times> bool" where
  "decode_member name [] acc = acc"
| "decode_member name ((k, v) # kvs) (cur, ok) =
     (if key_matches name k then
        (case v of
           JStr s \<Rightarrow> decode_member name kvs (s, ok)
         | JNull \<Rightarrow> decode_member name kvs (cur, ok)
         | _ \<Rightarrow> decode_member name kvs (cur, False))
      else decode_member name kvs (cur, ok))"

fun struct_string :: "string \<Rightarrow> json \<Rightarrow> string option" where
  "struct_string name (JObj kvs) =
     (let (s, ok) = decode_member name kvs ([], True) in if ok then Some s else None)"
| "struct_string name JNull = Some []"
| "struct_string name _ = None"

text \<open>Decoding a \<^verbatim>\<open>map[string]string\<close> field of a struct: each matching object adds its members to
  the map, a matching null empties it.\<close>

fun string_members :: "(string \<times> json) list \<Rightarrow> (string \<times> string) list \<times> bool" where
  "string_members [] = ([], True)"
| "string_members ((k, v) # kvs) =
     (let (rest, ok) = string_members kvs in
      case v of JStr s \<Rightarrow> ((k, s) # rest, ok) | JNull \<Rightarrow> ((k, []) # rest, ok) | _ \<Rightarrow> ((k, []) # rest, False))"

fun decode_map_member ::
    "string \<Rightarrow> (string \<times> json) list \<Rightarrow> (string \<times> string) list \<times> bool \<Rightarrow> (string \<times> string) list \<times> bool" where
  "decode_map_member name [] acc = acc"
| "decode_map_member name ((k, v) # kvs) (cur, ok) =
     (if key_matches name k then
        (case v of
           JObj ms \<Rightarrow> (let (new, ok') = string_members ms in decode_map_member name kvs (cur @ new, ok \<and> ok'))
         | JNull \<Rightarrow> decode_map_member name kvs ([], ok)
         | _ \<Rightarrow> decode_map_member name kvs (cur, False))
      else decode_map_member name kvs (cur, ok))"

fun struct_string_map :: "string \<Rightarrow> json \<Rightarrow> (string \<times> string) list option" where
  "struct_string_map name (JObj kvs) =
     (let (m, ok) = decode_map_member name kvs ([], True) in if ok then Some (last_wins m) else None)"
| "struct_string_map name JNull = Some []"
| "struct_string_map name _ = None"

section \<open>Canonical form\<close>

text \<open>\<^verbatim>\<open>json.Marshal\<close> of a decoded value sorts the members of every map by key.\<close>

fun sort_members :: "json \<Rightarrow> json" where
  "sort_members (JArr vs) = JArr (map sort_members vs)"
| "sort_members (JObj kvs) = JObj (sort_key fst (map (\<lambda>(k, v). (k, sort_members v)) kvs))"
| "sort_members v = v"

definition canonical :: "json \<Rightarrow> json" where
  "canonical v = sort_members (decode_any v)"

lemma last_wins_perm_distinct:
  "distinct (map fst kvs) \<Longrightarrow> last_wins kvs = kvs"
  by (induction kvs rule: last_wins.induct) (force simp: image_iff)+

lemma map_fst_case_prod [simp]: "map fst (map (\<lambda>(k, v). (k, f v)) kvs) = map fst kvs"
  by (induction kvs) auto

lemma fst_image_case_prod [simp]: "fst ` (\<lambda>(k, v). (k, f v)) ` S = fst ` S"
  by (force simp: image_iff)

lemma last_wins_map: "last_wins (map (\<lambda>(k, v). (k, f v)) kvs) = map (\<lambda>(k, v). (k, f v)) (last_wins kvs)"
proof (induction kvs rule: last_wins.induct)
  case (2 k v kvs)
  have "k \<in> fst ` set (map (\<lambda>(k, v). (k, f v)) kvs) \<longleftrightarrow> k \<in> fst ` set kvs" by simp
  with 2 show ?case by simp
qed simp

text \<open>Sorting members with distinct keys does not depend on the order they come in.\<close>

lemma sort_key_fst_unique:
  fixes xs ys :: "(string \<times> 'a) list"
  assumes "mset xs = mset ys" and "distinct (map fst xs)"
  shows "sort_key fst xs = sort_key fst ys"
proof (rule map_sorted_distinct_set_unique [where f = fst])
  have same: "set xs = set ys" using assms(1) by (metis set_mset_mset)
  have d: "distinct (map fst ys)"
    using assms by (metis mset_map distinct_count_atmost_1 set_map set_mset_mset)
  show "inj_on fst (set (sort_key fst xs) \<union> set (sort_key fst ys))"
    using assms(2) same by (simp add: distinct_map)
  show "distinct (map fst (sort_key fst xs))" "distinct (map fst (sort_key fst ys))"
    using assms(2) d by (simp_all add: distinct_map)
  show "set (sort_key fst xs) = set (sort_key fst ys)" using same by simp
qed (rule sorted_sort_key)+

end
