(* ===== verification/Policy.thy ===== *)
theory Policy
  imports Go_Json
begin

text \<open>
  Package \<^verbatim>\<open>internal/policy\<close>: the risk classification of an action (\<^verbatim>\<open>risk.go\<close>), the engine
  that combines it with the permission profile (\<^verbatim>\<open>policy.go\<close>), and the approval digests and
  grants (\<^verbatim>\<open>approval.go\<close>). The functions that fill an \<^verbatim>\<open>actionFacts\<close> through a pointer take
  it and return it. The hash of an approval request (JSON encoding, SHA-256, hex) is a parameter
  \<open>H\<close> on the request's JSON value, \<^const>\<open>None\<close> standing for a value that cannot be encoded.
\<close>

section \<open>Paths and argument facts (risk.go)\<close>

datatype risk = RiskNormal | RiskGuarded | RiskHardDenied

record facts =
  hard_denied :: bool
  guarded :: bool
  f_code :: string
  f_message :: string

definition no_facts :: facts where
  "no_facts = \<lparr>hard_denied = False, guarded = False, f_code = [], f_message = []\<rparr>"

definition deny_fact :: "string \<Rightarrow> string \<Rightarrow> facts \<Rightarrow> facts" where
  "deny_fact c m f = f\<lparr>hard_denied := True, f_code := c, f_message := m\<rparr>"

definition guard_fact :: "string \<Rightarrow> string \<Rightarrow> facts \<Rightarrow> facts" where
  "guard_fact c m f = f\<lparr>guarded := True, f_code := c, f_message := m\<rparr>"

definition inspect_path :: "string \<Rightarrow> facts \<Rightarrow> facts" where
  "inspect_path raw f =
     (let clean0 = replace_char backslash slash raw in
      if has_prefix clean0 ''/'' \<or> (2 \<le> length clean0 \<and> clean0 ! 1 = CHR '':'')
      then deny_fact ''REPOSITORY_ESCAPE'' ''action path escapes the repository'' f
      else
        (let clean = path_clean clean0; lower = to_lower clean in
         if clean = ''..'' \<or> has_prefix clean ''../''
         then deny_fact ''REPOSITORY_ESCAPE'' ''action path escapes the repository'' f
         else if lower = ''.git'' \<or> has_prefix lower ''.git/''
         then deny_fact ''GIT_INTERNALS'' ''action targets repository internals'' f
         else if contains lower ''credential'' \<or> contains lower ''secret'' \<or> contains lower ''vault''
              \<or> has_suffix lower ''.env''
         then deny_fact ''CREDENTIAL_ACCESS'' ''action targets credential material'' f
         else if has_prefix lower ''.github/'' \<or> lower = ''go.mod'' \<or> lower = ''go.sum''
              \<or> has_prefix lower ''vendor/''
         then guard_fact ''PROTECTED_PATH'' ''action targets a protected path'' f
         else f))"

definition is_path_key :: "string \<Rightarrow> bool" where
  "is_path_key key \<longleftrightarrow> key = ''path'' \<or> key = ''paths'' \<or> key = ''file'' \<or> key = ''files''"

definition truthy_hard_deny :: "string \<Rightarrow> json \<Rightarrow> bool" where
  "truthy_hard_deny key v \<longleftrightarrow> v = JBool True
     \<and> (key = ''repository_escape'' \<or> key = ''symlink_escape'' \<or> key = ''binary''
        \<or> key = ''credential_access'' \<or> key = ''network'' \<or> key = ''raw_shell''
        \<or> key = ''key_endpoint_mismatch'')"

definition truthy_guard :: "string \<Rightarrow> json \<Rightarrow> bool" where
  "truthy_guard key v \<longleftrightarrow> v = JBool True \<and> (key = ''protected'' \<or> key = ''large'')"

text \<open>\<^verbatim>\<open>inspectValue\<close> with its two loops. It runs on a decoded value, whose member lists stand for
  Go maps in iteration order. A return inside the map loop ends that map's loop only.\<close>

fun inspect_value :: "json \<Rightarrow> string \<Rightarrow> facts \<Rightarrow> facts"
  and inspect_members :: "(string \<times> json) list \<Rightarrow> facts \<Rightarrow> facts"
  and inspect_items :: "json list \<Rightarrow> string \<Rightarrow> facts \<Rightarrow> facts" where
  "inspect_value (JObj kvs) key f = (if hard_denied f then f else inspect_members kvs f)"
| "inspect_value (JArr vs) key f = (if hard_denied f then f else inspect_items vs key f)"
| "inspect_value (JStr s) key f =
     (if hard_denied f then f else if is_path_key key then inspect_path s f else f)"
| "inspect_value JNull key f = f"
| "inspect_value (JBool b) key f = f"
| "inspect_value (JNum n) key f = f"
| "inspect_members [] f = f"
| "inspect_members ((k, nested) # kvs) f =
     (let lower = to_lower k in
      if truthy_hard_deny lower nested
      then deny_fact ''UNSAFE_ACTION_FACT'' ''action includes a prohibited workspace risk'' f
      else
        (let f1 = (if truthy_guard lower nested
                   then guard_fact ''GUARDED_MUTATION'' ''action exceeds normal mutation limits'' f
                   else f)
         in inspect_members kvs (inspect_value nested lower f1)))"
| "inspect_items [] key f = f"
| "inspect_items (v # vs) key f = inspect_items vs key (inspect_value v key f)"

definition inspect_args :: "json \<Rightarrow> facts" where
  "inspect_args v = inspect_value v [] no_facts"

section \<open>Validation of the canonical actions (risk.go)\<close>

record policy_context =
  ctx_run_id :: run_id
  ctx_profile :: permission_profile
  ctx_repo_root :: string
  ctx_dirty :: bool
  ctx_baselines :: "(string \<times> string) list"
  ctx_configured_checks :: "string list"

type_synonym verdict3 = "risk \<times> string \<times> string"

definition max_files :: nat where "max_files = 5"
definition max_changed_lines :: nat where "max_changed_lines = 500"
definition max_file_bytes :: nat where "max_file_bytes = 1048576"

definition canonical_actions :: "string list" where
  "canonical_actions = [''list_files'', ''search_text'', ''read_file'', ''apply_patch'',
     ''create_file'', ''run_check'', ''finish'']"

definition is_mutation :: "string \<Rightarrow> bool" where
  "is_mutation k \<longleftrightarrow> k = ''apply_patch'' \<or> k = ''create_file''"

definition normal_risk :: verdict3 where
  "normal_risk = (RiskNormal, [], [])"

definition validate_run_check :: "policy_context \<Rightarrow> json \<Rightarrow> verdict3" where
  "validate_run_check ctx raw =
     (let schema = (RiskHardDenied, ''INVALID_CHECK_SCHEMA'',
                    ''run_check requires one configured check identifier'') in
      case as_fields raw of
        None \<Rightarrow> schema
      | Some fs \<Rightarrow>
          if length fs \<noteq> 1 then schema
          else (case field_of fs ''id'' of
                  None \<Rightarrow> schema
                | Some v \<Rightarrow>
                    (case as_string v of
                       None \<Rightarrow> schema
                     | Some i \<Rightarrow>
                         if i = [] then schema
                         else if i \<in> set (ctx_configured_checks ctx) then normal_risk
                         else (RiskHardDenied, ''UNCONFIGURED_CHECK'',
                               ''run_check identifier is not configured''))))"

definition validate_create_file :: "json \<Rightarrow> facts \<Rightarrow> verdict3 \<times> facts" where
  "validate_create_file raw f =
     (let schema = (RiskHardDenied, ''INVALID_CREATE_SCHEMA'',
                    ''create_file requires a path and UTF-8 content'') in
      case as_fields raw of
        None \<Rightarrow> (schema, f)
      | Some fs \<Rightarrow>
          (case (field_of fs ''path'', field_of fs ''content'') of
             (Some p, Some c) \<Rightarrow>
               (case as_string p of
                  None \<Rightarrow> (schema, f)
                | Some path \<Rightarrow>
                    if path = [] then (schema, f)
                    else (case c of
                            JStr content \<Rightarrow>
                              (let f1 = inspect_path path f in
                               if hard_denied f1 then ((RiskHardDenied, f_code f1, f_message f1), f1)
                               else if max_file_bytes < length content
                               then (normal_risk, guard_fact ''FILE_TOO_LARGE'' ''mutation writes too many bytes'' f1)
                               else (normal_risk, f1))
                          | _ \<Rightarrow> (schema, f)))
           | _ \<Rightarrow> (schema, f)))"

definition diff_path :: "string \<Rightarrow> string \<Rightarrow> string" where
  "diff_path header pre = (case go_fields header of [] \<Rightarrow> [] | w # _ \<Rightarrow> trim_prefix w pre)"

record patch_scan =
  sc_old :: string
  sc_pairs :: nat
  sc_files :: "string list"
  sc_changed :: nat
  sc_facts :: facts

definition scan_path :: "patch_scan \<Rightarrow> string \<Rightarrow> patch_scan" where
  "scan_path s p =
     (if p = ''/dev/null'' then s
      else s\<lparr>sc_facts := inspect_path p (sc_facts s), sc_files := List.insert p (sc_files s)\<rparr>)"

text \<open>One line of the loop in \<^verbatim>\<open>validatePatch\<close>; \<^const>\<open>None\<close> is its schema error
  (the facts inspected so far are then of no use: the action is denied).\<close>

definition scan_line :: "patch_scan \<Rightarrow> string \<Rightarrow> patch_scan option" where
  "scan_line s line =
     (if has_prefix line ''--- '' then
        (let old = diff_path (drop 4 line) ''a/'' in
         if old = [] then None else Some (s\<lparr>sc_old := old\<rparr>))
      else if has_prefix line ''+++ '' then
        (let new = diff_path (drop 4 line) ''b/'' in
         if sc_old s = [] \<or> new = [] then None
         else (let s1 = scan_path (scan_path s (sc_old s)) new in
               Some (s1\<lparr>sc_pairs := sc_pairs s1 + 1, sc_old := []\<rparr>)))
      else if has_prefix line ''+'' \<or> has_prefix line ''-''
      then Some (s\<lparr>sc_changed := sc_changed s + 1\<rparr>)
      else Some s)"

fun scan_lines :: "patch_scan \<Rightarrow> string list \<Rightarrow> patch_scan option" where
  "scan_lines s [] = Some s"
| "scan_lines s (l # ls) = (case scan_line s l of None \<Rightarrow> None | Some s' \<Rightarrow> scan_lines s' ls)"

definition start_scan :: "facts \<Rightarrow> patch_scan" where
  "start_scan f = \<lparr>sc_old = [], sc_pairs = 0, sc_files = [], sc_changed = 0, sc_facts = f\<rparr>"

definition validate_patch :: "json \<Rightarrow> facts \<Rightarrow> verdict3 \<times> facts" where
  "validate_patch raw f =
     (let payload = (RiskHardDenied, ''INVALID_PATCH_SCHEMA'', ''apply_patch requires a patch payload'');
          headers = (RiskHardDenied, ''INVALID_PATCH_SCHEMA'',
                     ''apply_patch requires unified diff file headers'') in
      case as_fields raw of
        None \<Rightarrow> (payload, f)
      | Some fs \<Rightarrow>
          (case field_of fs ''patch'' of
             None \<Rightarrow> (payload, f)
           | Some v \<Rightarrow>
               (case as_string v of
                  None \<Rightarrow> (payload, f)
                | Some patch \<Rightarrow>
                    if patch = [] then (payload, f)
                    else (case scan_lines (start_scan f) (split_on newline patch) of
                            None \<Rightarrow> (headers, f)
                          | Some s \<Rightarrow>
                              if sc_pairs s = 0 \<or> sc_old s \<noteq> [] \<or> sc_files s = [] then (headers, sc_facts s)
                              else if hard_denied (sc_facts s)
                              then ((RiskHardDenied, f_code (sc_facts s), f_message (sc_facts s)), sc_facts s)
                              else
                                (let f1 = (if max_files < length (sc_files s)
                                           then guard_fact ''TOO_MANY_FILES'' ''mutation affects too many files'' (sc_facts s)
                                           else sc_facts s);
                                     f2 = (if max_changed_lines < sc_changed s
                                           then guard_fact ''TOO_MANY_CHANGED_LINES'' ''mutation changes too many lines'' f1
                                           else f1)
                                 in (normal_risk, f2))))))"

definition validate_canonical_action :: "policy_context \<Rightarrow> string \<Rightarrow> json \<Rightarrow> facts \<Rightarrow> verdict3 \<times> facts" where
  "validate_canonical_action ctx k raw f =
     (if k = ''run_check'' then (validate_run_check ctx raw, f)
      else if k = ''create_file'' then validate_create_file raw f
      else if k = ''apply_patch'' then validate_patch raw f
      else (normal_risk, f))"

definition classify_risk :: "policy_context \<Rightarrow> action \<Rightarrow> verdict3" where
  "classify_risk ctx a =
     (if kind a \<notin> set canonical_actions
      then (RiskHardDenied, ''UNKNOWN_ACTION'', ''action is not in the course-delivery registry'')
      else
        (case args a of
           None \<Rightarrow> (RiskHardDenied, ''INVALID_ACTION_ARGS'', ''action arguments must be valid JSON'')
         | Some raw \<Rightarrow>
             (let f = inspect_args (decode_any raw) in
              if hard_denied f then (RiskHardDenied, f_code f, f_message f)
              else
                (let (v, f1) = validate_canonical_action ctx (kind a) raw f in
                 if fst v \<noteq> RiskNormal then v
                 else if \<not> is_mutation (kind a) then normal_risk
                 else if guarded f1 then (RiskGuarded, f_code f1, f_message f1)
                 else if ctx_dirty ctx
                 then (RiskGuarded, ''DIRTY_WORKTREE'', ''mutation targets a dirty worktree'')
                 else normal_risk))))"

section \<open>The engine (policy.go)\<close>

datatype verdict = Allow | RequireApproval | Deny

record decision =
  verdict_of :: verdict
  d_risk :: risk
  d_code :: string
  d_message :: string
  d_digest :: digest

text \<open>The request a digest binds (\<^verbatim>\<open>Digest\<close>, \<^verbatim>\<open>CanonicalAction\<close>): arguments that are not valid
  JSON make the encoding fail, and the digest is then that of no bytes.\<close>

definition canonical_action :: "action \<Rightarrow> action" where
  "canonical_action a = (case args a of None \<Rightarrow> a | Some v \<Rightarrow> a\<lparr>args := Some (canonical v)\<rparr>)"

definition digest_request ::
    "run_id \<Rightarrow> permission_profile \<Rightarrow> action \<Rightarrow> (string \<times> string) list \<Rightarrow> json option" where
  "digest_request r p a baselines =
     (case args (canonical_action a) of
        None \<Rightarrow> None
      | Some v \<Rightarrow>
          Some (JObj [(''run_id'', JStr r), (''profile'', JStr (profile_string p)),
                      (''action'', JObj [(''kind'', JStr (kind a)), (''args'', v)]),
                      (''baselines'', JArr (map (\<lambda>(q, h). JObj [(''path'', JStr q), (''hash'', JStr h)])
                                              (sort_key fst baselines)))]))"

definition approval_digest ::
    "(json option \<Rightarrow> digest) \<Rightarrow> run_id \<Rightarrow> permission_profile \<Rightarrow> action \<Rightarrow> (string \<times> string) list \<Rightarrow> digest" where
  "approval_digest H r p a baselines = H (digest_request r p a baselines)"

definition evaluate :: "(json option \<Rightarrow> digest) \<Rightarrow> policy_context \<Rightarrow> action \<Rightarrow> decision" where
  "evaluate H ctx a =
     (let (r, c, m) = classify_risk ctx a in
      if r = RiskHardDenied
      then \<lparr>verdict_of = Deny, d_risk = r, d_code = c, d_message = m, d_digest = []\<rparr>
      else
        (let mutation = is_mutation (kind a);
             allow = \<lparr>verdict_of = Allow, d_risk = r, d_code = c, d_message = m, d_digest = []\<rparr>;
             approve = allow\<lparr>verdict_of := RequireApproval,
               d_digest := approval_digest H (ctx_run_id ctx) (ctx_profile ctx) a (ctx_baselines ctx)\<rparr> in
         if ctx_profile ctx = ProfileWorkspaceAuto \<and> ctx_dirty ctx \<and> mutation
         then allow\<lparr>verdict_of := Deny, d_risk := RiskGuarded, d_code := ''DIRTY_WORKTREE'',
                d_message := ''workspace-auto mutations require a clean worktree''\<rparr>
         else
           (case ctx_profile ctx of
              ProfileReview \<Rightarrow>
                if mutation \<or> kind a = ''run_check''
                then allow\<lparr>verdict_of := Deny, d_code := ''REVIEW_READ_ONLY'',
                       d_message := ''review profile is read-only''\<rparr>
                else allow
            | ProfileSupervised \<Rightarrow>
                if mutation \<or> kind a = ''run_check'' \<or> r = RiskGuarded then approve else allow
            | ProfileWorkspaceAuto \<Rightarrow> if r = RiskGuarded then approve else allow
            | ProfileOther _ \<Rightarrow>
                \<lparr>verdict_of = Deny, d_risk = RiskHardDenied, d_code = ''UNKNOWN_PROFILE'',
                 d_message = ''permission profile is not recognized'', d_digest = []\<rparr>)))"

section \<open>Grants (approval.go)\<close>

text \<open>\<^verbatim>\<open>ApprovalStore\<close>: the granted digests. A nil map and an empty one behave alike.\<close>

type_synonym grants = "digest set"

definition new_approval_store :: grants where
  "new_approval_store = {}"

definition grant :: "digest \<Rightarrow> grants \<Rightarrow> grants" where
  "grant d s = (if d = [] then s else insert d s)"

definition consume :: "digest \<Rightarrow> grants \<Rightarrow> bool \<times> grants" where
  "consume d s = (if d = [] then (False, s) else if d \<notin> s then (False, s) else (True, s - {d}))"

definition revoke :: "digest \<Rightarrow> grants \<Rightarrow> grants" where
  "revoke d s = (if d = [] then s else s - {d})"

section \<open>What the inspection of arguments denies\<close>

lemma deny_fact_simps [simp]:
  "hard_denied (deny_fact c m f)" "guarded (deny_fact c m f) = guarded f"
  "f_code (deny_fact c m f) = c" "f_message (deny_fact c m f) = m"
  by (simp_all add: deny_fact_def)

lemma guard_fact_simps [simp]:
  "hard_denied (guard_fact c m f) = hard_denied f" "guarded (guard_fact c m f)"
  "f_code (guard_fact c m f) = c" "f_message (guard_fact c m f) = m"
  by (simp_all add: guard_fact_def)

lemma no_facts_simps [simp]: "\<not> hard_denied no_facts" "\<not> guarded no_facts"
  by (simp_all add: no_facts_def)

definition path_denied :: "string \<Rightarrow> bool" where
  "path_denied p \<longleftrightarrow> hard_denied (inspect_path p no_facts)"

definition path_guarded :: "string \<Rightarrow> bool" where
  "path_guarded p \<longleftrightarrow> guarded (inspect_path p no_facts)"

lemma inspect_path_denied: "hard_denied (inspect_path p f) \<longleftrightarrow> hard_denied f \<or> path_denied p"
  by (simp add: inspect_path_def path_denied_def Let_def)

lemma inspect_path_guarded: "guarded (inspect_path p f) \<longleftrightarrow> guarded f \<or> path_guarded p"
  by (simp add: inspect_path_def path_guarded_def Let_def)

text \<open>The value holds something the policy denies: a prohibited flag, or a denied path under a
  path-like key. The predicate looks at the members of an object as a set.\<close>

fun unsafe :: "json \<Rightarrow> string \<Rightarrow> bool" where
  "unsafe (JObj kvs) key \<longleftrightarrow>
     (\<exists>kv \<in> set kvs. truthy_hard_deny (to_lower (fst kv)) (snd kv) \<or> unsafe (snd kv) (to_lower (fst kv)))"
| "unsafe (JArr vs) key \<longleftrightarrow> (\<exists>v \<in> set vs. unsafe v key)"
| "unsafe (JStr s) key \<longleftrightarrow> is_path_key key \<and> path_denied s"
| "unsafe _ key \<longleftrightarrow> False"

lemma inspect_denied:
  shows "hard_denied (inspect_value v key f) \<longleftrightarrow> hard_denied f \<or> unsafe v key"
    and "hard_denied (inspect_members kvs f) \<longleftrightarrow> hard_denied f
       \<or> (\<exists>kv \<in> set kvs. truthy_hard_deny (to_lower (fst kv)) (snd kv) \<or> unsafe (snd kv) (to_lower (fst kv)))"
    and "hard_denied (inspect_items vs key f) \<longleftrightarrow> hard_denied f \<or> (\<exists>v \<in> set vs. unsafe v key)"
  by (induction v key f and kvs f and vs key f rule: inspect_value_inspect_members_inspect_items.induct)
    (auto simp: inspect_path_denied Let_def)

lemma inspect_args_denied: "hard_denied (inspect_args v) \<longleftrightarrow> unsafe v []"
  by (simp add: inspect_args_def inspect_denied)

lemma evaluate_not_denied:
  assumes "verdict_of (evaluate H ctx a) \<noteq> Deny"
  obtains r c m raw where "classify_risk ctx a = (r, c, m)" and "r \<noteq> RiskHardDenied"
    and "args a = Some raw" and "\<not> unsafe (decode_any raw) []" and "kind a \<in> set canonical_actions"
    and "fst (fst (validate_canonical_action ctx (kind a) raw (inspect_args (decode_any raw)))) \<noteq> RiskHardDenied"
proof -
  obtain r c m where cl: "classify_risk ctx a = (r, c, m)" by (cases "classify_risk ctx a")
  have "r \<noteq> RiskHardDenied" using assms cl by (auto simp: evaluate_def)
  moreover have "kind a \<in> set canonical_actions" and "args a \<noteq> None"
    using cl calculation by (auto simp: classify_risk_def split: if_splits option.splits)
  moreover obtain raw where raw: "args a = Some raw" using \<open>args a \<noteq> None\<close> by auto
  moreover have safe: "\<not> hard_denied (inspect_args (decode_any raw))"
  proof
    assume "hard_denied (inspect_args (decode_any raw))"
    then have "fst (classify_risk ctx a) = RiskHardDenied"
      using raw \<open>kind a \<in> set canonical_actions\<close> by (simp add: classify_risk_def Let_def)
    then show False using cl \<open>r \<noteq> RiskHardDenied\<close> by simp
  qed
  moreover have "fst (fst (validate_canonical_action ctx (kind a) raw (inspect_args (decode_any raw)))) \<noteq> RiskHardDenied"
  proof
    assume h: "fst (fst (validate_canonical_action ctx (kind a) raw (inspect_args (decode_any raw)))) = RiskHardDenied"
    then have "fst (classify_risk ctx a) = RiskHardDenied"
      using raw \<open>kind a \<in> set canonical_actions\<close> safe by (simp add: classify_risk_def case_prod_beta)
    then show False using cl \<open>r \<noteq> RiskHardDenied\<close> by simp
  qed
  ultimately show ?thesis using cl that by (simp add: inspect_args_denied)
qed

text \<open>Whether the arguments are hard-denied does not depend on the iteration order of the Go
  maps they decode to: it is the order-free predicate \<^const>\<open>unsafe\<close>, so any two traversal orders
  of an object's members agree, and an action with such arguments is denied under every profile,
  in every repository state and whatever is configured.\<close>

theorem hard_denial_is_absolute:
  "(hard_denied (inspect_args v) \<longleftrightarrow> unsafe v [])
   \<and> (set kvs = set kvs' \<longrightarrow> hard_denied (inspect_args (JObj kvs)) = hard_denied (inspect_args (JObj kvs')))
   \<and> (args a = Some raw \<longrightarrow> unsafe (decode_any raw) [] \<longrightarrow> verdict_of (evaluate H ctx a) = Deny)"
proof (intro conjI impI)
  show "verdict_of (evaluate H ctx a) = Deny" if "args a = Some raw" and "unsafe (decode_any raw) []"
  proof (rule ccontr)
    assume "verdict_of (evaluate H ctx a) \<noteq> Deny"
    then obtain raw' where "args a = Some raw'" "\<not> unsafe (decode_any raw') []"
      by (rule evaluate_not_denied)
    then show False using that by simp
  qed
qed (simp_all add: inspect_args_denied)

theorem hard_denial_is_absolute_witness:
  "verdict_of (evaluate (\<lambda>_. []) \<lparr>ctx_run_id = ''r'', ctx_profile = ProfileWorkspaceAuto, ctx_repo_root = [],
       ctx_dirty = False, ctx_baselines = [], ctx_configured_checks = []\<rparr>
     \<lparr>kind = ''finish'', args = Some (JObj [(''Network'', JBool True)])\<rparr>) = Deny"
proof -
  have u: "unsafe (decode_any (JObj [(''Network'', JBool True)])) []"
    by code_simp
  show ?thesis
    using hard_denial_is_absolute [of JNull "[]" "[]" "\<lparr>kind = ''finish'', args = Some (JObj [(''Network'', JBool True)])\<rparr>"
        "JObj [(''Network'', JBool True)]"] u by simp
qed

section \<open>Profiles\<close>

fun strictness :: "verdict \<Rightarrow> nat" where
  "strictness Allow = 0"
| "strictness RequireApproval = 1"
| "strictness Deny = 2"

lemma validate_profile [simp]:
  "validate_canonical_action (ctx\<lparr>ctx_profile := p\<rparr>) k raw f = validate_canonical_action ctx k raw f"
  by (simp add: validate_canonical_action_def validate_run_check_def cong: if_cong option.case_cong)

lemma classify_risk_profile: "classify_risk (ctx\<lparr>ctx_profile := p\<rparr>) a = classify_risk ctx a"
  by (cases "args a") (simp_all add: classify_risk_def Let_def)

lemma guarded_is_mutation: "classify_risk ctx a = (RiskGuarded, c, m) \<Longrightarrow> is_mutation (kind a)"
  by (auto simp: classify_risk_def normal_risk_def validate_canonical_action_def validate_run_check_def
      validate_create_file_def validate_patch_def is_mutation_def Let_def
      split: if_splits option.splits prod.splits json.splits)

text \<open>On a clean worktree the profiles are ordered: review is never more permissive than
  supervised, supervised never more than workspace-auto; and an unknown profile always denies.\<close>

theorem profiles_ordered:
  assumes "\<not> ctx_dirty ctx"
  shows "strictness (verdict_of (evaluate H (ctx\<lparr>ctx_profile := ProfileSupervised\<rparr>) a))
         \<le> strictness (verdict_of (evaluate H (ctx\<lparr>ctx_profile := ProfileReview\<rparr>) a))
    \<and> strictness (verdict_of (evaluate H (ctx\<lparr>ctx_profile := ProfileWorkspaceAuto\<rparr>) a))
         \<le> strictness (verdict_of (evaluate H (ctx\<lparr>ctx_profile := ProfileSupervised\<rparr>) a))
    \<and> verdict_of (evaluate H (ctx\<lparr>ctx_profile := ProfileOther s\<rparr>) a) = Deny"
proof -
  obtain r c m where cl: "classify_risk ctx a = (r, c, m)" by (cases "classify_risk ctx a")
  have "r = RiskGuarded \<Longrightarrow> is_mutation (kind a)" using cl guarded_is_mutation by blast
  then show ?thesis using assms cl by (auto simp: evaluate_def classify_risk_profile Let_def)
qed

theorem profiles_ordered_witness:
  "let ctx = \<lparr>ctx_run_id = ''r'', ctx_profile = ProfileReview, ctx_repo_root = [], ctx_dirty = False,
       ctx_baselines = [], ctx_configured_checks = []\<rparr>;
     a = \<lparr>kind = ''create_file'', args = Some (JObj [(''path'', JStr ''a''), (''content'', JStr ''x'')])\<rparr>
   in strictness (verdict_of (evaluate (\<lambda>_. []) (ctx\<lparr>ctx_profile := ProfileWorkspaceAuto\<rparr>) a))
      \<le> strictness (verdict_of (evaluate (\<lambda>_. []) (ctx\<lparr>ctx_profile := ProfileSupervised\<rparr>) a))"
  unfolding Let_def by (rule profiles_ordered [THEN conjunct2, THEN conjunct1]) simp

text \<open>C34. The review profile is read-only: the only actions it does not deny are the four that
  neither write nor run a check, and those it allows outright.\<close>

theorem review_is_read_only:
  assumes "ctx_profile ctx = ProfileReview" and "verdict_of (evaluate H ctx a) \<noteq> Deny"
  shows "verdict_of (evaluate H ctx a) = Allow
    \<and> kind a \<in> {''list_files'', ''search_text'', ''read_file'', ''finish''}"
proof -
  obtain r c m where cl: "classify_risk ctx a = (r, c, m)" and k: "kind a \<in> set canonical_actions"
    using assms(2) by (rule evaluate_not_denied)
  show ?thesis
    using assms cl k
    by (auto simp: evaluate_def Let_def is_mutation_def canonical_actions_def split: if_splits)
qed

theorem review_is_read_only_witness:
  "kind \<lparr>kind = ''read_file'', args = Some (JObj [(''path'', JStr ''a'')])\<rparr>
     \<in> {''list_files'', ''search_text'', ''read_file'', ''finish''}"
proof -
  let ?ctx = "\<lparr>ctx_run_id = ''r'', ctx_profile = ProfileReview, ctx_repo_root = [], ctx_dirty = True,
       ctx_baselines = [], ctx_configured_checks = []\<rparr>"
  let ?a = "\<lparr>kind = ''read_file'', args = Some (JObj [(''path'', JStr ''a'')])\<rparr>"
  have "verdict_of (evaluate (\<lambda>_. []) ?ctx ?a) \<noteq> Deny" by code_simp
  then show ?thesis using review_is_read_only [of ?ctx "\<lambda>_. []" ?a] by simp
qed

end
