(* ===== verification/Policy_Approval.thy ===== *)
theory Policy_Approval
  imports Policy
begin

text \<open>
  What an approval binds and how often it can be used: the digest of an approval request
  determines the request up to the canonical form of its arguments (or exhibits a hash collision),
  and a grant lets one consumption through. The contract of the grant store is a locale, so that
  the agent loop's lemmas about approvals can rest on it; it is interpreted on
  \<^verbatim>\<open>ApprovalStore\<close>.
\<close>

section \<open>The contract of a grant store\<close>

locale grant_store =
  fixes give :: "'d \<Rightarrow> 's \<Rightarrow> 's"
    and spend :: "'d \<Rightarrow> 's \<Rightarrow> bool \<times> 's"
    and withdraw :: "'d \<Rightarrow> 's \<Rightarrow> 's"
    and holds :: "'s \<Rightarrow> 'd \<Rightarrow> bool"
    and usable :: "'d \<Rightarrow> bool"
  assumes holds_give: "holds (give d s) e \<longleftrightarrow> holds s e \<or> e = d \<and> usable d"
    and spend_iff: "fst (spend d s) \<longleftrightarrow> holds s d"
    and holds_spend: "holds (snd (spend d s)) e \<longleftrightarrow> holds s e \<and> e \<noteq> d"
    and holds_withdraw: "holds (withdraw d s) e \<longleftrightarrow> holds s e \<and> e \<noteq> d"
begin

lemmas laws = holds_give spend_iff holds_spend holds_withdraw

lemma single_use: "\<not> fst (spend d (snd (spend d s)))"
  by (simp add: laws)

lemma spend_after_give: "fst (spend d (give d s)) \<longleftrightarrow> holds s d \<or> usable d"
  by (simp add: laws)

lemma spend_after_withdraw: "\<not> fst (spend d (withdraw d s))"
  by (simp add: laws)

lemma spend_other: "e \<noteq> d \<Longrightarrow> fst (spend e (snd (spend d s))) = fst (spend e s)"
  by (simp add: laws)

end

definition granted :: "grants \<Rightarrow> digest \<Rightarrow> bool" where
  "granted s d \<longleftrightarrow> d \<in> s \<and> d \<noteq> []"

interpretation approvals: grant_store grant consume revoke granted "\<lambda>d. d \<noteq> []"
  by unfold_locales (auto simp: granted_def grant_def consume_def revoke_def)

section \<open>Sequences of operations\<close>

datatype approval_op = Grant digest | Consume digest | Revoke digest

fun op_digest :: "approval_op \<Rightarrow> digest" where
  "op_digest (Grant d) = d"
| "op_digest (Consume d) = d"
| "op_digest (Revoke d) = d"

fun approval_step :: "approval_op \<Rightarrow> grants \<Rightarrow> grants" where
  "approval_step (Grant d) s = grant d s"
| "approval_step (Consume d) s = snd (consume d s)"
| "approval_step (Revoke d) s = revoke d s"

text \<open>The store's contents after a sequence, as the order of its operations has it: a digest is
  granted when the latest operation that names it is a grant.\<close>

fun latest_is_grant :: "digest \<Rightarrow> approval_op list \<Rightarrow> bool" where
  \<comment> \<open>operations, latest first\<close>
  "latest_is_grant d [] \<longleftrightarrow> False"
| "latest_is_grant d (x # xs) \<longleftrightarrow> (if op_digest x = d then x = Grant d else latest_is_grant d xs)"

lemma granted_fold:
  "granted (fold approval_step xs new_approval_store) d \<longleftrightarrow> d \<noteq> [] \<and> latest_is_grant d (rev xs)"
proof (induction xs rule: rev_induct)
  case Nil
  then show ?case by (simp add: granted_def new_approval_store_def)
next
  case (snoc x xs)
  then show ?case by (cases x) (auto simp: approvals.laws)
qed

text \<open>C35. After any sequence of grants, consumptions and revocations, consuming a digest succeeds
  exactly when it is non-empty and the latest operation on it was a grant: each grant is good for
  one consumption, a revocation undoes it, and operations on other digests do not matter.\<close>

theorem consume_iff_latest_grant:
  "fst (consume d (fold approval_step xs new_approval_store)) \<longleftrightarrow> d \<noteq> [] \<and> latest_is_grant d (rev xs)"
  by (simp add: approvals.spend_iff granted_fold)

section \<open>What a digest binds\<close>

lemma digest_request_inject:
  assumes "digest_request r p a b = digest_request r' p' a' b'" and "args a \<noteq> None"
  shows "r = r' \<and> profile_string p = profile_string p' \<and> kind a = kind a'
    \<and> map_option canonical (args a) = map_option canonical (args a')
    \<and> sort_key fst b = sort_key fst b'"
proof -
  obtain v where v: "args a = Some v" using assms(2) by auto
  then obtain v' where v': "args a' = Some v'"
    using assms(1) by (cases "args a'") (auto simp: digest_request_def canonical_action_def)
  have inj: "inj (\<lambda>(q, h). JObj [(''path'', JStr q), (''hash'', JStr h)])"
    by (auto simp: inj_def)
  show ?thesis
    using assms(1) v v' map_injective [OF _ inj]
    by (auto simp: digest_request_def canonical_action_def)
qed

lemma digest_request_perm:
  assumes "mset b = mset b'" and "distinct (map fst b)"
  shows "digest_request r p a b = digest_request r p a b'"
  using sort_key_fst_unique [OF assms] by (simp add: digest_request_def split: option.splits)

text \<open>An approval digest binds the request: two requests with valid arguments and the same
  digest are the same run, profile, action kind, canonical arguments and baselines, unless they
  are a collision of the hash. The order in which the baseline map is iterated does not matter.\<close>

theorem digest_binds_request:
  assumes "args a \<noteq> None" and "distinct (map fst b)" and "distinct (map fst b')"
  shows "(approval_digest H r p a b = approval_digest H r' p' a' b' \<longrightarrow>
      (\<exists>x y. x \<noteq> y \<and> H x = H y)
      \<or> r = r' \<and> profile_string p = profile_string p' \<and> kind a = kind a'
        \<and> map_option canonical (args a) = map_option canonical (args a') \<and> set b = set b')
    \<and> (mset b = mset b' \<longrightarrow> approval_digest H r p a b = approval_digest H r p a b')"
proof (intro conjI impI)
  assume eq: "approval_digest H r p a b = approval_digest H r' p' a' b'"
  show "(\<exists>x y. x \<noteq> y \<and> H x = H y)
      \<or> r = r' \<and> profile_string p = profile_string p' \<and> kind a = kind a'
        \<and> map_option canonical (args a) = map_option canonical (args a') \<and> set b = set b'"
  proof (cases "digest_request r p a b = digest_request r' p' a' b'")
    case True
    from digest_request_inject [OF this assms(1)] show ?thesis by (metis set_sort)
  next
    case False
    with eq show ?thesis by (auto simp: approval_digest_def)
  qed
qed (simp add: approval_digest_def digest_request_perm assms(2))

theorem digest_binds_request_witness:
  "approval_digest (\<lambda>v. case v of Some (JObj ((_, JStr r) # _)) \<Rightarrow> r | _ \<Rightarrow> []) ''run'' ProfileSupervised
     \<lparr>kind = ''finish'', args = Some (JObj [])\<rparr> [(''head'', ''a''), (''status'', ''b'')]
   = approval_digest (\<lambda>v. case v of Some (JObj ((_, JStr r) # _)) \<Rightarrow> r | _ \<Rightarrow> []) ''run'' ProfileSupervised
     \<lparr>kind = ''finish'', args = Some (JObj [])\<rparr> [(''status'', ''b''), (''head'', ''a'')]"
proof -
  let ?b = "[(''head'', ''a''), (''status'', ''b'')]" and ?b' = "[(''status'', ''b''), (''head'', ''a'')]"
  have "args \<lparr>kind = ''finish'', args = Some (JObj [])\<rparr> \<noteq> None"
    and "distinct (map fst ?b)" and "distinct (map fst ?b')" and m: "mset ?b = mset ?b'"
    by simp_all
  from digest_binds_request [OF this(1-3), THEN conjunct2, rule_format, OF m] show ?thesis .
qed

end
