(* ===== verification/Policy_Paths.thy ===== *)
theory Policy_Paths
  imports Policy
begin

text \<open>
  What it means that the policy did not deny a path: walking through the path from the repository
  root never leaves it, it does not enter the Git directory at the top, and its cleaned lower-case
  form names no credential material. The last section relates the value the policy inspects to
  the value a tool decodes from the same arguments.
\<close>

section \<open>Lower case of a joined path\<close>

text \<open>A slash is no byte of a multi-byte rune, so lower-casing works on both sides of it.\<close>

lemma byte_at_slash:
  "0 < n \<Longrightarrow> n \<noteq> 47 \<Longrightarrow> byte_at (s @ slash # t) 0 = n \<longleftrightarrow> byte_at s 0 = n"
  "0 < n \<Longrightarrow> n \<noteq> 47 \<Longrightarrow> s \<noteq> [] \<Longrightarrow> byte_at (s @ slash # t) 1 = n \<longleftrightarrow> byte_at s 1 = n"
  by (cases s; simp add: byte_at_def)
    (cases s; cases "tl s"; simp add: byte_at_def)

lemma to_lower_cases:
  "code c = (196::nat) \<and> byte_at s 0 = 176 \<Longrightarrow> to_lower (c # s) = CHR ''i'' # to_lower (drop 1 s)"
  "code c = (226::nat) \<and> byte_at s 0 = 132 \<and> byte_at s 1 = 170 \<Longrightarrow> to_lower (c # s) = CHR ''k'' # to_lower (drop 2 s)"
  "\<not> (code c = (196::nat) \<and> byte_at s 0 = 176) \<Longrightarrow>
     \<not> (code c = (226::nat) \<and> byte_at s 0 = 132 \<and> byte_at s 1 = 170) \<Longrightarrow>
     to_lower (c # s) = ascii_lower c # to_lower s"
  by auto

lemma to_lower_slash: "to_lower (s @ slash # t) = to_lower s @ slash # to_lower t"
proof (induction s rule: to_lower.induct)
  case 1
  show ?case by (simp add: ascii_lower_def)
next
  case (2 c s)
  consider (i) "code c = (196::nat) \<and> byte_at s 0 = 176"
    | (k) "\<not> (code c = (196::nat) \<and> byte_at s 0 = 176)"
        "code c = (226::nat) \<and> byte_at s 0 = 132 \<and> byte_at s 1 = 170"
    | (plain) "\<not> (code c = (196::nat) \<and> byte_at s 0 = 176)"
        "\<not> (code c = (226::nat) \<and> byte_at s 0 = 132 \<and> byte_at s 1 = 170)"
    by blast
  then show ?case
  proof cases
    case i
    then have "drop 1 (s @ slash # t) = drop 1 s @ slash # t" by (cases s) (simp_all add: byte_at_def)
    moreover have "code c = (196::nat) \<and> byte_at (s @ slash # t) 0 = 176"
      using i byte_at_slash(1) [of 176 s t] by simp
    ultimately show ?thesis
      using "2.IH"(1) [OF i] i by (simp only: append_Cons to_lower_cases not_False_eq_True)
  next
    case k
    then have ne: "s \<noteq> []" by (auto simp: byte_at_def)
    from k have "drop 2 (s @ slash # t) = drop 2 s @ slash # t"
      by (cases s; cases "tl s") (simp_all add: byte_at_def)
    moreover have "code c = (226::nat) \<and> byte_at (s @ slash # t) 0 = 132 \<and> byte_at (s @ slash # t) 1 = 170"
      using k byte_at_slash(1) [of 132 s t] byte_at_slash(2) [of 170 s t] ne by simp
    ultimately show ?thesis
      using "2.IH"(2) [OF k] k by (simp only: append_Cons to_lower_cases not_False_eq_True)
  next
    case plain
    have "\<not> (code c = (226::nat) \<and> byte_at (s @ slash # t) 0 = 132 \<and> byte_at (s @ slash # t) 1 = 170)"
    proof (cases s)
      case Nil
      then show ?thesis by (simp add: byte_at_def)
    next
      case Cons
      then show ?thesis using plain(2) byte_at_slash(1) [of 132 s t] byte_at_slash(2) [of 170 s t] by simp
    qed
    moreover have "\<not> (code c = (196::nat) \<and> byte_at (s @ slash # t) 0 = 176)"
      using plain(1) byte_at_slash(1) [of 176 s t] by simp
    ultimately show ?thesis
      using "2.IH"(3) [OF plain] plain by (simp only: append_Cons to_lower_cases not_False_eq_True)
  qed
qed

section \<open>Contained paths\<close>

definition path_contained :: "string \<Rightarrow> bool" where
  "path_contained p \<longleftrightarrow>
     (let q = replace_char backslash slash p in
      \<not> has_prefix q ''/''
      \<and> (\<exists>es. walk [] (split_on slash q) = Some es \<and> (es \<noteq> [] \<longrightarrow> to_lower (hd es) \<noteq> ''.git'')))"

definition names_credentials :: "string \<Rightarrow> bool" where
  "names_credentials p \<longleftrightarrow>
     (let l = to_lower (path_clean (replace_char backslash slash p)) in
      contains l ''credential'' \<or> contains l ''secret'' \<or> contains l ''vault'' \<or> has_suffix l ''.env'')"

lemma path_clean_hd:
  assumes "\<not> has_prefix s ''/''" and "path_elems s = e # es"
  shows "path_clean s = e \<or> has_prefix (path_clean s) (e @ ''/'')"
  using assms by (cases es) (auto simp: path_clean_def)

lemma not_denied_contained:
  assumes "\<not> path_denied p"
  shows "path_contained p \<and> \<not> names_credentials p"
proof -
  let ?q = "replace_char backslash slash p"
  have rel: "\<not> has_prefix ?q ''/''" and dd: "path_clean ?q \<noteq> ''..''" "\<not> has_prefix (path_clean ?q) ''../''"
    and git: "to_lower (path_clean ?q) \<noteq> ''.git''" "\<not> has_prefix (to_lower (path_clean ?q)) ''.git/''"
    and cred: "\<not> names_credentials p"
    using assms by (auto simp: path_denied_def inspect_path_def names_credentials_def Let_def split: if_splits)
  have w: "walk [] (split_on slash ?q) = Some (path_elems ?q)"
    using rel dd by (rule clean_inside)
  have "to_lower (hd (path_elems ?q)) \<noteq> ''.git''" if ne: "path_elems ?q \<noteq> []"
  proof
    assume h: "to_lower (hd (path_elems ?q)) = ''.git''"
    obtain e es where el: "path_elems ?q = e # es" using ne by (cases "path_elems ?q") auto
    with rel have "path_clean ?q = e \<or> has_prefix (path_clean ?q) (e @ ''/'')" by (rule path_clean_hd)
    then consider "path_clean ?q = e" | r where "path_clean ?q = e @ slash # r"
      by (auto simp: prefix_def)
    then show False
    proof cases
      case 1
      then show ?thesis using git(1) h el by simp
    next
      case 2
      then have "to_lower (path_clean ?q) = ''.git'' @ slash # to_lower r"
        using h el by (simp add: to_lower_slash)
      then show ?thesis using git(2) by simp
    qed
  qed
  then show ?thesis using rel w cred by (auto simp: path_contained_def Let_def)
qed

section \<open>The value a tool decodes\<close>

definition key_is :: "string \<Rightarrow> string \<times> json \<Rightarrow> bool" where
  "key_is name kv \<longleftrightarrow> key_matches name (fst kv)"

lemma find_append: "find P (xs @ ys) = (case find P xs of None \<Rightarrow> find P ys | Some x \<Rightarrow> Some x)"
  by (induction xs) auto

lemma decode_member_error: "decode_member name kvs (cur, False) = (s, ok) \<Longrightarrow> \<not> ok"
proof (induction kvs arbitrary: cur)
  case (Cons kv kvs)
  then show ?case by (cases kv; cases "snd kv") (auto split: if_splits)
qed simp

text \<open>When no matching member is null, the decoded string is that of the last matching member.\<close>

lemma decode_member_last:
  assumes "decode_member name kvs (cur, ok) = (s, True)"
    and "\<And>kv. kv \<in> set kvs \<Longrightarrow> key_is name kv \<Longrightarrow> snd kv \<noteq> JNull"
  shows "case find (key_is name) (rev kvs) of None \<Rightarrow> s = cur | Some kv \<Rightarrow> snd kv = JStr s"
  using assms
proof (induction kvs arbitrary: cur ok)
  case (Cons kv kvs)
  obtain k v where kv: "kv = (k, v)" by (cases kv)
  have find: "find (key_is name) (rev (kv # kvs)) =
      (case find (key_is name) (rev kvs) of None \<Rightarrow> if key_is name kv then Some kv else None | Some x \<Rightarrow> Some x)"
    by (simp add: find_append split: option.splits)
  show ?case
  proof (cases "key_is name kv")
    case True
    then obtain w where v: "v = JStr w" and rest: "decode_member name kvs (w, ok) = (s, True)"
      using Cons.prems(1) Cons.prems(2) [of kv] kv
      by (cases v) (auto simp: key_is_def dest: decode_member_error)
    from Cons.IH [OF rest] Cons.prems(2) show ?thesis
      using find kv v True by (auto split: option.splits)
  next
    case False
    then have rest: "decode_member name kvs (cur, ok) = (s, True)"
      using Cons.prems(1) kv by (auto simp: key_is_def)
    from Cons.IH [OF rest] Cons.prems(2) show ?thesis
      using find False by (auto split: option.splits)
  qed
qed simp

lemma find_key_map_of:
  assumes "find (key_is name) xs = Some kv"
  shows "map_of xs (fst kv) = Some (snd kv) \<and> key_is name kv"
  using assms
proof (induction xs)
  case (Cons x xs)
  then show ?case by (cases x) (auto simp: key_is_def split: if_splits)
qed simp

lemma decoded_member_in_map:
  assumes "map_of (rev kvs) k = Some v"
  shows "(k, decode_any v) \<in> set (last_wins (map (\<lambda>(k, v). (k, decode_any v)) kvs))"
proof -
  have "map_of (last_wins kvs) k = Some v" using assms by (simp add: map_of_last_wins)
  then have "(k, v) \<in> set (last_wins kvs)" by (rule map_of_SomeD)
  then show ?thesis by (force simp: last_wins_map)
qed

text \<open>Key folding and lower case agree on names without s and k.\<close>

definition plain_name :: "string \<Rightarrow> bool" where
  "plain_name n \<longleftrightarrow> list_all (\<lambda>c. 97 \<le> code c \<and> code c \<le> 122 \<and> c \<noteq> CHR ''s'' \<and> c \<noteq> CHR ''k'') n"

lemma ascii_lower_plain:
  assumes "97 \<le> code c" "code c \<le> (122::nat)"
  shows "ascii_lower c = c"
  using assms by (simp add: ascii_lower_def)

lemma ascii_lower_high: "128 \<le> (code c :: nat) \<Longrightarrow> ascii_lower c = c"
  by (simp add: ascii_lower_def)

lemma fold_key_plain_self: "plain_name n \<Longrightarrow> fold_key n = n"
proof (induction n)
  case (Cons c n)
  then show ?case by (auto simp: plain_name_def ascii_lower_plain)
qed simp

lemma fold_key_lower: "plain_name n \<Longrightarrow> fold_key k = n \<Longrightarrow> to_lower k = n"
proof (induction k arbitrary: n rule: fold_key.induct)
  case (2 c s)
  obtain d m where n: "n = d # m" using "2.prems"(2) by (auto split: if_splits)
  have pl: "97 \<le> code d" "code d \<le> (122::nat)" "d \<noteq> CHR ''s''" "d \<noteq> CHR ''k''" "plain_name m"
    using "2.prems"(1) n by (auto simp: plain_name_def)
  have no1: "\<not> (code c = (197::nat) \<and> byte_at s 0 = 191)"
    and no2: "\<not> (code c = (226::nat) \<and> byte_at s 0 = 132 \<and> byte_at s 1 = 170)"
    using "2.prems"(2) n pl by (auto split: if_splits)
  have dc: "ascii_lower c = d" and m: "fold_key s = m"
    using "2.prems"(2) n no1 no2 by auto
  have no3: "code c \<noteq> (196::nat)"
  proof
    assume h: "code c = (196::nat)"
    then have "ascii_lower c = c" by (intro ascii_lower_high) simp
    then show False using dc pl(2) h by simp
  qed
  have "to_lower s = m" using "2.IH"(3) no1 no2 pl(5) m by blast
  moreover have "to_lower (c # s) = ascii_lower c # to_lower s"
    by (rule to_lower_cases(3)) (use no3 no2 in blast)+
  ultimately show ?case using n dc by simp
qed auto

lemma key_matches_lower: "plain_name n \<Longrightarrow> key_matches n k \<Longrightarrow> to_lower k = n"
  by (metis fold_key_lower fold_key_plain_self key_matches_def)

text \<open>So the path a tool decodes is one the policy has inspected, when no member that the decoder
  takes for the path is null.\<close>

lemma decoded_path_inspected:
  assumes "struct_string ''path'' (JObj kvs) = Some p" and "p \<noteq> []"
    and "\<And>k v. (k, v) \<in> set kvs \<Longrightarrow> key_matches ''path'' k \<Longrightarrow> v \<noteq> JNull"
    and "\<not> unsafe (decode_any (JObj kvs)) []"
  shows "\<not> path_denied p"
proof -
  have dm: "decode_member ''path'' kvs ([], True) = (p, True)"
    using assms(1) by (auto split: prod.splits if_splits)
  obtain kv where kv: "find (key_is ''path'') (rev kvs) = Some kv" "snd kv = JStr p"
    using decode_member_last [OF dm] assms(2,3) by (force simp: key_is_def split: option.splits)
  have mo: "map_of (rev kvs) (fst kv) = Some (JStr p)" and km: "key_matches ''path'' (fst kv)"
    using find_key_map_of [OF kv(1)] kv(2) by (auto simp: key_is_def)
  have "to_lower (fst kv) = ''path''"
    using km by (rule key_matches_lower [rotated]) (simp add: plain_name_def)
  moreover have "(fst kv, JStr p) \<in> set (last_wins (map (\<lambda>(k, v). (k, decode_any v)) kvs))"
    using decoded_member_in_map [OF mo] by simp
  ultimately have "\<not> unsafe (JStr p) ''path''"
    using assms(4) by force
  then show ?thesis by (simp add: is_path_key_def)
qed

text \<open>C26. An action the policy does not deny names a contained path: whatever string the file
  tools decode from its arguments as the path (they match member names up to letter case), unless
  a member they take for the path is null, walking it from the repository root never leaves the
  root and does not enter the Git directory, and it names no credential material.\<close>

theorem accepted_path_is_contained:
  assumes "verdict_of (evaluate H ctx a) \<noteq> Deny"
    and "args a = Some raw" and "struct_string ''path'' raw = Some p" and "p \<noteq> []"
    and "\<And>kvs k v. raw = JObj kvs \<Longrightarrow> (k, v) \<in> set kvs \<Longrightarrow> key_matches ''path'' k \<Longrightarrow> v \<noteq> JNull"
  shows "path_contained p \<and> \<not> names_credentials p"
proof -
  have safe: "\<not> unsafe (decode_any raw) []"
    using assms(1,2) by (auto elim: evaluate_not_denied)
  obtain kvs where "raw = JObj kvs" using assms(3,4) by (cases raw) auto
  then have "\<not> path_denied p"
    using decoded_path_inspected [of kvs p] assms(3-5) safe by blast
  then show ?thesis by (rule not_denied_contained)
qed

theorem accepted_path_is_contained_witness:
  "path_contained ''src/a.go'' \<and> \<not> names_credentials ''src/a.go''"
proof -
  let ?ctx = "\<lparr>ctx_run_id = ''r'', ctx_profile = ProfileReview, ctx_repo_root = [], ctx_dirty = False,
       ctx_baselines = [], ctx_configured_checks = []\<rparr>"
  let ?raw = "JObj [(''Path'', JStr ''src/a.go'')]"
  let ?a = "\<lparr>kind = ''read_file'', args = Some ?raw\<rparr>"
  have v: "verdict_of (evaluate (\<lambda>_. []) ?ctx ?a) \<noteq> Deny" by code_simp
  have p: "struct_string ''path'' ?raw = Some ''src/a.go''" by code_simp
  show ?thesis by (rule accepted_path_is_contained [OF v _ p]) auto
qed

text \<open>The exception is real. A member \<^verbatim>\<open>path\<close> that is null hides an earlier one: decoding the object
  into a map keeps the null, which the policy engine takes for no path, while decoding it into the
  tools' struct leaves the string of the earlier member.\<close>

lemma null_member_hides_path:
  "let a = \<lparr>kind = ''read_file'', args = Some (JObj [(''path'', JStr ''../x''), (''path'', JNull)])\<rparr>;
       ctx = \<lparr>ctx_run_id = ''r'', ctx_profile = ProfileReview, ctx_repo_root = [], ctx_dirty = False,
         ctx_baselines = [], ctx_configured_checks = []\<rparr>
   in verdict_of (evaluate (\<lambda>_. []) ctx a) = Allow \<and> struct_string ''path'' (the (args a)) = Some ''../x''
     \<and> walk [] (split_on slash ''../x'') = None"
  by code_simp

end
