(* ===== verification/Workspace.thy ===== *)
theory Workspace
  imports Policy_Paths
begin

text \<open>
  Package \<^verbatim>\<open>internal/workspace\<close>: the resolution of a workspace-relative path against the
  repository root (\<^verbatim>\<open>path.go\<close>), on the slash-separated platforms, where
  \<^verbatim>\<open>filepath.Clean\<close> is \<^const>\<open>path_clean\<close> and \<^verbatim>\<open>ToSlash\<close> is the identity. An absolute
  cleaned path is the list of its elements. The file system enters through
  \<^verbatim>\<open>filepath.EvalSymlinks\<close>, a parameter: it gives the path with every link followed, or
  nothing when some element does not exist.
\<close>

type_synonym apath = "string list"

datatype workspace_error = ErrResolveRoot | ErrOutsideRoot | ErrWorkspaceProtected | ErrNoExistingParent

definition is_absolute :: "string \<Rightarrow> bool" where
  "is_absolute p =
     (let q = replace_char backslash slash p in
      has_prefix q ''/'' \<or> (2 \<le> length q \<and> q ! 1 = CHR '':''))"

definition protected_part :: "string \<Rightarrow> bool" where
  "protected_part part \<longleftrightarrow> part = ''.git'' \<or> has_prefix part ''.env'' \<or> contains part ''secret''
     \<or> contains part ''credential'' \<or> contains part ''vault''"

definition protected :: "string \<Rightarrow> bool" where
  "protected p \<longleftrightarrow> list_ex protected_part (split_on slash (to_lower (path_clean p)))"

text \<open>\<^verbatim>\<open>filepath.Rel\<close> of two absolute cleaned paths: up from the base to the common part, then
  down to the target.\<close>

fun rel_elems :: "apath \<Rightarrow> apath \<Rightarrow> string list" where
  "rel_elems (b # bs) (t # ts) =
     (if b = t then rel_elems bs ts else replicate (length (b # bs)) ''..'' @ t # ts)"
| "rel_elems bs ts = replicate (length bs) ''..'' @ ts"

definition rel_path :: "apath \<Rightarrow> apath \<Rightarrow> string" where
  "rel_path base target =
     (let es = rel_elems base target in if es = [] then ''.'' else join_with ''/'' es)"

definition within :: "apath \<Rightarrow> apath \<Rightarrow> bool" where
  "within root candidate =
     (let rel = rel_path root candidate in rel \<noteq> ''..'' \<and> \<not> has_prefix rel ''../'')"

text \<open>\<^verbatim>\<open>resolveExistingParent\<close>: the path is given deepest element first, with the missing elements
  found so far.\<close>

fun resolve_existing_parent :: "(apath \<Rightarrow> apath option) \<Rightarrow> string list \<Rightarrow> string list \<Rightarrow> apath option" where
  "resolve_existing_parent eval [] missing =
     (case eval [] of Some r \<Rightarrow> Some (r @ missing) | None \<Rightarrow> None)"
| "resolve_existing_parent eval (e # rev_parent) missing =
     (case eval (rev (e # rev_parent)) of
        Some r \<Rightarrow> Some (r @ missing)
      | None \<Rightarrow> resolve_existing_parent eval rev_parent (e # missing))"

definition resolve :: "(apath \<Rightarrow> apath option) \<Rightarrow> apath \<Rightarrow> string \<Rightarrow> (workspace_error, apath) result" where
  "resolve eval root relative =
     (case eval root of
        None \<Rightarrow> Inl ErrResolveRoot
      | Some canonical_root \<Rightarrow>
          if is_absolute relative then Inl ErrOutsideRoot
          else
            (let rel = path_clean relative in
             if rel = ''..'' \<or> has_prefix rel ''../'' then Inl ErrOutsideRoot
             else if protected rel then Inl ErrWorkspaceProtected
             else
               (case resolve_existing_parent eval (rev (canonical_root @ path_elems relative)) [] of
                  None \<Rightarrow> Inl ErrNoExistingParent
                | Some candidate \<Rightarrow>
                    if \<not> within canonical_root candidate then Inl ErrOutsideRoot
                    else if protected (rel_path canonical_root candidate) then Inl ErrWorkspaceProtected
                    else Inr candidate)))"

section \<open>What a resolved path satisfies\<close>

definition plain_elem :: "string \<Rightarrow> bool" where
  "plain_elem e \<longleftrightarrow> e \<noteq> [] \<and> e \<noteq> ''.'' \<and> e \<noteq> ''..'' \<and> slash \<notin> set e"

abbreviation plain_path :: "apath \<Rightarrow> bool" where
  "plain_path p \<equiv> list_all plain_elem p"

lemma rel_elems_prefix: "rel_elems base (base @ rest) = rest"
  by (induction base) auto

lemma rel_elems_outside:
  assumes "\<not> prefix base target"
  shows "\<exists>es. rel_elems base target = ''..'' # es"
  using assms by (induction base target rule: rel_elems.induct) (auto simp: neq_Nil_conv)

lemma within_iff_prefix:
  assumes "plain_path candidate"
  shows "within root candidate \<longleftrightarrow> prefix root candidate"
proof
  assume w: "within root candidate"
  show "prefix root candidate"
  proof (rule ccontr)
    assume "\<not> prefix root candidate"
    then obtain es where "rel_elems root candidate = ''..'' # es" using rel_elems_outside by blast
    then show False using w join_with_dotdot [of es] by (auto simp: within_def rel_path_def Let_def)
  qed
next
  assume "prefix root candidate"
  then obtain rest where c: "candidate = root @ rest" by (auto simp: prefix_def)
  show "within root candidate"
  proof (cases rest)
    case Nil
    then show ?thesis using c rel_elems_prefix [of root "[]"] by (simp add: within_def rel_path_def)
  next
    case (Cons e es)
    then have e: "plain_elem e" using c assms by simp
    have rp: "rel_path root candidate = e \<or> (\<exists>r. rel_path root candidate = e @ slash # r)"
      using c Cons by (cases es) (auto simp: rel_path_def rel_elems_prefix)
    have "rel_path root candidate \<noteq> ''..''"
      using rp e by (auto simp: plain_elem_def append_eq_Cons_conv)
    moreover have "\<not> has_prefix (rel_path root candidate) ''../''"
    proof
      assume "has_prefix (rel_path root candidate) ''../''"
      then obtain r' where r': "rel_path root candidate = ''..'' @ slash # r'" by (auto simp: prefix_def)
      from rp show False
      proof
        assume "rel_path root candidate = e"
        then show False using r' e by (auto simp: plain_elem_def)
      next
        assume "\<exists>r. rel_path root candidate = e @ slash # r"
        then obtain r where eq: "e @ slash # r = ''..'' @ slash # r'" using r' by auto
        have ns: "slash \<notin> set e" using e by (simp add: plain_elem_def)
        have "takeWhile (\<lambda>c. c \<noteq> slash) (e @ slash # r) = e" using ns by (induction e) auto
        then have "e = ''..''" unfolding eq by simp
        then show False using e by (simp add: plain_elem_def)
      qed
    qed
    ultimately show ?thesis by (simp add: within_def Let_def)
  qed
qed

text \<open>The elements of a cleaned relative path are plain, up to leading dot-dots.\<close>

lemma clean_elems_plain:
  assumes "\<And>e. e \<in> set acc \<Longrightarrow> e = ''..'' \<or> plain_elem e" and "\<And>e. e \<in> set es \<Longrightarrow> slash \<notin> set e"
  shows "e \<in> set (clean_elems rooted acc es) \<Longrightarrow> e = ''..'' \<or> plain_elem e"
  using assms
proof (induction rooted acc es rule: clean_elems.induct)
  case (2 rooted acc x es)
  then show ?case
    by (auto simp: plain_elem_def split: if_splits list.splits)
qed auto

lemma resolve_existing_parent_plain:
  assumes "resolve_existing_parent eval rev_cur missing = Some p"
    and "plain_path rev_cur" and "plain_path missing"
    and "\<And>q r. eval q = Some r \<Longrightarrow> plain_path r"
  shows "plain_path p"
  using assms(1-3)
proof (induction rev_cur arbitrary: missing)
  case Nil
  then show ?case using assms(4) by (auto split: option.splits)
next
  case (Cons e rc)
  then show ?case using assms(4) by (auto split: option.splits)
qed

text \<open>C28. A path that \<^verbatim>\<open>Resolve\<close> accepts lies inside the repository root after every symbolic
  link has been followed: it is the canonical root extended by plain elements, none of which is a
  protected name. The one fact used about the file system is that following links gives an
  absolute cleaned path.\<close>

theorem resolved_path_is_inside:
  assumes "resolve eval root relative = Inr p"
    and "\<And>q r. eval q = Some r \<Longrightarrow> plain_path r"
  shows "\<exists>r rest. eval root = Some r \<and> p = r @ rest \<and> plain_path rest
    \<and> \<not> protected (if rest = [] then ''.'' else join_with ''/'' rest)"
proof -
  obtain r where r: "eval root = Some r" and notabs: "\<not> is_absolute relative"
    and nd: "path_clean relative \<noteq> ''..''" "\<not> has_prefix (path_clean relative) ''../''"
    and p: "resolve_existing_parent eval (rev (r @ path_elems relative)) [] = Some p"
    and w: "within r p" and np: "\<not> protected (rel_path r p)"
    using assms(1) by (auto simp: resolve_def Let_def split: option.splits if_splits)
  have rel: "\<not> has_prefix relative ''/''"
    using notabs by (cases relative) (auto simp: is_absolute_def replace_char_def Let_def)
  have "walk [] (split_on slash relative) = Some (path_elems relative)"
    using clean_inside [OF rel nd] .
  then have "''..'' \<notin> set (path_elems relative)"
    using clean_elems_walk [of "[]" "split_on slash relative"] rel by (auto simp: path_elems_def split: if_splits)
  then have "plain_path (path_elems relative)"
    using clean_elems_plain [of "[]" "split_on slash relative"] split_on_no_sep
    by (auto simp: path_elems_def list_all_iff)
  moreover have "plain_path r" using assms(2) r by blast
  ultimately have "plain_path (rev (r @ path_elems relative))" by (auto simp: list_all_iff)
  then have plain: "plain_path p"
    using resolve_existing_parent_plain [OF p] assms(2) by simp
  then have "prefix r p" using w within_iff_prefix by blast
  then obtain rest where "p = r @ rest" by (auto simp: prefix_def)
  then show ?thesis using r plain np by (auto simp: rel_path_def rel_elems_prefix Let_def)
qed

theorem resolved_path_is_inside_witness:
  "let eval = (\<lambda>q. if q = [''repo''] then Some [''real''] else if q = [''real'', ''link''] then Some [''real'', ''a''] else None)
   in \<exists>r rest. eval [''repo''] = Some r \<and> [''real'', ''a'', ''b.txt''] = r @ rest \<and> plain_path rest"
proof -
  let ?eval = "\<lambda>q::apath. if q = [''repo''] then Some [''real'']
    else if q = [''real'', ''link''] then Some [''real'', ''a''] else (None :: apath option)"
  have r: "resolve ?eval [''repo''] ''x/../link/b.txt'' = Inr [''real'', ''a'', ''b.txt'']" by code_simp
  have h: "\<And>q r. ?eval q = Some r \<Longrightarrow> plain_path r" by (auto simp: plain_elem_def split: if_splits)
  show ?thesis using resolved_path_is_inside [OF r h] by (simp add: Let_def)
qed

end
