(* ===== verification/Patch_Headers.thy ===== *)
theory Patch_Headers
  imports Policy_Paths
begin

text \<open>
  Package \<^verbatim>\<open>internal/tools\<close>, \<^verbatim>\<open>patch_headers.go\<close>: the parser that decides which files a unified
  diff names and how many lines it changes before the diff reaches Git. The lemmas relate it to
  the scanner of the policy engine (\<^verbatim>\<open>validatePatch\<close>), which reads the same text with other rules.
\<close>

datatype tool_error =
    ErrUnknownTool | ErrDuplicateTool | ErrInvalidArgs | ErrBinaryFile | ErrInvalidRegex
  | ErrProtectedPath | ErrInvalidPatch | ErrPatchLimit | ErrPatchConflict | ErrStaleBaseline
  | ErrPatchAtomicityBreach | ErrAlreadyExists | ErrCreateLimit
  | ErrResolvePath \<comment> \<open>\<^verbatim>\<open>resolve path: %w\<close>\<close>
  | ErrContext \<comment> \<open>the context's own error\<close>
  | ErrFile \<comment> \<open>an error of the file system\<close>

section \<open>Numbers (strconv.Atoi)\<close>

definition atoi :: "string \<Rightarrow> int option" where
  "atoi s =
     (let neg = has_prefix s ''-'';
          ds = (if neg \<or> has_prefix s ''+'' then drop 1 s else s);
          v = (if neg then - decimal_value ds else decimal_value ds) in
      if ds = [] \<or> \<not> list_all ascii_digit ds then None
      else if v < min_int64 \<or> max_int64 < v then None
      else Some v)"

section \<open>The parser\<close>

record patch_limits =
  limit_files :: int
  limit_lines :: int

definition maximum_patch_files :: int where "maximum_patch_files = 5"
definition maximum_patch_lines :: int where "maximum_patch_lines = 500"

definition bounded_patch_limits :: "patch_limits \<Rightarrow> patch_limits" where
  "bounded_patch_limits l =
     \<lparr>limit_files = (if limit_files l \<le> 0 \<or> maximum_patch_files < limit_files l
                     then maximum_patch_files else limit_files l),
      limit_lines = (if limit_lines l \<le> 0 \<or> maximum_patch_lines < limit_lines l
                     then maximum_patch_lines else limit_lines l)\<rparr>"

record patch_headers =
  paths_of :: "string list"
  changed_lines :: nat

text \<open>The parser's variables; \<^verbatim>\<open>seen\<close> holds the paths of the result.\<close>

record header_scan =
  hs_paths :: "string list"
  hs_changed :: nat
  hs_old_path :: string
  hs_has_hunk :: bool
  hs_in_hunk :: bool
  hs_old_left :: int
  hs_new_left :: int

definition start_header_scan :: header_scan where
  "start_header_scan = \<lparr>hs_paths = [], hs_changed = 0, hs_old_path = [], hs_has_hunk = False,
     hs_in_hunk = False, hs_old_left = 0, hs_new_left = 0\<rparr>"

text \<open>\<^verbatim>\<open>consumeHunkLine\<close>: the changed lines (0 or 1) and the two counters after the line.\<close>

definition consume_hunk_line :: "string \<Rightarrow> int \<Rightarrow> int \<Rightarrow> (tool_error, nat \<times> int \<times> int) result" where
  "consume_hunk_line line old_left new_left =
     (if has_prefix line (backslash # '' No newline at end of file'') then Inr (0, old_left, new_left)
      else if has_prefix line ''+'' then
        (if new_left = 0 then Inl ErrInvalidPatch else Inr (1, old_left, new_left - 1))
      else if has_prefix line ''-'' then
        (if old_left = 0 then Inl ErrInvalidPatch else Inr (1, old_left - 1, new_left))
      else if has_prefix line '' '' then
        (if old_left = 0 \<or> new_left = 0 then Inl ErrInvalidPatch
         else Inr (0, old_left - 1, new_left - 1))
      else Inl ErrInvalidPatch)"

definition hunk_count :: "string \<Rightarrow> string \<Rightarrow> (tool_error, int) result" where
  "hunk_count v p =
     (if \<not> has_prefix v p then Inl ErrInvalidPatch
      else
        (let parts = split_on CHR '','' (trim_prefix v p) in
         if 2 < length parts \<or> parts ! 0 = [] then Inl ErrInvalidPatch
         else if length parts = 1 then Inr 1
         else (case atoi (parts ! 1) of
                 None \<Rightarrow> Inl ErrInvalidPatch
               | Some n \<Rightarrow> if n < 0 then Inl ErrInvalidPatch else Inr n)))"

definition parse_hunk_header :: "string \<Rightarrow> (tool_error, int \<times> int) result" where
  "parse_hunk_header line =
     (let fs = go_fields line in
      if length fs < 4 \<or> fs ! 0 \<noteq> ''@@'' \<or> fs ! 3 \<noteq> ''@@'' then Inl ErrInvalidPatch
      else
        (case hunk_count (fs ! 1) ''-'' of
           Inl e \<Rightarrow> Inl e
         | Inr old_n \<Rightarrow>
             (case hunk_count (fs ! 2) ''+'' of
                Inl e \<Rightarrow> Inl e
              | Inr new_n \<Rightarrow> Inr (old_n, new_n))))"

definition patch_path :: "string \<Rightarrow> string \<Rightarrow> (tool_error, string) result" where
  "patch_path hdr p =
     (let fs = go_fields hdr in
      if fs = [] \<or> fs ! 0 = ''/dev/null'' \<or> \<not> has_prefix (fs ! 0) p then Inl ErrInvalidPatch
      else (let v = trim_prefix (fs ! 0) p in if v = [] then Inl ErrInvalidPatch else Inr v))"

definition metadata_headers :: "string list" where
  "metadata_headers = [''rename from '', ''rename to '', ''similarity index '', ''old mode '',
     ''new mode '', ''new file mode '', ''deleted file mode '']"

text \<open>One turn of the loop in \<^verbatim>\<open>parsePatchHeaders\<close>: a line inside a hunk body, then a line
  outside of one.\<close>

definition hunk_body_line :: "patch_limits \<Rightarrow> string \<Rightarrow> header_scan \<Rightarrow> (tool_error, header_scan) result" where
  "hunk_body_line lim line s =
     (case consume_hunk_line line (hs_old_left s) (hs_new_left s) of
        Inl e \<Rightarrow> Inl e
      | Inr (changed, old_left, new_left) \<Rightarrow>
          if limit_lines lim < int (hs_changed s + changed) then Inl ErrPatchLimit
          else Inr (s\<lparr>hs_changed := hs_changed s + changed, hs_old_left := old_left,
                 hs_new_left := new_left, hs_in_hunk := (old_left \<noteq> 0 \<or> new_left \<noteq> 0)\<rparr>))"

definition header_line :: "patch_limits \<Rightarrow> string \<Rightarrow> header_scan \<Rightarrow> (tool_error, header_scan) result" where
  "header_line lim line s =
     (if list_ex (\<lambda>h. has_prefix line h) metadata_headers then Inl ErrInvalidPatch
      else if has_prefix line ''--- '' then
        (if hs_old_path s \<noteq> [] \<or> (hs_paths s \<noteq> [] \<and> \<not> hs_has_hunk s) then Inl ErrInvalidPatch
         else (case patch_path (drop 4 line) ''a/'' of
                 Inl e \<Rightarrow> Inl e
               | Inr p \<Rightarrow> Inr (s\<lparr>hs_old_path := p\<rparr>)))
      else if has_prefix line ''+++ '' then
        (if hs_old_path s = [] then Inl ErrInvalidPatch
         else (case patch_path (drop 4 line) ''b/'' of
                 Inl e \<Rightarrow> Inl ErrInvalidPatch
               | Inr p \<Rightarrow>
                   if p \<noteq> hs_old_path s then Inl ErrInvalidPatch
                   else if p \<in> set (hs_paths s) then Inl ErrInvalidPatch
                   else if limit_files lim < int (length (hs_paths s @ [p])) then Inl ErrPatchLimit
                   else Inr (s\<lparr>hs_paths := hs_paths s @ [p], hs_old_path := [], hs_has_hunk := False\<rparr>)))
      else if has_prefix line ''@@ '' then
        (if hs_paths s = [] \<or> hs_old_path s \<noteq> [] then Inl ErrInvalidPatch
         else (case parse_hunk_header line of
                 Inl e \<Rightarrow> Inl e
               | Inr (old_n, new_n) \<Rightarrow>
                   Inr (s\<lparr>hs_old_left := old_n, hs_new_left := new_n, hs_has_hunk := True,
                          hs_in_hunk := (old_n \<noteq> 0 \<or> new_n \<noteq> 0)\<rparr>)))
      else Inr s)"

definition header_step :: "patch_limits \<Rightarrow> string \<Rightarrow> header_scan \<Rightarrow> (tool_error, header_scan) result" where
  "header_step lim line s = (if hs_in_hunk s then hunk_body_line lim line s else header_line lim line s)"

fun header_steps :: "patch_limits \<Rightarrow> string list \<Rightarrow> header_scan \<Rightarrow> (tool_error, header_scan) result" where
  "header_steps lim [] s = Inr s"
| "header_steps lim (l # ls) s =
     (case header_step lim l s of Inl e \<Rightarrow> Inl e | Inr s' \<Rightarrow> header_steps lim ls s')"

definition parse_patch_headers :: "string \<Rightarrow> patch_limits \<Rightarrow> (tool_error, patch_headers) result" where
  "parse_patch_headers patch limits =
     (if patch = [] \<or> contains patch [CHR 0x00] \<or> contains patch ''GIT binary patch''
         \<or> contains patch ''Binary files ''
      then Inl ErrInvalidPatch
      else
        (case header_steps (bounded_patch_limits limits) (split_on newline patch) start_header_scan of
           Inl e \<Rightarrow> Inl e
         | Inr s \<Rightarrow>
             if hs_paths s = [] \<or> hs_old_path s \<noteq> [] \<or> \<not> hs_has_hunk s \<or> hs_in_hunk s
             then Inl ErrInvalidPatch
             else Inr \<lparr>paths_of = hs_paths s, changed_lines = hs_changed s\<rparr>))"

section \<open>What the parser keeps\<close>

definition header_scan_ok :: "patch_limits \<Rightarrow> header_scan \<Rightarrow> bool" where
  "header_scan_ok lim s \<longleftrightarrow> distinct (hs_paths s) \<and> [] \<notin> set (hs_paths s)
     \<and> int (length (hs_paths s)) \<le> limit_files lim \<and> int (hs_changed s) \<le> limit_lines lim
     \<and> 0 \<le> hs_old_left s \<and> 0 \<le> hs_new_left s \<and> (hs_in_hunk s \<longrightarrow> hs_old_path s = [])"

lemma start_header_scan_ok: "0 \<le> limit_files lim \<Longrightarrow> 0 \<le> limit_lines lim \<Longrightarrow> header_scan_ok lim start_header_scan"
  by (simp add: header_scan_ok_def start_header_scan_def)

lemma bounded_patch_limits_range:
  "0 < limit_files (bounded_patch_limits l) \<and> limit_files (bounded_patch_limits l) \<le> 5"
  "0 < limit_lines (bounded_patch_limits l) \<and> limit_lines (bounded_patch_limits l) \<le> 500"
  "0 < limit_files l \<Longrightarrow> limit_files (bounded_patch_limits l) \<le> limit_files l"
  "0 < limit_lines l \<Longrightarrow> limit_lines (bounded_patch_limits l) \<le> limit_lines l"
  by (auto simp: bounded_patch_limits_def maximum_patch_files_def maximum_patch_lines_def)

lemma consume_hunk_line_counts:
  assumes "consume_hunk_line line o_n n_n = Inr (c, o', n')" and "0 \<le> o_n" "0 \<le> n_n"
  shows "0 \<le> o' \<and> 0 \<le> n' \<and> o' \<le> o_n \<and> n' \<le> n_n"
  using assms by (auto simp: consume_hunk_line_def split: if_splits)

lemma hunk_count_nonneg: "hunk_count v p = Inr n \<Longrightarrow> 0 \<le> n"
  by (auto simp: hunk_count_def Let_def split: if_splits option.splits)

lemma parse_hunk_header_nonneg: "parse_hunk_header l = Inr (a, b) \<Longrightarrow> 0 \<le> a \<and> 0 \<le> b"
  by (auto simp: parse_hunk_header_def Let_def dest: hunk_count_nonneg split: if_splits sum.splits)

lemma patch_path_nonempty: "patch_path l p = Inr v \<Longrightarrow> v \<noteq> []"
  by (auto simp: patch_path_def Let_def split: if_splits)

lemma hunk_body_line_ok:
  assumes "hunk_body_line lim l s = Inr s'" and "header_scan_ok lim s" and "hs_in_hunk s"
  shows "header_scan_ok lim s'"
  using assms consume_hunk_line_counts [of l "hs_old_left s" "hs_new_left s"]
  by (auto simp: hunk_body_line_def header_scan_ok_def split: sum.splits if_splits)

lemma header_line_ok:
  assumes "header_line lim l s = Inr s'" and "header_scan_ok lim s" and "\<not> hs_in_hunk s"
  shows "header_scan_ok lim s'"
  using assms
  by (auto simp: header_line_def header_scan_ok_def dest: parse_hunk_header_nonneg patch_path_nonempty
      split: sum.splits if_splits)

lemma header_step_ok: "header_step lim l s = Inr s' \<Longrightarrow> header_scan_ok lim s \<Longrightarrow> header_scan_ok lim s'"
  by (auto simp: header_step_def dest: hunk_body_line_ok header_line_ok split: if_splits)

lemma header_steps_ok: "header_steps lim ls s = Inr s' \<Longrightarrow> header_scan_ok lim s \<Longrightarrow> header_scan_ok lim s'"
  by (induction lim ls s rule: header_steps.induct) (auto dest: header_step_ok split: sum.splits)

lemma parse_patch_headers_steps:
  assumes "parse_patch_headers patch lim = Inr h"
  obtains s where
    "header_steps (bounded_patch_limits lim) (split_on newline patch) start_header_scan = Inr s"
    and "header_scan_ok (bounded_patch_limits lim) s" and "hs_paths s \<noteq> []" and "hs_old_path s = []"
    and "\<not> hs_in_hunk s" and "h = \<lparr>paths_of = hs_paths s, changed_lines = hs_changed s\<rparr>"
proof -
  obtain s where s: "header_steps (bounded_patch_limits lim) (split_on newline patch) start_header_scan = Inr s"
      "hs_paths s \<noteq> []" "hs_old_path s = []" "\<not> hs_in_hunk s"
      "h = \<lparr>paths_of = hs_paths s, changed_lines = hs_changed s\<rparr>"
    using assms by (auto simp: parse_patch_headers_def split: sum.splits if_splits)
  moreover have "header_scan_ok (bounded_patch_limits lim) start_header_scan"
    using bounded_patch_limits_range [of lim] by (intro start_header_scan_ok) auto
  ultimately show ?thesis using that header_steps_ok by blast
qed

text \<open>Whatever limits the tool is built with, the parser accepts a patch only for one to five
  distinct, named files and at most 500 changed lines, and for no more than a positive limit asks
  for; zero or negative limits, and larger ones, mean the maximum.\<close>

theorem patch_headers_bounded:
  assumes "parse_patch_headers patch lim = Inr h"
  shows "1 \<le> length (paths_of h) \<and> length (paths_of h) \<le> 5 \<and> changed_lines h \<le> 500
    \<and> distinct (paths_of h) \<and> [] \<notin> set (paths_of h)
    \<and> (0 < limit_files lim \<longrightarrow> int (length (paths_of h)) \<le> limit_files lim)
    \<and> (0 < limit_lines lim \<longrightarrow> int (changed_lines h) \<le> limit_lines lim)"
  using assms
proof (rule parse_patch_headers_steps)
  fix s assume ok: "header_scan_ok (bounded_patch_limits lim) s" and ne: "hs_paths s \<noteq> []"
    and h: "h = \<lparr>paths_of = hs_paths s, changed_lines = hs_changed s\<rparr>"
  have "1 \<le> length (hs_paths s)" using ne by (cases "hs_paths s") auto
  then show ?thesis
    using ok bounded_patch_limits_range [of lim] by (auto simp: header_scan_ok_def h)
qed

theorem patch_headers_bounded_witness:
  "\<exists>h. parse_patch_headers (''--- a/x.go'' @ newline # ''+++ b/x.go'' @ newline # ''@@ -1 +1 @@''
        @ newline # ''-a'' @ newline # ''+b'' @ [newline]) \<lparr>limit_files = 0, limit_lines = 2\<rparr> = Inr h
     \<and> changed_lines h \<le> 2"
proof -
  let ?p = "''--- a/x.go'' @ newline # ''+++ b/x.go'' @ newline # ''@@ -1 +1 @@''
        @ newline # ''-a'' @ newline # ''+b'' @ [newline]"
  have h: "parse_patch_headers ?p \<lparr>limit_files = 0, limit_lines = 2\<rparr>
      = Inr \<lparr>paths_of = [''x.go''], changed_lines = 2\<rparr>"
    by code_simp
  show ?thesis using h patch_headers_bounded [OF h] by auto
qed

end
