(* ===== verification/Patch_Policy.thy ===== *)
theory Patch_Policy
  imports Patch_Headers
begin

text \<open>
  How the two readings of a patch fit together: the policy engine scans the text line by line
  (\<^verbatim>\<open>policy/risk.go\<close>, \<^verbatim>\<open>validatePatch\<close>), the patch tool parses headers and hunk bodies
  (\<^verbatim>\<open>tools/patch_headers.go\<close>). Every path the tool's parser reads from the \<^verbatim>\<open>---\<close> and \<^verbatim>\<open>+++\<close>
  headers of a file is one the policy has inspected, as long as both look at the same text; the last
  two theorems show how they may look at different ones, and that both skip Git's extended headers.
\<close>

section \<open>The policy's scan\<close>

definition scan_ok :: "patch_scan \<Rightarrow> bool" where
  "scan_ok s \<longleftrightarrow> (\<forall>p \<in> set (sc_files s). (path_denied p \<longrightarrow> hard_denied (sc_facts s))
      \<and> (path_guarded p \<longrightarrow> guarded (sc_facts s)))"

lemma start_scan_ok: "scan_ok (start_scan f)"
  by (simp add: scan_ok_def start_scan_def)

lemma scan_path_ok: "scan_ok s \<Longrightarrow> scan_ok (scan_path s p)"
  by (auto simp: scan_ok_def scan_path_def inspect_path_denied inspect_path_guarded)

lemma scan_path_simps [simp]:
  "sc_old (scan_path s p) = sc_old s" "sc_pairs (scan_path s p) = sc_pairs s"
  "set (sc_files (scan_path s p)) = (if p = ''/dev/null'' then set (sc_files s) else insert p (set (sc_files s)))"
  by (simp_all add: scan_path_def)

lemma scan_ok_update [simp]:
  "scan_ok (s\<lparr>sc_pairs := n, sc_old := x\<rparr>) = scan_ok s" "scan_ok (s\<lparr>sc_old := x\<rparr>) = scan_ok s"
  "scan_ok (s\<lparr>sc_changed := m\<rparr>) = scan_ok s" "scan_ok (s\<lparr>sc_pairs := n\<rparr>) = scan_ok s"
  by (simp_all add: scan_ok_def)

lemma scan_line_ok: "scan_line s l = Some s' \<Longrightarrow> scan_ok s \<Longrightarrow> scan_ok s'"
  by (auto simp: scan_line_def Let_def scan_path_ok split: if_splits)

lemma scan_line_files: "scan_line s l = Some s' \<Longrightarrow> set (sc_files s) \<subseteq> set (sc_files s')"
  by (auto simp: scan_line_def Let_def split: if_splits)

lemma scan_lines_ok: "scan_lines s ls = Some s' \<Longrightarrow> scan_ok s \<Longrightarrow> scan_ok s'"
  by (induction s ls rule: scan_lines.induct) (auto dest: scan_line_ok split: option.splits)

section \<open>The tool's parse follows it\<close>

definition scans_agree :: "header_scan \<Rightarrow> patch_scan \<Rightarrow> bool" where
  "scans_agree h s \<longleftrightarrow> set (hs_paths h) - {''/dev/null''} \<subseteq> set (sc_files s)
     \<and> (hs_old_path h \<noteq> [] \<longrightarrow> sc_old s = hs_old_path h)
     \<and> (hs_in_hunk h \<longrightarrow> hs_old_path h = [])"

lemma patch_path_diff_path:
  "patch_path line p = Inr v \<Longrightarrow> diff_path line p = v"
  by (cases "go_fields line") (auto simp: patch_path_def diff_path_def Let_def split: if_splits)

lemma hunk_body_line_agree:
  assumes "hunk_body_line lim l h = Inr h'" and "scan_line s l = Some s'"
    and "scans_agree h s" and "hs_in_hunk h"
  shows "scans_agree h' s'"
proof -
  have "hs_paths h' = hs_paths h" "hs_old_path h' = hs_old_path h"
    using assms(1) by (auto simp: hunk_body_line_def split: sum.splits if_splits)
  then show ?thesis
    using assms(3,4) scan_line_files [OF assms(2)] by (simp add: scans_agree_def) blast
qed

lemma header_line_agree:
  assumes "header_line lim l h = Inr h'" and "scan_line s l = Some s'"
    and "scans_agree h s" and "\<not> hs_in_hunk h"
  shows "scans_agree h' s'"
proof -
  consider (old) "has_prefix l ''--- ''" | (new) "\<not> has_prefix l ''--- ''" "has_prefix l ''+++ ''"
    | (other) "\<not> has_prefix l ''--- ''" "\<not> has_prefix l ''+++ ''" by blast
  then show ?thesis
  proof cases
    case old
    then show ?thesis
      using assms patch_path_diff_path
      by (auto simp: header_line_def scan_line_def scans_agree_def Let_def split: if_splits sum.splits)
  next
    case new
    then show ?thesis
      using assms patch_path_diff_path
      by (auto simp: header_line_def scan_line_def scans_agree_def Let_def split: if_splits sum.splits)
  next
    case other
    then have "sc_old s' = sc_old s \<and> sc_files s' = sc_files s"
      using assms(2) by (auto simp: scan_line_def split: if_splits)
    then show ?thesis
      using assms other by (auto simp: header_line_def scans_agree_def split: if_splits sum.splits)
  qed
qed

lemma header_steps_agree:
  "header_steps lim ls h = Inr h' \<Longrightarrow> scan_lines s ls = Some s' \<Longrightarrow> scans_agree h s \<Longrightarrow> scans_agree h' s'"
proof (induction lim ls h arbitrary: s rule: header_steps.induct)
  case (2 lim l ls h)
  obtain h1 where h1: "header_step lim l h = Inr h1" "header_steps lim ls h1 = Inr h'"
    using "2.prems"(1) by (auto split: sum.splits)
  obtain s1 where s1: "scan_line s l = Some s1" "scan_lines s1 ls = Some s'"
    using "2.prems"(2) by (auto split: option.splits)
  have "scans_agree h1 s1"
    using hunk_body_line_agree header_line_agree h1(1) s1(1) "2.prems"(3)
    by (metis header_step_def)
  then show ?case using "2.IH" h1 s1 by blast
qed simp

text \<open>What a patch action that is not denied has passed.\<close>

lemma validate_patch_passed:
  assumes "fst (fst (validate_patch raw f)) \<noteq> RiskHardDenied"
    and "as_fields raw = Some fs" and "field_of fs ''patch'' = Some (JStr patch)"
  obtains s where "scan_lines (start_scan f) (split_on newline patch) = Some s"
    and "\<not> hard_denied (sc_facts s)"
    and "guarded (sc_facts s) \<Longrightarrow> guarded (snd (validate_patch raw f))"
proof -
  obtain s where s: "scan_lines (start_scan f) (split_on newline patch) = Some s"
    using assms by (auto simp: validate_patch_def Let_def split: if_splits option.splits)
  have nh: "\<not> hard_denied (sc_facts s)"
    using assms s by (auto simp: validate_patch_def Let_def split: if_splits)
  have "guarded (snd (validate_patch raw f))" if "guarded (sc_facts s)"
    using assms s nh that by (auto simp: validate_patch_def Let_def)
  then show ?thesis using that s nh by blast
qed

lemma validate_patch_cases:
  "fst (fst (validate_patch raw f)) = RiskHardDenied \<or> fst (validate_patch raw f) = normal_risk"
  by (simp add: validate_patch_def Let_def split: option.split)

lemma patch_risk_guarded:
  assumes "classify_risk ctx a = (r, c, m)" and "r \<noteq> RiskHardDenied" and "kind a = ''apply_patch''"
    and "args a = Some raw" and "guarded (snd (validate_patch raw (inspect_args (decode_any raw))))"
  shows "r = RiskGuarded"
proof -
  obtain v f where v: "validate_patch raw (inspect_args (decode_any raw)) = (v, f)" by (rule prod.exhaust)
  have "v = normal_risk \<or> fst v = RiskHardDenied"
    using validate_patch_cases [of raw "inspect_args (decode_any raw)"] v by auto
  moreover have k: "kind a \<in> set canonical_actions" "is_mutation (kind a)" and g: "guarded f"
    using assms(3,5) v by (simp_all add: canonical_actions_def is_mutation_def)
  moreover have "validate_canonical_action ctx (kind a) raw (inspect_args (decode_any raw)) = (v, f)"
    using assms(3) v by (simp add: validate_canonical_action_def)
  ultimately have "fst (classify_risk ctx a) = RiskHardDenied
      \<or> fst (classify_risk ctx a) = RiskGuarded"
    using assms(4) by (auto simp: classify_risk_def normal_risk_def Let_def)
  then show ?thesis using assms(1,2) by auto
qed

lemma review_denies_mutation:
  assumes "verdict_of (evaluate H ctx a) \<noteq> Deny" and "is_mutation (kind a)"
  shows "ctx_profile ctx \<noteq> ProfileReview"
  using assms by (auto simp: evaluate_def Let_def split: prod.splits if_splits)

lemma guarded_not_allowed:
  assumes "classify_risk ctx a = (RiskGuarded, c, m)"
  shows "verdict_of (evaluate H ctx a) \<noteq> Allow \<or> ctx_profile ctx = ProfileReview"
  using assms by (auto simp: evaluate_def Let_def split: permission_profile.splits)

section \<open>What reaches Git was inspected\<close>

text \<open>C27. Every path that the patch tool's parser reads from the \<^verbatim>\<open>---\<close> and
  \<^verbatim>\<open>+++\<close> headers of an accepted patch, other than /dev/null, is one the policy engine
  inspected, if the engine lets the patch through and both look at the same text (the argument's
  last member \<^verbatim>\<open>patch\<close>): it stays inside the repository, outside the Git directory and away
  from credential material, and under a profile other than review an action that is allowed
  outright names no protected file (go.mod, go.sum, vendor, .github). Files that only Git's extended
  headers name are not among them, see \<^verbatim>\<open>extended_headers_are_ignored\<close>.\<close>

theorem patch_paths_are_inspected:
  assumes "kind a = ''apply_patch''" and "verdict_of (evaluate H ctx a) \<noteq> Deny"
    and "args a = Some raw" and "as_fields raw = Some fs" and "field_of fs ''patch'' = Some (JStr patch)"
    and "parse_patch_headers patch lim = Inr h"
  shows "\<forall>p \<in> set (paths_of h). p = ''/dev/null'' \<or>
      (path_contained p \<and> \<not> names_credentials p
       \<and> (verdict_of (evaluate H ctx a) = Allow \<longrightarrow> \<not> path_guarded p))"
proof -
  let ?f = "inspect_args (decode_any raw)"
  obtain r c m raw' where cl: "classify_risk ctx a = (r, c, m)" "r \<noteq> RiskHardDenied"
      "args a = Some raw'" "fst (fst (validate_canonical_action ctx (kind a) raw' (inspect_args (decode_any raw')))) \<noteq> RiskHardDenied"
    using assms(2) by (rule evaluate_not_denied)
  have v: "fst (fst (validate_patch raw ?f)) \<noteq> RiskHardDenied"
    using cl assms(1,3) by (simp add: validate_canonical_action_def)
  obtain s where s: "scan_lines (start_scan ?f) (split_on newline patch) = Some s"
      "\<not> hard_denied (sc_facts s)" "guarded (sc_facts s) \<Longrightarrow> guarded (snd (validate_patch raw ?f))"
    using v assms(4,5) by (rule validate_patch_passed) blast
  have ok: "scan_ok s" using s(1) scan_lines_ok start_scan_ok by blast
  obtain t where t: "header_steps (bounded_patch_limits lim) (split_on newline patch) start_header_scan = Inr t"
      "paths_of h = hs_paths t"
    using assms(6) by (rule parse_patch_headers_steps) auto
  have "scans_agree start_header_scan (start_scan ?f)"
    by (simp add: scans_agree_def start_header_scan_def)
  then have agree: "set (hs_paths t) - {''/dev/null''} \<subseteq> set (sc_files s)"
    using header_steps_agree [OF t(1) s(1)] by (simp add: scans_agree_def)
  have notreview: "ctx_profile ctx \<noteq> ProfileReview"
    using review_denies_mutation assms(1,2) by (auto simp: is_mutation_def)
  show ?thesis
  proof (intro ballI disjCI)
    fix p assume "p \<in> set (paths_of h)" and "\<not> (path_contained p \<and> \<not> names_credentials p
       \<and> (verdict_of (evaluate H ctx a) = Allow \<longrightarrow> \<not> path_guarded p))"
    then show "p = ''/dev/null''"
      using agree t(2) ok s cl(1,2) assms(1,3) notreview not_denied_contained [of p]
        patch_risk_guarded [of ctx a r c m raw] guarded_not_allowed [of ctx a c m H]
      by (auto simp: scan_ok_def)
  qed
qed

theorem patch_paths_are_inspected_witness:
  "path_contained ''x.go'' \<and> \<not> names_credentials ''x.go'' \<and> \<not> path_guarded ''x.go''"
proof -
  let ?p = "''--- a/x.go'' @ newline # ''+++ b/x.go'' @ newline # ''@@ -1 +1 @@''
        @ newline # ''-a'' @ newline # ''+b'' @ [newline]"
  let ?ctx = "\<lparr>ctx_run_id = ''r'', ctx_profile = ProfileWorkspaceAuto, ctx_repo_root = [], ctx_dirty = False,
       ctx_baselines = [], ctx_configured_checks = []\<rparr>"
  let ?raw = "JObj [(''patch'', JStr ?p)]"
  let ?a = "\<lparr>kind = ''apply_patch'', args = Some ?raw\<rparr>"
  have k: "kind ?a = ''apply_patch''" and r: "args ?a = Some ?raw"
    and f: "as_fields ?raw = Some [(''patch'', JStr ?p)]"
    and m: "field_of [(''patch'', JStr ?p)] ''patch'' = Some (JStr ?p)" by simp_all
  have v: "verdict_of (evaluate (\<lambda>_. []) ?ctx ?a) = Allow" by code_simp
  then have nd: "verdict_of (evaluate (\<lambda>_. []) ?ctx ?a) \<noteq> Deny" by simp
  have h: "parse_patch_headers ?p \<lparr>limit_files = 0, limit_lines = 2\<rparr>
      = Inr \<lparr>paths_of = [''x.go''], changed_lines = 2\<rparr>"
    by code_simp
  show ?thesis using patch_paths_are_inspected [OF k nd r f m h] v by simp
qed

section \<open>What is not\<close>

text \<open>Member names: the policy engine looks up the member \<^verbatim>\<open>patch\<close> exactly, the patch tool
  (and the approval prompt) decode it into a struct field, which a later member whose name differs
  in letter case overrides. So for any two texts there is one action whose verdict is that of the
  first text and whose execution applies the second.\<close>

theorem overriding_patch_member:
  "struct_string ''patch'' (JObj [(''patch'', JStr shown), (''PATCH'', JStr applied)]) = Some applied
   \<and> verdict_of (evaluate H ctx \<lparr>kind = ''apply_patch'',
         args = Some (JObj [(''patch'', JStr shown), (''PATCH'', JStr applied)])\<rparr>)
     = verdict_of (evaluate H ctx \<lparr>kind = ''apply_patch'', args = Some (JObj [(''patch'', JStr shown)])\<rparr>)"
proof
  show "struct_string ''patch'' (JObj [(''patch'', JStr shown), (''PATCH'', JStr applied)]) = Some applied"
  proof -
    have "key_matches ''patch'' ''patch''" "key_matches ''patch'' ''PATCH''" by code_simp+
    then show ?thesis by simp
  qed
next
  let ?both = "\<lparr>kind = ''apply_patch'', args = Some (JObj [(''patch'', JStr shown), (''PATCH'', JStr applied)])\<rparr>"
  let ?one = "\<lparr>kind = ''apply_patch'', args = Some (JObj [(''patch'', JStr shown)])\<rparr>"
  have low: "to_lower ''patch'' = ''patch''" "to_lower ''PATCH'' = ''patch''" by code_simp+
  have facts: "inspect_args (decode_any (JObj [(''patch'', JStr shown), (''PATCH'', JStr applied)])) = no_facts"
      "inspect_args (decode_any (JObj [(''patch'', JStr shown)])) = no_facts"
    using low by (simp_all add: inspect_args_def truthy_hard_deny_def truthy_guard_def is_path_key_def Let_def)
  have "validate_patch (JObj [(''patch'', JStr shown), (''PATCH'', JStr applied)]) no_facts
      = validate_patch (JObj [(''patch'', JStr shown)]) no_facts"
    by (simp add: validate_patch_def)
  then have "classify_risk ctx ?both = classify_risk ctx ?one"
    using facts
    by (simp add: classify_risk_def validate_canonical_action_def case_prod_beta Let_def del: decode_any.simps)
  then show "verdict_of (evaluate H ctx ?both) = verdict_of (evaluate H ctx ?one)"
    by (simp add: evaluate_def case_prod_beta Let_def split: permission_profile.split)
qed

lemma sublist_before_separator:
  assumes "c \<notin> set pat"
  shows "sublist pat (a @ c # b) \<longleftrightarrow> sublist pat a \<or> sublist pat b"
proof
  assume "sublist pat (a @ c # b)"
  then consider "sublist pat a" | "sublist pat (c # b)"
    | xs ys where "pat = xs @ ys" "suffix xs a" "prefix ys (c # b)"
    by (auto simp: sublist_append)
  then show "sublist pat a \<or> sublist pat b"
    using assms by cases (auto simp: sublist_Cons_right prefix_Cons)
qed (auto simp: sublist_append sublist_Cons_right)

definition ignored_line :: "string \<Rightarrow> bool" where
  "ignored_line l \<longleftrightarrow> newline \<notin> set l \<and> CHR 0x00 \<notin> set l
     \<and> \<not> contains l ''GIT binary patch'' \<and> \<not> contains l ''Binary files ''
     \<and> \<not> list_ex (\<lambda>h. has_prefix l h) metadata_headers
     \<and> \<not> has_prefix l ''-'' \<and> \<not> has_prefix l ''+'' \<and> \<not> has_prefix l ''@@ ''"

lemma ignored_header_line: "ignored_line l \<Longrightarrow> header_line lim l s = Inr s"
  by (auto simp: ignored_line_def header_line_def prefix_def)

lemma ignored_scan_line: "ignored_line l \<Longrightarrow> scan_line s l = Some s"
  by (auto simp: ignored_line_def scan_line_def prefix_def)

lemma split_on_line: "newline \<notin> set l \<Longrightarrow> split_on newline (l @ newline # s) = l # split_on newline s"
  by (induction l) (auto split: list.splits)

text \<open>Both readings skip, before the first header, any line that starts none of the forms they
  know. The extended headers \<^verbatim>\<open>copy from\<close> and \<^verbatim>\<open>copy to\<close> of Git are such lines, whatever
  files they name: adding them changes neither what the policy engine inspects nor what the patch
  tool counts.\<close>

theorem extended_headers_are_ignored:
  assumes "ignored_line l"
  shows "parse_patch_headers (l @ newline # patch) lim = parse_patch_headers patch lim
    \<and> scan_lines (start_scan f) (split_on newline (l @ newline # patch))
        = scan_lines (start_scan f) (split_on newline patch)"
proof
  have nl: "newline \<notin> set l" and h: "header_steps lim' (l # ls) start_header_scan = header_steps lim' ls start_header_scan"
    for lim' ls
    using assms by (simp_all add: ignored_line_def header_step_def start_header_scan_def ignored_header_line)
  have empty: "parse_patch_headers (l @ [newline]) lim = Inl ErrInvalidPatch"
    using h split_on_line [OF nl, of "[]"]
    by (simp add: parse_patch_headers_def header_step_def header_line_def start_header_scan_def metadata_headers_def)
  show "parse_patch_headers (l @ newline # patch) lim = parse_patch_headers patch lim"
  proof (cases "patch = []")
    case True
    then show ?thesis using empty by (simp add: parse_patch_headers_def)
  next
    case False
    have "contains (l @ newline # patch) w \<longleftrightarrow> contains patch w"
      if "w \<in> {[CHR 0x00], ''GIT binary patch'', ''Binary files ''}" for w
    proof -
      have "newline \<notin> set w" using that by auto
      moreover have "\<not> contains l w" using that assms by (auto simp: ignored_line_def dest: set_mono_sublist)
      ultimately show ?thesis by (simp add: sublist_before_separator)
    qed
    then show ?thesis using False h split_on_line [OF nl] by (simp add: parse_patch_headers_def)
  qed
  show "scan_lines (start_scan f) (split_on newline (l @ newline # patch))
        = scan_lines (start_scan f) (split_on newline patch)"
    using assms split_on_line [OF nl] by (simp add: ignored_scan_line)
qed

theorem extended_headers_are_ignored_witness:
  "parse_patch_headers (''copy from .env'' @ newline # ''copy to notes.txt'' @ newline # ''--- a/x'')
       \<lparr>limit_files = 0, limit_lines = 0\<rparr>
   = parse_patch_headers ''--- a/x'' \<lparr>limit_files = 0, limit_lines = 0\<rparr>"
proof -
  have l: "ignored_line ''copy from .env''" and m: "ignored_line ''copy to notes.txt''" by code_simp+
  show ?thesis
    by (rule trans [OF extended_headers_are_ignored [OF l, THEN conjunct1]
          extended_headers_are_ignored [OF m, THEN conjunct1]])
qed

end
