(* ===== verification/Utf8.thy ===== *)
theory Utf8
  imports Prelude
begin

text \<open>
  What the sources use of \<^verbatim>\<open>unicode/utf8\<close>: validity of a byte string (\<^verbatim>\<open>utf8.Valid\<close>) and the
  test for a byte that can start a rune (\<^verbatim>\<open>utf8.RuneStart\<close>), with the one operation built on
  them, cutting a text at a rune boundary.
\<close>

definition continuation :: "nat \<Rightarrow> bool" where
  "continuation b \<longleftrightarrow> 128 \<le> b \<and> b < 192"

definition rune_start :: "char \<Rightarrow> bool" where
  "rune_start c \<longleftrightarrow> \<not> continuation (code c)"

text \<open>The length of the valid encoding a byte string starts with, 0 when it starts with none:
  overlong forms, surrogates and values above U+10FFFF are invalid.\<close>

definition two_bytes :: "nat \<Rightarrow> nat \<Rightarrow> bool" where
  "two_bytes a b \<longleftrightarrow> 194 \<le> a \<and> a \<le> 223 \<and> continuation b"

definition three_bytes :: "nat \<Rightarrow> nat \<Rightarrow> nat \<Rightarrow> bool" where
  "three_bytes a b c \<longleftrightarrow> 224 \<le> a \<and> a \<le> 239 \<and> continuation b \<and> continuation c
     \<and> (a = 224 \<longrightarrow> 160 \<le> b) \<and> (a = 237 \<longrightarrow> b < 160)"

definition four_bytes :: "nat \<Rightarrow> nat \<Rightarrow> nat \<Rightarrow> nat \<Rightarrow> bool" where
  "four_bytes a b c d \<longleftrightarrow> 240 \<le> a \<and> a \<le> 244 \<and> continuation b \<and> continuation c \<and> continuation d
     \<and> (a = 240 \<longrightarrow> 144 \<le> b) \<and> (a = 244 \<longrightarrow> b < 144)"

definition rune_len :: "string \<Rightarrow> nat" where
  "rune_len s =
     (if s = [] then 0
      else if byte_at s 0 < 128 then 1
      else if two_bytes (byte_at s 0) (byte_at s 1) then 2
      else if three_bytes (byte_at s 0) (byte_at s 1) (byte_at s 2) then 3
      else if four_bytes (byte_at s 0) (byte_at s 1) (byte_at s 2) (byte_at s 3) then 4
      else 0)"

function utf8_valid :: "string \<Rightarrow> bool" where
  "utf8_valid s =
     (if s = [] then True else if rune_len s = 0 then False else utf8_valid (drop (rune_len s) s))"
  by pat_completeness auto
termination
  by (relation "measure length") auto

declare utf8_valid.simps [simp del]

text \<open>The loop of \<^verbatim>\<open>truncateUTF8\<close> (\<^verbatim>\<open>tools/read.go\<close>), then the function.\<close>

fun back_up :: "string \<Rightarrow> nat \<Rightarrow> nat" where
  "back_up content 0 = 0"
| "back_up content (Suc n) = (if rune_start (content ! Suc n) then Suc n else back_up content n)"

definition truncate_utf8 :: "string \<Rightarrow> nat \<Rightarrow> string" where
  "truncate_utf8 content limit = take (back_up content limit) content"

section \<open>Runes\<close>

lemma byte_at_pos: "0 < byte_at s i \<Longrightarrow> i < length s"
  by (simp add: byte_at_def split: if_splits)

lemma continuation_at: "continuation (byte_at s i) \<Longrightarrow> i < length s \<and> \<not> rune_start (s ! i)"
proof -
  assume c: "continuation (byte_at s i)"
  then have i: "i < length s" by (intro byte_at_pos) (simp add: continuation_def)
  then have "byte_at s i = code (s ! i)" by (simp add: byte_at_def)
  with c i show ?thesis by (simp add: rune_start_def)
qed

lemmas rune_bytes = two_bytes_def three_bytes_def four_bytes_def

lemma rune_len_bound: "rune_len s \<le> 4"
  by (simp add: rune_len_def)

lemma rune_len_shape:
  "rune_len s = 2 \<Longrightarrow> two_bytes (byte_at s 0) (byte_at s 1)"
  "rune_len s = 3 \<Longrightarrow> three_bytes (byte_at s 0) (byte_at s 1) (byte_at s 2)"
  "rune_len s = 4 \<Longrightarrow> four_bytes (byte_at s 0) (byte_at s 1) (byte_at s 2) (byte_at s 3)"
  by (simp_all add: rune_len_def split: if_splits)

lemma rune_len_tail:
  assumes "0 < i" and "i < rune_len s"
  shows "continuation (byte_at s i)"
proof -
  have "i = 1 \<or> i = 2 \<or> i = 3" and "rune_len s = 2 \<or> rune_len s = 3 \<or> rune_len s = 4"
    using assms rune_len_bound [of s] by linarith+
  then show ?thesis
    using assms(2) rune_len_shape [of s] unfolding rune_bytes by (elim disjE) simp_all
qed

lemma rune_len_le: "rune_len s \<le> length s"
proof (cases "rune_len s \<le> 1")
  case True
  then show ?thesis by (cases s) (auto simp: rune_len_def)
next
  case False
  then have "continuation (byte_at s (rune_len s - 1))" by (intro rune_len_tail) auto
  then have "rune_len s - 1 < length s" using continuation_at by blast
  then show ?thesis using False by linarith
qed

lemma rune_len_head: "0 < rune_len s \<Longrightarrow> s \<noteq> [] \<and> rune_start (s ! 0)"
  by (auto simp: rune_len_def rune_bytes rune_start_def continuation_def byte_at_def split: if_splits)

lemma rune_len_take:
  assumes "rune_len s \<le> k" and "0 < rune_len s"
  shows "rune_len (take k s) = rune_len s"
proof -
  have b: "byte_at (take k s) i = byte_at s i" if "i < rune_len s" for i
    using that assms by (simp add: byte_at_def)
  have "take k s \<noteq> []" using assms rune_len_head by auto
  then show ?thesis
    using assms b by (auto simp: rune_len_def rune_bytes split: if_splits)
qed

lemma valid_drop: "utf8_valid s \<Longrightarrow> s \<noteq> [] \<Longrightarrow> 0 < rune_len s \<and> utf8_valid (drop (rune_len s) s)"
  by (subst (asm) utf8_valid.simps) (simp split: if_splits)

lemma valid_head: "utf8_valid s \<Longrightarrow> s \<noteq> [] \<Longrightarrow> rune_start (s ! 0)"
  using valid_drop rune_len_head by blast

section \<open>Cutting at a rune boundary\<close>

lemma back_up_le: "back_up s n \<le> n"
  by (induction s n rule: back_up.induct) auto

lemma back_up_in_rune:
  assumes "k < rune_len s"
  shows "back_up s k = 0"
  using assms
proof (induction k)
  case (Suc k)
  then have "\<not> rune_start (s ! Suc k)" using rune_len_tail continuation_at by blast
  then show ?case using Suc by simp
qed simp

lemma back_up_past_rune:
  assumes "0 < n" and "n + k < length s" and "rune_start (s ! n)"
  shows "back_up s (n + k) = n + back_up (drop n s) k"
  using assms
proof (induction k)
  case 0
  then show ?case by (cases n) auto
next
  case (Suc k)
  then show ?case by simp
qed

lemma truncate_utf8_valid:
  assumes "utf8_valid s" and "limit < length s"
  shows "utf8_valid (truncate_utf8 s limit) \<and> limit < back_up s limit + 4"
  using assms
proof (induction s arbitrary: limit rule: utf8_valid.induct)
  case (1 s)
  let ?n = "rune_len s"
  have "s \<noteq> []" using "1.prems"(2) by auto
  then have s: "s \<noteq> []" "0 < ?n" "utf8_valid (drop ?n s)" using "1.prems"(1) valid_drop [of s] by auto
  show ?case
  proof (cases "limit < ?n")
    case True
    then show ?thesis using back_up_in_rune [OF True] rune_len_bound [of s]
      by (simp add: truncate_utf8_def utf8_valid.simps)
  next
    case False
    let ?k = "limit - ?n" and ?r = "drop ?n s"
    have k: "?k < length ?r" and lim: "limit = ?n + ?k" using False "1.prems"(2) by simp_all
    have "rune_start (s ! ?n)" using valid_head [OF s(3)] k by simp
    then have bu: "back_up s limit = ?n + back_up ?r ?k"
      using back_up_past_rune [of ?n ?k s] s(2) "1.prems"(2) lim by simp
    have ih: "utf8_valid (truncate_utf8 ?r ?k) \<and> ?k < back_up ?r ?k + 4"
      using "1.IH" s k by auto
    let ?t = "truncate_utf8 s limit"
    have "rune_len ?t = ?n" using rune_len_take [of s "back_up s limit"] s(2) bu by (simp add: truncate_utf8_def)
    moreover have "drop ?n ?t = truncate_utf8 ?r ?k" using bu by (simp add: truncate_utf8_def drop_take)
    moreover have "?t \<noteq> []" using bu s by (simp add: truncate_utf8_def)
    ultimately have "utf8_valid ?t" using ih s(2) by (subst utf8_valid.simps) simp
    then show ?thesis using ih bu lim by simp
  qed
qed

end
