(* ===== verification/Tools.thy ===== *)
theory Tools
  imports Patch_Headers Workspace Utf8
begin

text \<open>
  Package \<^verbatim>\<open>internal/tools\<close>: reading a file (\<^verbatim>\<open>read.go\<close>), creating one (\<^verbatim>\<open>create.go\<close>), applying
  a patch through Git (\<^verbatim>\<open>patch.go\<close>) and the registry (\<^verbatim>\<open>registry.go\<close>). A tool is a function from
  the decoded arguments and the file system to a result or an error and the file system it
  leaves. Parameters: following symbolic links, the Git program, SHA-256 (in hexadecimal), and
  which system calls fail.
\<close>

section \<open>Results and the file system\<close>

text \<open>\<^verbatim>\<open>Data\<close> is the value that is encoded, not its bytes.\<close>

record tool_result =
  tr_code :: string
  tr_data :: "json option"
  tr_text :: string
  tr_sha256 :: digest
  tr_truncated :: bool

definition empty_tool_result :: tool_result where
  "empty_tool_result = \<lparr>tr_code = [], tr_data = None, tr_text = [], tr_sha256 = [], tr_truncated = False\<rparr>"

text \<open>The files that \<^verbatim>\<open>os.ReadFile\<close> can read, and the paths something else occupies (a directory,
  a link, a file that cannot be read). The record is open: Git's own state is in its extension.\<close>

record file_system =
  files_at :: "apath \<Rightarrow> string option"
  occupied :: "apath \<Rightarrow> bool"

record 'w tool_env =
  te_links :: "'w file_system_scheme \<Rightarrow> apath \<Rightarrow> apath option"
  te_sha :: "string \<Rightarrow> digest"
  te_git :: "string list \<Rightarrow> string \<Rightarrow> 'w file_system_scheme \<Rightarrow> string option \<times> 'w file_system_scheme"

definition normalize_path_error :: "workspace_error \<Rightarrow> tool_error" where
  "normalize_path_error e = (if e = ErrWorkspaceProtected then ErrProtectedPath else ErrResolvePath)"

definition resolve_tool_path ::
    "'w tool_env \<Rightarrow> 'w file_system_scheme \<Rightarrow> apath \<Rightarrow> string \<Rightarrow> (tool_error, apath) result" where
  "resolve_tool_path env fs root path =
     (case resolve (te_links env fs) root path of
        Inl e \<Rightarrow> Inl (normalize_path_error e)
      | Inr p \<Rightarrow> Inr p)"

definition contains_nul :: "string \<Rightarrow> bool" where
  "contains_nul content \<longleftrightarrow> list_ex (\<lambda>b. code b = 0) content"

definition is_binary :: "string \<Rightarrow> bool" where
  "is_binary content \<longleftrightarrow> \<not> utf8_valid content \<or> contains_nul content"

section \<open>Reading (read.go)\<close>

definition read_execute ::
    "'w tool_env \<Rightarrow> bool \<Rightarrow> apath \<Rightarrow> int \<Rightarrow> json option \<Rightarrow> 'w file_system_scheme
     \<Rightarrow> (tool_error, tool_result) result" where
  "read_execute env cancelled root limit raw fs =
     (if cancelled then Inl ErrContext
      else
        (case Option.bind raw (struct_string ''path'') of
           None \<Rightarrow> Inl ErrInvalidArgs
         | Some path \<Rightarrow>
             if path = [] then Inl ErrInvalidArgs
             else
               (case resolve_tool_path env fs root path of
                  Inl e \<Rightarrow> Inl e
                | Inr p \<Rightarrow>
                    (case files_at fs p of
                       None \<Rightarrow> Inl ErrFile
                     | Some content \<Rightarrow>
                         if is_binary content then Inl ErrBinaryFile
                         else if 0 \<le> limit \<and> limit < int (length content)
                         then Inr (empty_tool_result\<lparr>tr_code := ''READ'',
                                     tr_text := truncate_utf8 content (nat limit),
                                     tr_sha256 := te_sha env content, tr_truncated := True\<rparr>)
                         else Inr (empty_tool_result\<lparr>tr_code := ''READ'', tr_text := content,
                                     tr_sha256 := te_sha env content\<rparr>)))))"

section \<open>Creating (create.go)\<close>

text \<open>Which call on the new file fails, and whether the deferred \<^verbatim>\<open>os.Remove\<close> works.\<close>

datatype create_fault = NoFault | OpenFault | WriteFault nat | SyncFault | CloseFault

definition put_file :: "apath \<Rightarrow> string \<Rightarrow> 'w file_system_scheme \<Rightarrow> 'w file_system_scheme" where
  "put_file p content fs = fs\<lparr>files_at := (files_at fs)(p \<mapsto> content)\<rparr>"

definition remove_file :: "bool \<Rightarrow> apath \<Rightarrow> 'w file_system_scheme \<Rightarrow> 'w file_system_scheme" where
  "remove_file works p fs = (if works then fs\<lparr>files_at := (files_at fs)(p := None)\<rparr> else fs)"

text \<open>\<^verbatim>\<open>os.OpenFile\<close> with \<^verbatim>\<open>O_CREATE|O_EXCL\<close>.\<close>

definition open_excl ::
    "create_fault \<Rightarrow> apath \<Rightarrow> 'w file_system_scheme \<Rightarrow> (tool_error, 'w file_system_scheme) result" where
  "open_excl fault p fs =
     (if files_at fs p \<noteq> None \<or> occupied fs p then Inl ErrAlreadyExists
      else if fault = OpenFault then Inl ErrFile
      else Inr (put_file p [] fs))"

definition create_execute ::
    "'w tool_env \<Rightarrow> create_fault \<Rightarrow> bool \<Rightarrow> bool \<Rightarrow> apath \<Rightarrow> int \<Rightarrow> json option \<Rightarrow> 'w file_system_scheme
     \<Rightarrow> (tool_error, tool_result) result \<times> 'w file_system_scheme" where
  "create_execute env fault remove_works cancelled root limit raw fs =
     (if cancelled then (Inl ErrContext, fs)
      else
        (case (Option.bind raw (struct_string ''path''), Option.bind raw (struct_string ''content'')) of
           (Some path, Some content) \<Rightarrow>
             if path = [] then (Inl ErrInvalidArgs, fs)
             else if 0 \<le> limit \<and> limit < int (length content) then (Inl ErrCreateLimit, fs)
             else
               (case resolve_tool_path env fs root path of
                  Inl e \<Rightarrow> (Inl e, fs)
                | Inr p \<Rightarrow>
                    (case open_excl fault p fs of
                       Inl e \<Rightarrow> (Inl e, fs)
                     | Inr fs1 \<Rightarrow>
                         (case fault of
                            WriteFault n \<Rightarrow>
                              (Inl ErrFile, remove_file remove_works p (put_file p (take n content) fs1))
                          | SyncFault \<Rightarrow> (Inl ErrFile, remove_file remove_works p (put_file p content fs1))
                          | CloseFault \<Rightarrow> (Inl ErrFile, remove_file remove_works p (put_file p content fs1))
                          | _ \<Rightarrow>
                              (Inr (empty_tool_result\<lparr>tr_code := ''CREATE'',
                                      tr_data := Some (JArr [JStr path]),
                                      tr_sha256 := te_sha env content\<rparr>),
                               put_file p content fs1))))
         | _ \<Rightarrow> (Inl ErrInvalidArgs, fs)))"

section \<open>Patching (patch.go)\<close>

definition apply_check_args :: "string list" where
  "apply_check_args = [''apply'', ''--check'', ''--whitespace=nowarn'', ''-'']"

definition apply_args :: "string list" where
  "apply_args = [''apply'', ''--whitespace=nowarn'', ''-'']"

definition diff_args :: "string list" where
  "diff_args = [''diff'', ''--binary'']"

definition reverse_args :: "string list" where
  "reverse_args = [''apply'', ''-R'', ''--whitespace=nowarn'', ''-'']"

text \<open>\<^verbatim>\<open>prepare\<close>: the resolved paths with the digests of their files.\<close>

fun prepare ::
    "'w tool_env \<Rightarrow> 'w file_system_scheme \<Rightarrow> apath \<Rightarrow> string list
     \<Rightarrow> (tool_error, (apath \<times> digest) list) result" where
  "prepare env fs root [] = Inr []"
| "prepare env fs root (path # paths) =
     (case resolve_tool_path env fs root path of
        Inl e \<Rightarrow> Inl e
      | Inr p \<Rightarrow>
          (case files_at fs p of
             None \<Rightarrow> Inl ErrFile
           | Some content \<Rightarrow>
               if is_binary content then Inl ErrBinaryFile
               else (case prepare env fs root paths of
                       Inl e \<Rightarrow> Inl e
                     | Inr before \<Rightarrow> Inr ((p, te_sha env content) # before))))"

text \<open>\<^verbatim>\<open>checkBaselines\<close>; the order of the list stands for the iteration order of the map.\<close>

fun check_baselines ::
    "'w tool_env \<Rightarrow> 'w file_system_scheme \<Rightarrow> apath \<Rightarrow> (string \<times> digest) list \<Rightarrow> (tool_error, unit) result" where
  "check_baselines env fs root [] = Inr ()"
| "check_baselines env fs root ((path, expected) # bs) =
     (case resolve_tool_path env fs root path of
        Inl e \<Rightarrow> Inl e
      | Inr p \<Rightarrow>
          (case files_at fs p of
             None \<Rightarrow> Inl ErrFile
           | Some content \<Rightarrow>
               if te_sha env content \<noteq> expected then Inl ErrStaleBaseline
               else check_baselines env fs root bs))"

definition unchanged :: "'w tool_env \<Rightarrow> (apath \<times> digest) list \<Rightarrow> 'w file_system_scheme \<Rightarrow> bool" where
  "unchanged env before fs \<longleftrightarrow>
     list_all (\<lambda>(p, d). case files_at fs p of None \<Rightarrow> False | Some content \<Rightarrow> te_sha env content = d) before"

definition recover_after_diff_failure ::
    "'w tool_env \<Rightarrow> string \<Rightarrow> (apath \<times> digest) list \<Rightarrow> 'w file_system_scheme
     \<Rightarrow> tool_error \<times> 'w file_system_scheme" where
  "recover_after_diff_failure env patch before fs =
     (case te_git env reverse_args patch fs of
        (None, fs1) \<Rightarrow> (ErrPatchAtomicityBreach, fs1)
      | (Some _, fs1) \<Rightarrow>
          if \<not> unchanged env before fs1 then (ErrPatchAtomicityBreach, fs1) else (ErrPatchConflict, fs1))"

text \<open>The part of \<^verbatim>\<open>Execute\<close> that runs Git, after the arguments have been decoded and the headers
  parsed.\<close>

definition apply_patch ::
    "'w tool_env \<Rightarrow> apath \<Rightarrow> string \<Rightarrow> (string \<times> digest) list \<Rightarrow> string list \<Rightarrow> (apath \<times> digest) list
     \<Rightarrow> 'w file_system_scheme \<Rightarrow> (tool_error, tool_result) result \<times> 'w file_system_scheme" where
  "apply_patch env root patch baselines paths before fs =
     (case te_git env apply_check_args patch fs of
        (None, fs1) \<Rightarrow> (Inl ErrPatchConflict, fs1)
      | (Some _, fs1) \<Rightarrow>
          (case check_baselines env fs1 root baselines of
             Inl e \<Rightarrow> (Inl e, fs1)
           | Inr _ \<Rightarrow>
               (case te_git env apply_args patch fs1 of
                  (None, fs2) \<Rightarrow>
                    (Inl (if \<not> unchanged env before fs2 then ErrPatchAtomicityBreach else ErrPatchConflict), fs2)
                | (Some _, fs2) \<Rightarrow>
                    (case te_git env diff_args [] fs2 of
                       (None, fs3) \<Rightarrow>
                         (let (e, fs4) = recover_after_diff_failure env patch before fs3 in (Inl e, fs4))
                     | (Some diff, fs3) \<Rightarrow>
                         (Inr (empty_tool_result\<lparr>tr_code := ''PATCH'',
                                 tr_data := Some (JArr (map JStr (sort paths))),
                                 tr_sha256 := te_sha env diff\<rparr>), fs3)))))"

definition patch_execute ::
    "'w tool_env \<Rightarrow> bool \<Rightarrow> apath \<Rightarrow> patch_limits \<Rightarrow> json option \<Rightarrow> 'w file_system_scheme
     \<Rightarrow> (tool_error, tool_result) result \<times> 'w file_system_scheme" where
  "patch_execute env cancelled root limits raw fs =
     (if cancelled then (Inl ErrContext, fs)
      else
        (case (Option.bind raw (struct_string ''patch''), Option.bind raw (struct_string_map ''baselines'')) of
           (Some patch, Some baselines) \<Rightarrow>
             if patch = [] then (Inl ErrInvalidArgs, fs)
             else
               (case parse_patch_headers patch limits of
                  Inl e \<Rightarrow> (Inl e, fs)
                | Inr h \<Rightarrow>
                    (case prepare env fs root (paths_of h) of
                       Inl e \<Rightarrow> (Inl e, fs)
                     | Inr before \<Rightarrow>
                         (case check_baselines env fs root baselines of
                            Inl e \<Rightarrow> (Inl e, fs)
                          | Inr _ \<Rightarrow> apply_patch env root patch baselines (paths_of h) before fs)))
         | _ \<Rightarrow> (Inl ErrInvalidArgs, fs)))"

section \<open>The registry (registry.go)\<close>

text \<open>A tool by its kind; \<^verbatim>\<open>NewRegistry\<close> refuses a nil tool (\<^const>\<open>None\<close>), an unnamed one and a
  second tool of a kind.\<close>

type_synonym 't tool_registry = "(string \<times> 't) list"

fun new_registry_from :: "'t tool_registry \<Rightarrow> (string \<times> 't) option list \<Rightarrow> (tool_error, 't tool_registry) result" where
  "new_registry_from reg [] = Inr reg"
| "new_registry_from reg (None # ts) = Inl ErrDuplicateTool"
| "new_registry_from reg (Some (k, t) # ts) =
     (if k = [] then Inl ErrDuplicateTool
      else if map_of reg k \<noteq> None then Inl ErrDuplicateTool
      else new_registry_from ((k, t) # reg) ts)"

definition new_registry :: "(string \<times> 't) option list \<Rightarrow> (tool_error, 't tool_registry) result" where
  "new_registry ts = new_registry_from [] ts"

definition registry_execute ::
    "(json option \<Rightarrow> 'w \<Rightarrow> (tool_error, tool_result) result \<times> 'w) tool_registry
     \<Rightarrow> action \<Rightarrow> 'w \<Rightarrow> (tool_error, tool_result) result \<times> 'w" where
  "registry_execute reg a w =
     (case map_of reg (kind a) of None \<Rightarrow> (Inl ErrUnknownTool, w) | Some t \<Rightarrow> t (args a) w)"

end
