(* ===== verification/Tools_Correct.thy ===== *)
theory Tools_Correct
  imports Tools
begin

text \<open>
  What the tools promise: a read returns the file or a prefix of it cut at a rune boundary, a
  creation either adds exactly the file or leaves the file system as it was, a failed patch leaves
  the files it names as they were, and a patch that went through was applied to the files its
  baselines describe.
\<close>

section \<open>Reading\<close>

text \<open>A successful read resolves inside the workspace, hashes the whole file, and returns the
  file or, when it is longer than the limit, the longest prefix up to the limit that does not split
  a rune (so at most three bytes short); the text is always valid UTF-8 without a zero byte.\<close>

theorem read_returns_a_clean_prefix:
  assumes "read_execute env cancelled root limit raw fs = Inr r"
  shows "\<exists>path p content. Option.bind raw (struct_string ''path'') = Some path
      \<and> resolve_tool_path env fs root path = Inr p \<and> files_at fs p = Some content
      \<and> tr_sha256 r = te_sha env content
      \<and> prefix (tr_text r) content \<and> utf8_valid (tr_text r) \<and> \<not> contains_nul (tr_text r)
      \<and> (tr_truncated r \<longleftrightarrow> 0 \<le> limit \<and> limit < int (length content))
      \<and> (\<not> tr_truncated r \<longrightarrow> tr_text r = content)
      \<and> (tr_truncated r \<longrightarrow> int (length (tr_text r)) \<le> limit \<and> limit < int (length (tr_text r)) + 4)"
proof -
  obtain path p content where h: "Option.bind raw (struct_string ''path'') = Some path"
      "resolve_tool_path env fs root path = Inr p" "files_at fs p = Some content" "\<not> is_binary content"
    and r: "r = (if 0 \<le> limit \<and> limit < int (length content)
        then empty_tool_result\<lparr>tr_code := ''READ'', tr_text := truncate_utf8 content (nat limit),
               tr_sha256 := te_sha env content, tr_truncated := True\<rparr>
        else empty_tool_result\<lparr>tr_code := ''READ'', tr_text := content, tr_sha256 := te_sha env content\<rparr>)"
    using assms by (auto simp: read_execute_def split: if_splits option.splits sum.splits)
  have valid: "utf8_valid content" and nul: "\<not> contains_nul content"
    using h(4) by (simp_all add: is_binary_def)
  show ?thesis
  proof (cases "0 \<le> limit \<and> limit < int (length content)")
    case True
    then have lim: "nat limit < length content" by (simp add: nat_less_iff)
    let ?t = "truncate_utf8 content (nat limit)"
    have len: "length ?t = back_up content (nat limit)"
      using lim back_up_le [of content "nat limit"] by (simp add: truncate_utf8_def)
    have "utf8_valid ?t" "int (length ?t) \<le> limit" "limit < int (length ?t) + 4"
      using truncate_utf8_valid [OF valid lim] len back_up_le [of content "nat limit"] True by auto
    moreover have "prefix ?t content" "\<not> contains_nul ?t"
      using nul by (auto simp: truncate_utf8_def take_is_prefix contains_nul_def list_ex_iff dest: in_set_takeD)
    ultimately show ?thesis using h r True by (intro exI) (auto simp: empty_tool_result_def)
  next
    case False
    then have "r = empty_tool_result\<lparr>tr_code := ''READ'', tr_text := content, tr_sha256 := te_sha env content\<rparr>"
      using r by argo
    then show ?thesis using h valid nul False
      by (intro exI [of _ path] exI [of _ p] exI [of _ content] conjI) (auto simp: empty_tool_result_def)
  qed
qed

definition sample_env :: "unit tool_env" where
  "sample_env = \<lparr>te_links = \<lambda>_ p. if p = [''r''] then Some p else None, te_sha = id,
     te_git = \<lambda>args input fs.
       if args = apply_args then (Some [], put_file [''r'', ''x.go''] ''b'' fs)
       else if args = diff_args then (Some ''diff'', fs)
       else if args = reverse_args then (Some [], put_file [''r'', ''x.go''] ''a'' fs)
       else (Some [], fs)\<rparr>"

definition sample_fs :: file_system where
  "sample_fs = \<lparr>files_at = [[''r'', ''x.go''] \<mapsto> ''a''], occupied = \<lambda>_. False\<rparr>"

theorem read_returns_a_clean_prefix_witness:
  "\<exists>r. read_execute sample_env False [''r''] 2 (Some (JObj [(''path'', JStr ''x.go'')]))
      (put_file [''r'', ''x.go''] [CHR ''a'', CHR 0xC3, CHR 0xA9] sample_fs) = Inr r
    \<and> utf8_valid (tr_text r)"
proof -
  let ?fs = "put_file [''r'', ''x.go''] [CHR ''a'', CHR 0xC3, CHR 0xA9] sample_fs"
  have r: "read_execute sample_env False [''r''] 2 (Some (JObj [(''path'', JStr ''x.go'')])) ?fs
      = Inr (empty_tool_result\<lparr>tr_code := ''READ'', tr_text := ''a'',
               tr_sha256 := [CHR ''a'', CHR 0xC3, CHR 0xA9], tr_truncated := True\<rparr>)"
    by code_simp
  show ?thesis using r read_returns_a_clean_prefix [OF r] by auto
qed

section \<open>Creating\<close>

lemma open_excl_Inr: "open_excl fault p fs = Inr fs1 \<Longrightarrow>
    files_at fs p = None \<and> \<not> occupied fs p \<and> fs1 = put_file p [] fs"
  by (auto simp: open_excl_def split: if_splits)

lemma remove_put_file: "files_at fs p = None \<Longrightarrow> remove_file True p (put_file p c (put_file p [] fs)) = fs"
  by (simp add: remove_file_def put_file_def fun_upd_idem)

lemma put_put_file: "put_file p c (put_file p d fs) = put_file p c fs"
  by (simp add: put_file_def)

text \<open>The one way in which a call to the tool changes anything.\<close>

lemma create_execute_cases:
  assumes "create_execute env fault remove_works cancelled root limit raw fs = (r, fs')"
  shows "(fs' = fs \<and> (\<exists>e. r = Inl e))
    \<or> (\<exists>path content p. Option.bind raw (struct_string ''path'') = Some path
         \<and> Option.bind raw (struct_string ''content'') = Some content
         \<and> resolve_tool_path env fs root path = Inr p \<and> files_at fs p = None \<and> \<not> occupied fs p
         \<and> \<not> (0 \<le> limit \<and> limit < int (length content))
         \<and> ((\<exists>res. r = Inr res \<and> tr_data res = Some (JArr [JStr path]) \<and> tr_sha256 res = te_sha env content)
              \<and> fs' = put_file p content fs
            \<or> (\<exists>e. r = Inl e) \<and> (\<exists>c. fs' = remove_file remove_works p (put_file p c fs))))"
proof (cases "\<exists>e. r = Inl e \<and> fs' = fs")
  case False
  obtain path content where d: "Option.bind raw (struct_string ''path'') = Some path"
      "Option.bind raw (struct_string ''content'') = Some content" "\<not> cancelled" "path \<noteq> []"
      "\<not> (0 \<le> limit \<and> limit < int (length content))"
    using False assms by (auto simp: create_execute_def split: if_splits option.splits)
  obtain p where p: "resolve_tool_path env fs root path = Inr p"
    using False assms d by (auto simp: create_execute_def split: sum.splits)
  obtain fs1 where o1: "open_excl fault p fs = Inr fs1"
    using False assms d p by (auto simp: create_execute_def split: sum.splits)
  show ?thesis
    using assms d p o1 open_excl_Inr [OF o1]
    by (cases fault) (auto simp: create_execute_def put_put_file empty_tool_result_def)
qed auto

text \<open>Creating a file never touches an existing one; when it succeeds the file system gains
  exactly the requested content at the resolved path, which was free; and when it fails, after any
  of the system calls, the file system is what it was, provided the clean-up could remove the file.\<close>

theorem create_file_is_atomic:
  assumes "create_execute env fault remove_works cancelled root limit raw fs = (r, fs')"
  shows "(\<forall>q c. files_at fs q = Some c \<longrightarrow> files_at fs' q = Some c)
    \<and> ((\<exists>e. r = Inl e) \<and> remove_works \<longrightarrow> fs' = fs)
    \<and> (\<forall>res. r = Inr res \<longrightarrow> (\<exists>path content p. Option.bind raw (struct_string ''path'') = Some path
         \<and> Option.bind raw (struct_string ''content'') = Some content
         \<and> resolve_tool_path env fs root path = Inr p \<and> files_at fs p = None \<and> \<not> occupied fs p
         \<and> fs' = put_file p content fs \<and> tr_sha256 res = te_sha env content
         \<and> (0 \<le> limit \<longrightarrow> int (length content) \<le> limit)))"
  using create_execute_cases [OF assms]
proof (elim disjE exE conjE)
  fix path content p e c
  assume "files_at fs p = None" "r = Inl e" "fs' = remove_file remove_works p (put_file p c fs)"
  then show ?thesis
    using remove_put_file [of fs p c] by (auto simp: remove_file_def put_file_def put_put_file)
qed (auto simp: put_file_def)

theorem create_file_is_atomic_witness:
  "snd (create_execute sample_env (WriteFault 2) True False [''r''] 10
      (Some (JObj [(''path'', JStr ''new.go''), (''content'', JStr ''hello'')])) sample_fs) = sample_fs"
proof -
  let ?raw = "Some (JObj [(''path'', JStr ''new.go''), (''content'', JStr ''hello'')])"
  obtain r fs' where c: "create_execute sample_env (WriteFault 2) True False [''r''] 10 ?raw sample_fs = (r, fs')"
    by (rule prod.exhaust)
  have "fst (create_execute sample_env (WriteFault 2) True False [''r''] 10 ?raw sample_fs) = Inl ErrFile"
    by code_simp
  then show ?thesis using create_file_is_atomic [OF c] c by simp
qed

section \<open>Patching\<close>

lemma prepare_Inr:
  assumes "prepare env fs root paths = Inr before" and "path \<in> set paths"
  shows "\<exists>p content. resolve_tool_path env fs root path = Inr p \<and> files_at fs p = Some content
     \<and> \<not> is_binary content \<and> (p, te_sha env content) \<in> set before"
  using assms
proof (induction env fs root paths arbitrary: before rule: prepare.induct)
  case (2 env fs root q paths)
  then show ?case by (fastforce split: sum.splits option.splits if_splits)
qed simp

lemma unchanged_same_digest:
  assumes "unchanged env before fs'" and "(p, te_sha env content) \<in> set before"
  shows "\<exists>content'. files_at fs' p = Some content' \<and> te_sha env content' = te_sha env content"
  using assms by (auto simp: unchanged_def list_all_iff split: option.splits)

lemma check_baselines_ok:
  assumes "check_baselines env fs root bs = Inr ()" and "(path, d) \<in> set bs"
  shows "\<exists>p content. resolve_tool_path env fs root path = Inr p \<and> files_at fs p = Some content
     \<and> te_sha env content = d"
  using assms
proof (induction env fs root bs rule: check_baselines.induct)
  case (2 env fs root q e bs)
  then show ?case by (auto split: sum.splits option.splits if_splits)
qed simp

lemma apply_patch_failed:
  assumes "apply_patch env root patch baselines paths before fs = (Inl e, fs')"
    and "e \<noteq> ErrPatchAtomicityBreach"
    and "files_at (snd (te_git env apply_check_args patch fs)) = files_at fs"
  shows "files_at fs' = files_at fs \<or> unchanged env before fs'"
  using assms
  by (auto simp: apply_patch_def recover_after_diff_failure_def
      split: prod.splits option.splits sum.splits if_splits)

text \<open>What a call of the patch tool does before it runs Git.\<close>

lemma patch_execute_cases:
  assumes "patch_execute env cancelled root limits raw fs = (r, fs')"
  shows "(fs' = fs \<and> (\<exists>e. r = Inl e))
    \<or> (\<exists>patch baselines h before. Option.bind raw (struct_string ''patch'') = Some patch
         \<and> Option.bind raw (struct_string_map ''baselines'') = Some baselines
         \<and> parse_patch_headers patch limits = Inr h \<and> prepare env fs root (paths_of h) = Inr before
         \<and> apply_patch env root patch baselines (paths_of h) before fs = (r, fs'))"
  using assms
  by (auto simp: patch_execute_def split: if_splits option.splits sum.splits)

text \<open>C29. A patch call that fails with any error other than the atomicity breach leaves every file
  that the patch's headers name as it was: nothing was run, or Git refused the patch and the files
  still have their digests, or the diff failed and the reverse patch restored them. The tool compares
  SHA-256 digests, so the only other outcome is that the file's contents before and after the call
  are themselves two texts of one digest. The one fact used about Git is that \<^verbatim>\<open>apply --check\<close>
  writes no file.\<close>

theorem failed_patch_leaves_files:
  assumes "patch_execute env cancelled root limits raw fs = (Inl e, fs')" and "e \<noteq> ErrPatchAtomicityBreach"
    and "\<And>q w. files_at (snd (te_git env apply_check_args q w)) = files_at w"
    and "Option.bind raw (struct_string ''patch'') = Some patch" and "parse_patch_headers patch limits = Inr h"
    and "path \<in> set (paths_of h)" and "resolve_tool_path env fs root path = Inr p"
  shows "files_at fs' p = files_at fs p
    \<or> (\<exists>c c'. files_at fs p = Some c \<and> files_at fs' p = Some c' \<and> c' \<noteq> c \<and> te_sha env c' = te_sha env c)"
  using patch_execute_cases [OF assms(1)]
proof (elim disjE exE conjE)
  fix patch' baselines h' before
  assume g: "Option.bind raw (struct_string ''patch'') = Some patch'" "parse_patch_headers patch' limits = Inr h'"
    "prepare env fs root (paths_of h') = Inr before"
    "apply_patch env root patch' baselines (paths_of h') before fs = (Inl e, fs')"
  then have h: "h' = h" using assms(4,5) by simp
  obtain content where content: "files_at fs p = Some content" "(p, te_sha env content) \<in> set before"
    using prepare_Inr [OF g(3)] assms(6,7) h by force
  from apply_patch_failed [OF g(4) assms(2) assms(3)] show ?thesis
  proof
    assume "unchanged env before fs'"
    then show ?thesis using unchanged_same_digest [OF _ content(2)] content(1) by metis
  qed simp
qed simp

theorem failed_patch_leaves_files_witness:
  "\<exists>fs'. patch_execute (sample_env\<lparr>te_git := \<lambda>args input fs.
        if args = apply_args then (Some [], put_file [''r'', ''x.go''] ''b'' fs)
        else if args = diff_args then (None, fs)
        else if args = reverse_args then (Some [], put_file [''r'', ''x.go''] ''a'' fs) else (Some [], fs)\<rparr>)
      False [''r''] \<lparr>limit_files = 0, limit_lines = 0\<rparr>
      (Some (JObj [(''patch'', JStr (''--- a/x.go'' @ newline # ''+++ b/x.go'' @ newline # ''@@ -1 +1 @@''
        @ newline # ''-a'' @ newline # ''+b'' @ [newline]))])) sample_fs = (Inl ErrPatchConflict, fs')
    \<and> files_at fs' [''r'', ''x.go''] = Some ''a''"
proof -
  let ?env = "sample_env\<lparr>te_git := \<lambda>args input fs.
        if args = apply_args then (Some [], put_file [''r'', ''x.go''] ''b'' fs)
        else if args = diff_args then (None, fs)
        else if args = reverse_args then (Some [], put_file [''r'', ''x.go''] ''a'' fs) else (Some [], fs)\<rparr>"
  let ?p = "''--- a/x.go'' @ newline # ''+++ b/x.go'' @ newline # ''@@ -1 +1 @@''
        @ newline # ''-a'' @ newline # ''+b'' @ [newline]"
  let ?raw = "Some (JObj [(''patch'', JStr ?p)])"
  let ?lim = "\<lparr>limit_files = 0, limit_lines = 0\<rparr>"
  obtain r fs' where run: "patch_execute ?env False [''r''] ?lim ?raw sample_fs = (r, fs')"
    by (rule prod.exhaust)
  have "fst (patch_execute ?env False [''r''] ?lim ?raw sample_fs) = Inl ErrPatchConflict" by code_simp
  then have r: "patch_execute ?env False [''r''] ?lim ?raw sample_fs = (Inl ErrPatchConflict, fs')"
    using run by simp
  have git: "files_at (snd (te_git ?env apply_check_args q w)) = files_at w" for q w
    by (simp add: apply_check_args_def apply_args_def diff_args_def reverse_args_def)
  have d: "Option.bind ?raw (struct_string ''patch'') = Some ?p" by code_simp
  have h: "parse_patch_headers ?p ?lim = Inr \<lparr>paths_of = [''x.go''], changed_lines = 2\<rparr>" by code_simp
  have p: "resolve_tool_path ?env sample_fs [''r''] ''x.go'' = Inr [''r'', ''x.go'']" by code_simp
  have sha: "te_sha ?env = id" by (simp add: sample_env_def)
  have "files_at fs' [''r'', ''x.go''] = files_at sample_fs [''r'', ''x.go'']
      \<or> (\<exists>c c'. files_at sample_fs [''r'', ''x.go''] = Some c \<and> files_at fs' [''r'', ''x.go''] = Some c' \<and> c' \<noteq> c
           \<and> te_sha ?env c' = te_sha ?env c)"
    by (rule failed_patch_leaves_files [OF r _ git d h _ p]) simp_all
  then have "files_at fs' [''r'', ''x.go''] = files_at sample_fs [''r'', ''x.go'']" unfolding sha by simp
  moreover have "files_at sample_fs [''r'', ''x.go''] = Some ''a''" by (simp add: sample_fs_def)
  ultimately show ?thesis using r by auto
qed

text \<open>A patch call that succeeds was made for one to five files that resolve inside the
  workspace and held text, and Git applied it to a state in which every baseline the caller gave
  still matched its file; the answer lists those files in order and hashes the diff that followed.\<close>

theorem successful_patch_was_checked:
  assumes "patch_execute env cancelled root limits raw fs = (Inr r, fs')"
  shows "\<exists>patch baselines h fs1 fs2 out diff.
      Option.bind raw (struct_string ''patch'') = Some patch
      \<and> Option.bind raw (struct_string_map ''baselines'') = Some baselines
      \<and> parse_patch_headers patch limits = Inr h
      \<and> (\<forall>path \<in> set (paths_of h). \<exists>p content. resolve_tool_path env fs root path = Inr p
           \<and> files_at fs p = Some content \<and> \<not> is_binary content)
      \<and> te_git env apply_args patch fs1 = (Some out, fs2)
      \<and> (\<forall>(path, d) \<in> set baselines. \<exists>p content. resolve_tool_path env fs1 root path = Inr p
           \<and> files_at fs1 p = Some content \<and> te_sha env content = d)
      \<and> te_git env diff_args [] fs2 = (Some diff, fs')
      \<and> tr_data r = Some (JArr (map JStr (sort (paths_of h)))) \<and> tr_sha256 r = te_sha env diff"
  using patch_execute_cases [OF assms]
proof (elim disjE exE conjE)
  fix patch baselines h before
  assume g: "Option.bind raw (struct_string ''patch'') = Some patch"
    "Option.bind raw (struct_string_map ''baselines'') = Some baselines"
    "parse_patch_headers patch limits = Inr h" "prepare env fs root (paths_of h) = Inr before"
    "apply_patch env root patch baselines (paths_of h) before fs = (Inr r, fs')"
  obtain fs1 fs2 out diff where a: "check_baselines env fs1 root baselines = Inr ()"
      "te_git env apply_args patch fs1 = (Some out, fs2)" "te_git env diff_args [] fs2 = (Some diff, fs')"
      "r = empty_tool_result\<lparr>tr_code := ''PATCH'', tr_data := Some (JArr (map JStr (sort (paths_of h)))),
             tr_sha256 := te_sha env diff\<rparr>"
    using g(5) by (auto simp: apply_patch_def recover_after_diff_failure_def
        split: prod.splits option.splits sum.splits if_splits)
  have paths: "\<forall>path \<in> set (paths_of h). \<exists>p content. resolve_tool_path env fs root path = Inr p
      \<and> files_at fs p = Some content \<and> \<not> is_binary content"
    using prepare_Inr [OF g(4)] by blast
  have bases: "\<forall>(path, d) \<in> set baselines. \<exists>p content. resolve_tool_path env fs1 root path = Inr p
      \<and> files_at fs1 p = Some content \<and> te_sha env content = d"
    using check_baselines_ok [OF a(1)] by blast
  have "tr_data r = Some (JArr (map JStr (sort (paths_of h))))" "tr_sha256 r = te_sha env diff"
    by (simp_all add: a(4) empty_tool_result_def)
  then show ?thesis using g(1-3) paths a(2) bases a(3) by blast
qed simp

theorem successful_patch_was_checked_witness:
  "\<exists>r fs'. patch_execute sample_env False [''r''] \<lparr>limit_files = 0, limit_lines = 0\<rparr>
      (Some (JObj [(''patch'', JStr (''--- a/x.go'' @ newline # ''+++ b/x.go'' @ newline # ''@@ -1 +1 @@''
        @ newline # ''-a'' @ newline # ''+b'' @ [newline])), (''baselines'', JObj [(''x.go'', JStr ''a'')])])) sample_fs
      = (Inr r, fs') \<and> (\<exists>diff. tr_sha256 r = te_sha sample_env diff)"
proof -
  let ?raw = "Some (JObj [(''patch'', JStr (''--- a/x.go'' @ newline # ''+++ b/x.go'' @ newline # ''@@ -1 +1 @@''
        @ newline # ''-a'' @ newline # ''+b'' @ [newline])), (''baselines'', JObj [(''x.go'', JStr ''a'')])])"
  let ?r = "empty_tool_result\<lparr>tr_code := ''PATCH'', tr_data := Some (JArr [JStr ''x.go'']), tr_sha256 := ''diff''\<rparr>"
  let ?run = "patch_execute sample_env False [''r''] \<lparr>limit_files = 0, limit_lines = 0\<rparr> ?raw sample_fs"
  have "fst ?run = Inr ?r" by code_simp
  then obtain fs' where r: "?run = (Inr ?r, fs')" by (metis prod.collapse)
  show ?thesis using r successful_patch_was_checked [OF r] by blast
qed

end
