(* ===== verification/Search.thy ===== *)
theory Search
  imports Tools
begin

text \<open>
  Package \<^verbatim>\<open>internal/tools\<close>, \<^verbatim>\<open>search.go\<close>: listing the workspace's files and searching them. Two
  routines list files: \<^verbatim>\<open>walkAllFiles\<close> visits the whole tree and sorts, \<^verbatim>\<open>boundedFiles\<close>
  expands directories in lexical order and stops early. The main lemma is that the second gives
  the sorted prefix of the first.

  The directory tree is a value; an entry pending in \<^verbatim>\<open>boundedFiles\<close> carries the node it stands
  for. Parameters: which relative paths \<^verbatim>\<open>workspace.Resolve\<close> accepts, the paths at whose visit
  the context is found cancelled (each path is visited once), and the regular expressions.
\<close>

datatype node =
    File
  | Symlink
  | Dir "(string \<times> node) list" \<comment> \<open>the entries in the order of \<^verbatim>\<open>os.ReadDir\<close>\<close>
  | Unreadable \<comment> \<open>a directory that \<^verbatim>\<open>os.ReadDir\<close> cannot read\<close>

fun is_dir :: "node \<Rightarrow> bool" where
  "is_dir (Dir _) = True"
| "is_dir Unreadable = True"
| "is_dir _ = False"

definition is_git_directory :: "string \<Rightarrow> bool" where
  "is_git_directory rel \<longleftrightarrow> list_ex (\<lambda>part. part = ''.git'') (split_on slash (trim_suffix rel ''/''))"

definition child_path :: "string \<Rightarrow> string \<Rightarrow> string" where
  "child_path parent name = (if parent = [] then name else parent @ slash # name)"

section \<open>The whole tree\<close>

fun walk_node :: "(string \<Rightarrow> bool) \<Rightarrow> (string \<Rightarrow> bool) \<Rightarrow> string \<Rightarrow> node \<Rightarrow> (tool_error, string list) result"
  and walk_nodes :: "(string \<Rightarrow> bool) \<Rightarrow> (string \<Rightarrow> bool) \<Rightarrow> string \<Rightarrow> (string \<times> node) list
    \<Rightarrow> (tool_error, string list) result" where
  "walk_node cancelled ok rel File =
     (if cancelled rel then Inl ErrContext else Inr (if ok rel then [rel] else []))"
| "walk_node cancelled ok rel Symlink = (if cancelled rel then Inl ErrContext else Inr [])"
| "walk_node cancelled ok rel (Dir es) =
     (if cancelled rel then Inl ErrContext
      else if is_git_directory rel then Inr [] else walk_nodes cancelled ok rel es)"
| "walk_node cancelled ok rel Unreadable =
     (if cancelled rel then Inl ErrContext else if is_git_directory rel then Inr [] else Inl ErrFile)"
| "walk_nodes cancelled ok rel [] = Inr []"
| "walk_nodes cancelled ok rel ((name, n) # es) =
     (case walk_node cancelled ok (child_path rel name) n of
        Inl e \<Rightarrow> Inl e
      | Inr ps \<Rightarrow>
          (case walk_nodes cancelled ok rel es of Inl e \<Rightarrow> Inl e | Inr qs \<Rightarrow> Inr (ps @ qs)))"

text \<open>\<^const>\<open>None\<close> for a root that does not resolve.\<close>

definition walk_all_files ::
    "(string \<Rightarrow> bool) \<Rightarrow> (string \<Rightarrow> bool) \<Rightarrow> node option \<Rightarrow> (tool_error, string list \<times> bool) result" where
  "walk_all_files cancelled ok root =
     (case root of
        None \<Rightarrow> Inl ErrFile
      | Some n \<Rightarrow>
          if cancelled [] then Inl ErrContext
          else (case n of
                  Dir es \<Rightarrow>
                    (case walk_nodes cancelled ok [] es of
                       Inl e \<Rightarrow> Inl e
                     | Inr ps \<Rightarrow> Inr (sort ps, False))
                | Unreadable \<Rightarrow> Inl ErrFile
                | _ \<Rightarrow> Inr ([], False)))"

section \<open>The sorted prefix\<close>

type_synonym pending = "(string \<times> node) list"

definition read_directory :: "string \<Rightarrow> (string \<times> node) list \<Rightarrow> pending" where
  "read_directory relative es =
     map (\<lambda>(name, n). (child_path relative name @ (if is_dir n then ''/'' else []), n))
       (filter (\<lambda>(_, n). n \<noteq> Symlink) es)"

fun node_count :: "node \<Rightarrow> nat" where
  "node_count (Dir es) = Suc (sum_list (map (\<lambda>e. node_count (snd e)) es))"
| "node_count _ = 1"

abbreviation pending_count :: "pending \<Rightarrow> nat" where
  "pending_count pend \<equiv> sum_list (map (\<lambda>e. node_count (snd e)) pend)"

lemma sum_list_sort_key: "sum_list (map f (sort_key k xs)) = (sum_list (map f xs) :: nat)"
proof -
  have "mset (map f (sort_key k xs)) = mset (map f xs)" by simp
  then show ?thesis by (metis sum_mset_sum_list)
qed

lemma pending_count_pop: "sort_key fst pend = e # rest \<Longrightarrow> pending_count pend = node_count (snd e) + pending_count rest"
  using sum_list_sort_key [of "\<lambda>e. node_count (snd e)" fst pend] by simp

lemma pending_count_read_directory: "pending_count (read_directory rel es) \<le> pending_count es"
  by (induction es) (auto simp: read_directory_def)

lemma node_count_pos: "0 < node_count n"
  by (cases n) auto

function bounded_loop ::
    "(string \<Rightarrow> bool) \<Rightarrow> (string \<Rightarrow> bool) \<Rightarrow> nat \<Rightarrow> pending \<Rightarrow> string list
     \<Rightarrow> (tool_error, string list \<times> bool) result" where
  "bounded_loop cancelled ok limit pend paths =
     (case sort_key fst pend of
        [] \<Rightarrow> Inr (paths, False)
      | (rel, n) # rest \<Rightarrow>
          if cancelled rel then Inl ErrContext
          else
            (case n of
               Dir es \<Rightarrow>
                 if is_git_directory rel then bounded_loop cancelled ok limit rest paths
                 else if \<not> ok (trim_suffix rel ''/'') then bounded_loop cancelled ok limit rest paths
                 else bounded_loop cancelled ok limit (rest @ read_directory (trim_suffix rel ''/'') es) paths
             | Unreadable \<Rightarrow>
                 if is_git_directory rel then bounded_loop cancelled ok limit rest paths
                 else if \<not> ok (trim_suffix rel ''/'') then bounded_loop cancelled ok limit rest paths
                 else Inl ErrFile
             | _ \<Rightarrow>
                 if \<not> ok rel then bounded_loop cancelled ok limit rest paths
                 else if limit < length (paths @ [rel]) then Inr (take limit (paths @ [rel]), True)
                 else bounded_loop cancelled ok limit rest (paths @ [rel])))"
  by pat_completeness auto
termination
  by (relation "measure (\<lambda>(_, _, _, pend, _). pending_count pend)")
    (auto dest!: pending_count_pop simp: node_count_pos less_Suc_eq_le pending_count_read_directory)

declare bounded_loop.simps [simp del]

definition bounded_files ::
    "(string \<Rightarrow> bool) \<Rightarrow> (string \<Rightarrow> bool) \<Rightarrow> node option \<Rightarrow> nat \<Rightarrow> (tool_error, string list \<times> bool) result" where
  "bounded_files cancelled ok root limit =
     (case root of
        Some (Dir es) \<Rightarrow> bounded_loop cancelled ok limit (read_directory [] es) []
      | _ \<Rightarrow> Inl ErrFile)"

definition walk_files ::
    "(string \<Rightarrow> bool) \<Rightarrow> (string \<Rightarrow> bool) \<Rightarrow> node option \<Rightarrow> int \<Rightarrow> (tool_error, string list \<times> bool) result" where
  "walk_files cancelled ok root limit =
     (if 0 \<le> limit then bounded_files cancelled ok root (nat limit) else walk_all_files cancelled ok root)"

section \<open>The tools\<close>

definition valid_empty_object :: "json option \<Rightarrow> bool" where
  "valid_empty_object raw \<longleftrightarrow> Option.bind raw as_fields = Some []"

definition list_execute ::
    "(string \<Rightarrow> bool) \<Rightarrow> (string \<Rightarrow> bool) \<Rightarrow> bool \<Rightarrow> node option \<Rightarrow> int \<Rightarrow> json option
     \<Rightarrow> (tool_error, tool_result) result" where
  "list_execute cancelled ok cancelled_now root limit raw =
     (if cancelled_now then Inl ErrContext
      else if \<not> valid_empty_object raw then Inl ErrInvalidArgs
      else
        (case walk_files cancelled ok root limit of
           Inl e \<Rightarrow> Inl e
         | Inr (paths, truncated) \<Rightarrow>
             Inr (empty_tool_result\<lparr>tr_code := ''LIST'', tr_data := Some (JArr (map JStr paths)),
                    tr_truncated := truncated\<rparr>)))"

record search_match =
  sm_path :: string
  sm_line :: nat
  sm_text :: string

fun search_lines ::
    "(string \<Rightarrow> bool) \<Rightarrow> int \<Rightarrow> string \<Rightarrow> nat \<Rightarrow> string list \<Rightarrow> search_match list \<Rightarrow> search_match list \<times> bool" where
  "search_lines re limit path index [] matches = (matches, False)"
| "search_lines re limit path index (line # lines) matches =
     (if \<not> re line then search_lines re limit path (Suc index) lines matches
      else if 0 \<le> limit \<and> limit \<le> int (length matches) then (matches, True)
      else search_lines re limit path (Suc index) lines
             (matches @ [\<lparr>sm_path = path, sm_line = index + 1, sm_text = line\<rparr>]))"

text \<open>\<^verbatim>\<open>contents\<close> is what reading the joined path gives.\<close>

fun search_paths ::
    "(string \<Rightarrow> bool) \<Rightarrow> (string \<Rightarrow> string option) \<Rightarrow> (string \<Rightarrow> bool) \<Rightarrow> int \<Rightarrow> string list \<Rightarrow> search_match list
     \<Rightarrow> (tool_error, search_match list \<times> bool) result" where
  "search_paths cancelled contents re limit [] matches = Inr (matches, False)"
| "search_paths cancelled contents re limit (path # paths) matches =
     (if cancelled path then Inl ErrContext
      else
        (case contents path of
           None \<Rightarrow> search_paths cancelled contents re limit paths matches
         | Some content \<Rightarrow>
             if is_binary content then search_paths cancelled contents re limit paths matches
             else
               (let (matches', truncated) = search_lines re limit path 0 (split_on newline content) matches in
                if truncated then Inr (matches', True)
                else search_paths cancelled contents re limit paths matches')))"

text \<open>\<^verbatim>\<open>strconv\<close>'s decimal form.\<close>

definition encode_match :: "search_match \<Rightarrow> json" where
  "encode_match m = JObj [(''path'', JStr (sm_path m)), (''line'', JNum (nat_string (sm_line m))),
     (''text'', JStr (sm_text m))]"

definition search_execute ::
    "(string \<Rightarrow> (string \<Rightarrow> bool) option) \<Rightarrow> (string \<Rightarrow> bool) \<Rightarrow> (string \<Rightarrow> bool) \<Rightarrow> (string \<Rightarrow> bool) \<Rightarrow> bool
     \<Rightarrow> node option \<Rightarrow> (string \<Rightarrow> string option) \<Rightarrow> int \<Rightarrow> json option \<Rightarrow> (tool_error, tool_result) result" where
  "search_execute compile walk_cancelled read_cancelled ok cancelled_now root contents limit raw =
     (if cancelled_now then Inl ErrContext
      else
        (case Option.bind raw (struct_string ''query'') of
           None \<Rightarrow> Inl ErrInvalidArgs
         | Some query \<Rightarrow>
             if query = [] then Inl ErrInvalidArgs
             else
               (case compile query of
                  None \<Rightarrow> Inl ErrInvalidRegex
                | Some re \<Rightarrow>
                    (case walk_files walk_cancelled ok root (-1) of
                       Inl e \<Rightarrow> Inl e
                     | Inr (paths, _) \<Rightarrow>
                         (case search_paths read_cancelled contents re limit paths [] of
                            Inl e \<Rightarrow> Inl e
                          | Inr (matches, truncated) \<Rightarrow>
                              Inr (empty_tool_result\<lparr>tr_code := ''SEARCH'',
                                     tr_data := Some (JArr (map encode_match matches)),
                                     tr_truncated := truncated\<rparr>))))))"

section \<open>The sorted prefix is right\<close>

lemma prefix_le: "prefix p (f :: string) \<Longrightarrow> p \<le> f"
proof (induction p arbitrary: f)
  case (Cons c p)
  then show ?case by (cases f) auto
qed simp

text \<open>The files an entry stands for, as the walk of the whole tree finds them.\<close>

fun entry_walk :: "(string \<Rightarrow> bool) \<Rightarrow> string \<times> node \<Rightarrow> (tool_error, string list) result" where
  "entry_walk ok (rel, n) = walk_node (\<lambda>_. False) ok (if is_dir n then trim_suffix rel ''/'' else rel) n"

definition files_of :: "(string \<Rightarrow> bool) \<Rightarrow> string \<times> node \<Rightarrow> string list" where
  "files_of ok e = (case entry_walk ok e of Inl _ \<Rightarrow> [] | Inr ps \<Rightarrow> ps)"

definition well_formed :: "(string \<Rightarrow> bool) \<Rightarrow> string \<times> node \<Rightarrow> bool" where
  "well_formed ok e \<longleftrightarrow> (\<exists>ps. entry_walk ok e = Inr ps) \<and> snd e \<noteq> Symlink
     \<and> (is_dir (snd e) \<longrightarrow> has_suffix (fst e) ''/'' \<and> fst e \<noteq> ''/'')"

lemma trim_suffix_append: "trim_suffix (d @ s) s = d"
  by (simp add: trim_suffix_def suffix_def)

lemma child_prefix: "prefix (child_path x []) f \<Longrightarrow> prefix x f"
  by (auto simp: child_path_def prefix_def split: if_splits)

lemma child_child_prefix: "prefix (child_path rel name) f \<Longrightarrow> prefix (child_path rel []) f"
  by (auto simp: child_path_def prefix_def split: if_splits)

lemma trim_suffix_trim: "has_suffix rel ''/'' \<Longrightarrow> trim_suffix rel ''/'' @ [slash] = rel"
  by (auto simp: trim_suffix_def suffix_def)

text \<open>Every file below a directory extends the directory's path.\<close>

lemma walk_below:
  "walk_node c ok rel n = Inr ps \<Longrightarrow> f \<in> set ps \<Longrightarrow> ok f \<and> (f = rel \<and> \<not> is_dir n \<or> is_dir n \<and> prefix (child_path rel []) f)"
  "walk_nodes c ok rel es = Inr ps \<Longrightarrow> f \<in> set ps \<Longrightarrow> ok f \<and> prefix (child_path rel []) f"
proof (induction c ok rel n and c ok rel es arbitrary: ps and ps rule: walk_node_walk_nodes.induct)
  case (6 c ok rel name n es)
  obtain ps1 ps2 where w: "walk_node c ok (child_path rel name) n = Inr ps1" "walk_nodes c ok rel es = Inr ps2"
      "ps = ps1 @ ps2"
    using "6.prems"(1) by (auto split: sum.splits)
  show ?case
  proof (cases "f \<in> set ps2")
    case True
    then show ?thesis using "6.IH"(2) w by blast
  next
    case False
    then have "f \<in> set ps1" using "6.prems"(2) w by simp
    then have "ok f \<and> prefix (child_path rel name) f"
      using "6.IH"(1) [OF w(1)] child_prefix by auto
    then show ?thesis using child_child_prefix by blast
  qed
qed (auto split: if_splits)

abbreviation never :: "string \<Rightarrow> bool" where
  "never \<equiv> \<lambda>_. False"

abbreviation ok_closed :: "(string \<Rightarrow> bool) \<Rightarrow> bool" where
  "ok_closed ok \<equiv> \<forall>d x. ok (d @ slash # x) \<longrightarrow> ok d"

lemma split_on_trailing: "split_on c (x @ [c]) = split_on c x @ [[]]"
proof (induction x)
  case (Cons y x)
  then show ?case using split_on_nonempty [of c x] by (auto split: list.splits)
qed simp

lemma git_directory_trim: "is_git_directory (trim_suffix rel ''/'') \<longleftrightarrow> is_git_directory rel"
proof (cases "has_suffix (trim_suffix rel ''/'') ''/''")
  case True
  then have "split_on slash (trim_suffix rel ''/'') = split_on slash (trim_suffix (trim_suffix rel ''/'') ''/'') @ [[]]"
    using split_on_trailing trim_suffix_trim by metis
  then show ?thesis by (simp add: is_git_directory_def)
next
  case False
  then show ?thesis by (simp add: is_git_directory_def trim_suffix_def)
qed

lemma well_formed_below:
  assumes "well_formed ok e" and "f \<in> set (files_of ok e)"
  shows "ok f" and "is_dir (snd e) \<Longrightarrow> \<exists>x. f = trim_suffix (fst e) ''/'' @ slash # x"
    and "\<not> is_dir (snd e) \<Longrightarrow> f = fst e"
proof -
  obtain rel n where e: "e = (rel, n)" by (cases e)
  obtain ps where w: "walk_node never ok (if is_dir n then trim_suffix rel ''/'' else rel) n = Inr ps" "f \<in> set ps"
    using assms e by (auto simp: well_formed_def files_of_def)
  note below = walk_below(1) [OF w]
  then show "ok f" by simp
  show "f = fst e" if "\<not> is_dir (snd e)" using below that e by simp
  show "\<exists>x. f = trim_suffix (fst e) ''/'' @ slash # x" if d: "is_dir (snd e)"
  proof -
    let ?d = "trim_suffix rel ''/''"
    have "?d \<noteq> []" using assms(1) d e trim_suffix_trim [of rel] by (auto simp: well_formed_def)
    moreover have "prefix (child_path ?d []) f" using below d e by simp
    ultimately show ?thesis using e by (auto simp: child_path_def prefix_def)
  qed
qed

lemma files_of_le:
  assumes "well_formed ok e" and "f \<in> set (files_of ok e)"
  shows "fst e \<le> f"
proof (cases "is_dir (snd e)")
  case True
  then have rel: "trim_suffix (fst e) ''/'' @ [slash] = fst e"
    using assms(1) trim_suffix_trim by (auto simp: well_formed_def)
  obtain x where "f = trim_suffix (fst e) ''/'' @ slash # x" using well_formed_below(2) [OF assms True] by blast
  then have "f = fst e @ x" using rel by (metis append.assoc append_Cons append_Nil)
  then show ?thesis using prefix_le by simp
next
  case False
  then show ?thesis using well_formed_below(3) [OF assms] by simp
qed

lemma rejected_directory_empty:
  assumes "well_formed ok e" and "is_dir (snd e)" and "\<not> ok (trim_suffix (fst e) ''/'')" and "ok_closed ok"
  shows "files_of ok e = []"
proof -
  have "f \<notin> set (files_of ok e)" for f
    using well_formed_below(1,2) [OF assms(1), of f] assms(2-4) by blast
  then show ?thesis by (cases "files_of ok e") auto
qed

lemma git_directory_empty:
  assumes "is_git_directory rel" and "is_dir n"
  shows "files_of ok (rel, n) = []"
  using assms by (cases n) (simp_all add: files_of_def git_directory_trim)

lemma read_directory_Cons:
  "read_directory rel ((name, n) # es) =
     (if n = Symlink then [] else [(child_path rel name @ (if is_dir n then ''/'' else []), n)])
     @ read_directory rel es"
  by (simp add: read_directory_def)

lemma walk_nodes_Inr:
  assumes "walk_nodes never ok rel es = Inr ps" and "\<And>name n. (name, n) \<in> set es \<Longrightarrow> rel = [] \<Longrightarrow> name \<noteq> []"
  shows "ps = concat (map (files_of ok) (read_directory rel es))
    \<and> (\<forall>c \<in> set (read_directory rel es). well_formed ok c)"
  using assms
proof (induction es arbitrary: ps)
  case (Cons e es)
  obtain name n where e: "e = (name, n)" by (cases e)
  obtain p q where w: "walk_node never ok (child_path rel name) n = Inr p" "walk_nodes never ok rel es = Inr q"
      "ps = p @ q"
    using Cons.prems(1) e by (auto split: sum.splits)
  have ih: "q = concat (map (files_of ok) (read_directory rel es))"
      "\<forall>c \<in> set (read_directory rel es). well_formed ok c"
    using Cons.IH [OF w(2)] Cons.prems(2) by auto
  have ne: "child_path rel name \<noteq> []"
    using Cons.prems(2) [of name n] e by (auto simp: child_path_def)
  let ?c = "(child_path rel name @ (if is_dir n then ''/'' else []), n)"
  have walk: "entry_walk ok ?c = Inr p"
    using w(1) trim_suffix_append [of "child_path rel name" "''/''"] by simp
  show ?case
  proof (cases "n = Symlink")
    case True
    then show ?thesis using w(1,3) ih e by (simp add: read_directory_Cons)
  next
    case False
    then have "well_formed ok ?c" "files_of ok ?c = p"
      using walk ne by (simp_all add: well_formed_def files_of_def del: entry_walk.simps)
    then show ?thesis using False w(3) ih e by (simp add: read_directory_Cons)
  qed
qed (simp add: read_directory_def)

lemma expand_directory:
  assumes "well_formed ok (rel, Dir es)" and "\<not> is_git_directory rel"
  shows "files_of ok (rel, Dir es) = concat (map (files_of ok) (read_directory (trim_suffix rel ''/'') es))"
    and "\<forall>c \<in> set (read_directory (trim_suffix rel ''/'') es). well_formed ok c"
proof -
  let ?d = "trim_suffix rel ''/''"
  obtain ps where ps: "walk_nodes never ok ?d es = Inr ps" "files_of ok (rel, Dir es) = ps"
    using assms by (auto simp: well_formed_def files_of_def git_directory_trim)
  have "?d \<noteq> []" using assms(1) trim_suffix_trim [of rel] by (auto simp: well_formed_def)
  then show "files_of ok (rel, Dir es) = concat (map (files_of ok) (read_directory ?d es))"
    and "\<forall>c \<in> set (read_directory ?d es). well_formed ok c"
    using walk_nodes_Inr [OF ps(1)] ps(2) by auto
qed

abbreviation all_files :: "(string \<Rightarrow> bool) \<Rightarrow> pending \<Rightarrow> string list" where
  "all_files ok pend \<equiv> concat (map (files_of ok) pend)"

lemma mset_all_files: "mset pend = mset pend' \<Longrightarrow> mset (all_files ok pend) = mset (all_files ok pend')"
proof -
  have "mset (all_files ok p) = sum_mset (image_mset (\<lambda>e. mset (files_of ok e)) (mset p))" for p
    by (induction p) auto
  moreover assume "mset pend = mset pend'"
  ultimately show ?thesis by simp
qed

lemma sort_least: "(\<And>y. y \<in> set ys \<Longrightarrow> x \<le> y) \<Longrightarrow> sort (x # ys) = x # sort ys"
  by (simp add: insort_is_Cons)

lemma sort_mset: "mset xs = mset ys \<Longrightarrow> sort xs = sort (ys :: string list)"
proof -
  assume "mset xs = mset ys"
  then have "mset (sort xs) = mset ys" by simp
  then show ?thesis by (intro sym [OF properties_for_sort]) simp_all
qed

definition bounded_result :: "nat \<Rightarrow> string list \<Rightarrow> (tool_error, string list \<times> bool) result" where
  "bounded_result limit found = Inr (take limit found, limit < length found)"

lemma sort_pop:
  assumes "sort_key fst pend = e # rest" and "\<forall>c \<in> set pend. well_formed ok c"
  shows "well_formed ok e" and "\<forall>c \<in> set rest. well_formed ok c"
    and "sort (all_files ok pend) = sort (files_of ok e @ all_files ok rest)"
    and "\<forall>c \<in> set rest. fst e \<le> fst c"
proof -
  have m: "mset pend = mset (e # rest)" using assms(1) by (metis mset_sort)
  then have "set pend = set (e # rest)" by (rule mset_eq_setD)
  then show "well_formed ok e" "\<forall>c \<in> set rest. well_formed ok c" using assms(2) by auto
  show "sort (all_files ok pend) = sort (files_of ok e @ all_files ok rest)"
    using sort_mset [OF mset_all_files [OF m]] by simp
  have "sorted (map fst (e # rest))" using assms(1) by (metis sorted_sort_key)
  then show "\<forall>c \<in> set rest. fst e \<le> fst c" by simp
qed

lemma file_popped:
  assumes "sort_key fst pend = (rel, File) # rest" and "\<forall>c \<in> set pend. well_formed ok c" and "ok rel"
  shows "sort (all_files ok pend) = rel # sort (all_files ok rest)"
proof -
  note pop = sort_pop [OF assms(1,2)]
  have "rel \<le> f" if "f \<in> set (all_files ok rest)" for f
  proof -
    from that obtain c where "c \<in> set rest" "f \<in> set (files_of ok c)" by auto
    then have "fst c \<le> f" "rel \<le> fst c" using files_of_le [of ok c f] pop(2,4) by auto
    then show ?thesis by (rule order_trans [rotated])
  qed
  then have "sort (rel # all_files ok rest) = rel # sort (all_files ok rest)" by (rule sort_least)
  then show ?thesis using pop(3) assms(3) by (simp add: files_of_def)
qed

lemma bounded_loop_prefix:
  assumes "\<forall>e \<in> set pend. well_formed ok e" and "ok_closed ok" and "length paths \<le> limit" and "c = never"
  shows "bounded_loop c ok limit pend paths = bounded_result limit (paths @ sort (all_files ok pend))"
  using assms
proof (induction c ok limit pend paths rule: bounded_loop.induct)
  case (1 c ok limit pend paths)
  note c = "1.prems"(4)
  show ?case
  proof (cases "sort_key fst pend")
    case Nil
    then have "pend = []" by (metis mset.simps(1) mset_sort mset_zero_iff)
    then show ?thesis using "1.prems"(3) by (simp add: bounded_loop.simps [of _ _ _ "[]"] c bounded_result_def)
  next
    case (Cons e rest)
    obtain rel n where e: "e = (rel, n)" by (cases e)
    note sk = Cons [unfolded e]
    note pop = sort_pop [OF sk "1.prems"(1)]
    have skip: "bounded_loop c ok limit pend paths = bounded_result limit (paths @ sort (all_files ok pend))"
      if "files_of ok (rel, n) = []"
        and "bounded_loop c ok limit pend paths = bounded_loop c ok limit rest paths"
        and "bounded_loop c ok limit rest paths = bounded_result limit (paths @ sort (all_files ok rest))"
      using that pop(3) by simp
    show ?thesis
    proof (cases n)
      case File
      show ?thesis
      proof (cases "ok rel")
        case True
        then have srt: "sort (all_files ok pend) = rel # sort (all_files ok rest)"
          using file_popped sk File "1.prems"(1) by blast
        show ?thesis
        proof (cases "limit < length (paths @ [rel])")
          case True
          then show ?thesis using sk File \<open>ok rel\<close> srt "1.prems"(3)
            by (simp add: bounded_loop.simps [of _ _ _ pend] c bounded_result_def)
        next
          case False
          then have "bounded_loop c ok limit rest (paths @ [rel])
              = bounded_result limit ((paths @ [rel]) @ sort (all_files ok rest))"
            by (intro "1.IH"(2) [OF sk refl]) (use File \<open>ok rel\<close> pop(2) "1.prems"(2) c in simp_all)
          then show ?thesis using sk File \<open>ok rel\<close> srt False
            by (simp add: bounded_loop.simps [of _ _ _ pend] c)
        qed
      next
        case False
        then have "bounded_loop c ok limit rest paths = bounded_result limit (paths @ sort (all_files ok rest))"
          by (intro "1.IH"(1) [OF sk refl]) (use File pop(2) "1.prems"(2,3) c in simp_all)
        moreover have "files_of ok (rel, n) = []" using File False by (simp add: files_of_def)
        moreover have "bounded_loop c ok limit pend paths = bounded_loop c ok limit rest paths"
          using sk File False c by (simp add: bounded_loop.simps [of _ _ _ pend])
        ultimately show ?thesis using skip by blast
      qed
    next
      case Symlink
      then show ?thesis using pop(1) by (simp add: well_formed_def)
    next
      case Unreadable
      then have "is_git_directory rel" using pop(1)
        by (auto simp: well_formed_def git_directory_trim split: if_splits)
      then have "bounded_loop c ok limit rest paths = bounded_result limit (paths @ sort (all_files ok rest))"
        by (intro "1.IH"(8) [OF sk refl]) (use Unreadable pop(2) "1.prems"(2,3) c in simp_all)
      then show ?thesis using skip sk Unreadable \<open>is_git_directory rel\<close> git_directory_empty
        by (simp add: bounded_loop.simps [of _ _ _ pend] c)
    next
      case (Dir es)
      let ?d = "trim_suffix rel ''/''"
      show ?thesis
      proof (cases "is_git_directory rel \<or> \<not> ok ?d")
        case True
        then have "bounded_loop c ok limit rest paths = bounded_result limit (paths @ sort (all_files ok rest))"
        proof (cases "is_git_directory rel")
          case True
          then show ?thesis
            by (intro "1.IH"(5) [OF sk refl]) (use Dir pop(2) "1.prems"(2,3) c in simp_all)
        next
          case False
          then show ?thesis
            by (intro "1.IH"(6) [OF sk refl]) (use True Dir pop(2) "1.prems"(2,3) c in simp_all)
        qed
        moreover have "files_of ok (rel, n) = []"
          using True git_directory_empty rejected_directory_empty [OF pop(1) _ _ "1.prems"(2)] Dir by auto
        moreover have "bounded_loop c ok limit pend paths = bounded_loop c ok limit rest paths"
          using True sk Dir by (auto simp: bounded_loop.simps [of _ _ _ pend] c)
        ultimately show ?thesis using skip by blast
      next
        case False
        let ?pend = "rest @ read_directory ?d es"
        have ex: "files_of ok (rel, n) = all_files ok (read_directory ?d es)"
            "\<forall>c \<in> set (read_directory ?d es). well_formed ok c"
          using expand_directory [of ok rel es] pop(1) False Dir by auto
        then have "bounded_loop c ok limit ?pend paths = bounded_result limit (paths @ sort (all_files ok ?pend))"
          by (intro "1.IH"(7) [OF sk refl]) (use Dir pop(2) "1.prems"(2,3) c False in auto)
        moreover have "sort (all_files ok ?pend) = sort (all_files ok pend)"
          using pop(3) ex(1) by (simp add: sort_mset [of "all_files ok rest @ all_files ok (read_directory ?d es)"
              "all_files ok (read_directory ?d es) @ all_files ok rest"])
        ultimately show ?thesis using sk Dir False by (simp add: bounded_loop.simps [of _ _ _ pend] c)
      qed
    qed
  qed
qed

text \<open>Listing with a bound gives the same as sorting the walk of the whole tree and cutting it
  at the bound, and reports a truncation exactly when something was cut off, although it expands
  only the directories it needs. The paths Resolve accepts are closed under going up, as its rules
  for protected names are.\<close>

theorem bounded_files_is_sorted_prefix:
  assumes "walk_all_files never ok (Some (Dir es)) = Inr (found, t)"
    and "\<And>d x. ok (d @ slash # x) \<Longrightarrow> ok d" and "\<And>name n. (name, n) \<in> set es \<Longrightarrow> name \<noteq> []"
  shows "bounded_files never ok (Some (Dir es)) limit = Inr (take limit found, limit < length found)"
proof -
  obtain ps where ps: "walk_nodes never ok [] es = Inr ps" "found = sort ps"
    using assms(1) by (auto simp: walk_all_files_def split: sum.splits)
  have "ps = all_files ok (read_directory [] es)" "\<forall>c \<in> set (read_directory [] es). well_formed ok c"
    using walk_nodes_Inr [OF ps(1)] assms(3) by auto
  then show ?thesis
    using bounded_loop_prefix [of "read_directory [] es" ok "[]" limit never] assms(2) ps(2)
    by (simp add: bounded_files_def bounded_result_def)
qed

theorem bounded_files_is_sorted_prefix_witness:
  "bounded_files never (\<lambda>p. \<not> has_prefix p ''x'') (Some (Dir [(''a-b'', File), (''a'', Dir [(''c'', File)]),
      (''.git'', Dir [(''d'', File)]), (''x'', Dir [(''y'', File)])])) 1 = Inr ([''a-b''], True)"
proof -
  let ?es = "[(''a-b'', File), (''a'', Dir [(''c'', File)]), (''.git'', Dir [(''d'', File)]), (''x'', Dir [(''y'', File)])]"
  let ?ok = "\<lambda>p. \<not> has_prefix p ''x''"
  have w: "walk_all_files never ?ok (Some (Dir ?es)) = Inr ([''a-b'', ''a/c''], False)" by code_simp
  have c: "?ok (d @ slash # x) \<Longrightarrow> ?ok d" for d x using prefix_prefix by blast
  show ?thesis using bounded_files_is_sorted_prefix [OF w c, where limit = 1] by fastforce
qed

section \<open>What a search returns\<close>

text \<open>The matching lines of one text, and of all readable ones in order.\<close>

definition line_matches :: "(string \<Rightarrow> bool) \<Rightarrow> string \<Rightarrow> nat \<Rightarrow> string list \<Rightarrow> search_match list" where
  "line_matches re path index lines =
     map (\<lambda>(i, l). \<lparr>sm_path = path, sm_line = i + 1, sm_text = l\<rparr>)
       (filter (\<lambda>(i, l). re l) (zip [index ..< index + length lines] lines))"

definition text_matches :: "(string \<Rightarrow> bool) \<Rightarrow> (string \<Rightarrow> string option) \<Rightarrow> string \<Rightarrow> search_match list" where
  "text_matches re contents path =
     (case contents path of
        None \<Rightarrow> []
      | Some c \<Rightarrow> if is_binary c then [] else line_matches re path 0 (split_on newline c))"

lemma line_matches_Cons:
  "line_matches re path index (l # ls) =
     (if re l then [\<lparr>sm_path = path, sm_line = index + 1, sm_text = l\<rparr>] else [])
     @ line_matches re path (Suc index) ls"
  by (simp add: line_matches_def upt_conv_Cons del: upt_Suc)

definition cut :: "int \<Rightarrow> search_match list \<Rightarrow> search_match list \<times> bool" where
  "cut limit ms = (if 0 \<le> limit \<and> limit < int (length ms) then (take (nat limit) ms, True) else (ms, False))"

lemma search_lines_cut:
  assumes "\<not> (0 \<le> limit \<and> limit < int (length matches))"
  shows "search_lines re limit path index lines matches = cut limit (matches @ line_matches re path index lines)"
  using assms
proof (induction re limit path index lines matches rule: search_lines.induct)
  case (2 re limit path index line lines matches)
  show ?case
  proof (cases "re line \<and> 0 \<le> limit \<and> limit \<le> int (length matches)")
    case True
    then have "nat limit = length matches" using "2.prems" by auto
    then show ?thesis using True by (simp add: cut_def line_matches_Cons)
  next
    case False
    then show ?thesis using 2 by (auto simp: line_matches_Cons)
  qed
qed (simp add: cut_def line_matches_def)

text \<open>A search that is not cancelled returns, in path and line order, the matching lines of all
  the text files it can read, cut at the limit; it says truncated exactly when a match was left
  out, and a negative limit cuts nothing.\<close>

theorem search_returns_first_matches:
  assumes "search_paths never contents re limit paths [] = Inr (matches, truncated)"
  shows "(matches, truncated) = cut limit (concat (map (text_matches re contents) paths))"
proof -
  have "search_paths never contents re limit paths ms = Inr (cut limit (ms @ concat (map (text_matches re contents) paths)))"
    if "\<not> (0 \<le> limit \<and> limit < int (length ms))" for ms
    using that
  proof (induction paths arbitrary: ms)
    case Nil
    then show ?case by (auto simp: cut_def)
  next
    case (Cons p paths)
    show ?case
    proof (cases "text_matches re contents p = [] \<and> (contents p = None \<or> is_binary (the (contents p)))")
      case True
      then show ?thesis using Cons by (auto split: option.splits)
    next
      case False
      then obtain c where c: "contents p = Some c" "\<not> is_binary c"
        by (auto simp: text_matches_def split: option.splits if_splits)
      let ?new = "line_matches re p 0 (split_on newline c)"
      have sl: "search_lines re limit p 0 (split_on newline c) ms = cut limit (ms @ ?new)"
        using search_lines_cut Cons.prems by blast
      show ?thesis
      proof (cases "0 \<le> limit \<and> limit < int (length (ms @ ?new))")
        case True
        then show ?thesis using c sl by (auto simp: cut_def text_matches_def nat_less_iff)
      next
        case False
        then show ?thesis using c sl Cons.IH [of "ms @ ?new"] by (simp add: cut_def text_matches_def)
      qed
    qed
  qed
  then show ?thesis using assms by simp
qed

theorem search_returns_first_matches_witness:
  "search_paths never [''a'' \<mapsto> ''x'' @ newline # ''xy'', ''b'' \<mapsto> ''x''] (\<lambda>l. contains l ''x'') 2 [''a'', ''b''] []
     = Inr (cut 2 (concat (map (text_matches (\<lambda>l. contains l ''x'') [''a'' \<mapsto> ''x'' @ newline # ''xy'', ''b'' \<mapsto> ''x'']) [''a'', ''b''])))"
proof -
  let ?c = "[''a'' \<mapsto> ''x'' @ newline # ''xy'', ''b'' \<mapsto> ''x'']" and ?re = "\<lambda>l. contains l ''x''"
  let ?m = "[\<lparr>sm_path = ''a'', sm_line = 1, sm_text = ''x''\<rparr>, \<lparr>sm_path = ''a'', sm_line = 2, sm_text = ''xy''\<rparr>]"
  have r: "search_paths never ?c ?re 2 [''a'', ''b''] [] = Inr (?m, True)" by code_simp
  show ?thesis using r search_returns_first_matches [OF r] by simp
qed

end
