(* ===== verification/Store.thy ===== *)
theory Store
  imports Domain
begin

text \<open>
  The persistence port (\<^verbatim>\<open>internal/storeport/store.go\<close>), what its implementations share
  (\<^verbatim>\<open>internal/store/store.go\<close>: validation, events and their hash chain) and the in-memory
  implementation (\<^verbatim>\<open>internal/store/memory.go\<close>). An operation takes whether its context is
  cancelled, the clock reading where it stamps an event, its arguments and the store. Locations of
  instants are not modelled, so \<^verbatim>\<open>UTC()\<close> is the identity, and copies of slices are values.
  SHA-256 (in hexadecimal) is a parameter.
\<close>

section \<open>The port\<close>

datatype store_error =
    ErrEmptyRunID | ErrEmptyEventType | ErrEmptyArtifactID | ErrArtifactExists | ErrArtifactNotFound
  | ErrRunAlreadyExists | ErrRunNotFound | ErrRunStateChanged | ErrInvalidRunList
  | ErrStoreContext \<comment> \<open>the context's own error\<close>
  | ErrDatabase \<comment> \<open>an error of the SQLite driver\<close>

record run_list_query =
  q_limit :: int
  q_offset :: int
  q_ids :: "run_id list option"

record run_page =
  page_runs :: "run list"
  has_more :: bool

section \<open>Validation\<close>

definition validate_run_id :: "run_id \<Rightarrow> (store_error, unit) result" where
  "validate_run_id r = (if r = [] then Inl ErrEmptyRunID else Inr ())"

definition validate_event :: "run_id \<Rightarrow> string \<Rightarrow> (store_error, unit) result" where
  "validate_event r typ =
     (case validate_run_id r of
        Inl e \<Rightarrow> Inl e
      | Inr _ \<Rightarrow> if typ = [] then Inl ErrEmptyEventType else Inr ())"

definition validate_artifact :: "artifact \<Rightarrow> (store_error, unit) result" where
  "validate_artifact a = (if art_id a = [] then Inl ErrEmptyArtifactID else validate_run_id (art_run a))"

definition check_context :: "bool \<Rightarrow> (store_error, unit) result" where
  "check_context cancelled = (if cancelled then Inl ErrStoreContext else Inr ())"

definition normalize_time :: "gtime \<Rightarrow> gtime" where
  "normalize_time t = t"

definition normalize_run :: "run \<Rightarrow> run" where
  "normalize_run r = r\<lparr>created_at := normalize_time (created_at r), updated_at := normalize_time (updated_at r)\<rparr>"

section \<open>Events\<close>

text \<open>\<^verbatim>\<open>binary.BigEndian.PutUint64\<close>, and the length-prefixed field.\<close>

fun big_endian :: "nat \<Rightarrow> nat \<Rightarrow> string" where
  "big_endian 0 n = []"
| "big_endian (Suc k) n = big_endian k (n div 256) @ [char_of (n mod 256)]"

definition be64 :: "nat \<Rightarrow> string" where
  "be64 n = big_endian 8 n"

definition write_field :: "string \<Rightarrow> string" where
  "write_field v = be64 (length v) @ v"

definition encode_event :: "run_event \<Rightarrow> string" where
  "encode_event e =
     write_field (ev_run e)
     @ write_field (be64 (ev_seq e))
     @ write_field (ev_type e)
     @ write_field (be64 (nat (unix_nano (ev_at e) mod 18446744073709551616)))
     @ write_field (ev_payload e)
     @ write_field (ev_prev e)"

definition hash_event :: "(string \<Rightarrow> digest) \<Rightarrow> run_event \<Rightarrow> digest" where
  "hash_event H e = H (encode_event e)"

definition new_event ::
    "(string \<Rightarrow> digest) \<Rightarrow> run_id \<Rightarrow> nat \<Rightarrow> string \<Rightarrow> string \<Rightarrow> digest \<Rightarrow> gtime \<Rightarrow> run_event" where
  "new_event H r n typ payload prev at =
     (let e = \<lparr>ev_run = r, ev_seq = n, ev_type = typ, ev_at = at, ev_payload = payload,
               ev_prev = prev, ev_hash = []\<rparr>
      in e\<lparr>ev_hash := hash_event H e\<rparr>)"

section \<open>The in-memory store\<close>

text \<open>The order of \<^verbatim>\<open>ms_runs\<close> stands for the iteration order of the Go map.\<close>

record memory_store =
  ms_runs :: "(run_id \<times> run) list"
  ms_events :: "run_id \<Rightarrow> run_event list"
  ms_artifacts :: "string \<Rightarrow> artifact option"

definition new_memory :: memory_store where
  "new_memory = \<lparr>ms_runs = [], ms_events = (\<lambda>_. []), ms_artifacts = (\<lambda>_. None)\<rparr>"

definition set_run :: "run \<Rightarrow> memory_store \<Rightarrow> memory_store" where
  "set_run r s = s\<lparr>ms_runs := AList.update (rid r) r (ms_runs s)\<rparr>"

definition create_run :: "bool \<Rightarrow> run \<Rightarrow> memory_store \<Rightarrow> (store_error, unit) result \<times> memory_store" where
  "create_run cancelled r s =
     (case validate_run_id (rid r) of
        Inl e \<Rightarrow> (Inl e, s)
      | Inr _ \<Rightarrow>
          (case check_context cancelled of
             Inl e \<Rightarrow> (Inl e, s)
           | Inr _ \<Rightarrow>
               if map_of (ms_runs s) (rid r) \<noteq> None then (Inl ErrRunAlreadyExists, s)
               else (Inr (), set_run (normalize_run r) s)))"

definition append_locked ::
    "(string \<Rightarrow> digest) \<Rightarrow> gtime \<Rightarrow> run_id \<Rightarrow> string \<Rightarrow> string \<Rightarrow> memory_store \<Rightarrow> run_event \<times> memory_store" where
  "append_locked H now r typ payload s =
     (let events = ms_events s r;
          prev = (if events = [] then [] else ev_hash (last events));
          e = new_event H r (length events + 1) typ payload prev now
      in (e, s\<lparr>ms_events := (ms_events s)(r := events @ [e])\<rparr>))"

definition create_run_with_event ::
    "(string \<Rightarrow> digest) \<Rightarrow> bool \<Rightarrow> gtime \<Rightarrow> run \<Rightarrow> string \<Rightarrow> string \<Rightarrow> memory_store
     \<Rightarrow> (store_error, run_event) result \<times> memory_store" where
  "create_run_with_event H cancelled now r typ payload s =
     (case validate_event (rid r) typ of
        Inl e \<Rightarrow> (Inl e, s)
      | Inr _ \<Rightarrow>
          (case check_context cancelled of
             Inl e \<Rightarrow> (Inl e, s)
           | Inr _ \<Rightarrow>
               if map_of (ms_runs s) (rid r) \<noteq> None then (Inl ErrRunAlreadyExists, s)
               else (let (e, s') = append_locked H now (rid r) typ payload (set_run (normalize_run r) s)
                     in (Inr e, s'))))"

definition update_run ::
    "(string \<Rightarrow> digest) \<Rightarrow> bool \<Rightarrow> gtime \<Rightarrow> run \<Rightarrow> string \<Rightarrow> string \<Rightarrow> memory_store
     \<Rightarrow> (store_error, run_event) result \<times> memory_store" where
  "update_run H cancelled now r typ payload s =
     (case validate_event (rid r) typ of
        Inl e \<Rightarrow> (Inl e, s)
      | Inr _ \<Rightarrow>
          (case check_context cancelled of
             Inl e \<Rightarrow> (Inl e, s)
           | Inr _ \<Rightarrow>
               if map_of (ms_runs s) (rid r) = None then (Inl ErrRunNotFound, s)
               else (let (e, s') = append_locked H now (rid r) typ payload s
                     in (Inr e, set_run (normalize_run r) s'))))"

definition update_run_if_state ::
    "(string \<Rightarrow> digest) \<Rightarrow> bool \<Rightarrow> gtime \<Rightarrow> run \<Rightarrow> run_state \<Rightarrow> string \<Rightarrow> string \<Rightarrow> memory_store
     \<Rightarrow> (store_error, run_event) result \<times> memory_store" where
  "update_run_if_state H cancelled now r expected typ payload s =
     (case validate_event (rid r) typ of
        Inl e \<Rightarrow> (Inl e, s)
      | Inr _ \<Rightarrow>
          (case check_context cancelled of
             Inl e \<Rightarrow> (Inl e, s)
           | Inr _ \<Rightarrow>
               (case map_of (ms_runs s) (rid r) of
                  None \<Rightarrow> (Inl ErrRunNotFound, s)
                | Some current \<Rightarrow>
                    if state current \<noteq> expected then (Inl ErrRunStateChanged, s)
                    else (let (e, s') = append_locked H now (rid r) typ payload s
                          in (Inr e, set_run (normalize_run r) s')))))"

definition append_event ::
    "(string \<Rightarrow> digest) \<Rightarrow> bool \<Rightarrow> gtime \<Rightarrow> run_id \<Rightarrow> string \<Rightarrow> string \<Rightarrow> memory_store
     \<Rightarrow> (store_error, run_event) result \<times> memory_store" where
  "append_event H cancelled now r typ payload s =
     (case validate_event r typ of
        Inl e \<Rightarrow> (Inl e, s)
      | Inr _ \<Rightarrow>
          (case check_context cancelled of
             Inl e \<Rightarrow> (Inl e, s)
           | Inr _ \<Rightarrow>
               if map_of (ms_runs s) r = None then (Inl ErrRunNotFound, s)
               else (let (e, s') = append_locked H now r typ payload s in (Inr e, s'))))"

definition get_run :: "bool \<Rightarrow> run_id \<Rightarrow> memory_store \<Rightarrow> (store_error, run) result" where
  "get_run cancelled r s =
     (case validate_run_id r of
        Inl e \<Rightarrow> Inl e
      | Inr _ \<Rightarrow>
          (case check_context cancelled of
             Inl e \<Rightarrow> Inl e
           | Inr _ \<Rightarrow> (case map_of (ms_runs s) r of None \<Rightarrow> Inl ErrRunNotFound | Some x \<Rightarrow> Inr x)))"

text \<open>\<^verbatim>\<open>ListRuns\<close>: latest update first, ties by identifier.\<close>

definition run_order :: "run \<Rightarrow> int \<times> run_id" where
  "run_order r = (- updated_at r, rid r)"

definition query_allows :: "run_list_query \<Rightarrow> run \<Rightarrow> bool" where
  "query_allows q r = (case q_ids q of None \<Rightarrow> True | Some ids \<Rightarrow> rid r \<in> set ids)"

text \<open>The sum of start and limit is an int of 64 bits in the code. It is taken for granted here that it
  does not wrap around (the limit is below 2^63 less the number of runs; the HTTP interface asks for
  at most 100): beyond, slicing with the negative sum would panic.\<close>

definition page_of :: "run_list_query \<Rightarrow> run list \<Rightarrow> run_page" where
  "page_of q runs =
     (let start = min (nat (q_offset q)) (length runs) in
      if 0 < q_limit q \<and> int start + q_limit q < int (length runs)
      then \<lparr>page_runs = take (nat (q_limit q)) (drop start runs), has_more = True\<rparr>
      else \<lparr>page_runs = drop start runs, has_more = False\<rparr>)"

definition list_runs :: "bool \<Rightarrow> run_list_query \<Rightarrow> memory_store \<Rightarrow> (store_error, run_page) result" where
  "list_runs cancelled q s =
     (if q_limit q < 0 \<or> q_offset q < 0 then Inl ErrInvalidRunList
      else
        (case check_context cancelled of
           Inl e \<Rightarrow> Inl e
         | Inr _ \<Rightarrow> Inr (page_of q (sort_key run_order (filter (query_allows q) (map snd (ms_runs s)))))))"

definition list_events :: "bool \<Rightarrow> run_id \<Rightarrow> nat \<Rightarrow> memory_store \<Rightarrow> (store_error, run_event list) result" where
  "list_events cancelled r from s =
     (case validate_run_id r of
        Inl e \<Rightarrow> Inl e
      | Inr _ \<Rightarrow>
          (case check_context cancelled of
             Inl e \<Rightarrow> Inl e
           | Inr _ \<Rightarrow>
               if map_of (ms_runs s) r = None then Inl ErrRunNotFound
               else Inr (filter (\<lambda>e. from \<le> ev_seq e) (ms_events s r))))"

definition put_artifact :: "bool \<Rightarrow> artifact \<Rightarrow> memory_store \<Rightarrow> (store_error, unit) result \<times> memory_store" where
  "put_artifact cancelled a s =
     (case validate_artifact a of
        Inl e \<Rightarrow> (Inl e, s)
      | Inr _ \<Rightarrow>
          (case check_context cancelled of
             Inl e \<Rightarrow> (Inl e, s)
           | Inr _ \<Rightarrow>
               if map_of (ms_runs s) (art_run a) = None then (Inl ErrRunNotFound, s)
               else (case ms_artifacts s (art_id a) of
                       Some b \<Rightarrow>
                         if art_run b \<noteq> art_run a then (Inl ErrArtifactExists, s)
                         else (Inr (), s\<lparr>ms_artifacts := (ms_artifacts s)(art_id a \<mapsto> a)\<rparr>)
                     | None \<Rightarrow> (Inr (), s\<lparr>ms_artifacts := (ms_artifacts s)(art_id a \<mapsto> a)\<rparr>))))"

definition get_artifact :: "bool \<Rightarrow> run_id \<Rightarrow> string \<Rightarrow> memory_store \<Rightarrow> (store_error, artifact) result" where
  "get_artifact cancelled r aid s =
     (case validate_run_id r of
        Inl e \<Rightarrow> Inl e
      | Inr _ \<Rightarrow>
          if aid = [] then Inl ErrEmptyArtifactID
          else
            (case check_context cancelled of
               Inl e \<Rightarrow> Inl e
             | Inr _ \<Rightarrow>
                 if map_of (ms_runs s) r = None then Inl ErrRunNotFound
                 else (case ms_artifacts s aid of
                         Some a \<Rightarrow> if art_run a \<noteq> r then Inl ErrArtifactNotFound else Inr a
                       | None \<Rightarrow> Inl ErrArtifactNotFound)))"

end
