(* ===== verification/Store_Log.thy ===== *)
theory Store_Log
  imports Store
begin

text \<open>
  The event log of a run: its hash chain, what the in-memory store keeps of it, and what the chain
  proves to someone who trusts the last hash. The contract the agent loop relies on is the locale
  \<^verbatim>\<open>run_log\<close>, interpreted here on the in-memory store (and in \<^verbatim>\<open>Sqlite_Correct\<close> on the other).
\<close>

section \<open>The encoding determines the event\<close>

lemma length_big_endian [simp]: "length (big_endian k n) = k"
  by (induction k arbitrary: n) auto

lemma big_endian_inj:
  assumes "big_endian k m = big_endian k n" and "m < 256 ^ k" and "n < 256 ^ k"
  shows "m = n"
  using assms
proof (induction k arbitrary: m n)
  case (Suc k)
  have eq: "big_endian k (m div 256) = big_endian k (n div 256)"
    and last: "(char_of (m mod 256) :: char) = char_of (n mod 256)"
    using Suc.prems(1) by simp_all
  have "m mod 256 = n mod 256"
    using arg_cong [OF last, of "of_char :: char \<Rightarrow> nat"] by simp
  moreover have "m div 256 = n div 256"
    using Suc.IH [OF eq] Suc.prems(2,3) by (simp add: less_mult_imp_div_less mult.commute)
  ultimately show ?case by (metis div_mult_mod_eq)
qed simp

definition word_size :: nat where
  "word_size = 18446744073709551616"

lemma word_size_power: "word_size = 256 ^ 8"
  by (simp add: word_size_def)

lemma be64_inj: "be64 m = be64 n \<Longrightarrow> m < word_size \<Longrightarrow> n < word_size \<Longrightarrow> m = n"
  unfolding be64_def word_size_power by (rule big_endian_inj)

lemma length_be64 [simp]: "length (be64 n) = 8"
  by (simp add: be64_def)

lemma write_field_inj:
  assumes "write_field a @ x = write_field b @ y" and "length a < word_size" and "length b < word_size"
  shows "a = b \<and> x = y"
proof -
  have "be64 (length a) = be64 (length b)" and rest: "a @ x = b @ y"
    using assms(1) by (simp_all add: write_field_def)
  then have "length a = length b" using be64_inj assms(2,3) by blast
  then show ?thesis using rest by simp
qed

definition event_fits :: "run_event \<Rightarrow> bool" where
  "event_fits e \<longleftrightarrow> length (ev_run e) < word_size \<and> ev_seq e < word_size \<and> length (ev_type e) < word_size
     \<and> length (ev_payload e) < word_size \<and> length (ev_prev e) < word_size"

text \<open>What the hash covers: the instant only as its int64 of nanoseconds.\<close>

definition hashed_fields :: "run_event \<Rightarrow> run_event" where
  "hashed_fields e = e\<lparr>ev_at := unix_nano (ev_at e), ev_hash := []\<rparr>"

lemma hashed_fields_sel:
  "ev_seq (hashed_fields e) = ev_seq e" "ev_prev (hashed_fields e) = ev_prev e"
  by (simp_all add: hashed_fields_def)

lemma unsigned_inj:
  assumes "nat (unix_nano t mod 18446744073709551616) = nat (unix_nano u mod 18446744073709551616)"
  shows "unix_nano t = unix_nano u"
proof -
  have "unix_nano t mod 18446744073709551616 = unix_nano u mod 18446744073709551616"
    using assms by simp
  then have "(unix_nano t - min_int64) mod 18446744073709551616 = (unix_nano u - min_int64) mod 18446744073709551616"
    by (rule mod_diff_cong) simp
  moreover have "(unix_nano x - min_int64) mod 18446744073709551616 = unix_nano x - min_int64" for x
    using unix_nano_bounds [of x] by (intro mod_pos_pos_trivial) (auto simp: int64_bounds)
  ultimately show ?thesis by simp
qed

lemma encode_event_inj:
  assumes "encode_event e = encode_event f" and "event_fits e" and "event_fits f"
  shows "hashed_fields e = hashed_fields f"
proof -
  let ?at = "\<lambda>e. nat (unix_nano (ev_at e) mod 18446744073709551616)"
  have small: "(8::nat) < word_size" by (simp add: word_size_def)
  have run: "ev_run e = ev_run f"
    and r1: "write_field (be64 (ev_seq e)) @ write_field (ev_type e) @ write_field (be64 (?at e))
        @ write_field (ev_payload e) @ write_field (ev_prev e)
      = write_field (be64 (ev_seq f)) @ write_field (ev_type f) @ write_field (be64 (?at f))
        @ write_field (ev_payload f) @ write_field (ev_prev f)"
    using write_field_inj [OF assms(1) [unfolded encode_event_def]] assms(2,3) by (simp_all add: event_fits_def)
  have sq: "be64 (ev_seq e) = be64 (ev_seq f)"
    and r2: "write_field (ev_type e) @ write_field (be64 (?at e)) @ write_field (ev_payload e) @ write_field (ev_prev e)
      = write_field (ev_type f) @ write_field (be64 (?at f)) @ write_field (ev_payload f) @ write_field (ev_prev f)"
    using write_field_inj [OF r1] small by simp_all
  have ty: "ev_type e = ev_type f"
    and r3: "write_field (be64 (?at e)) @ write_field (ev_payload e) @ write_field (ev_prev e)
      = write_field (be64 (?at f)) @ write_field (ev_payload f) @ write_field (ev_prev f)"
    using write_field_inj [OF r2] assms(2,3) by (simp_all add: event_fits_def)
  have at: "be64 (?at e) = be64 (?at f)"
    and r4: "write_field (ev_payload e) @ write_field (ev_prev e) = write_field (ev_payload f) @ write_field (ev_prev f)"
    using write_field_inj [OF r3] small by simp_all
  have pay: "ev_payload e = ev_payload f" and r5: "write_field (ev_prev e) = write_field (ev_prev f)"
    using write_field_inj [OF r4] assms(2,3) by (simp_all add: event_fits_def)
  have prev: "ev_prev e = ev_prev f"
    using write_field_inj [of "ev_prev e" "[]" "ev_prev f" "[]"] r5 assms(2,3) by (simp add: event_fits_def)
  have "ev_seq e = ev_seq f" using be64_inj [OF sq] assms(2,3) by (simp add: event_fits_def)
  moreover have "?at x < word_size" for x
    by (simp add: word_size_def nat_less_iff)
  then have "unix_nano (ev_at e) = unix_nano (ev_at f)" using be64_inj [OF at] unsigned_inj by blast
  ultimately show ?thesis using run ty pay prev by (simp add: hashed_fields_def)
qed

section \<open>The chain\<close>

fun chain_from :: "(string \<Rightarrow> digest) \<Rightarrow> run_id \<Rightarrow> digest \<Rightarrow> nat \<Rightarrow> run_event list \<Rightarrow> bool" where
  "chain_from H r prev n [] \<longleftrightarrow> True"
| "chain_from H r prev n (e # es) \<longleftrightarrow>
     ev_run e = r \<and> ev_seq e = n \<and> ev_prev e = prev \<and> ev_hash e = hash_event H e
     \<and> chain_from H r (ev_hash e) (Suc n) es"

definition valid_log :: "(string \<Rightarrow> digest) \<Rightarrow> run_id \<Rightarrow> run_event list \<Rightarrow> bool" where
  "valid_log H r es \<longleftrightarrow> chain_from H r [] 1 es"

definition last_hash :: "run_event list \<Rightarrow> digest" where
  "last_hash es = (if es = [] then [] else ev_hash (last es))"

lemma chain_from_append:
  "chain_from H r prev n (es @ [e]) \<longleftrightarrow> chain_from H r prev n es \<and> ev_run e = r
     \<and> ev_seq e = n + length es \<and> ev_prev e = (if es = [] then prev else ev_hash (last es))
     \<and> ev_hash e = hash_event H e"
  by (induction es arbitrary: prev n) auto

lemma valid_log_append:
  "valid_log H r (es @ [e]) \<longleftrightarrow> valid_log H r es \<and> ev_run e = r \<and> ev_seq e = Suc (length es)
     \<and> ev_prev e = last_hash es \<and> ev_hash e = hash_event H e"
  by (auto simp: valid_log_def chain_from_append last_hash_def)

lemma hash_event_ignores_hash: "hash_event H (e\<lparr>ev_hash := h\<rparr>) = hash_event H e"
  by (simp add: hash_event_def encode_event_def)

lemma valid_log_new_event:
  "valid_log H r es \<Longrightarrow> valid_log H r (es @ [new_event H r (length es + 1) typ payload (last_hash es) now])"
  by (simp add: valid_log_append new_event_def Let_def hash_event_def encode_event_def)

lemma valid_log_empty [simp]: "valid_log H r []"
  by (simp add: valid_log_def)

text \<open>The log is tamper-evident: two valid logs with the same last hash record the same events
  (run, sequence, type, instant in nanoseconds, payload), event by event, or SHA-256 has a
  collision. Neither the number of events nor the run is assumed to agree.\<close>

theorem last_hash_binds_log:
  assumes "valid_log H r es" and "valid_log H r' es'"
    and "es \<noteq> []" and "es' \<noteq> []" and "last_hash es = last_hash es'"
    and "\<forall>e \<in> set es \<union> set es'. event_fits e"
  shows "map hashed_fields es = map hashed_fields es' \<or> (\<exists>x y. x \<noteq> y \<and> H x = H y)"
proof (rule disjCI)
  assume nc: "\<not> (\<exists>x y. x \<noteq> y \<and> H x = H y)"
  have "map hashed_fields es = map hashed_fields es'"
    if "valid_log H r es" and "valid_log H r' es'" and "es \<noteq> []" and "es' \<noteq> []"
      and "last_hash es = last_hash es'" and "\<forall>e \<in> set es \<union> set es'. event_fits e" for es es'
    using that
  proof (induction es arbitrary: es' rule: rev_induct)
    case (snoc e es)
    obtain f fs where es': "es' = fs @ [f]" using snoc.prems(4) by (metis rev_exhaust)
    have v: "valid_log H r es" "ev_prev e = last_hash es" "ev_seq e = Suc (length es)" "ev_hash e = hash_event H e"
      using snoc.prems(1) by (simp_all add: valid_log_append)
    have w: "valid_log H r' fs" "ev_prev f = last_hash fs" "ev_seq f = Suc (length fs)" "ev_hash f = hash_event H f"
      using snoc.prems(2) by (simp_all add: es' valid_log_append)
    have "H (encode_event e) = H (encode_event f)"
      using snoc.prems(5) v(4) w(4) by (simp add: es' last_hash_def hash_event_def)
    then have "encode_event e = encode_event f" using nc by blast
    then have "hashed_fields e = hashed_fields f"
      by (rule encode_event_inj) (use snoc.prems(6) in \<open>simp_all add: es'\<close>)
    then have "ev_seq (hashed_fields e) = ev_seq (hashed_fields f)"
      and "ev_prev (hashed_fields e) = ev_prev (hashed_fields f)" by simp_all
    then have "ev_seq e = ev_seq f" and "ev_prev e = ev_prev f" unfolding hashed_fields_sel by simp_all
    then have len: "length es = length fs" and lh: "last_hash es = last_hash fs" using v w by simp_all
    have "map hashed_fields es = map hashed_fields fs"
    proof (cases "es = []")
      case True
      then show ?thesis using len by simp
    next
      case False
      then have "fs \<noteq> []" using len by auto
      then show ?thesis using False snoc.IH [of fs] v(1) w(1) len lh snoc.prems(6) by (auto simp: es')
    qed
    then show ?case using \<open>hashed_fields e = hashed_fields f\<close> by (simp add: es')
  qed simp
  then show "map hashed_fields es = map hashed_fields es'" using assms by blast
qed

definition sample_log :: "run_event list" where
  "sample_log = [new_event id ''r'' 1 ''RunCreated'' ''{}'' [] 0]"

theorem last_hash_binds_log_witness:
  "map hashed_fields sample_log = map hashed_fields sample_log"
proof -
  have v: "valid_log id ''r'' sample_log" unfolding sample_log_def by code_simp
  have f: "\<forall>e \<in> set sample_log \<union> set sample_log. event_fits e"
    by (simp add: sample_log_def new_event_def event_fits_def word_size_def Let_def)
  have n: "sample_log \<noteq> []" by (simp add: sample_log_def)
  show ?thesis using last_hash_binds_log [OF v v n n refl f] by auto
qed

section \<open>The contract of a run log\<close>

text \<open>What a client of the store relies on. \<^verbatim>\<open>lookup\<close> and \<^verbatim>\<open>log\<close> observe the store;
  \<^verbatim>\<open>update_if\<close> and \<^verbatim>\<open>append\<close> are \<^verbatim>\<open>UpdateRunIfState\<close> and \<^verbatim>\<open>AppendEvent\<close> on a
  state that may hold more than the store (a clock, a schedule of faults). A failed call may fail
  for any reason but changes nothing.\<close>

locale run_log =
  fixes H :: "string \<Rightarrow> digest"
    and lookup :: "'s \<Rightarrow> run_id \<Rightarrow> run option"
    and log :: "'s \<Rightarrow> run_id \<Rightarrow> run_event list"
    and kept :: "run \<Rightarrow> run"
    and update_if :: "run \<Rightarrow> run_state \<Rightarrow> string \<Rightarrow> string \<Rightarrow> 's \<Rightarrow> (store_error, run_event) result \<times> 's"
    and append :: "run_id \<Rightarrow> string \<Rightarrow> string \<Rightarrow> 's \<Rightarrow> (store_error, run_event) result \<times> 's"
    and inv :: "'s \<Rightarrow> bool"
  assumes inv_update: "inv s \<Longrightarrow> inv (snd (update_if r expected t payload s))"
    and inv_append: "inv s \<Longrightarrow> inv (snd (append i t payload s))"
    and inv_log: "inv s \<Longrightarrow> valid_log H i (log s i)"
    and update_Inl: "inv s \<Longrightarrow> update_if r expected t payload s = (Inl e, s')
      \<Longrightarrow> lookup s' = lookup s \<and> log s' = log s"
    and update_Inr: "inv s \<Longrightarrow> update_if r expected t payload s = (Inr ev, s')
      \<Longrightarrow> (\<exists>current. lookup s (rid r) = Some current \<and> state current = expected)
        \<and> lookup s' = (lookup s)(rid r \<mapsto> kept r) \<and> log s' = (log s)(rid r := log s (rid r) @ [ev])
        \<and> ev_type ev = t \<and> ev_payload ev = payload"
    and append_Inl: "inv s \<Longrightarrow> append i t payload s = (Inl e, s') \<Longrightarrow> lookup s' = lookup s \<and> log s' = log s"
    and append_Inr: "inv s \<Longrightarrow> append i t payload s = (Inr ev, s')
      \<Longrightarrow> (\<exists>current. lookup s i = Some current)
        \<and> lookup s' = lookup s \<and> log s' = (log s)(i := log s i @ [ev])
        \<and> ev_type ev = t \<and> ev_payload ev = payload"
    and kept_id: "rid (kept r) = rid r"
    and kept_state: "state (kept r) = state r"
begin

text \<open>Every client call keeps the history and the validity of every log.\<close>

lemma update_extends: "inv s \<Longrightarrow> prefix (log s i) (log (snd (update_if r expected t payload s)) i)"
  by (cases "update_if r expected t payload s"; cases "fst (update_if r expected t payload s)")
    (auto dest: update_Inl update_Inr)

lemma append_extends: "inv s \<Longrightarrow> prefix (log s i) (log (snd (append j t payload s)) i)"
  by (cases "append j t payload s"; cases "fst (append j t payload s)")
    (auto dest: append_Inl append_Inr)

text \<open>A compare-and-swap that succeeded shuts out every other writer that expects the same state.\<close>

lemma update_once:
  assumes "inv s" and "update_if r expected t payload s = (Inr ev, s')" and "state r \<noteq> expected"
    and "rid r' = rid r"
  shows "\<exists>e s''. update_if r' expected t' payload' s' = (Inl e, s'')"
proof (cases "update_if r' expected t' payload' s'")
  case (Pair x s'')
  have "inv s'" using inv_update [OF assms(1), of r expected t payload] assms(2) by simp
  then show ?thesis
    using Pair update_Inr [OF assms(1,2)] update_Inr [of s' r' expected t' payload' _ s''] assms(3,4)
    by (cases x) (auto simp: kept_state)
qed

end

section \<open>The in-memory store keeps it\<close>

definition store_ok :: "(string \<Rightarrow> digest) \<Rightarrow> memory_store \<Rightarrow> bool" where
  "store_ok H s \<longleftrightarrow> distinct (map fst (ms_runs s)) \<and> (\<forall>(k, r) \<in> set (ms_runs s). rid r = k)
     \<and> (\<forall>r. valid_log H r (ms_events s r)) \<and> (\<forall>r. ms_events s r \<noteq> [] \<longrightarrow> map_of (ms_runs s) r \<noteq> None)
     \<and> (\<forall>i a. ms_artifacts s i = Some a \<longrightarrow> art_id a = i \<and> map_of (ms_runs s) (art_run a) \<noteq> None)"

lemma store_ok_new: "store_ok H new_memory"
  by (simp add: store_ok_def new_memory_def)

lemma normalize_run_simps [simp]: "normalize_run r = r"
  by (simp add: normalize_run_def normalize_time_def)

lemma set_run_simps [simp]:
  "ms_events (set_run r s) = ms_events s" "ms_artifacts (set_run r s) = ms_artifacts s"
  "map_of (ms_runs (set_run r s)) = (map_of (ms_runs s))(rid r \<mapsto> r)"
  by (simp_all add: set_run_def update_conv' fun_eq_iff)

lemma append_locked_simps:
  assumes "append_locked H now r t payload s = (e, s')"
  shows "ms_runs s' = ms_runs s" "ms_artifacts s' = ms_artifacts s"
    "ms_events s' = (ms_events s)(r := ms_events s r @ [e])" "ev_type e = t" "ev_payload e = payload"
    "e = new_event H r (length (ms_events s r) + 1) t payload (last_hash (ms_events s r)) now"
  using assms by (auto simp: append_locked_def Let_def last_hash_def new_event_def)

lemma update_in_set: "(k, v) \<in> set (AList.update a b xs) \<Longrightarrow> (k, v) = (a, b) \<or> (k, v) \<in> set xs"
  by (induction xs) (auto split: if_splits)

lemma set_run_ok: "store_ok H s \<Longrightarrow> store_ok H (set_run r s)"
  by (auto simp: store_ok_def distinct_update set_run_def update_conv' dest!: update_in_set)

lemma append_locked_ok:
  assumes "store_ok H s" and "map_of (ms_runs s) r \<noteq> None" and "append_locked H now r t payload s = (e, s')"
  shows "store_ok H s'"
  using assms append_locked_simps [OF assms(3)] valid_log_new_event [of H r "ms_events s r" t payload now]
  by (auto simp: store_ok_def)

text \<open>The operations that change the store, and a step.\<close>

datatype store_op =
    OpCreateRun bool run
  | OpCreateRunWithEvent bool gtime run string string
  | OpUpdateRun bool gtime run string string
  | OpUpdateRunIfState bool gtime run run_state string string
  | OpAppendEvent bool gtime run_id string string
  | OpPutArtifact bool artifact

datatype store_reply =
    ReplyDone "(store_error, unit) result"
  | ReplyEvent "(store_error, run_event) result"

fun memory_step :: "(string \<Rightarrow> digest) \<Rightarrow> store_op \<Rightarrow> memory_store \<Rightarrow> store_reply \<times> memory_store" where
  "memory_step H (OpCreateRun c r) s = (let (x, s') = create_run c r s in (ReplyDone x, s'))"
| "memory_step H (OpCreateRunWithEvent c now r t p) s =
     (let (x, s') = create_run_with_event H c now r t p s in (ReplyEvent x, s'))"
| "memory_step H (OpUpdateRun c now r t p) s = (let (x, s') = update_run H c now r t p s in (ReplyEvent x, s'))"
| "memory_step H (OpUpdateRunIfState c now r ex t p) s =
     (let (x, s') = update_run_if_state H c now r ex t p s in (ReplyEvent x, s'))"
| "memory_step H (OpAppendEvent c now i t p) s = (let (x, s') = append_event H c now i t p s in (ReplyEvent x, s'))"
| "memory_step H (OpPutArtifact c a) s = (let (x, s') = put_artifact c a s in (ReplyDone x, s'))"

definition memory_exec :: "(string \<Rightarrow> digest) \<Rightarrow> store_op list \<Rightarrow> memory_store \<Rightarrow> memory_store" where
  "memory_exec H ops s = foldl (\<lambda>s op. snd (memory_step H op s)) s ops"

lemma validate_cases:
  "validate_run_id r = (if r = [] then Inl ErrEmptyRunID else Inr ())"
  "validate_event r t = (if r = [] then Inl ErrEmptyRunID else if t = [] then Inl ErrEmptyEventType else Inr ())"
  "check_context c = (if c then Inl ErrStoreContext else Inr ())"
  by (simp_all add: validate_run_id_def validate_event_def check_context_def)

lemmas store_ops = create_run_def create_run_with_event_def update_run_def update_run_if_state_def
  append_event_def put_artifact_def validate_cases

lemma put_artifact_ok:
  assumes "store_ok H s"
  shows "store_ok H (snd (put_artifact c a s))" and "ms_events (snd (put_artifact c a s)) = ms_events s"
  using assms by (auto simp: put_artifact_def store_ok_def split: sum.splits option.splits)

lemma memory_step_ok:
  assumes "store_ok H s"
  shows "store_ok H (snd (memory_step H op s)) \<and> (\<forall>r. prefix (ms_events s r) (ms_events (snd (memory_step H op s)) r))"
proof (cases op)
  case (OpPutArtifact c a)
  then show ?thesis using put_artifact_ok [OF assms, of c a] by (simp add: case_prod_beta)
next
  case (OpCreateRun c r)
  then show ?thesis using assms set_run_ok by (simp add: store_ops case_prod_beta)
next
  case (OpCreateRunWithEvent c now r t p)
  obtain e s' where a: "append_locked H now (rid r) t p (set_run r s) = (e, s')" by (rule prod.exhaust)
  show ?thesis
    using OpCreateRunWithEvent assms append_locked_ok [OF set_run_ok [OF assms] _ a] append_locked_simps(3) [OF a] a
    by (simp add: store_ops case_prod_beta)
next
  case (OpUpdateRun c now r t p)
  obtain e s' where a: "append_locked H now (rid r) t p s = (e, s')" by (rule prod.exhaust)
  show ?thesis
    using OpUpdateRun assms append_locked_ok [OF assms _ a] append_locked_simps(3) [OF a] a set_run_ok
    by (simp add: store_ops case_prod_beta)
next
  case (OpUpdateRunIfState c now r ex t p)
  obtain e s' where a: "append_locked H now (rid r) t p s = (e, s')" by (rule prod.exhaust)
  show ?thesis
    using OpUpdateRunIfState assms append_locked_ok [OF assms _ a] append_locked_simps(3) [OF a] a set_run_ok
    by (simp add: store_ops case_prod_beta split: option.split)
next
  case (OpAppendEvent c now i t p)
  obtain e s' where a: "append_locked H now i t p s = (e, s')" by (rule prod.exhaust)
  show ?thesis
    using OpAppendEvent assms append_locked_ok [OF assms _ a] append_locked_simps(3) [OF a] a
    by (simp add: store_ops case_prod_beta)
qed

text \<open>C25. Whatever operations have run, in whatever order: every log of the store is a valid hash
  chain, numbered from one, of the events of its run; every event and artifact belongs to a run
  that exists; and the logs only ever grow.\<close>

theorem store_stays_sound:
  "store_ok H (memory_exec H ops new_memory)
   \<and> prefix (ms_events (memory_exec H ops new_memory) r) (ms_events (memory_exec H (ops @ later) new_memory) r)"
proof -
  have ok: "store_ok H (memory_exec H ops new_memory)" for ops
  proof (induction ops rule: rev_induct)
    case Nil
    then show ?case by (simp add: memory_exec_def store_ok_new)
  next
    case (snoc op ops)
    then show ?case using memory_step_ok [of H "memory_exec H ops new_memory" op] by (simp add: memory_exec_def)
  qed
  have "prefix (ms_events (memory_exec H ops new_memory) r) (ms_events (memory_exec H (ops @ later) new_memory) r)"
  proof (induction later rule: rev_induct)
    case (snoc op later)
    let ?s = "memory_exec H (ops @ later) new_memory"
    have step: "memory_exec H (ops @ later @ [op]) new_memory = snd (memory_step H op ?s)"
      by (simp add: memory_exec_def)
    have "prefix (ms_events ?s r) (ms_events (snd (memory_step H op ?s)) r)"
      using memory_step_ok [OF ok [of "ops @ later"]] by blast
    then show ?case unfolding step by (rule prefix_order.trans [OF snoc])
  qed simp
  then show ?thesis using ok by blast
qed

section \<open>The interpretation\<close>

text \<open>The store with the readings its calls will get: the clock and whether the context is cancelled,
  consumed in order.\<close>

record memory_world =
  mw_store :: memory_store
  mw_clock :: "nat \<Rightarrow> gtime"
  mw_cancelled :: "nat \<Rightarrow> bool"
  mw_calls :: nat

definition memory_update_if ::
    "(string \<Rightarrow> digest) \<Rightarrow> run \<Rightarrow> run_state \<Rightarrow> string \<Rightarrow> string \<Rightarrow> memory_world
     \<Rightarrow> (store_error, run_event) result \<times> memory_world" where
  "memory_update_if H r expected t payload w =
     (let (x, s) = update_run_if_state H (mw_cancelled w (mw_calls w)) (mw_clock w (mw_calls w)) r expected t
                     payload (mw_store w)
      in (x, w\<lparr>mw_store := s, mw_calls := mw_calls w + 1\<rparr>))"

definition memory_append ::
    "(string \<Rightarrow> digest) \<Rightarrow> run_id \<Rightarrow> string \<Rightarrow> string \<Rightarrow> memory_world
     \<Rightarrow> (store_error, run_event) result \<times> memory_world" where
  "memory_append H i t payload w =
     (let (x, s) = append_event H (mw_cancelled w (mw_calls w)) (mw_clock w (mw_calls w)) i t payload (mw_store w)
      in (x, w\<lparr>mw_store := s, mw_calls := mw_calls w + 1\<rparr>))"

lemma update_if_cases:
  assumes "update_run_if_state H c now r expected t p s = (x, s')"
  shows "(\<exists>e. x = Inl e \<and> s' = s)
    \<or> (\<exists>ev current. x = Inr ev \<and> map_of (ms_runs s) (rid r) = Some current \<and> state current = expected
         \<and> map_of (ms_runs s') = (map_of (ms_runs s))(rid r \<mapsto> r)
         \<and> ms_events s' = (ms_events s)(rid r := ms_events s (rid r) @ [ev])
         \<and> ev_type ev = t \<and> ev_payload ev = p)"
proof -
  obtain e s1 where a: "append_locked H now (rid r) t p s = (e, s1)" by (rule prod.exhaust)
  show ?thesis
    using assms a append_locked_simps [OF a]
    by (auto simp: update_run_if_state_def validate_cases split: if_splits option.splits)
qed

lemma append_event_cases:
  assumes "append_event H c now i t p s = (x, s')"
  shows "(\<exists>e. x = Inl e \<and> s' = s)
    \<or> (\<exists>ev. x = Inr ev \<and> map_of (ms_runs s) i \<noteq> None \<and> ms_runs s' = ms_runs s
         \<and> ms_events s' = (ms_events s)(i := ms_events s i @ [ev]) \<and> ev_type ev = t \<and> ev_payload ev = p)"
proof -
  obtain e s1 where a: "append_locked H now i t p s = (e, s1)" by (rule prod.exhaust)
  show ?thesis
    using assms a append_locked_simps [OF a]
    by (auto simp: append_event_def validate_cases split: if_splits)
qed

interpretation memory_log: run_log H "\<lambda>w. map_of (ms_runs (mw_store w))" "\<lambda>w. ms_events (mw_store w)"
  "\<lambda>r. r" "memory_update_if H" "memory_append H" "\<lambda>w. store_ok H (mw_store w)"
  for H :: "string \<Rightarrow> digest"
proof (unfold_locales, goal_cases)
  case (1 s r expected t payload)
  then show ?case
    using memory_step_ok [of H "mw_store s" "OpUpdateRunIfState (mw_cancelled s (mw_calls s))
        (mw_clock s (mw_calls s)) r expected t payload"]
    by (simp add: memory_update_if_def case_prod_beta)
next
  case (2 s i t payload)
  then show ?case
    using memory_step_ok [of H "mw_store s" "OpAppendEvent (mw_cancelled s (mw_calls s))
        (mw_clock s (mw_calls s)) i t payload"]
    by (simp add: memory_append_def case_prod_beta)
next
  case (3 s i)
  then show ?case by (simp add: store_ok_def)
next
  case (4 s r expected t payload e s')
  then show ?case by (auto simp: memory_update_if_def split: prod.splits dest: update_if_cases)
next
  case (5 s r expected t payload ev s')
  then show ?case by (auto simp: memory_update_if_def split: prod.splits dest: update_if_cases)
next
  case (6 s i t payload e s')
  then show ?case by (auto simp: memory_append_def split: prod.splits dest: append_event_cases)
next
  case (7 s i t payload ev s')
  then show ?case by (auto simp: memory_append_def split: prod.splits dest: append_event_cases)
qed simp_all

end
