(* ===== verification/Sqlite_Store.thy ===== *)
theory Sqlite_Store
  imports Store_Log
begin

text \<open>
  The SQLite implementation of the port (\<^verbatim>\<open>internal/store/sqlite.go\<close> with the schema of
  \<^verbatim>\<open>migrations/001_init.sql\<close>): the tables as lists of rows, the statements as functions on
  them, and the operations as the sequences of statements the code runs, in a transaction where the
  code opens one. Every call of the database driver can fail: \<^verbatim>\<open>fault k\<close> says that the
  operation's call number \<^verbatim>\<open>k\<close> does; a failed statement or commit has no effect, and a
  transaction that is not committed is rolled back.
\<close>

section \<open>Instants as integers\<close>

definition zero_time_marker :: int where
  "zero_time_marker = min_int64"

definition store_time :: "gtime \<Rightarrow> int" where
  "store_time t = (if t = zero_time then zero_time_marker else unix_nano t)"

definition load_time :: "int \<Rightarrow> gtime" where
  "load_time v = (if v = zero_time_marker then zero_time else v)"

definition store_run :: "run \<Rightarrow> run" where
  \<comment> \<open>the row of a run\<close>
  "store_run r = r\<lparr>created_at := store_time (created_at r), updated_at := store_time (updated_at r)\<rparr>"

definition load_run :: "run \<Rightarrow> run" where
  "load_run row = row\<lparr>created_at := load_time (created_at row), updated_at := load_time (updated_at row)\<rparr>"

section \<open>Tables and statements\<close>

record sqlite_db =
  runs_table :: "run list"
  events_table :: "run_event list"
  artifacts_table :: "artifact list"

definition empty_db :: sqlite_db where
  "empty_db = \<lparr>runs_table = [], events_table = [], artifacts_table = []\<rparr>"

definition run_exists :: "run_id \<Rightarrow> sqlite_db \<Rightarrow> bool" where
  "run_exists i db \<longleftrightarrow> list_ex (\<lambda>row. rid row = i) (runs_table db)"

text \<open>\<^verbatim>\<open>INSERT INTO runs ... ON CONFLICT(id) DO NOTHING\<close> and the number of rows affected.\<close>

definition insert_run_row :: "run \<Rightarrow> sqlite_db \<Rightarrow> nat \<times> sqlite_db" where
  "insert_run_row row db =
     (if run_exists (rid row) db then (0, db) else (1, db\<lparr>runs_table := runs_table db @ [row]\<rparr>))"

text \<open>\<^verbatim>\<open>UPDATE runs SET ... WHERE id = ?\<close> with a further condition.\<close>

definition update_run_rows :: "(run \<Rightarrow> bool) \<Rightarrow> run \<Rightarrow> sqlite_db \<Rightarrow> nat \<times> sqlite_db" where
  "update_run_rows P row db =
     (let hit = (\<lambda>old. rid old = rid row \<and> P old) in
      (length (filter hit (runs_table db)),
       db\<lparr>runs_table := map (\<lambda>old. if hit old then row else old) (runs_table db)\<rparr>))"

definition events_of :: "sqlite_db \<Rightarrow> run_id \<Rightarrow> run_event list" where
  \<comment> \<open>\<^verbatim>\<open>... FROM run_events WHERE run_id = ? ORDER BY sequence\<close>\<close>
  "events_of db i = sort_key ev_seq (filter (\<lambda>e. ev_run e = i) (events_table db))"

definition latest_event :: "sqlite_db \<Rightarrow> run_id \<Rightarrow> (nat \<times> digest) option" where
  \<comment> \<open>\<^verbatim>\<open>SELECT sequence, hash ... ORDER BY sequence DESC LIMIT 1\<close>\<close>
  "latest_event db i =
     (let es = events_of db i in if es = [] then None else Some (ev_seq (last es), ev_hash (last es)))"

text \<open>Inserting an event fails on the primary key or the foreign key; the instant is stored as an
  int64.\<close>

definition insert_event_row :: "run_event \<Rightarrow> sqlite_db \<Rightarrow> sqlite_db option" where
  "insert_event_row e db =
     (if list_ex (\<lambda>f. ev_run f = ev_run e \<and> ev_seq f = ev_seq e) (events_table db) \<or> \<not> run_exists (ev_run e) db
      then None
      else Some (db\<lparr>events_table := events_table db @ [e\<lparr>ev_at := unix_nano (ev_at e)\<rparr>]\<rparr>))"

definition upsert_artifact :: "artifact \<Rightarrow> sqlite_db \<Rightarrow> nat \<times> sqlite_db" where
  "upsert_artifact a db =
     (case filter (\<lambda>b. art_id b = art_id a) (artifacts_table db) of
        [] \<Rightarrow> (1, db\<lparr>artifacts_table := artifacts_table db @ [a]\<rparr>)
      | b # _ \<Rightarrow>
          if art_run b = art_run a
          then (1, db\<lparr>artifacts_table := map (\<lambda>c. if art_id c = art_id a then a else c) (artifacts_table db)\<rparr>)
          else (0, db))"

section \<open>Transactions\<close>

type_synonym faults = "nat \<Rightarrow> bool"

text \<open>\<^verbatim>\<open>BeginTx\<close> is call 0 and \<^verbatim>\<open>Commit\<close> call 1; the deferred function rolls back on any error.\<close>

definition in_tx ::
    "faults \<Rightarrow> (sqlite_db \<Rightarrow> (store_error, 'a) result \<times> sqlite_db) \<Rightarrow> sqlite_db
     \<Rightarrow> (store_error, 'a) result \<times> sqlite_db" where
  "in_tx fault body db =
     (if fault 0 then (Inl ErrDatabase, db)
      else
        (case body db of
           (Inl e, _) \<Rightarrow> (Inl e, db)
         | (Inr x, db') \<Rightarrow> if fault 1 then (Inl ErrDatabase, db) else (Inr x, db')))"

text \<open>\<^verbatim>\<open>appendEventTx\<close>: calls 2 and 3.\<close>

definition append_event_tx ::
    "(string \<Rightarrow> digest) \<Rightarrow> faults \<Rightarrow> gtime \<Rightarrow> run_id \<Rightarrow> string \<Rightarrow> string \<Rightarrow> sqlite_db
     \<Rightarrow> (store_error, run_event) result \<times> sqlite_db" where
  "append_event_tx H fault now i t payload db =
     (if fault 2 then (Inl ErrDatabase, db)
      else
        (let (n, prev) = (case latest_event db i of None \<Rightarrow> (0, []) | Some x \<Rightarrow> x);
             e = new_event H i (n + 1) t payload prev now in
         if fault 3 then (Inl ErrDatabase, db)
         else (case insert_event_row e db of
                 None \<Rightarrow> (Inl ErrDatabase, db)
               | Some db' \<Rightarrow> (Inr e, db'))))"

section \<open>The operations\<close>

definition sqlite_create_run :: "faults \<Rightarrow> bool \<Rightarrow> run \<Rightarrow> sqlite_db \<Rightarrow> (store_error, unit) result \<times> sqlite_db" where
  "sqlite_create_run fault cancelled r db =
     (case validate_run_id (rid r) of
        Inl e \<Rightarrow> (Inl e, db)
      | Inr _ \<Rightarrow>
          (case check_context cancelled of
             Inl e \<Rightarrow> (Inl e, db)
           | Inr _ \<Rightarrow>
               if fault 4 then (Inl ErrDatabase, db)
               else
                 (let (changed, db') = insert_run_row (store_run (normalize_run r)) db in
                  if fault 5 then (Inl ErrDatabase, db')
                  else if changed = 0 then (Inl ErrRunAlreadyExists, db')
                  else (Inr (), db'))))"

definition sqlite_create_run_with_event ::
    "(string \<Rightarrow> digest) \<Rightarrow> faults \<Rightarrow> bool \<Rightarrow> gtime \<Rightarrow> run \<Rightarrow> string \<Rightarrow> string \<Rightarrow> sqlite_db
     \<Rightarrow> (store_error, run_event) result \<times> sqlite_db" where
  "sqlite_create_run_with_event H fault cancelled now r t payload db =
     (case validate_event (rid r) t of
        Inl e \<Rightarrow> (Inl e, db)
      | Inr _ \<Rightarrow>
          (case check_context cancelled of
             Inl e \<Rightarrow> (Inl e, db)
           | Inr _ \<Rightarrow>
               in_tx fault
                 (\<lambda>db. if fault 4 then (Inl ErrDatabase, db)
                   else
                     (let (changed, db') = insert_run_row (store_run (normalize_run r)) db in
                      if fault 5 then (Inl ErrDatabase, db')
                      else if changed = 0 then (Inl ErrRunAlreadyExists, db')
                      else append_event_tx H fault now (rid r) t payload db'))
                 db))"

definition sqlite_update_run ::
    "(string \<Rightarrow> digest) \<Rightarrow> faults \<Rightarrow> bool \<Rightarrow> gtime \<Rightarrow> run \<Rightarrow> string \<Rightarrow> string \<Rightarrow> sqlite_db
     \<Rightarrow> (store_error, run_event) result \<times> sqlite_db" where
  "sqlite_update_run H fault cancelled now r t payload db =
     (case validate_event (rid r) t of
        Inl e \<Rightarrow> (Inl e, db)
      | Inr _ \<Rightarrow>
          (case check_context cancelled of
             Inl e \<Rightarrow> (Inl e, db)
           | Inr _ \<Rightarrow>
               in_tx fault
                 (\<lambda>db. if fault 4 then (Inl ErrDatabase, db)
                   else
                     (let (changed, db') = update_run_rows (\<lambda>_. True) (store_run (normalize_run r)) db in
                      if fault 5 then (Inl ErrDatabase, db')
                      else if changed = 0 then (Inl ErrRunNotFound, db')
                      else append_event_tx H fault now (rid r) t payload db'))
                 db))"

definition sqlite_update_run_if_state ::
    "(string \<Rightarrow> digest) \<Rightarrow> faults \<Rightarrow> bool \<Rightarrow> gtime \<Rightarrow> run \<Rightarrow> run_state \<Rightarrow> string \<Rightarrow> string \<Rightarrow> sqlite_db
     \<Rightarrow> (store_error, run_event) result \<times> sqlite_db" where
  "sqlite_update_run_if_state H fault cancelled now r expected t payload db =
     (case validate_event (rid r) t of
        Inl e \<Rightarrow> (Inl e, db)
      | Inr _ \<Rightarrow>
          (case check_context cancelled of
             Inl e \<Rightarrow> (Inl e, db)
           | Inr _ \<Rightarrow>
               in_tx fault
                 (\<lambda>db. if fault 4 then (Inl ErrDatabase, db)
                   else
                     (let (changed, db') =
                        update_run_rows (\<lambda>old. state old = expected) (store_run (normalize_run r)) db in
                      if fault 5 then (Inl ErrDatabase, db')
                      else if changed = 0
                      then (if fault 6 then (Inl ErrDatabase, db')
                            else if \<not> run_exists (rid r) db' then (Inl ErrRunNotFound, db')
                            else (Inl ErrRunStateChanged, db'))
                      else append_event_tx H fault now (rid r) t payload db'))
                 db))"

definition sqlite_append_event ::
    "(string \<Rightarrow> digest) \<Rightarrow> faults \<Rightarrow> bool \<Rightarrow> gtime \<Rightarrow> run_id \<Rightarrow> string \<Rightarrow> string \<Rightarrow> sqlite_db
     \<Rightarrow> (store_error, run_event) result \<times> sqlite_db" where
  "sqlite_append_event H fault cancelled now i t payload db =
     (case validate_event i t of
        Inl e \<Rightarrow> (Inl e, db)
      | Inr _ \<Rightarrow>
          (case check_context cancelled of
             Inl e \<Rightarrow> (Inl e, db)
           | Inr _ \<Rightarrow>
               in_tx fault
                 (\<lambda>db. if fault 6 then (Inl ErrDatabase, db)
                   else if \<not> run_exists i db then (Inl ErrRunNotFound, db)
                   else append_event_tx H fault now i t payload db)
                 db))"

definition find_run :: "sqlite_db \<Rightarrow> run_id \<Rightarrow> run option" where
  "find_run db i = map_of (map (\<lambda>row. (rid row, load_run row)) (runs_table db)) i"

definition sqlite_get_run :: "faults \<Rightarrow> bool \<Rightarrow> run_id \<Rightarrow> sqlite_db \<Rightarrow> (store_error, run) result" where
  "sqlite_get_run fault cancelled i db =
     (case validate_run_id i of
        Inl e \<Rightarrow> Inl e
      | Inr _ \<Rightarrow>
          (case check_context cancelled of
             Inl e \<Rightarrow> Inl e
           | Inr _ \<Rightarrow>
               if fault 0 then Inl ErrDatabase
               else (case find_run db i of None \<Rightarrow> Inl ErrRunNotFound | Some r \<Rightarrow> Inr r)))"

text \<open>\<^verbatim>\<open>ORDER BY updated_at DESC, id ASC\<close> with \<^verbatim>\<open>LIMIT\<close> and \<^verbatim>\<open>OFFSET\<close>, one row past the limit.\<close>

definition select_runs :: "run_list_query \<Rightarrow> sqlite_db \<Rightarrow> run list" where
  "select_runs q db =
     (let rows = drop (nat (q_offset q)) (sort_key run_order (filter (query_allows q) (runs_table db))) in
      if 0 < q_limit q then take (nat (q_limit q + 1)) rows else rows)"

definition sqlite_list_runs ::
    "faults \<Rightarrow> bool \<Rightarrow> run_list_query \<Rightarrow> sqlite_db \<Rightarrow> (store_error, run_page) result" where
  "sqlite_list_runs fault cancelled q db =
     (if q_limit q < 0 \<or> q_offset q < 0 then Inl ErrInvalidRunList
      else
        (case check_context cancelled of
           Inl e \<Rightarrow> Inl e
         | Inr _ \<Rightarrow>
             if fault 0 \<or> fault 1 then Inl ErrDatabase
             else
               (let runs = map load_run (select_runs q db) in
                if 0 < q_limit q \<and> q_limit q < int (length runs)
                then Inr \<lparr>page_runs = take (nat (q_limit q)) runs, has_more = True\<rparr>
                else Inr \<lparr>page_runs = runs, has_more = False\<rparr>)))"

definition sqlite_list_events ::
    "faults \<Rightarrow> bool \<Rightarrow> run_id \<Rightarrow> nat \<Rightarrow> sqlite_db \<Rightarrow> (store_error, run_event list) result" where
  "sqlite_list_events fault cancelled i from db =
     (case validate_run_id i of
        Inl e \<Rightarrow> Inl e
      | Inr _ \<Rightarrow>
          (case check_context cancelled of
             Inl e \<Rightarrow> Inl e
           | Inr _ \<Rightarrow>
               if fault 0 then Inl ErrDatabase
               else if \<not> run_exists i db then Inl ErrRunNotFound
               else if max_int64 < int from then Inr []
               else if fault 1 then Inl ErrDatabase
               else Inr (filter (\<lambda>e. from \<le> ev_seq e) (events_of db i))))"

definition sqlite_put_artifact ::
    "faults \<Rightarrow> bool \<Rightarrow> artifact \<Rightarrow> sqlite_db \<Rightarrow> (store_error, unit) result \<times> sqlite_db" where
  "sqlite_put_artifact fault cancelled a db =
     (case validate_artifact a of
        Inl e \<Rightarrow> (Inl e, db)
      | Inr _ \<Rightarrow>
          (case check_context cancelled of
             Inl e \<Rightarrow> (Inl e, db)
           | Inr _ \<Rightarrow>
               if fault 0 then (Inl ErrDatabase, db)
               else if \<not> run_exists (art_run a) db then (Inl ErrRunNotFound, db)
               else if fault 1 then (Inl ErrDatabase, db)
               else
                 (let (changed, db') = upsert_artifact a db in
                  if fault 2 then (Inl ErrDatabase, db')
                  else if changed = 0 then (Inl ErrArtifactExists, db')
                  else (Inr (), db'))))"

definition find_artifact :: "sqlite_db \<Rightarrow> string \<Rightarrow> artifact option" where
  "find_artifact db aid = map_of (map (\<lambda>a. (art_id a, a)) (artifacts_table db)) aid"

definition sqlite_get_artifact ::
    "faults \<Rightarrow> bool \<Rightarrow> run_id \<Rightarrow> string \<Rightarrow> sqlite_db \<Rightarrow> (store_error, artifact) result" where
  "sqlite_get_artifact fault cancelled i aid db =
     (case validate_run_id i of
        Inl e \<Rightarrow> Inl e
      | Inr _ \<Rightarrow>
          if aid = [] then Inl ErrEmptyArtifactID
          else
            (case check_context cancelled of
               Inl e \<Rightarrow> Inl e
             | Inr _ \<Rightarrow>
                 if fault 0 then Inl ErrDatabase
                 else
                   (case find_artifact db aid of
                      Some a \<Rightarrow>
                        if art_run a = i then Inr a
                        else if fault 1 then Inl ErrDatabase
                        else if \<not> run_exists i db then Inl ErrRunNotFound
                        else Inl ErrArtifactNotFound
                    | None \<Rightarrow>
                        if fault 1 then Inl ErrDatabase
                        else if \<not> run_exists i db then Inl ErrRunNotFound
                        else Inl ErrArtifactNotFound)))"

fun sqlite_step :: "(string \<Rightarrow> digest) \<Rightarrow> faults \<Rightarrow> store_op \<Rightarrow> sqlite_db \<Rightarrow> store_reply \<times> sqlite_db" where
  "sqlite_step H f (OpCreateRun c r) s = (let (x, s') = sqlite_create_run f c r s in (ReplyDone x, s'))"
| "sqlite_step H f (OpCreateRunWithEvent c now r t p) s =
     (let (x, s') = sqlite_create_run_with_event H f c now r t p s in (ReplyEvent x, s'))"
| "sqlite_step H f (OpUpdateRun c now r t p) s =
     (let (x, s') = sqlite_update_run H f c now r t p s in (ReplyEvent x, s'))"
| "sqlite_step H f (OpUpdateRunIfState c now r ex t p) s =
     (let (x, s') = sqlite_update_run_if_state H f c now r ex t p s in (ReplyEvent x, s'))"
| "sqlite_step H f (OpAppendEvent c now i t p) s =
     (let (x, s') = sqlite_append_event H f c now i t p s in (ReplyEvent x, s'))"
| "sqlite_step H f (OpPutArtifact c a) s = (let (x, s') = sqlite_put_artifact f c a s in (ReplyDone x, s'))"

end
