(* ===== verification/Store_Queries.thy ===== *)
theory Store_Queries
  imports Store_Log
begin

text \<open>
  What callers see of the in-memory store: \<^verbatim>\<open>UpdateRunIfState\<close> as a compare-and-swap, and the
  pages of \<^verbatim>\<open>ListRuns\<close>.
\<close>

section \<open>Compare and swap\<close>

lemma update_if_success_id: "update_run_if_state H c now r ex t p s = (Inr ev, s') \<Longrightarrow> rid r \<noteq> []"
  by (auto simp: update_run_if_state_def validate_cases split: if_splits)

text \<open>C36. \<^verbatim>\<open>UpdateRunIfState\<close> is a compare-and-swap: when it succeeds the stored run was in the
  expected state, is now the given one, its log has one event more and nothing else changed; and
  of two writers that expect the same state and move on, the second fails, whatever it writes.\<close>

theorem update_is_compare_and_swap:
  assumes "update_run_if_state H c now r expected t p s = (Inr ev, s')" and "state r \<noteq> expected"
    and "rid r' = rid r" and "store_ok H s"
  shows "(\<exists>current. get_run False (rid r) s = Inr current \<and> state current = expected)
    \<and> get_run False (rid r) s' = Inr r
    \<and> list_events False (rid r) 0 s' = Inr (ms_events s (rid r) @ [ev])
    \<and> (\<forall>q. q \<noteq> rid r \<longrightarrow> get_run False q s' = get_run False q s \<and> ms_events s' q = ms_events s q)
    \<and> (\<exists>e. update_run_if_state H c' now' r' expected t' p' s' = (Inl e, s'))"
proof -
  note id = update_if_success_id [OF assms(1)]
  obtain current where cur: "map_of (ms_runs s) (rid r) = Some current" "state current = expected"
    and s': "map_of (ms_runs s') = (map_of (ms_runs s))(rid r \<mapsto> r)"
      "ms_events s' = (ms_events s)(rid r := ms_events s (rid r) @ [ev])"
    using update_if_cases [OF assms(1)] by auto
  let ?w = "\<lambda>s. \<lparr>mw_store = s, mw_clock = \<lambda>i. if i = 0 then now else now', mw_cancelled = \<lambda>i. if i = 0 then c else c', mw_calls = 0\<rparr>"
  have "memory_update_if H r expected t p (?w s) = (Inr ev, ?w s'\<lparr>mw_calls := 1\<rparr>)"
    using assms(1) by (simp add: memory_update_if_def)
  then obtain e w'' where e: "memory_update_if H r' expected t' p' (?w s'\<lparr>mw_calls := 1\<rparr>) = (Inl e, w'')"
    using memory_log.update_once [of H "?w s" r expected t p ev _ r' t' p'] assms(2-4) by auto
  obtain x s'' where x: "update_run_if_state H c' now' r' expected t' p' s' = (x, s'')" by (rule prod.exhaust)
  then have "x = Inl e" using e by (simp add: memory_update_if_def)
  then have "update_run_if_state H c' now' r' expected t' p' s' = (Inl e, s')"
    using x update_if_cases [OF x] by auto
  then show ?thesis
    using id cur s' by (auto simp: get_run_def list_events_def validate_cases)
qed

definition sample_run :: "run_state \<Rightarrow> run" where
  "sample_run st = \<lparr>rid = ''r'', state = st, profile = ProfileReview, task = [], repo_root = [],
     current_stage = [], created_at = 0, updated_at = 5\<rparr>"

definition sample_store :: memory_store where
  "sample_store = snd (create_run False (sample_run StateCreated) new_memory)"

lemma sample_store_ok: "store_ok H sample_store"
  using memory_step_ok [OF store_ok_new, of H "OpCreateRun False (sample_run StateCreated)"]
  by (simp add: sample_store_def case_prod_beta)

theorem update_is_compare_and_swap_witness:
  "get_run False ''r'' (snd (update_run_if_state id False 7 (sample_run StatePreflight) StateCreated ''E'' [] sample_store))
     = Inr (sample_run StatePreflight)"
proof -
  let ?u = "update_run_if_state id False 7 (sample_run StatePreflight) StateCreated ''E'' [] sample_store"
  obtain x s' where u: "?u = (x, s')" by (rule prod.exhaust)
  have "fst ?u = Inr (new_event id ''r'' 1 ''E'' [] [] 7)" by code_simp
  then have u': "?u = (Inr (new_event id ''r'' 1 ''E'' [] [] 7), s')" using u by simp
  have st: "state (sample_run StatePreflight) \<noteq> StateCreated" by (simp add: sample_run_def)
  have "get_run False (rid (sample_run StatePreflight)) s' = Inr (sample_run StatePreflight)"
    by (rule update_is_compare_and_swap [OF u' st refl sample_store_ok, THEN conjunct2, THEN conjunct1])
  then show ?thesis unfolding u' by (simp add: sample_run_def)
qed

section \<open>Pages\<close>

lemma map_of_set: "distinct (map fst xs) \<Longrightarrow> set xs = {(k, v). map_of xs k = Some v}"
  by (auto simp: map_of_eq_Some_iff)

lemma stored_runs:
  assumes "store_ok H s"
  shows "set (map snd (ms_runs s)) = {r. \<exists>k. map_of (ms_runs s) k = Some r}"
    and "distinct (map rid (map snd (ms_runs s)))"
proof -
  have d: "distinct (map fst (ms_runs s))" and k: "\<forall>(k, r) \<in> set (ms_runs s). rid r = k"
    using assms by (auto simp: store_ok_def)
  show "set (map snd (ms_runs s)) = {r. \<exists>k. map_of (ms_runs s) k = Some r}"
    using map_of_set [OF d] by force
  have "map rid (map snd (ms_runs s)) = map fst (ms_runs s)"
    unfolding map_map by (rule map_cong) (use k in auto)
  then show "distinct (map rid (map snd (ms_runs s)))" using d by argo
qed

lemma distinct_mapI: "distinct (map f xs) \<Longrightarrow> distinct xs"
  by (simp add: distinct_map)

lemma run_order_inj: "distinct (map rid rs) \<Longrightarrow> inj_on run_order (set rs)"
  by (auto simp: inj_on_def run_order_def distinct_map)

text \<open>\<^verbatim>\<open>ListRuns\<close> does not depend on the iteration order of the map: stores with the same runs
  list alike. The pages of a query are the consecutive slices of one list, which holds exactly the
  runs the query allows, once each, latest update first and ties by identifier; and a page says
  there is more exactly when the list goes on.\<close>

theorem list_runs_pages:
  assumes "store_ok H s" and "store_ok H s'" and "map_of (ms_runs s) = map_of (ms_runs s')"
    and "0 \<le> q_limit q" and "0 \<le> q_offset q"
  shows "list_runs False q s = list_runs False q s'
    \<and> (\<exists>all more. set all = {r. (\<exists>k. map_of (ms_runs s) k = Some r) \<and> query_allows q r}
        \<and> distinct all \<and> sorted (map run_order all)
        \<and> list_runs False q s = Inr \<lparr>page_runs =
             (if q_limit q = 0 then drop (nat (q_offset q)) all
              else take (nat (q_limit q)) (drop (nat (q_offset q)) all)),
             has_more = more\<rparr>
        \<and> (more \<longleftrightarrow> 0 < q_limit q \<and> q_offset q + q_limit q < int (length all)))"
proof -
  let ?rs = "\<lambda>s. filter (query_allows q) (map snd (ms_runs s))"
  let ?all = "sort_key run_order (?rs s)"
  have d: "distinct (map fst (ms_runs s))" "distinct (map fst (ms_runs s'))"
    using assms(1,2) by (simp_all add: store_ok_def)
  have "set (ms_runs s) = set (ms_runs s')" unfolding map_of_set [OF d(1)] map_of_set [OF d(2)] assms(3) ..
  moreover have "distinct (ms_runs s)" "distinct (ms_runs s')" using d by (simp_all add: distinct_map)
  ultimately have "mset (ms_runs s) = mset (ms_runs s')" using set_eq_iff_mset_eq_distinct by blast
  then have "mset (?rs s') = mset (?rs s)" by simp
  moreover have inj: "inj_on run_order (set (?rs s'))"
    using run_order_inj [OF stored_runs(2) [OF assms(2)]] by (auto intro: inj_on_subset)
  ultimately have "sort_key run_order (?rs s') = ?all"
    by (intro sort_key_inj_key_eq) simp_all
  then have same: "list_runs False q s = list_runs False q s'"
    by (simp add: list_runs_def validate_cases)
  have set: "set ?all = {r. (\<exists>k. map_of (ms_runs s) k = Some r) \<and> query_allows q r}"
    using stored_runs(1) [OF assms(1)] by auto
  have dist: "distinct ?all"
    using distinct_mapI [OF stored_runs(2) [OF assms(1)]] by simp
  have page: "list_runs False q s = Inr (page_of q ?all)"
    using assms(4,5) by (simp add: list_runs_def validate_cases)
  let ?more = "0 < q_limit q \<and> q_offset q + q_limit q < int (length ?all)"
  have slice: "page_of q ?all = \<lparr>page_runs =
      (if q_limit q = 0 then drop (nat (q_offset q)) ?all
       else take (nat (q_limit q)) (drop (nat (q_offset q)) ?all)), has_more = ?more\<rparr>"
    using assms(4,5) by (auto simp: page_of_def Let_def min_def)
  have sorted: "sorted (map run_order ?all)" by simp
  have result: "list_runs False q s = Inr \<lparr>page_runs =
      (if q_limit q = 0 then drop (nat (q_offset q)) ?all
       else take (nat (q_limit q)) (drop (nat (q_offset q)) ?all)), has_more = ?more\<rparr>"
    unfolding page slice ..
  show ?thesis
    by (rule conjI [OF same], rule exI [of _ ?all], rule exI [of _ ?more])
      (intro conjI set dist sorted result refl)
qed

theorem list_runs_pages_witness:
  "list_runs False \<lparr>q_limit = 1, q_offset = 0, q_ids = None\<rparr> sample_store
     = list_runs False \<lparr>q_limit = 1, q_offset = 0, q_ids = None\<rparr> sample_store"
  by (rule list_runs_pages [OF sample_store_ok sample_store_ok refl, THEN conjunct1]) simp_all

end
