(* ===== verification/Sqlite_Refines.thy ===== *)
theory Sqlite_Refines
  imports Sqlite_Store Store_Queries
begin

text \<open>
  The SQLite store refines the in-memory store: the same replies to the same calls, from related
  states to related states, as long as no driver call fails and every instant is one an int64 of
  nanoseconds holds (or the zero instant). With failing driver calls the transactional operations
  are atomic, and the store still keeps the contract \<^verbatim>\<open>run_log\<close>, which
  \<^verbatim>\<open>Sqlite_Correct\<close> interprets on it.
\<close>

section \<open>Instants\<close>

definition int64_time :: "gtime \<Rightarrow> bool" where
  "int64_time t \<longleftrightarrow> min_int64 < t \<and> t \<le> max_int64"

definition storable :: "gtime \<Rightarrow> bool" where
  "storable t \<longleftrightarrow> t = zero_time \<or> int64_time t"

lemma load_store_time: "storable t \<Longrightarrow> load_time (store_time t) = t"
  by (auto simp: storable_def int64_time_def load_time_def store_time_def zero_time_marker_def
      unix_nano_in_range)

lemma store_time_bounds: "min_int64 \<le> store_time t \<and> store_time t \<le> max_int64"
  using unix_nano_bounds [of t] by (simp add: store_time_def zero_time_marker_def int64_bounds)

lemma load_time_mono:
  assumes "min_int64 \<le> v" and "min_int64 \<le> w"
  shows "load_time v \<le> load_time w \<longleftrightarrow> v \<le> w"
  using assms by (auto simp: load_time_def zero_time_marker_def zero_time_def int64_bounds)

lemma run_row_simps [simp]:
  "rid (store_run r) = rid r" "state (store_run r) = state r" "rid (load_run r) = rid r" "state (load_run r) = state r"
  by (simp_all add: store_run_def load_run_def)

lemma load_store_run: "storable (created_at r) \<Longrightarrow> storable (updated_at r) \<Longrightarrow> load_run (store_run r) = r"
  by (simp add: load_run_def store_run_def load_store_time)

section \<open>Statements on a well-formed database\<close>

definition wf_db :: "(string \<Rightarrow> digest) \<Rightarrow> sqlite_db \<Rightarrow> bool" where
  "wf_db H db \<longleftrightarrow> distinct (map rid (runs_table db))
     \<and> (\<forall>row \<in> set (runs_table db). min_int64 \<le> updated_at row)
     \<and> (\<forall>i. valid_log H i (events_of db i))
     \<and> (\<forall>e \<in> set (events_table db). run_exists (ev_run e) db)
     \<and> distinct (map art_id (artifacts_table db))"

lemma wf_empty: "wf_db H empty_db"
  by (simp add: wf_db_def empty_db_def events_of_def)

lemma run_exists_find: "run_exists i db \<longleftrightarrow> find_run db i \<noteq> None"
  by (auto simp: run_exists_def find_run_def list_ex_iff map_of_eq_None_iff image_iff)

lemma insert_run_row_effect:
  "insert_run_row row db = (if find_run db (rid row) \<noteq> None then (0, db)
     else (1, db\<lparr>runs_table := runs_table db @ [row]\<rparr>))"
  by (simp add: insert_run_row_def run_exists_find)

lemma find_run_insert:
  "find_run db (rid row) = None \<Longrightarrow>
     find_run (db\<lparr>runs_table := runs_table db @ [row]\<rparr>) = (find_run db)(rid row \<mapsto> load_run row)"
  by (auto simp: find_run_def fun_eq_iff map_add_def split: option.splits)

lemma wf_insert_run:
  assumes "wf_db H db" and "find_run db (rid row) = None" and "min_int64 \<le> updated_at row"
  shows "wf_db H (db\<lparr>runs_table := runs_table db @ [row]\<rparr>)"
proof -
  have "rid row \<notin> rid ` set (runs_table db)"
    using assms(2) by (auto simp: find_run_def map_of_eq_None_iff image_iff)
  then show ?thesis using assms by (auto simp: wf_db_def events_of_def run_exists_def)
qed

abbreviation row_table :: "run list \<Rightarrow> (run_id \<times> run) list" where
  "row_table rows \<equiv> map (\<lambda>row. (rid row, load_run row)) rows"

lemma rows_update:
  assumes "distinct (map rid rows)"
  shows "map_of (row_table (map (\<lambda>old. if rid old = rid row \<and> Q (state old) then row else old) rows)) i
     = (case map_of (row_table rows) (rid row) of
          Some current \<Rightarrow> if Q (state current) \<and> i = rid row then Some (load_run row) else map_of (row_table rows) i
        | None \<Rightarrow> map_of (row_table rows) i)"
  using assms
proof (induction rows)
  case (Cons a rows)
  show ?case
  proof (cases "rid a = rid row")
    case True
    then have "rid row \<notin> rid ` set rows" using Cons.prems by simp
    then have "map (\<lambda>old. if rid old = rid row \<and> Q (state old) then row else old) rows = rows"
      by (intro map_idI) (metis image_eqI)
    then show ?thesis using True by simp
  next
    case False
    then show ?thesis using Cons by (auto split: option.splits)
  qed
qed simp

lemma rows_hit:
  assumes "distinct (map rid rows)"
  shows "filter (\<lambda>old. rid old = i \<and> Q (state old)) rows = []
     \<longleftrightarrow> (case map_of (row_table rows) i of None \<Rightarrow> True | Some current \<Rightarrow> \<not> Q (state current))"
  using assms
proof (induction rows)
  case (Cons a rows)
  show ?case
  proof (cases "rid a = i")
    case True
    then have "i \<notin> rid ` set rows" using Cons.prems by auto
    then have "filter (\<lambda>old. rid old = i \<and> Q (state old)) rows = []" by (auto simp: filter_empty_conv)
    then show ?thesis using True by simp
  next
    case False
    then show ?thesis using Cons by simp
  qed
qed simp

lemma update_run_rows_effect:
  assumes "wf_db H db"
  obtains db' n where "update_run_rows (\<lambda>old. Q (state old)) row db = (n, db')"
    and "n = 0 \<longleftrightarrow> (case find_run db (rid row) of None \<Rightarrow> True | Some current \<Rightarrow> \<not> Q (state current))"
    and "n = 0 \<Longrightarrow> db' = db"
    and "n \<noteq> 0 \<Longrightarrow> find_run db' = (find_run db)(rid row \<mapsto> load_run row)"
    and "events_table db' = events_table db" and "artifacts_table db' = artifacts_table db"
    and "map rid (runs_table db') = map rid (runs_table db)"
    and "set (runs_table db') \<subseteq> insert row (set (runs_table db))"
proof -
  let ?hit = "\<lambda>old. rid old = rid row \<and> Q (state old)"
  let ?rows = "map (\<lambda>old. if ?hit old then row else old) (runs_table db)"
  let ?db = "db\<lparr>runs_table := ?rows\<rparr>" and ?n = "length (filter ?hit (runs_table db))"
  have d: "distinct (map rid (runs_table db))" using assms by (simp add: wf_db_def)
  have u: "update_run_rows (\<lambda>old. Q (state old)) row db = (?n, ?db)"
    by (simp add: update_run_rows_def Let_def)
  have n: "?n = 0 \<longleftrightarrow> (case find_run db (rid row) of None \<Rightarrow> True | Some current \<Rightarrow> \<not> Q (state current))"
    unfolding length_0_conv find_run_def by (rule rows_hit [OF d])
  have same: "?db = db" if "?n = 0"
  proof -
    have "filter ?hit (runs_table db) = []" using that by simp
    then have "?rows = runs_table db" by (intro map_idI) (auto simp: filter_empty_conv)
    then show ?thesis by simp
  qed
  have find: "find_run ?db = (find_run db)(rid row \<mapsto> load_run row)" if "?n \<noteq> 0"
  proof -
    have "\<exists>current. map_of (row_table (runs_table db)) (rid row) = Some current \<and> Q (state current)"
      using that n by (simp only: find_run_def split: option.splits) auto
    then obtain current where "map_of (row_table (runs_table db)) (rid row) = Some current" "Q (state current)"
      by blast
    then show ?thesis using rows_update [OF d, of row Q] by (auto simp: find_run_def fun_eq_iff)
  qed
  show ?thesis by (rule that [OF u n same find]) auto
qed

lemma run_exists_rid_set: "run_exists i db \<longleftrightarrow> i \<in> set (map rid (runs_table db))"
  by (auto simp: run_exists_def list_ex_iff)

lemma run_exists_rids: "map rid (runs_table db') = map rid (runs_table db) \<Longrightarrow> run_exists i db' = run_exists i db"
  by (simp add: run_exists_rid_set)

lemma wf_update_rows:
  assumes "wf_db H db" and "events_table db' = events_table db" and "artifacts_table db' = artifacts_table db"
    and "map rid (runs_table db') = map rid (runs_table db)"
    and "set (runs_table db') \<subseteq> insert row (set (runs_table db))" and "min_int64 \<le> updated_at row"
  shows "wf_db H db'"
  using assms run_exists_rids [OF assms(4)] by (auto simp: wf_db_def events_of_def)

section \<open>Events\<close>

lemma insort_key_last: "k x \<le> k e \<Longrightarrow> insort_key k x (ys @ [e]) = insort_key k x ys @ [e]"
  by (induction ys) auto

lemma sort_key_snoc: "(\<And>x. x \<in> set xs \<Longrightarrow> k x \<le> k e) \<Longrightarrow> sort_key k (xs @ [e]) = sort_key k xs @ [e]"
  by (induction xs) (auto simp: insort_key_last)

lemma valid_log_seq: "valid_log H i es \<Longrightarrow> map ev_seq es = [1 ..< Suc (length es)]"
  by (induction es rule: rev_induct) (auto simp: valid_log_append)

lemma valid_log_le: "valid_log H i es \<Longrightarrow> e \<in> set es \<Longrightarrow> ev_seq e \<le> length es"
proof -
  assume "valid_log H i es" "e \<in> set es"
  then have "ev_seq e \<in> set [1 ..< Suc (length es)]" using valid_log_seq [of H i es] by (metis image_eqI image_set)
  then show ?thesis by auto
qed

lemma latest_event_valid:
  assumes "valid_log H i (events_of db i)"
  shows "(case latest_event db i of None \<Rightarrow> (0, []) | Some x \<Rightarrow> x)
     = (length (events_of db i), last_hash (events_of db i))"
proof (cases "events_of db i" rule: rev_cases)
  case (snoc es e)
  then have "ev_seq e = Suc (length es)" using assms by (simp add: valid_log_append)
  then show ?thesis using snoc by (simp add: latest_event_def last_hash_def Let_def)
qed (simp add: latest_event_def last_hash_def)

lemma events_of_mem: "e \<in> set (events_of db i) \<longleftrightarrow> e \<in> set (events_table db) \<and> ev_run e = i"
  by (auto simp: events_of_def)

lemma new_event_row:
  assumes "valid_log H i es"
  shows "valid_log H i (es @ [(new_event H i (length es + 1) t p (last_hash es) now)\<lparr>ev_at := unix_nano now\<rparr>])"
proof -
  have "unix_nano (unix_nano now) = unix_nano now"
    using unix_nano_bounds [of now] by (intro unix_nano_in_range) auto
  then show ?thesis
    using assms by (simp add: valid_log_append new_event_def Let_def hash_event_def encode_event_def)
qed

lemma append_event_tx_effect:
  assumes "wf_db H db" and "run_exists i db" and "\<not> f 2" and "\<not> f 3"
  obtains db' where
    "append_event_tx H f now i t p db
       = (Inr (new_event H i (length (events_of db i) + 1) t p (last_hash (events_of db i)) now), db')"
    and "runs_table db' = runs_table db" and "artifacts_table db' = artifacts_table db"
    and "events_of db' = (events_of db)(i := events_of db i
          @ [(new_event H i (length (events_of db i) + 1) t p (last_hash (events_of db i)) now)\<lparr>ev_at := unix_nano now\<rparr>])"
    and "wf_db H db'"
proof -
  let ?e = "new_event H i (length (events_of db i) + 1) t p (last_hash (events_of db i)) now"
  let ?row = "?e\<lparr>ev_at := unix_nano now\<rparr>"
  let ?db = "db\<lparr>events_table := events_table db @ [?row]\<rparr>"
  have v: "valid_log H i (events_of db i)" using assms(1) by (simp add: wf_db_def)
  have e: "ev_run ?e = i" "ev_seq ?e = Suc (length (events_of db i))" "ev_at ?e = now"
    by (simp_all add: new_event_def Let_def)
  have le: "ev_seq x \<le> length (events_of db i)" if "x \<in> set (filter (\<lambda>e. ev_run e = i) (events_table db))" for x
    using valid_log_le [OF v] that by (simp add: events_of_mem)
  have "\<not> list_ex (\<lambda>g. ev_run g = ev_run ?e \<and> ev_seq g = ev_seq ?e) (events_table db)"
    using le e by (fastforce simp: list_ex_iff)
  then have ins: "insert_event_row ?e db = Some ?db"
    using assms(2) e by (simp add: insert_event_row_def)
  have tx: "append_event_tx H f now i t p db = (Inr ?e, ?db)"
    using assms(3,4) ins [simplified] e by (simp add: append_event_tx_def latest_event_valid [OF v] Let_def)
  have ev: "events_of ?db j = ((events_of db)(i := events_of db i @ [?row])) j" for j
  proof (cases "j = i")
    case True
    let ?F = "filter (\<lambda>e. ev_run e = i) (events_table db)"
    have "sort_key ev_seq (?F @ [?row]) = sort_key ev_seq ?F @ [?row]"
    proof (rule sort_key_snoc)
      fix x assume "x \<in> set ?F"
      then show "ev_seq x \<le> ev_seq ?row" using le [of x] e(2) by simp
    qed
    moreover have "events_of db i = sort_key ev_seq ?F" by (simp add: events_of_def)
    moreover have "events_of ?db i = sort_key ev_seq (?F @ [?row])" using e(1) by (simp add: events_of_def)
    ultimately show ?thesis using True by simp
  next
    case False
    then show ?thesis using e(1) by (auto simp: events_of_def)
  qed
  then have ev': "events_of ?db = (events_of db)(i := events_of db i @ [?row])" by auto
  have "wf_db H ?db"
    using assms(1,2) new_event_row [OF v, where t = t and p = p and now = now] e
    unfolding wf_db_def ev' by (auto simp: run_exists_def)
  then show ?thesis using that [OF tx _ _ ev'] by simp
qed

lemma run_exists_table: "runs_table db' = runs_table db \<Longrightarrow> run_exists i db' = run_exists i db"
  by (simp add: run_exists_def)

lemma find_run_table: "runs_table db' = runs_table db \<Longrightarrow> find_run db' = find_run db"
  by (simp add: find_run_def fun_eq_iff)

lemma find_artifact_table: "artifacts_table db' = artifacts_table db \<Longrightarrow> find_artifact db' = find_artifact db"
  by (simp add: find_artifact_def fun_eq_iff)

lemma events_of_table: "events_table db' = events_table db \<Longrightarrow> events_of db' = events_of db"
  by (simp add: events_of_def fun_eq_iff)

section \<open>The refinement\<close>

definition refines :: "(string \<Rightarrow> digest) \<Rightarrow> sqlite_db \<Rightarrow> memory_store \<Rightarrow> bool" where
  "refines H db m \<longleftrightarrow> wf_db H db \<and> store_ok H m \<and> find_run db = map_of (ms_runs m)
     \<and> events_of db = ms_events m \<and> find_artifact db = ms_artifacts m"

definition no_fault :: faults where
  "no_fault = (\<lambda>_. False)"

definition run_storable :: "run \<Rightarrow> bool" where
  "run_storable r \<longleftrightarrow> storable (created_at r) \<and> storable (updated_at r)"

fun op_storable :: "store_op \<Rightarrow> bool" where
  "op_storable (OpCreateRun c r) = run_storable r"
| "op_storable (OpCreateRunWithEvent c now r t p) = (int64_time now \<and> run_storable r)"
| "op_storable (OpUpdateRun c now r t p) = (int64_time now \<and> run_storable r)"
| "op_storable (OpUpdateRunIfState c now r ex t p) = (int64_time now \<and> run_storable r)"
| "op_storable (OpAppendEvent c now i t p) = int64_time now"
| "op_storable (OpPutArtifact c a) = True"

lemma refines_exists: "refines H db m \<Longrightarrow> run_exists i db \<longleftrightarrow> map_of (ms_runs m) i \<noteq> None"
  by (simp add: refines_def run_exists_find)

lemma int64_event: "int64_time now \<Longrightarrow>
    (new_event H i n t p prev now)\<lparr>ev_at := unix_nano now\<rparr> = new_event H i n t p prev now"
  by (simp add: new_event_def Let_def int64_time_def unix_nano_in_range)

lemma row_in_range: "min_int64 \<le> updated_at (store_run r)"
  using store_time_bounds by (simp add: store_run_def)

text \<open>The three statements of the transactions, on related states.\<close>

lemma insert_refines:
  assumes "refines H db m" and "map_of (ms_runs m) (rid r) = None" and "run_storable r"
  obtains db' where "insert_run_row (store_run r) db = (1, db')" and "refines H db' (set_run r m)"
proof -
  let ?db = "db\<lparr>runs_table := runs_table db @ [store_run r]\<rparr>"
  have none: "find_run db (rid (store_run r)) = None" using assms(1,2) by (simp add: refines_def)
  have "insert_run_row (store_run r) db = (1, ?db)"
    using none by (simp add: insert_run_row_effect)
  moreover have "find_run ?db = map_of (ms_runs (set_run r m))"
    using find_run_insert [OF none] assms(1,3) by (simp add: refines_def load_store_run run_storable_def)
  moreover have "wf_db H ?db"
    using wf_insert_run [OF _ none row_in_range] assms(1) by (simp add: refines_def)
  ultimately show ?thesis
    using that [of ?db] assms(1) set_run_ok [of H m r] events_of_table [of ?db db] find_artifact_table [of ?db db]
    by (simp add: refines_def)
qed

lemma update_refines:
  assumes "refines H db m" and "run_storable r"
  obtains n db' where "update_run_rows (\<lambda>old. Q (state old)) (store_run r) db = (n, db')"
    and "n = 0 \<longleftrightarrow> (case map_of (ms_runs m) (rid r) of None \<Rightarrow> True | Some current \<Rightarrow> \<not> Q (state current))"
    and "n = 0 \<Longrightarrow> db' = db" and "n \<noteq> 0 \<Longrightarrow> refines H db' (set_run r m)"
proof -
  have wf: "wf_db H db" and fr: "find_run db = map_of (ms_runs m)" using assms(1) by (simp_all add: refines_def)
  obtain db' n where u: "update_run_rows (\<lambda>old. Q (state old)) (store_run r) db = (n, db')"
      "n = 0 \<longleftrightarrow> (case find_run db (rid (store_run r)) of None \<Rightarrow> True | Some current \<Rightarrow> \<not> Q (state current))"
      "n = 0 \<Longrightarrow> db' = db" "n \<noteq> 0 \<Longrightarrow> find_run db' = (find_run db)(rid (store_run r) \<mapsto> load_run (store_run r))"
      "events_table db' = events_table db" "artifacts_table db' = artifacts_table db"
      "map rid (runs_table db') = map rid (runs_table db)"
      "set (runs_table db') \<subseteq> insert (store_run r) (set (runs_table db))"
    using update_run_rows_effect [OF wf, of Q "store_run r"] by blast
  have "refines H db' (set_run r m)" if "n \<noteq> 0"
    using assms u(4) [OF that] wf_update_rows [OF wf u(5-8) row_in_range] set_run_ok [of H m r]
      events_of_table [OF u(5)] find_artifact_table [OF u(6)]
    by (simp add: refines_def load_store_run run_storable_def)
  then show ?thesis using that [OF u(1) _ u(3)] u(2) fr by simp
qed

lemma append_refines:
  assumes "refines H db m" and "map_of (ms_runs m) i \<noteq> None" and "int64_time now"
    and "append_locked H now i t p m = (e, m')" and "\<not> f 2" "\<not> f 3"
  obtains db' where "append_event_tx H f now i t p db = (Inr e, db')" and "refines H db' m'"
proof -
  have wf: "wf_db H db" and ex: "run_exists i db" using assms(1,2) refines_exists by (auto simp: refines_def)
  note a = append_locked_simps [OF assms(4)]
  obtain db' where tx: "append_event_tx H f now i t p db
      = (Inr (new_event H i (length (events_of db i) + 1) t p (last_hash (events_of db i)) now), db')"
    and "runs_table db' = runs_table db" "artifacts_table db' = artifacts_table db"
    and "events_of db' = (events_of db)(i := events_of db i
          @ [(new_event H i (length (events_of db i) + 1) t p (last_hash (events_of db i)) now)\<lparr>ev_at := unix_nano now\<rparr>])"
    and "wf_db H db'"
    using append_event_tx_effect [OF wf ex assms(5,6), of now t p] by blast
  then have "refines H db' m'"
    using assms(1) a append_locked_ok [OF _ assms(2,4)] int64_event [OF assms(3)]
      find_run_table [of db' db] find_artifact_table [of db' db]
    by (simp add: refines_def)
  then show ?thesis using that tx a(6) assms(1) by (simp add: refines_def)
qed

lemma append_after_set_run:
  "append_locked H now i t p m = (e, m') \<Longrightarrow> append_locked H now i t p (set_run r m) = (e, set_run r m')"
  by (auto simp: append_locked_def Let_def set_run_def)

lemma no_fault_simps [simp]: "no_fault k = False"
  by (simp add: no_fault_def)

lemma insert_existing:
  "refines H db m \<Longrightarrow> map_of (ms_runs m) (rid r) \<noteq> None \<Longrightarrow> insert_run_row (store_run r) db = (0, db)"
  by (simp add: insert_run_row_effect refines_def)

abbreviation agree :: "(string \<Rightarrow> digest) \<Rightarrow> 'r \<times> sqlite_db \<Rightarrow> 'r \<times> memory_store \<Rightarrow> bool" where
  "agree H a b \<equiv> fst a = fst b \<and> refines H (snd a) (snd b)"

lemma create_run_agrees:
  assumes "refines H db m" and "run_storable r"
  shows "agree H (sqlite_create_run no_fault c r db) (create_run c r m)"
proof (cases "map_of (ms_runs m) (rid r)")
  case None
  then show ?thesis
    using assms insert_refines [OF assms(1) None assms(2)]
    by (fastforce simp: sqlite_create_run_def create_run_def validate_cases)
next
  case (Some x)
  then show ?thesis
    using assms insert_existing [OF assms(1), of r]
    by (simp add: sqlite_create_run_def create_run_def validate_cases)
qed

lemma create_run_with_event_agrees:
  assumes "refines H db m" and "run_storable r" and "int64_time now"
  shows "agree H (sqlite_create_run_with_event H no_fault c now r t p db) (create_run_with_event H c now r t p m)"
proof (cases "map_of (ms_runs m) (rid r)")
  case None
  obtain db1 where i: "insert_run_row (store_run r) db = (1, db1)" "refines H db1 (set_run r m)"
    using insert_refines [OF assms(1) None assms(2)] by blast
  obtain e m' where a: "append_locked H now (rid r) t p (set_run r m) = (e, m')" by (rule prod.exhaust)
  obtain db' where "append_event_tx H no_fault now (rid r) t p db1 = (Inr e, db')" "refines H db' m'"
    using append_refines [OF i(2) _ assms(3) a, of no_fault] by auto
  then show ?thesis
    using assms(1) None i(1) a
    by (simp add: sqlite_create_run_with_event_def create_run_with_event_def validate_cases in_tx_def)
next
  case (Some x)
  then show ?thesis
    using assms insert_existing [OF assms(1), of r]
    by (simp add: sqlite_create_run_with_event_def create_run_with_event_def validate_cases in_tx_def)
qed

lemma update_and_append:
  assumes "refines H db m" and "refines H db1 (set_run r m)" and "map_of (ms_runs m) (rid r) \<noteq> None"
    and "int64_time now" and "append_locked H now (rid r) t p m = (e, m')"
  obtains db' where "append_event_tx H no_fault now (rid r) t p db1 = (Inr e, db')" and "refines H db' (set_run r m')"
  using append_refines [OF assms(2) _ assms(4) append_after_set_run [OF assms(5)], of no_fault] by auto

lemma update_run_agrees:
  assumes "refines H db m" and "run_storable r" and "int64_time now"
  shows "agree H (sqlite_update_run H no_fault c now r t p db) (update_run H c now r t p m)"
proof -
  obtain n db1 where u0: "update_run_rows (\<lambda>old. True) (store_run r) db = (n, db1)"
      "n = 0 \<longleftrightarrow> (case map_of (ms_runs m) (rid r) of None \<Rightarrow> True | Some current \<Rightarrow> \<not> True)"
      "n = 0 \<Longrightarrow> db1 = db" "n \<noteq> 0 \<Longrightarrow> refines H db1 (set_run r m)"
    using update_refines [OF assms(1,2), of "\<lambda>_. True"] by blast
  have "n = 0 \<longleftrightarrow> map_of (ms_runs m) (rid r) = None" using u0(2) by (simp split: option.splits)
  note u = u0(1) this u0(3,4)
  obtain e m' where a: "append_locked H now (rid r) t p m = (e, m')" by (rule prod.exhaust)
  show ?thesis
  proof (cases "n = 0")
    case True
    then show ?thesis using assms(1) u
      by (simp add: sqlite_update_run_def update_run_def validate_cases in_tx_def)
  next
    case False
    then obtain db' where "append_event_tx H no_fault now (rid r) t p db1 = (Inr e, db')" "refines H db' (set_run r m')"
      using update_and_append [OF assms(1) u(4) _ assms(3) a] u(2) by blast
    moreover obtain y where "map_of (ms_runs m) (rid r) = Some y" using u(2) False by auto
    ultimately show ?thesis using assms(1) u(1) False a
      by (simp add: sqlite_update_run_def update_run_def validate_cases in_tx_def)
  qed
qed

lemma update_run_if_state_agrees:
  assumes "refines H db m" and "run_storable r" and "int64_time now"
  shows "agree H (sqlite_update_run_if_state H no_fault c now r ex t p db) (update_run_if_state H c now r ex t p m)"
proof -
  obtain n db1 where u: "update_run_rows (\<lambda>old. state old = ex) (store_run r) db = (n, db1)"
      "n = 0 \<longleftrightarrow> (case map_of (ms_runs m) (rid r) of None \<Rightarrow> True | Some current \<Rightarrow> state current \<noteq> ex)"
      "n = 0 \<Longrightarrow> db1 = db" "n \<noteq> 0 \<Longrightarrow> refines H db1 (set_run r m)"
    using update_refines [OF assms(1,2), of "\<lambda>st. st = ex"] by blast
  obtain e m' where a: "append_locked H now (rid r) t p m = (e, m')" by (rule prod.exhaust)
  show ?thesis
  proof (cases "n = 0")
    case True
    then show ?thesis using assms(1) u refines_exists [OF assms(1), of "rid r"]
      by (auto simp: sqlite_update_run_if_state_def update_run_if_state_def validate_cases in_tx_def
          split: option.splits)
  next
    case False
    then obtain current where cur: "map_of (ms_runs m) (rid r) = Some current" "state current = ex"
      using u(2) by (auto split: option.splits)
    obtain db' where "append_event_tx H no_fault now (rid r) t p db1 = (Inr e, db')" "refines H db' (set_run r m')"
      using update_and_append [OF assms(1) u(4) _ assms(3) a] False cur(1) by blast
    then show ?thesis using assms(1) u(1) False a cur
      by (simp add: sqlite_update_run_if_state_def update_run_if_state_def validate_cases in_tx_def)
  qed
qed

lemma append_event_agrees:
  assumes "refines H db m" and "int64_time now"
  shows "agree H (sqlite_append_event H no_fault c now i t p db) (append_event H c now i t p m)"
proof (cases "map_of (ms_runs m) i = None")
  case True
  then show ?thesis using assms refines_exists [OF assms(1), of i]
    by (simp add: sqlite_append_event_def append_event_def validate_cases in_tx_def)
next
  case False
  obtain e m' where a: "append_locked H now i t p m = (e, m')" by (rule prod.exhaust)
  obtain db' where "append_event_tx H no_fault now i t p db = (Inr e, db')" "refines H db' m'"
    using append_refines [OF assms(1) False assms(2) a, of no_fault] by auto
  moreover from False obtain y where "map_of (ms_runs m) i = Some y" by auto
  ultimately show ?thesis using assms(1) a refines_exists [OF assms(1), of i]
    by (simp add: sqlite_append_event_def append_event_def validate_cases in_tx_def)
qed

section \<open>Artifacts\<close>

lemma find_artifact_filter:
  assumes "distinct (map art_id as)"
  shows "map_of (map (\<lambda>a. (art_id a, a)) as) i = (case filter (\<lambda>b. art_id b = i) as of [] \<Rightarrow> None | b # _ \<Rightarrow> Some b)"
  using assms by (induction as) auto

lemma replace_artifact:
  assumes "distinct (map art_id as)" and "filter (\<lambda>b. art_id b = art_id a) as \<noteq> []"
  shows "map_of (map (\<lambda>x. (art_id x, x)) (map (\<lambda>c. if art_id c = art_id a then a else c) as)) j
     = (if j = art_id a then Some a else map_of (map (\<lambda>x. (art_id x, x)) as) j)"
  using assms
proof (induction as)
  case (Cons b as)
  show ?case
  proof (cases "art_id b = art_id a")
    case True
    then have "map (\<lambda>c. if art_id c = art_id a then a else c) as = as"
      using Cons.prems(1) by (intro map_idI) (metis distinct.simps(2) image_eqI list.set_map list.simps(9))
    then show ?thesis using True by (simp del: map_map)
  next
    case False
    then show ?thesis using Cons by (cases "j = art_id a") (simp_all del: map_map)
  qed
qed simp

lemma add_artifact:
  "art_id a \<notin> art_id ` set as \<Longrightarrow> map_of (map (\<lambda>x. (art_id x, x)) (as @ [a])) j
     = (if j = art_id a then Some a else map_of (map (\<lambda>x. (art_id x, x)) as) j)"
  by (induction as) auto

lemma put_artifact_agrees:
  assumes "refines H db m"
  shows "agree H (sqlite_put_artifact no_fault c a db) (put_artifact c a m)"
proof -
  have wf: "wf_db H db" using assms by (simp add: refines_def)
  then have d: "distinct (map art_id (artifacts_table db))" by (simp add: wf_db_def)
  have fa: "ms_artifacts m (art_id a) = (case filter (\<lambda>b. art_id b = art_id a) (artifacts_table db) of [] \<Rightarrow> None | b # _ \<Rightarrow> Some b)"
    using assms find_artifact_filter [OF d] by (simp add: refines_def find_artifact_def fun_eq_iff)
  have ref: "refines H (db\<lparr>artifacts_table := as\<rparr>) (m\<lparr>ms_artifacts := (ms_artifacts m)(art_id a \<mapsto> a)\<rparr>)"
    if "map_of (ms_runs m) (art_run a) \<noteq> None" and "distinct (map art_id as)"
      and "\<And>j. map_of (map (\<lambda>x. (art_id x, x)) as) j
        = (if j = art_id a then Some a else map_of (map (\<lambda>x. (art_id x, x)) (artifacts_table db)) j)" for as
    using assms that
    by (auto simp: refines_def wf_db_def store_ok_def find_artifact_def find_run_def events_of_def run_exists_def fun_eq_iff)
  show ?thesis
  proof (cases "filter (\<lambda>b. art_id b = art_id a) (artifacts_table db)")
    case Nil
    then have "art_id a \<notin> art_id ` set (artifacts_table db)" by (auto simp: filter_empty_conv)
    then have "refines H (db\<lparr>artifacts_table := artifacts_table db @ [a]\<rparr>)
        (m\<lparr>ms_artifacts := (ms_artifacts m)(art_id a \<mapsto> a)\<rparr>)" if "map_of (ms_runs m) (art_run a) \<noteq> None"
      using d that by (intro ref add_artifact) auto
    then show ?thesis
      using assms Nil fa refines_exists [OF assms, of "art_run a"]
      by (auto simp: sqlite_put_artifact_def put_artifact_def upsert_artifact_def validate_artifact_def validate_cases)
  next
    case (Cons b bs)
    let ?as = "map (\<lambda>c. if art_id c = art_id a then a else c) (artifacts_table db)"
    have "map art_id ?as = map art_id (artifacts_table db)" by simp
    then have "refines H (db\<lparr>artifacts_table := ?as\<rparr>) (m\<lparr>ms_artifacts := (ms_artifacts m)(art_id a \<mapsto> a)\<rparr>)"
      if "map_of (ms_runs m) (art_run a) \<noteq> None"
      using d that Cons by (intro ref replace_artifact) (simp_all del: map_map)
    then show ?thesis
      using assms Cons fa refines_exists [OF assms, of "art_run a"]
      by (auto simp: sqlite_put_artifact_def put_artifact_def upsert_artifact_def validate_artifact_def validate_cases)
  qed
qed

end
