(* ===== verification/Sqlite_Correct.thy ===== *)
theory Sqlite_Correct
  imports Sqlite_Refines
begin

text \<open>
  The properties of the SQLite store: equivalence with the in-memory store on every sequence of
  calls and on every query, atomicity under failing driver calls, and the contract \<^verbatim>\<open>run_log\<close>.
\<close>

section \<open>Sequences of calls\<close>

fun replies :: "('op \<Rightarrow> 's \<Rightarrow> 'r \<times> 's) \<Rightarrow> 'op list \<Rightarrow> 's \<Rightarrow> 'r list \<times> 's" where
  "replies step [] s = ([], s)"
| "replies step (op # ops) s =
     (let (r, s1) = step op s; (rs, s2) = replies step ops s1 in (r # rs, s2))"

lemma refines_empty: "refines H empty_db new_memory"
  unfolding refines_def
  by (intro conjI wf_empty store_ok_new)
    (simp_all add: empty_db_def new_memory_def find_run_def find_artifact_def events_of_def fun_eq_iff)

lemma step_agrees:
  assumes "refines H db m" and "op_storable op"
  shows "agree H (sqlite_step H no_fault op db) (memory_step H op m)"
  using assms create_run_agrees [OF assms(1)] create_run_with_event_agrees [OF assms(1)]
    update_run_agrees [OF assms(1)] update_run_if_state_agrees [OF assms(1)] append_event_agrees [OF assms(1)]
    put_artifact_agrees [OF assms(1)]
  by (cases op) (simp_all add: case_prod_beta)

lemma replies_agree:
  assumes "refines H db m" and "\<forall>op \<in> set ops. op_storable op"
  shows "agree H (replies (sqlite_step H no_fault) ops db) (replies (memory_step H) ops m)"
  using assms
proof (induction ops arbitrary: db m)
  case (Cons op ops)
  obtain x db1 where s: "sqlite_step H no_fault op db = (x, db1)" by (rule prod.exhaust)
  obtain y m1 where t: "memory_step H op m = (y, m1)" by (rule prod.exhaust)
  have "x = y" "refines H db1 m1" using step_agrees [OF Cons.prems(1), of op] Cons.prems(2) s t by simp_all
  then show ?case using Cons.IH [of db1 m1] Cons.prems(2) s t
    by (simp add: case_prod_beta del: no_fault_simps)
qed simp

text \<open>C8. The SQLite store refines the in-memory store: any sequence of the six mutating calls,
  started on empty stores, with no failing driver call and with instants an int64 of nanoseconds
  holds (or the zero instant), gets the same replies from both, call by call, error by error and
  event by event, and leaves related states.\<close>

theorem sqlite_refines_memory:
  assumes "\<forall>op \<in> set ops. op_storable op"
  shows "fst (replies (sqlite_step H no_fault) ops empty_db) = fst (replies (memory_step H) ops new_memory)
    \<and> refines H (snd (replies (sqlite_step H no_fault) ops empty_db)) (snd (replies (memory_step H) ops new_memory))"
  using replies_agree [OF refines_empty assms] .

theorem sqlite_refines_memory_witness:
  "fst (replies (sqlite_step id no_fault) [OpCreateRun False (sample_run StateCreated),
       OpUpdateRunIfState False 7 (sample_run StatePreflight) StateCreated ''E'' []] empty_db)
   = fst (replies (memory_step id) [OpCreateRun False (sample_run StateCreated),
       OpUpdateRunIfState False 7 (sample_run StatePreflight) StateCreated ''E'' []] new_memory)"
  by (rule sqlite_refines_memory [THEN conjunct1])
    (simp add: sample_run_def run_storable_def storable_def int64_time_def int64_bounds)

section \<open>Queries\<close>

lemma run_order_load:
  assumes "min_int64 \<le> updated_at x" and "min_int64 \<le> updated_at y"
  shows "run_order (load_run x) \<le> run_order (load_run y) \<longleftrightarrow> run_order x \<le> run_order y"
proof -
  have "load_time (updated_at x) \<le> load_time (updated_at y) \<longleftrightarrow> updated_at x \<le> updated_at y"
    "load_time (updated_at y) \<le> load_time (updated_at x) \<longleftrightarrow> updated_at y \<le> updated_at x"
    using load_time_mono assms by blast+
  then show ?thesis by (auto simp: run_order_def load_run_def less_eq_prod_def)
qed

lemma refines_runs:
  assumes "refines H db m"
  shows "mset (map load_run (runs_table db)) = mset (map snd (ms_runs m))"
proof -
  have wf: "wf_db H db" and ok: "store_ok H m" and find: "find_run db = map_of (ms_runs m)"
    using assms by (simp_all add: refines_def)
  let ?rows = "row_table (runs_table db)"
  have "map fst ?rows = map rid (runs_table db)" by simp
  then have d1: "distinct (map fst ?rows)" using wf by (simp add: wf_db_def del: map_map)
  have d2: "distinct (map fst (ms_runs m))" using ok by (simp add: store_ok_def)
  have "map_of ?rows = map_of (ms_runs m)" using find by (simp add: find_run_def fun_eq_iff)
  then have "set ?rows = set (ms_runs m)" unfolding map_of_set [OF d1] map_of_set [OF d2] by simp
  then have "mset ?rows = mset (ms_runs m)"
    using distinct_mapI [OF d1] distinct_mapI [OF d2] set_eq_iff_mset_eq_distinct by blast
  then have "mset (map snd ?rows) = mset (map snd (ms_runs m))" unfolding mset_map by (rule arg_cong)
  moreover have "map snd ?rows = map load_run (runs_table db)" by simp
  ultimately show ?thesis by metis
qed

lemma sorted_load:
  assumes "\<forall>x \<in> set rows. min_int64 \<le> updated_at x" and "sorted (map run_order rows)"
  shows "sorted (map run_order (map load_run rows))"
  using assms run_order_load by (induction rows) auto

lemma select_refines:
  assumes "refines H db m"
  shows "map load_run (sort_key run_order (filter (query_allows q) (runs_table db)))
     = sort_key run_order (filter (query_allows q) (map snd (ms_runs m)))"
proof -
  let ?rows = "filter (query_allows q) (runs_table db)" and ?runs = "filter (query_allows q) (map snd (ms_runs m))"
  have qa: "query_allows q (load_run x) = query_allows q x" for x
    by (simp add: query_allows_def split: option.split)
  have "map load_run ?rows = filter (query_allows q) (map load_run (runs_table db))"
    by (induction "runs_table db") (simp_all add: filter_map comp_def qa)
  then have "mset (map load_run ?rows) = mset ?runs"
    using refines_runs [OF assms] by simp
  then have m: "mset ?runs = mset (map load_run (sort_key run_order ?rows))" by simp
  have inj: "inj_on run_order (set ?runs)"
    using run_order_inj [OF stored_runs(2)] assms by (auto simp: refines_def intro: inj_on_subset)
  have "sorted (map run_order (map load_run (sort_key run_order ?rows)))"
    using assms by (intro sorted_load) (auto simp: refines_def wf_db_def)
  then show ?thesis using sort_key_inj_key_eq [OF m inj] by simp
qed

lemma page_refines:
  assumes "0 \<le> q_limit q" and "0 \<le> q_offset q"
    and "sel = (if 0 < q_limit q then take (nat (q_limit q + 1)) (drop (nat (q_offset q)) all) else drop (nat (q_offset q)) all)"
  shows "(if 0 < q_limit q \<and> q_limit q < int (length sel)
          then \<lparr>page_runs = take (nat (q_limit q)) sel, has_more = True\<rparr>
          else \<lparr>page_runs = sel, has_more = False\<rparr>) = page_of q all"
proof (cases "0 < q_limit q \<and> q_limit q + q_offset q < int (length all)")
  case True
  then have "page_of q all = \<lparr>page_runs = take (nat (q_limit q)) (drop (nat (q_offset q)) all), has_more = True\<rparr>"
    using assms(1,2) by (auto simp: page_of_def Let_def min_def)
  moreover have "q_limit q < int (length sel)" "take (nat (q_limit q)) sel = take (nat (q_limit q)) (drop (nat (q_offset q)) all)"
    using True assms by (auto simp: min_def)
  ultimately show ?thesis using True by simp
next
  case False
  then have "page_of q all = \<lparr>page_runs = drop (nat (q_offset q)) all, has_more = False\<rparr>"
    using assms(1,2) by (auto simp: page_of_def Let_def min_def)
  moreover have "sel = drop (nat (q_offset q)) all" "\<not> (0 < q_limit q \<and> q_limit q < int (length sel))"
    using False assms by auto
  ultimately show ?thesis by simp
qed

lemma list_runs_agrees:
  assumes "refines H db m"
  shows "sqlite_list_runs no_fault c q db = list_runs c q m"
proof (cases "q_limit q < 0 \<or> q_offset q < 0 \<or> c")
  case True
  then show ?thesis by (auto simp: sqlite_list_runs_def list_runs_def validate_cases)
next
  case False
  let ?all = "sort_key run_order (filter (query_allows q) (map snd (ms_runs m)))"
  have "map load_run (select_runs q db)
      = (if 0 < q_limit q then take (nat (q_limit q + 1)) (drop (nat (q_offset q)) ?all) else drop (nat (q_offset q)) ?all)"
    unfolding select_refines [OF assms, symmetric] by (simp add: select_runs_def Let_def take_map drop_map)
  then show ?thesis
    using page_refines [of q "map load_run (select_runs q db)" ?all] False
    by (simp add: sqlite_list_runs_def list_runs_def validate_cases Let_def split: if_splits)
qed

lemma list_events_agrees:
  assumes "refines H db m" and "int (length (ms_events m i)) \<le> max_int64"
  shows "sqlite_list_events no_fault c i from db = list_events c i from m"
proof -
  have ev: "events_of db i = ms_events m i" and v: "valid_log H i (ms_events m i)"
    using assms by (auto simp: refines_def store_ok_def)
  have "filter (\<lambda>e. from \<le> ev_seq e) (ms_events m i) = []" if "max_int64 < int from"
  proof -
    have "ev_seq e < from" if "e \<in> set (ms_events m i)" for e
      using valid_log_le [OF v that] assms(2) \<open>max_int64 < int from\<close> by linarith
    then show ?thesis by (force simp: filter_empty_conv)
  qed
  then show ?thesis
    using ev refines_exists [OF assms(1), of i]
    by (auto simp: sqlite_list_events_def list_events_def validate_cases)
qed

lemma get_artifact_agrees:
  assumes "refines H db m"
  shows "sqlite_get_artifact no_fault c i aid db = get_artifact c i aid m"
proof -
  have fa: "find_artifact db aid = ms_artifacts m aid" and ok: "store_ok H m"
    using assms by (simp_all add: refines_def)
  show ?thesis
    using fa ok refines_exists [OF assms, of i]
    by (auto simp: sqlite_get_artifact_def get_artifact_def validate_cases store_ok_def split: option.splits)
qed

text \<open>On related states the two stores answer every query alike: the run, the page of runs (the
  limit and offset of SQL against the slices of the sorted list, with the order of the stored
  integers against that of the instants), the events from a sequence number on, and the artifact.
  The only bound is that a log has at most 2^63 - 1 events.\<close>

theorem sqlite_queries_agree:
  assumes "refines H db m" and "int (length (ms_events m i)) \<le> max_int64"
  shows "sqlite_get_run no_fault c i db = get_run c i m
    \<and> sqlite_list_runs no_fault c q db = list_runs c q m
    \<and> sqlite_list_events no_fault c i from db = list_events c i from m
    \<and> sqlite_get_artifact no_fault c i aid db = get_artifact c i aid m"
proof -
  have "find_run db = map_of (ms_runs m)" using assms(1) by (simp add: refines_def)
  then have "sqlite_get_run no_fault c i db = get_run c i m"
    by (simp add: sqlite_get_run_def get_run_def validate_cases)
  then show ?thesis
    using list_runs_agrees [OF assms(1)] list_events_agrees [OF assms] get_artifact_agrees [OF assms(1)] by blast
qed

theorem sqlite_queries_agree_witness:
  "sqlite_get_run no_fault False ''r'' empty_db = get_run False ''r'' new_memory"
  using sqlite_queries_agree [OF refines_empty, of "''r''"] by (simp add: new_memory_def int64_bounds)

section \<open>Failing driver calls\<close>

definition atomic_body :: "(faults \<Rightarrow> sqlite_db \<Rightarrow> (store_error, 'a) result \<times> sqlite_db) \<Rightarrow> bool" where
  "atomic_body body \<longleftrightarrow> (\<forall>f db x db'. body f db = (Inr x, db') \<longrightarrow> body no_fault db = (Inr x, db'))"

lemma in_tx_atomic:
  assumes "atomic_body body" and "in_tx f (body f) db = (x, db')"
  shows "(\<exists>e. x = Inl e \<and> db' = db) \<or> in_tx no_fault (body no_fault) db = (x, db')"
proof (cases x)
  case (Inl e)
  then show ?thesis using assms(2) by (auto simp: in_tx_def split: if_splits prod.splits sum.splits)
next
  case (Inr ev)
  then have "body f db = (Inr ev, db')" using assms(2) by (auto simp: in_tx_def split: if_splits prod.splits sum.splits)
  then have "body no_fault db = (Inr ev, db')" using assms(1) unfolding atomic_body_def by blast
  then show ?thesis using Inr by (simp add: in_tx_def)
qed

lemma append_event_tx_atomic: "append_event_tx H f now i t p db = (Inr e, db') \<Longrightarrow>
    append_event_tx H no_fault now i t p db = (Inr e, db')"
  by (cases "f 3") (auto simp: append_event_tx_def Let_def split: if_splits prod.splits)

fun transactional :: "store_op \<Rightarrow> bool" where
  "transactional (OpCreateRun c r) = False"
| "transactional (OpPutArtifact c a) = False"
| "transactional _ = True"

lemma create_with_event_atomic:
  assumes "sqlite_create_run_with_event H f c now r t p db = (x, db')"
  shows "(\<exists>e. x = Inl e \<and> db' = db) \<or> sqlite_create_run_with_event H no_fault c now r t p db = (x, db')"
proof -
  let ?body = "\<lambda>f db. if f 4 then (Inl ErrDatabase, db)
    else (let (changed, db') = insert_run_row (store_run (normalize_run r)) db in
          if f 5 then (Inl ErrDatabase, db') else if changed = 0 then (Inl ErrRunAlreadyExists, db')
          else append_event_tx H f now (rid r) t p db')"
  have "atomic_body ?body"
    unfolding atomic_body_def by (auto dest: append_event_tx_atomic split: if_splits prod.splits)
  from in_tx_atomic [OF this] show ?thesis
    using assms by (auto simp: sqlite_create_run_with_event_def split: sum.splits)
qed

lemma update_atomic:
  assumes "sqlite_update_run H f c now r t p db = (x, db')"
  shows "(\<exists>e. x = Inl e \<and> db' = db) \<or> sqlite_update_run H no_fault c now r t p db = (x, db')"
proof -
  let ?body = "\<lambda>f db. if f 4 then (Inl ErrDatabase, db)
    else (let (changed, db') = update_run_rows (\<lambda>_. True) (store_run (normalize_run r)) db in
          if f 5 then (Inl ErrDatabase, db') else if changed = 0 then (Inl ErrRunNotFound, db')
          else append_event_tx H f now (rid r) t p db')"
  have "atomic_body ?body"
    unfolding atomic_body_def by (auto dest: append_event_tx_atomic split: if_splits prod.splits)
  from in_tx_atomic [OF this] show ?thesis
    using assms by (auto simp: sqlite_update_run_def split: sum.splits)
qed

lemma update_if_atomic:
  assumes "sqlite_update_run_if_state H f c now r ex t p db = (x, db')"
  shows "(\<exists>e. x = Inl e \<and> db' = db) \<or> sqlite_update_run_if_state H no_fault c now r ex t p db = (x, db')"
proof -
  let ?body = "\<lambda>f db. if f 4 then (Inl ErrDatabase, db)
    else (let (changed, db') = update_run_rows (\<lambda>old. state old = ex) (store_run (normalize_run r)) db in
          if f 5 then (Inl ErrDatabase, db')
          else if changed = 0
          then (if f 6 then (Inl ErrDatabase, db')
                else if \<not> run_exists (rid r) db' then (Inl ErrRunNotFound, db')
                else (Inl ErrRunStateChanged, db'))
          else append_event_tx H f now (rid r) t p db')"
  have "atomic_body ?body"
    unfolding atomic_body_def by (auto dest: append_event_tx_atomic split: if_splits prod.splits)
  from in_tx_atomic [OF this] show ?thesis
    using assms by (auto simp: sqlite_update_run_if_state_def split: sum.splits)
qed

lemma append_atomic:
  assumes "sqlite_append_event H f c now i t p db = (x, db')"
  shows "(\<exists>e. x = Inl e \<and> db' = db) \<or> sqlite_append_event H no_fault c now i t p db = (x, db')"
proof -
  let ?body = "\<lambda>f db. if f 6 then (Inl ErrDatabase, db)
    else if \<not> run_exists i db then (Inl ErrRunNotFound, db) else append_event_tx H f now i t p db"
  have "atomic_body ?body"
    unfolding atomic_body_def by (auto dest: append_event_tx_atomic split: if_splits)
  from in_tx_atomic [OF this] show ?thesis
    using assms by (auto simp: sqlite_append_event_def split: sum.splits)
qed

text \<open>C23. Whatever driver calls fail, each of the four transactional operations is atomic: it either
  reports an error and leaves the database as it was, or does exactly what it does when nothing
  fails. In particular no run state is ever stored without its event, nor an event without it.\<close>

theorem transactions_are_atomic:
  assumes "transactional op"
  shows "(\<exists>e. fst (sqlite_step H f op db) = ReplyEvent (Inl e) \<and> snd (sqlite_step H f op db) = db)
    \<or> sqlite_step H f op db = sqlite_step H no_fault op db"
proof (cases op)
  case (OpCreateRunWithEvent c now r t p)
  obtain x db' where "sqlite_create_run_with_event H f c now r t p db = (x, db')" by (rule prod.exhaust)
  then show ?thesis using create_with_event_atomic OpCreateRunWithEvent by fastforce
next
  case (OpUpdateRun c now r t p)
  obtain x db' where "sqlite_update_run H f c now r t p db = (x, db')" by (rule prod.exhaust)
  then show ?thesis using update_atomic OpUpdateRun by fastforce
next
  case (OpUpdateRunIfState c now r ex t p)
  obtain x db' where "sqlite_update_run_if_state H f c now r ex t p db = (x, db')" by (rule prod.exhaust)
  then show ?thesis using update_if_atomic OpUpdateRunIfState by fastforce
next
  case (OpAppendEvent c now i t p)
  obtain x db' where "sqlite_append_event H f c now i t p db = (x, db')" by (rule prod.exhaust)
  then show ?thesis using append_atomic OpAppendEvent by fastforce
qed (use assms in simp_all)

theorem transactions_are_atomic_witness:
  "snd (sqlite_step id (\<lambda>k. k = 4) (OpUpdateRunIfState False 7 (sample_run StatePreflight) StateCreated ''E'' [])
      (empty_db\<lparr>runs_table := [sample_run StateCreated]\<rparr>)) = empty_db\<lparr>runs_table := [sample_run StateCreated]\<rparr>"
proof -
  let ?op = "OpUpdateRunIfState False 7 (sample_run StatePreflight) StateCreated ''E'' []"
  let ?db = "empty_db\<lparr>runs_table := [sample_run StateCreated]\<rparr>"
  have f: "fst (sqlite_step id (\<lambda>k. k = 4) ?op ?db) = ReplyEvent (Inl ErrDatabase)" by code_simp
  have n: "fst (sqlite_step id no_fault ?op ?db) \<noteq> ReplyEvent (Inl ErrDatabase)"
    by (simp add: sqlite_update_run_if_state_def validate_cases in_tx_def update_run_rows_def append_event_tx_def
        latest_event_def events_of_def insert_event_row_def run_exists_def empty_db_def sample_run_def
        store_run_def normalize_run_def new_event_def)
  have "transactional ?op" by simp
  from transactions_are_atomic [OF this, of id "\<lambda>k. k = 4" ?db] show ?thesis using f n by auto
qed

section \<open>The contract of a run log\<close>

record sqlite_world =
  sw_db :: sqlite_db
  sw_clock :: "nat \<Rightarrow> gtime"
  sw_cancelled :: "nat \<Rightarrow> bool"
  sw_faults :: "nat \<Rightarrow> faults"
  sw_calls :: nat

definition sqlite_update_if ::
    "(string \<Rightarrow> digest) \<Rightarrow> run \<Rightarrow> run_state \<Rightarrow> string \<Rightarrow> string \<Rightarrow> sqlite_world
     \<Rightarrow> (store_error, run_event) result \<times> sqlite_world" where
  "sqlite_update_if H r expected t payload w =
     (let k = sw_calls w;
          (x, db) = sqlite_update_run_if_state H (sw_faults w k) (sw_cancelled w k) (sw_clock w k) r expected t
                      payload (sw_db w)
      in (x, w\<lparr>sw_db := db, sw_calls := k + 1\<rparr>))"

definition sqlite_append ::
    "(string \<Rightarrow> digest) \<Rightarrow> run_id \<Rightarrow> string \<Rightarrow> string \<Rightarrow> sqlite_world
     \<Rightarrow> (store_error, run_event) result \<times> sqlite_world" where
  "sqlite_append H i t payload w =
     (let k = sw_calls w;
          (x, db) = sqlite_append_event H (sw_faults w k) (sw_cancelled w k) (sw_clock w k) i t payload (sw_db w)
      in (x, w\<lparr>sw_db := db, sw_calls := k + 1\<rparr>))"

definition sqlite_inv :: "(string \<Rightarrow> digest) \<Rightarrow> sqlite_world \<Rightarrow> bool" where
  "sqlite_inv H w \<longleftrightarrow> wf_db H (sw_db w) \<and> (\<forall>k. int64_time (sw_clock w k))"

text \<open>What the two calls can do to a well-formed database.\<close>

lemma sqlite_append_cases:
  assumes "sqlite_append_event H f c now i t p db = (x, db')" and "wf_db H db" and "int64_time now"
  shows "wf_db H db' \<and> ((\<exists>e. x = Inl e \<and> db' = db)
    \<or> (\<exists>ev. x = Inr ev \<and> find_run db i \<noteq> None \<and> find_run db' = find_run db
         \<and> events_of db' = (events_of db)(i := events_of db i @ [ev]) \<and> ev_type ev = t \<and> ev_payload ev = p))"
proof (cases "\<exists>e. x = Inl e \<and> db' = db")
  case True
  then show ?thesis using assms(2) by auto
next
  case False
  then have nf: "sqlite_append_event H no_fault c now i t p db = (x, db')" using append_atomic [OF assms(1)] by blast
  then have ex: "run_exists i db"
    using False by (auto simp: sqlite_append_event_def validate_cases in_tx_def split: if_splits)
  obtain db1 where tx: "append_event_tx H no_fault now i t p db
      = (Inr (new_event H i (length (events_of db i) + 1) t p (last_hash (events_of db i)) now), db1)"
    and e: "runs_table db1 = runs_table db"
      "events_of db1 = (events_of db)(i := events_of db i
         @ [(new_event H i (length (events_of db i) + 1) t p (last_hash (events_of db i)) now)\<lparr>ev_at := unix_nano now\<rparr>])"
      "wf_db H db1"
    using append_event_tx_effect [OF assms(2) ex, of no_fault now t p] by auto
  have "x = Inr (new_event H i (length (events_of db i) + 1) t p (last_hash (events_of db i)) now) \<and> db' = db1"
    using nf tx ex False by (auto simp: sqlite_append_event_def validate_cases in_tx_def split: if_splits)
  then show ?thesis
    using e ex int64_event [OF assms(3)] find_run_table [OF e(1)]
    by (simp add: run_exists_find) (simp add: new_event_def Let_def)
qed

lemma sqlite_update_cases:
  assumes "sqlite_update_run_if_state H f c now r ex t p db = (x, db')" and "wf_db H db" and "int64_time now"
  shows "wf_db H db' \<and> ((\<exists>e. x = Inl e \<and> db' = db)
    \<or> (\<exists>ev current. x = Inr ev \<and> find_run db (rid r) = Some current \<and> state current = ex
         \<and> find_run db' = (find_run db)(rid r \<mapsto> load_run (store_run r))
         \<and> events_of db' = (events_of db)(rid r := events_of db (rid r) @ [ev]) \<and> ev_type ev = t \<and> ev_payload ev = p))"
proof (cases "\<exists>e. x = Inl e \<and> db' = db")
  case True
  then show ?thesis using assms(2) by auto
next
  case False
  then have nf: "sqlite_update_run_if_state H no_fault c now r ex t p db = (x, db')"
    using update_if_atomic [OF assms(1)] by blast
  obtain db1 n where u: "update_run_rows (\<lambda>old. state old = ex) (store_run r) db = (n, db1)"
      "n = 0 \<longleftrightarrow> (case find_run db (rid (store_run r)) of None \<Rightarrow> True | Some current \<Rightarrow> state current \<noteq> ex)"
      "n \<noteq> 0 \<Longrightarrow> find_run db1 = (find_run db)(rid (store_run r) \<mapsto> load_run (store_run r))"
      "events_table db1 = events_table db" "artifacts_table db1 = artifacts_table db"
      "map rid (runs_table db1) = map rid (runs_table db)"
      "set (runs_table db1) \<subseteq> insert (store_run r) (set (runs_table db))"
    using update_run_rows_effect [OF assms(2), of "\<lambda>st. st = ex" "store_run r"] by blast
  have wf1: "wf_db H db1" using wf_update_rows [OF assms(2) u(4-7) row_in_range] .
  have n: "n \<noteq> 0"
    using nf u(1) False by (auto simp: sqlite_update_run_if_state_def validate_cases in_tx_def split: if_splits)
  then obtain current where cur: "find_run db (rid r) = Some current" "state current = ex"
    using u(2) by (auto split: option.splits)
  have exs: "run_exists (rid r) db1" using u(3) [OF n] by (simp add: run_exists_find)
  have ev1: "events_of db1 = events_of db" using events_of_table [OF u(4)] .
  let ?ev = "new_event H (rid r) (length (events_of db (rid r)) + 1) t p (last_hash (events_of db (rid r))) now"
  obtain db2 where tx: "append_event_tx H no_fault now (rid r) t p db1 = (Inr ?ev, db2)"
    and e: "runs_table db2 = runs_table db1"
      "events_of db2 = (events_of db)(rid r := events_of db (rid r) @ [?ev\<lparr>ev_at := unix_nano now\<rparr>])" "wf_db H db2"
    using append_event_tx_effect [OF wf1 exs, of no_fault now t p] by (auto simp: ev1)
  have "x = Inr ?ev \<and> db' = db2"
    using nf tx u(1) n False by (auto simp: sqlite_update_run_if_state_def validate_cases in_tx_def split: if_splits)
  then show ?thesis
    using e cur u(3) [OF n] int64_event [OF assms(3)] find_run_table [OF e(1)]
    by simp (simp add: new_event_def Let_def)
qed

interpretation sqlite_log: run_log H "\<lambda>w. find_run (sw_db w)" "\<lambda>w. events_of (sw_db w)"
  "\<lambda>r. load_run (store_run r)" "sqlite_update_if H" "sqlite_append H" "sqlite_inv H"
  for H :: "string \<Rightarrow> digest"
proof (unfold_locales, goal_cases)
  case (1 s r expected t payload)
  then show ?case
    using sqlite_update_cases by (fastforce simp: sqlite_update_if_def sqlite_inv_def Let_def split: prod.splits)
next
  case (2 s i t payload)
  then show ?case
    using sqlite_append_cases by (fastforce simp: sqlite_append_def sqlite_inv_def Let_def split: prod.splits)
next
  case (3 s i)
  then show ?case by (simp add: sqlite_inv_def wf_db_def)
next
  case (4 s r expected t payload e s')
  then show ?case
    using sqlite_update_cases by (fastforce simp: sqlite_update_if_def sqlite_inv_def Let_def split: prod.splits)
next
  case (5 s r expected t payload ev s')
  then show ?case
    using sqlite_update_cases by (fastforce simp: sqlite_update_if_def sqlite_inv_def Let_def split: prod.splits)
next
  case (6 s i t payload e s')
  then show ?case
    using sqlite_append_cases by (fastforce simp: sqlite_append_def sqlite_inv_def Let_def split: prod.splits)
next
  case (7 s i t payload ev s')
  then show ?case
    using sqlite_append_cases by (fastforce simp: sqlite_append_def sqlite_inv_def Let_def split: prod.splits)
qed simp_all

end
