(* ===== verification/Config.thy ===== *)
theory Config
  imports Domain
begin

text \<open>
  Package \<^verbatim>\<open>internal/config\<close>: the configuration and its validation (\<^verbatim>\<open>load.go\<close>) and the
  resolution of a validation stage for an operating system (\<^verbatim>\<open>resolve.go\<close>). Parameters: the TOML
  decoder (a third-party package), given the defaults it decodes over, and
  \<^verbatim>\<open>time.ParseDuration\<close>, which computes fractions in floating point. A Go pointer is an
  option, and a slice that may be nil as well.
\<close>

section \<open>Types (config.go)\<close>

record budget_config =
  bc_max_decisions :: int
  bc_max_mutations :: int
  bc_max_protocol_repairs :: int
  bc_wall_clock :: string

record command_override =
  co_executable :: string
  co_args :: "string list option"

record classifier_rule =
  rule_category :: string
  rule_pattern :: string

record validation_stage =
  vs_id :: string
  vs_kind :: string
  vs_executable :: string
  vs_args :: "string list"
  vs_working_directory :: string
  vs_timeout :: string
  vs_max_output_bytes :: int
  vs_required :: bool
  vs_windows :: "command_override option"
  vs_linux :: "command_override option"
  vs_classifiers :: "classifier_rule list"

record policy_config =
  pc_max_files :: int
  pc_max_changed_lines :: int
  pc_max_file_bytes :: int
  pc_protected :: "string list"

record harness_config =
  cfg_version :: int
  cfg_default_profile :: string
  cfg_budget :: budget_config
  cfg_validation :: "validation_stage list"
  cfg_policy :: policy_config

record command_spec =
  cs_id :: string
  cs_kind :: string
  cs_executable :: string
  cs_args :: "string list"
  cs_working_directory :: string
  cs_timeout :: duration
  cs_max_output_bytes :: int
  cs_required :: bool
  cs_classifiers :: "classifier_rule list"

section \<open>Loading (load.go)\<close>

datatype config_error =
    ErrDecode | ErrUnknownField | ErrInvalidVersion | ErrDuplicateStageID | ErrAbsoluteWorkingDirectory
  | ErrEmptyExecutable | ErrInvalidTimeout | ErrInvalidProfile | ErrEmptyWorkingDirectory | ErrInvalidBudget

definition valid_profiles :: "string list" where
  "valid_profiles = [''review'', ''supervised'', ''workspace-auto'']"

definition default_config :: harness_config where
  "default_config = \<lparr>cfg_version = 0, cfg_default_profile = [],
     cfg_budget = \<lparr>bc_max_decisions = 30, bc_max_mutations = 5, bc_max_protocol_repairs = 2, bc_wall_clock = ''20m''\<rparr>,
     cfg_validation = [],
     cfg_policy = \<lparr>pc_max_files = 0, pc_max_changed_lines = 0, pc_max_file_bytes = 0, pc_protected = []\<rparr>\<rparr>"

definition validate_budget :: "(string \<Rightarrow> duration option) \<Rightarrow> budget_config \<Rightarrow> (config_error, unit) result" where
  "validate_budget parse b =
     (if bc_max_decisions b \<le> 0 then Inl ErrInvalidBudget
      else if bc_max_mutations b \<le> 0 then Inl ErrInvalidBudget
      else if bc_max_protocol_repairs b \<le> 0 then Inl ErrInvalidBudget
      else (case parse (bc_wall_clock b) of
              None \<Rightarrow> Inl ErrInvalidBudget
            | Some d \<Rightarrow> if d \<le> 0 then Inl ErrInvalidBudget else Inr ()))"

definition ascii_letter :: "char \<Rightarrow> bool" where
  "ascii_letter c \<longleftrightarrow> (65 \<le> code c \<and> code c \<le> 90) \<or> (97 \<le> code c \<and> code c \<le> 122)"

definition is_absolute_working_directory :: "string \<Rightarrow> bool" where
  "is_absolute_working_directory p \<longleftrightarrow> has_prefix p [slash] \<or> has_prefix p [backslash]
     \<or> (2 \<le> length p \<and> ascii_letter (p ! 0) \<and> p ! 1 = CHR '':'')"

definition parse_positive_duration :: "(string \<Rightarrow> duration option) \<Rightarrow> string \<Rightarrow> duration option" where
  "parse_positive_duration parse s =
     (case parse s of None \<Rightarrow> None | Some d \<Rightarrow> if d \<le> 0 then None else Some d)"

definition empty_override :: "command_override option \<Rightarrow> bool" where
  "empty_override ov \<longleftrightarrow> (case ov of None \<Rightarrow> False | Some c \<Rightarrow> co_executable c = [])"

text \<open>One turn of the loop over the stages, with the identifiers seen before.\<close>

definition validate_stage ::
    "(string \<Rightarrow> duration option) \<Rightarrow> string list \<Rightarrow> validation_stage \<Rightarrow> (config_error, unit) result" where
  "validate_stage parse seen st =
     (if vs_id st \<in> set seen then Inl ErrDuplicateStageID
      else if vs_working_directory st = [] then Inl ErrEmptyWorkingDirectory
      else if is_absolute_working_directory (vs_working_directory st) then Inl ErrAbsoluteWorkingDirectory
      else if vs_executable st = [] then Inl ErrEmptyExecutable
      else if empty_override (vs_windows st) then Inl ErrEmptyExecutable
      else if empty_override (vs_linux st) then Inl ErrEmptyExecutable
      else if parse_positive_duration parse (vs_timeout st) = None then Inl ErrInvalidTimeout
      else Inr ())"

fun validate_stages ::
    "(string \<Rightarrow> duration option) \<Rightarrow> string list \<Rightarrow> validation_stage list \<Rightarrow> (config_error, unit) result" where
  "validate_stages parse seen [] = Inr ()"
| "validate_stages parse seen (st # sts) =
     (case validate_stage parse seen st of
        Inl e \<Rightarrow> Inl e
      | Inr _ \<Rightarrow> validate_stages parse (vs_id st # seen) sts)"

text \<open>The decoder gives the configuration and the keys it did not use.\<close>

definition load_config ::
    "(harness_config \<Rightarrow> string \<Rightarrow> (harness_config \<times> string list) option) \<Rightarrow> (string \<Rightarrow> duration option)
     \<Rightarrow> string \<Rightarrow> (config_error, harness_config) result" where
  "load_config decode parse text =
     (case decode default_config text of
        None \<Rightarrow> Inl ErrDecode
      | Some (cfg, undecoded) \<Rightarrow>
          if undecoded \<noteq> [] then Inl ErrUnknownField
          else if cfg_version cfg \<noteq> 1 then Inl ErrInvalidVersion
          else if cfg_default_profile cfg \<notin> set valid_profiles then Inl ErrInvalidProfile
          else
            (case validate_budget parse (cfg_budget cfg) of
               Inl e \<Rightarrow> Inl e
             | Inr _ \<Rightarrow>
                 (case validate_stages parse [] (cfg_validation cfg) of
                    Inl e \<Rightarrow> Inl e
                  | Inr _ \<Rightarrow> Inr cfg)))"

section \<open>Resolving a stage (resolve.go)\<close>

definition override_args :: "command_override \<Rightarrow> string list \<Rightarrow> string list" where
  "override_args c base = (case co_args c of None \<Rightarrow> base | Some as \<Rightarrow> as)"

definition resolve_stage ::
    "(string \<Rightarrow> duration option) \<Rightarrow> validation_stage \<Rightarrow> string \<Rightarrow> command_spec option" where
  "resolve_stage parse st goos =
     (let (exe, as) =
        (if goos = ''windows'' \<and> vs_windows st \<noteq> None
         then (co_executable (the (vs_windows st)), override_args (the (vs_windows st)) (vs_args st))
         else if goos = ''linux'' \<and> vs_linux st \<noteq> None
         then (co_executable (the (vs_linux st)), override_args (the (vs_linux st)) (vs_args st))
         else (vs_executable st, vs_args st)) in
      case parse_positive_duration parse (vs_timeout st) of
        None \<Rightarrow> None
      | Some d \<Rightarrow>
          Some \<lparr>cs_id = vs_id st, cs_kind = vs_kind st, cs_executable = exe, cs_args = as,
                cs_working_directory = vs_working_directory st, cs_timeout = d,
                cs_max_output_bytes = vs_max_output_bytes st, cs_required = vs_required st,
                cs_classifiers = vs_classifiers st\<rparr>)"

section \<open>What a loaded configuration satisfies\<close>

definition stage_ok :: "(string \<Rightarrow> duration option) \<Rightarrow> validation_stage \<Rightarrow> bool" where
  "stage_ok parse st \<longleftrightarrow> vs_working_directory st \<noteq> []
     \<and> \<not> is_absolute_working_directory (vs_working_directory st) \<and> vs_executable st \<noteq> []
     \<and> \<not> empty_override (vs_windows st) \<and> \<not> empty_override (vs_linux st)
     \<and> parse_positive_duration parse (vs_timeout st) \<noteq> None"

lemma validate_stage_Inr:
  "validate_stage parse seen st = Inr u \<longleftrightarrow> vs_id st \<notin> set seen \<and> stage_ok parse st"
  by (auto simp: validate_stage_def stage_ok_def)

lemma validate_stages_Inr:
  "validate_stages parse seen sts = Inr u \<longleftrightarrow> distinct (map vs_id sts)
     \<and> set (map vs_id sts) \<inter> set seen = {} \<and> (\<forall>st \<in> set sts. stage_ok parse st)"
proof (induction parse seen sts rule: validate_stages.induct)
  case (2 parse seen st sts)
  show ?case
  proof (cases "validate_stage parse seen st")
    case (Inl e)
    then have "\<not> (vs_id st \<notin> set seen \<and> stage_ok parse st)"
      using validate_stage_Inr [of parse seen st "()"] by auto
    then show ?thesis using Inl by auto
  next
    case (Inr v)
    then have "vs_id st \<notin> set seen" "stage_ok parse st" using validate_stage_Inr by auto
    then show ?thesis using Inr "2.IH" by auto
  qed
qed simp

lemma positive_duration: "parse_positive_duration parse s = Some d \<Longrightarrow> 0 < d"
  by (auto simp: parse_positive_duration_def split: option.splits if_splits)

text \<open>C37. Loading accepts a configuration exactly when nothing in the text went undecoded, the
  version is 1, the profile one of the three, the budgets and the wall clock positive, the stage
  identifiers distinct, and every stage has a relative working directory, executables that are not
  empty and a positive timeout. Every stage of an accepted configuration then resolves on every
  operating system, to a command with an executable and a positive timeout.\<close>

theorem loaded_stages_resolve:
  "(load_config decode parse text = Inr cfg \<longleftrightarrow>
      decode default_config text = Some (cfg, []) \<and> cfg_version cfg = 1
      \<and> cfg_default_profile cfg \<in> {''review'', ''supervised'', ''workspace-auto''}
      \<and> 0 < bc_max_decisions (cfg_budget cfg) \<and> 0 < bc_max_mutations (cfg_budget cfg)
      \<and> 0 < bc_max_protocol_repairs (cfg_budget cfg)
      \<and> parse_positive_duration parse (bc_wall_clock (cfg_budget cfg)) \<noteq> None
      \<and> distinct (map vs_id (cfg_validation cfg)) \<and> list_all (stage_ok parse) (cfg_validation cfg))
   \<and> (load_config decode parse text = Inr cfg \<longrightarrow> st \<in> set (cfg_validation cfg) \<longrightarrow>
        (\<exists>c. resolve_stage parse st goos = Some c \<and> cs_executable c \<noteq> [] \<and> 0 < cs_timeout c
           \<and> cs_id c = vs_id st \<and> cs_working_directory c = vs_working_directory st))"
proof -
  have b: "validate_budget parse b = Inr () \<longleftrightarrow> 0 < bc_max_decisions b \<and> 0 < bc_max_mutations b
      \<and> 0 < bc_max_protocol_repairs b \<and> parse_positive_duration parse (bc_wall_clock b) \<noteq> None" for b
    by (auto simp: validate_budget_def parse_positive_duration_def split: option.splits)
  have r: "\<exists>c. resolve_stage parse st goos = Some c \<and> cs_executable c \<noteq> [] \<and> 0 < cs_timeout c
      \<and> cs_id c = vs_id st \<and> cs_working_directory c = vs_working_directory st" if "stage_ok parse st"
    using that positive_duration [of parse "vs_timeout st"]
    by (auto simp: resolve_stage_def stage_ok_def empty_override_def split: option.splits)
  have l: "load_config decode parse text = Inr cfg \<longleftrightarrow>
      decode default_config text = Some (cfg, []) \<and> cfg_version cfg = 1
      \<and> cfg_default_profile cfg \<in> set valid_profiles \<and> validate_budget parse (cfg_budget cfg) = Inr ()
      \<and> validate_stages parse [] (cfg_validation cfg) = Inr ()"
    by (auto simp: load_config_def split: option.splits sum.splits if_splits)
  show ?thesis
    unfolding l b validate_stages_Inr using r by (auto simp: valid_profiles_def list_all_iff)
qed

theorem loaded_stages_resolve_witness:
  "\<exists>c. resolve_stage (\<lambda>_. Some 1) \<lparr>vs_id = ''test'', vs_kind = ''test'', vs_executable = ''go'', vs_args = [],
       vs_working_directory = ''.'', vs_timeout = ''1s'', vs_max_output_bytes = 0, vs_required = True,
       vs_windows = None, vs_linux = None, vs_classifiers = []\<rparr> ''linux'' = Some c \<and> 0 < cs_timeout c"
proof -
  let ?st = "\<lparr>vs_id = ''test'', vs_kind = ''test'', vs_executable = ''go'', vs_args = [],
       vs_working_directory = ''.'', vs_timeout = ''1s'', vs_max_output_bytes = 0, vs_required = True,
       vs_windows = None, vs_linux = None, vs_classifiers = []\<rparr>"
  let ?cfg = "default_config\<lparr>cfg_version := 1, cfg_default_profile := ''review'', cfg_validation := [?st]\<rparr>"
  have "load_config (\<lambda>_ _. Some (?cfg, [])) (\<lambda>_. Some 1) [] = Inr ?cfg" by code_simp
  then show ?thesis
    using loaded_stages_resolve [of "\<lambda>_ _. Some (?cfg, [])" "\<lambda>_. Some 1" "[]" ?cfg ?st "''linux''"] by auto
qed

end
