(* ===== verification/Regex.thy ===== *)
theory Regex
  imports Utf8
begin

text \<open>
  What the sources use of \<^verbatim>\<open>regexp\<close> for their fixed patterns: leftmost-first matching by
  backtracking (the ends of the matches at a position in order of preference, with the captured
  groups) and \<^verbatim>\<open>ReplaceAllString\<close>. A single-character class is a function from the text at
  the position to the number of bytes of the rune it takes, 0 when it takes none.
\<close>

type_synonym rune_class = "string \<Rightarrow> nat"
type_synonym captures = "(nat \<times> nat \<times> nat) list" \<comment> \<open>group, start, end\<close>

datatype rx =
    Class rune_class
  | Times nat "nat option" rune_class \<comment> \<open>greedy, with a lower and an upper bound\<close>
  | Boundary \<comment> \<open>\<^verbatim>\<open>\b\<close>\<close>
  | Cat rx rx
  | Alt rx rx
  | Maybe rx \<comment> \<open>\<^verbatim>\<open>?\<close>, greedy\<close>
  | Group nat rx

fun seq :: "rx list \<Rightarrow> rx" where
  "seq [] = Times 0 (Some 0) (\<lambda>_. 0)"
| "seq [r] = r"
| "seq (r # s # rs) = Cat r (seq (s # rs))"

definition byte_class :: "(char \<Rightarrow> bool) \<Rightarrow> rune_class" where
  "byte_class P s = (case s of [] \<Rightarrow> 0 | c # _ \<Rightarrow> if P c then 1 else 0)"

definition lit :: "string \<Rightarrow> rune_class" where
  "lit w s = (if has_prefix s w then length w else 0)"

text \<open>Under \<^verbatim>\<open>(?i)\<close>: a class of letters also takes the long s and the Kelvin sign.\<close>

definition fold_class :: "(char \<Rightarrow> bool) \<Rightarrow> rune_class" where
  "fold_class P s =
     (case s of
        [] \<Rightarrow> 0
      | c # r \<Rightarrow>
          if P c \<or> P (ascii_lower c) \<or> P (ascii_upper c) then 1
          else if code c = 197 \<and> byte_at r 0 = 191 \<and> (P CHR ''s'' \<or> P CHR ''S'') then 2
          else if code c = 226 \<and> byte_at r 0 = 132 \<and> byte_at r 1 = 170 \<and> (P CHR ''k'' \<or> P CHR ''K'') then 3
          else 0)"

fun fold_lit :: "string \<Rightarrow> rx" where
  "fold_lit [] = seq []"
| "fold_lit [c] = Class (fold_class (\<lambda>d. d = c))"
| "fold_lit (c # d # w) = Cat (Class (fold_class (\<lambda>e. e = c))) (fold_lit (d # w))"

definition re_space :: "char \<Rightarrow> bool" where
  \<comment> \<open>\<^verbatim>\<open>\s\<close>\<close>
  "re_space c \<longleftrightarrow> code c = 9 \<or> code c = 10 \<or> code c = 12 \<or> code c = 13 \<or> code c = 32"

definition non_space :: rune_class where
  \<comment> \<open>\<^verbatim>\<open>[^\s]\<close>; an invalid byte is a rune of its own\<close>
  "non_space s = (case s of [] \<Rightarrow> 0 | c # _ \<Rightarrow> if re_space c then 0 else max 1 (rune_len s))"

definition re_digit :: "char \<Rightarrow> bool" where
  "re_digit c \<longleftrightarrow> 48 \<le> code c \<and> code c \<le> 57"

definition re_upper :: "char \<Rightarrow> bool" where
  "re_upper c \<longleftrightarrow> 65 \<le> code c \<and> code c \<le> 90"

definition re_alpha :: "char \<Rightarrow> bool" where
  "re_alpha c \<longleftrightarrow> re_upper c \<or> (97 \<le> code c \<and> code c \<le> 122)"

definition re_hex :: "char \<Rightarrow> bool" where
  "re_hex c \<longleftrightarrow> re_digit c \<or> (65 \<le> code c \<and> code c \<le> 70) \<or> (97 \<le> code c \<and> code c \<le> 102)"

definition re_word :: "char \<Rightarrow> bool" where
  "re_word c \<longleftrightarrow> re_digit c \<or> re_alpha c \<or> c = CHR ''_''"

section \<open>Matching\<close>

text \<open>The positions after 0, 1, 2, ... repetitions, as long as the class takes a rune.\<close>

fun run_ends :: "nat \<Rightarrow> rune_class \<Rightarrow> string \<Rightarrow> nat \<Rightarrow> nat list" where
  "run_ends 0 f t i = [i]"
| "run_ends (Suc k) f t i =
     (let n = f (drop i t) in if n = 0 then [i] else i # run_ends k f t (i + n))"

definition word_before :: "string \<Rightarrow> nat \<Rightarrow> bool" where
  "word_before t i \<longleftrightarrow> 0 < i \<and> i \<le> length t \<and> re_word (t ! (i - 1))"

definition word_at :: "string \<Rightarrow> nat \<Rightarrow> bool" where
  "word_at t i \<longleftrightarrow> i < length t \<and> re_word (t ! i)"

fun rx_ends :: "rx \<Rightarrow> string \<Rightarrow> nat \<Rightarrow> (nat \<times> captures) list" where
  "rx_ends (Class f) t i = (let n = f (drop i t) in if n = 0 then [] else [(i + n, [])])"
| "rx_ends (Times lo hi f) t i =
     map (\<lambda>j. (j, [])) (rev (drop lo (run_ends (case hi of None \<Rightarrow> length t | Some h \<Rightarrow> h) f t i)))"
| "rx_ends Boundary t i = (if word_before t i \<noteq> word_at t i then [(i, [])] else [])"
| "rx_ends (Cat a b) t i =
     concat (map (\<lambda>(j, g). map (\<lambda>(k, h). (k, g @ h)) (rx_ends b t j)) (rx_ends a t i))"
| "rx_ends (Alt a b) t i = rx_ends a t i @ rx_ends b t i"
| "rx_ends (Maybe a) t i = rx_ends a t i @ [(i, [])]"
| "rx_ends (Group n a) t i = map (\<lambda>(j, g). (j, (n, i, j) # g)) (rx_ends a t i)"

text \<open>The leftmost match from a position on.\<close>

definition rx_find :: "rx \<Rightarrow> string \<Rightarrow> nat \<Rightarrow> (nat \<times> nat \<times> captures) option" where
  "rx_find r t i =
     (case find (\<lambda>j. rx_ends r t j \<noteq> []) [i ..< length t] of
        None \<Rightarrow> None
      | Some j \<Rightarrow> Some (j, hd (rx_ends r t j)))"

definition captured :: "string \<Rightarrow> captures \<Rightarrow> nat \<Rightarrow> string" where
  "captured t g n = (case map_of g n of None \<Rightarrow> [] | Some (i, j) \<Rightarrow> take (j - i) (drop i t))"

text \<open>\<^verbatim>\<open>ReplaceAllString\<close> from a position on, for patterns whose matches are never empty (all of
  those below); the replacement is a function of the captured groups.\<close>

function rx_replace_from :: "rx \<Rightarrow> (string \<Rightarrow> captures \<Rightarrow> string) \<Rightarrow> string \<Rightarrow> nat \<Rightarrow> string" where
  "rx_replace_from r tmpl t i =
     (case rx_find r t i of
        None \<Rightarrow> drop i t
      | Some (j, k, g) \<Rightarrow>
          take (j - i) (drop i t) @ tmpl t g
          @ (if k \<le> i \<or> length t < k then [] else rx_replace_from r tmpl t k))"
  by pat_completeness auto
termination
  by (relation "measure (\<lambda>(r, tmpl, t, i). length t - i)") auto

declare rx_replace_from.simps [simp del]

definition rx_replace :: "rx \<Rightarrow> (string \<Rightarrow> captures \<Rightarrow> string) \<Rightarrow> string \<Rightarrow> string" where
  "rx_replace r tmpl t = rx_replace_from r tmpl t 0"

definition rx_matches :: "rx \<Rightarrow> string \<Rightarrow> bool" where
  "rx_matches r t \<longleftrightarrow> rx_find r t 0 \<noteq> None"

end
