(* ===== verification/Redact.thy ===== *)
theory Redact
  imports Regex
begin

text \<open>
  Package \<^verbatim>\<open>internal/feedback\<close>, \<^verbatim>\<open>redact.go\<close>: the registry of secrets known at run time and
  the redaction of a text. The registry is the list of its strings; a nil registry is the empty
  list. \<^verbatim>\<open>sort.Slice\<close> leaves the order of equally long secrets open: the stable order stands for it.
\<close>

section \<open>The encoded form of a secret (encoding/json)\<close>

definition hex_digit :: "nat \<Rightarrow> char" where
  "hex_digit n = (if n < 10 then char_of (48 + n) else char_of (87 + n))"

definition json_escape_byte :: "char \<Rightarrow> string" where
  "json_escape_byte c =
     (if c = CHR ''\"'' \<or> c = backslash then [backslash, c]
      else if code c = 8 then [backslash, CHR ''b'']
      else if code c = 12 then [backslash, CHR ''f'']
      else if code c = 10 then [backslash, CHR ''n'']
      else if code c = 13 then [backslash, CHR ''r'']
      else if code c = 9 then [backslash, CHR ''t'']
      else if code c < 32 \<or> c = CHR ''<'' \<or> c = CHR ''>'' \<or> c = CHR ''&''
      then backslash # ''u00'' @ [hex_digit (code c div 16), hex_digit (code c mod 16)]
      else [c])"

text \<open>The contents of \<^verbatim>\<open>json.Marshal\<close> of a string, without the quotes.\<close>

function json_escape :: "string \<Rightarrow> string" where
  "json_escape [] = []"
| "json_escape (c # s) =
     (let n = rune_len (c # s) in
      if n = 0 then backslash # ''ufffd'' @ json_escape s
      else if n = 1 then json_escape_byte c @ json_escape s
      else if code c = 226 \<and> byte_at s 0 = 128 \<and> (byte_at s 1 = 168 \<or> byte_at s 1 = 169)
      then backslash # ''u202'' @ (if byte_at s 1 = 168 then ''8'' else ''9'') @ json_escape (drop 2 s)
      else take n (c # s) @ json_escape (drop (n - 1) s))"
  by pat_completeness auto
termination
  by (relation "measure length") auto

section \<open>The registry\<close>

definition add_secret :: "string \<Rightarrow> string list \<Rightarrow> string list" where
  "add_secret s secrets = (if s = [] \<or> s \<in> set secrets then secrets else secrets @ [s])"

definition register :: "string \<Rightarrow> string list \<Rightarrow> string list" where
  "register secret secrets =
     (if secret = [] then secrets
      else sort_key (\<lambda>s. - int (length s)) (add_secret (json_escape secret) (add_secret secret secrets)))"

definition new_redactor :: "string list \<Rightarrow> string list" where
  "new_redactor secrets = foldl (\<lambda>r s. register s r) [] secrets"

section \<open>The patterns\<close>

definition credential_name :: rune_class where
  "credential_name = fold_class (\<lambda>c. re_upper c \<or> re_digit c \<or> c = CHR ''_'')"

definition assignment_pattern :: rx where
  "assignment_pattern =
     seq [Boundary,
       Group 1 (seq [Times 0 None credential_name,
         Alt (fold_lit ''key'') (Alt (fold_lit ''token'') (Alt (fold_lit ''secret'')
           (Alt (fold_lit ''password'') (fold_lit ''credential'')))),
         Times 0 None credential_name]),
       Class (lit ''=''),
       Group 2 (Times 1 None non_space)]"

definition bearer_pattern :: rx where
  "bearer_pattern =
     seq [Boundary, fold_lit ''bearer'', Times 1 None (byte_class re_space),
       Times 8 None (fold_class (\<lambda>c. re_alpha c \<or> re_digit c \<or> c \<in> set ''._~+/=-''))]"

definition sk_pattern :: rx where
  "sk_pattern = seq [Boundary, Class (lit ''sk-''),
     Times 8 None (byte_class (\<lambda>c. re_alpha c \<or> re_digit c \<or> c \<in> set ''_-''))]"

definition gh_pattern :: rx where
  "gh_pattern = seq [Boundary, Class (lit ''gh''), Class (byte_class (\<lambda>c. c \<in> set ''pousr'')), Class (lit ''_''),
     Times 8 None (byte_class re_word)]"

definition marker :: string where
  "marker = ''[REDACTED]''"

definition redact_exact :: "string list \<Rightarrow> string \<Rightarrow> string" where
  "redact_exact secrets text = foldl (\<lambda>t s. replace_all s marker t) text secrets"

definition redact :: "string list \<Rightarrow> string \<Rightarrow> string" where
  "redact secrets text =
     (let t0 = redact_exact secrets text;
          t1 = rx_replace assignment_pattern (\<lambda>t g. captured t g 1 @ ''='' @ marker) t0;
          t2 = rx_replace bearer_pattern (\<lambda>_ _. marker) t1;
          t3 = rx_replace sk_pattern (\<lambda>_ _. marker) t2
      in rx_replace gh_pattern (\<lambda>_ _. marker) t3)"

section \<open>Replacing cannot bring a secret back\<close>

text \<open>A secret that the marker neither contains nor can be glued to.\<close>

definition apart :: "string \<Rightarrow> bool" where
  "apart s \<longleftrightarrow> s \<noteq> [] \<and> CHR ''['' \<notin> set s \<and> CHR '']'' \<notin> set s \<and> \<not> contains ''REDACTED'' s"

lemma sublist_at_separator:
  assumes "c \<notin> set pat"
  shows "sublist pat (a @ c # b) \<longleftrightarrow> sublist pat a \<or> sublist pat b"
proof
  assume "sublist pat (a @ c # b)"
  then consider "sublist pat a" | "sublist pat (c # b)"
    | xs ys where "pat = xs @ ys" "suffix xs a" "prefix ys (c # b)"
    by (auto simp: sublist_append)
  then show "sublist pat a \<or> sublist pat b"
    using assms by cases (auto simp: sublist_Cons_right prefix_Cons)
qed (auto simp: sublist_append sublist_Cons_right)

lemma contains_marker:
  assumes "apart s"
  shows "contains (a @ marker @ b) s \<longleftrightarrow> contains a s \<or> contains b s"
proof -
  have "a @ marker @ b = a @ CHR ''['' # ''REDACTED'' @ CHR '']'' # b" by (simp add: marker_def)
  then show ?thesis
    using assms sublist_at_separator [of "CHR ''[''" s a "''REDACTED'' @ CHR '']'' # b"]
      sublist_at_separator [of "CHR '']''" s "''REDACTED''" b]
    by (simp only: apart_def) blast
qed

lemma contains_drop: "contains t s \<longleftrightarrow> (\<exists>i \<le> length t. has_prefix (drop i t) s)"
proof
  assume "contains t s"
  then obtain a b where "t = a @ s @ b" by (auto simp: sublist_def)
  then show "\<exists>i \<le> length t. has_prefix (drop i t) s" by (intro exI [of _ "length a"]) simp
next
  assume "\<exists>i \<le> length t. has_prefix (drop i t) s"
  then obtain i u where "drop i t = s @ u" by (auto simp: prefix_def)
  then have "t = take i t @ s @ u" by (metis append_take_drop_id)
  then show "contains t s" by (metis sublist_appendI)
qed

lemma replace_all_keeps_out:
  assumes "old \<noteq> []" and "\<not> contains (p @ t) s"
    and "\<And>a b. contains (a @ new @ b) s \<Longrightarrow> contains a s \<or> contains b s"
  shows "\<not> contains (p @ replace_all old new t) s"
  using assms
proof (induction old new t arbitrary: p rule: replace_all.induct)
  case (2 old new c t)
  show ?case
  proof (cases "has_prefix (c # t) old")
    case True
    have "contains (c # t) (drop (length old - 1) t)" by (simp add: sublist_Cons_right)
    then have "\<not> contains ([] @ drop (length old - 1) t) s" and "\<not> contains p s"
      using "2.prems"(2) by (auto simp: sublist_append dest: sublist_order.order_trans)
    then have "\<not> contains ([] @ replace_all old new (drop (length old - 1) t)) s"
      using "2.IH"(1) True "2.prems"(1,3) by blast
    then show ?thesis
      using True "2.prems"(1) "2.prems"(3) [of p "replace_all old new (drop (length old - 1) t)"] \<open>\<not> contains p s\<close>
      by auto
  next
    case False
    then show ?thesis using "2.IH"(2) [of "p @ [c]"] "2.prems" by auto
  qed
qed simp

lemma replace_all_removes:
  assumes "s \<noteq> []" and "\<And>i. i < length p \<Longrightarrow> \<not> has_prefix (drop i (p @ t)) s"
    and "\<And>a b. contains (a @ new @ b) s \<Longrightarrow> contains a s \<or> contains b s"
  shows "\<not> contains (p @ replace_all s new t) s"
  using assms
proof (induction s new t arbitrary: p rule: replace_all.induct)
  case (1 s new)
  have "\<not> has_prefix (drop i p) s" if "i \<le> length p" for i
    using "1.prems"(1) "1.prems"(2) [of i] that by (cases "i = length p") auto
  then show ?case by (auto simp: contains_drop)
next
  case (2 s new c t)
  have out: "\<not> has_prefix (drop i p) s" if "i \<le> length p" for i
    using "2.prems"(1) "2.prems"(2) [of i] that by (cases "i = length p") (auto intro: prefix_prefix)
  then have np: "\<not> contains p s" by (auto simp: contains_drop)
  show ?case
  proof (cases "has_prefix (c # t) s")
    case True
    then have "\<not> contains ([] @ replace_all s new (drop (length s - 1) t)) s"
      using "2.IH"(1) [of "[]"] "2.prems"(1,3) by auto
    then show ?thesis
      using True "2.prems"(1) "2.prems"(3) [of p "replace_all s new (drop (length s - 1) t)"] np by auto
  next
    case False
    have "\<not> has_prefix (drop i ((p @ [c]) @ t)) s" if "i < length (p @ [c])" for i
      using "2.prems"(2) [of i] that False by (cases "i = length p") auto
    then show ?thesis using "2.IH"(2) [of "p @ [c]"] "2.prems"(1,3) False by auto
  qed
qed

lemma rx_replace_from_keeps_out:
  assumes "apart s" and "\<not> contains t s"
    and "\<And>i j k g. rx_find r t i = Some (j, k, g) \<Longrightarrow>
      \<exists>kept. tmpl t g = kept @ marker \<and> contains t (take (j - i) (drop i t) @ kept)"
  shows "\<not> contains (rx_replace_from r tmpl t i) s"
  using assms
proof (induction r tmpl t i rule: rx_replace_from.induct)
  case (1 r tmpl t i)
  show ?case
  proof (cases "rx_find r t i")
    case None
    have "contains t (drop i t)" by simp
    then show ?thesis using None "1.prems"(2) by (auto simp: rx_replace_from.simps [of r] dest: sublist_order.order_trans)
  next
    case (Some m)
    obtain j k g where m: "m = (j, k, g)" by (cases m)
    let ?rest = "if k \<le> i \<or> length t < k then [] else rx_replace_from r tmpl t k"
    obtain kept where kept: "tmpl t g = kept @ marker" "contains t (take (j - i) (drop i t) @ kept)"
      using "1.prems"(3) Some m by blast
    have rest: "\<not> contains ?rest s"
    proof (cases "k \<le> i \<or> length t < k")
      case True
      then show ?thesis using "1.prems"(1) by (simp add: apart_def)
    next
      case False
      then show ?thesis using "1.IH" [OF Some [unfolded m] refl refl False] "1.prems" False by auto
    qed
    have "\<not> contains ((take (j - i) (drop i t) @ kept) @ marker @ ?rest) s"
      using contains_marker [OF "1.prems"(1)] kept(2) "1.prems"(2) rest sublist_order.order_trans by blast
    then show ?thesis using Some m kept(1) by (simp add: rx_replace_from.simps [of r])
  qed
qed

section \<open>A registered secret does not survive redaction\<close>

lemma run_ends_ge: "j \<in> set (run_ends n f t i) \<Longrightarrow> i \<le> j"
  by (induction n f t i rule: run_ends.induct) (auto simp: Let_def split: if_splits intro: le_trans [OF le_add1])

lemma rx_ends_ge: "(k, g) \<in> set (rx_ends r t i) \<Longrightarrow> i \<le> k"
proof (induction r t i arbitrary: k g rule: rx_ends.induct)
  case (2 lo hi f t i)
  then show ?case by (auto dest!: in_set_dropD intro: run_ends_ge)
next
  case (4 a b t i)
  then show ?case by (fastforce intro: le_trans)
qed (auto simp: Let_def split: if_splits)

lemma find_SomeD: "find P xs = Some x \<Longrightarrow> x \<in> set xs \<and> P x"
  by (induction xs) (auto split: if_splits)

lemma rx_find_SomeD:
  assumes "rx_find r t i = Some (j, k, g)"
  shows "i \<le> j" and "j < length t" and "(k, g) \<in> set (rx_ends r t j)"
proof -
  from assms obtain f where f: "find (\<lambda>j. rx_ends r t j \<noteq> []) [i ..< length t] = Some f"
    and jkg: "(j, k, g) = (f, hd (rx_ends r t f))"
    by (auto simp: rx_find_def split: option.splits)
  from find_SomeD [OF f] have "f \<in> set [i ..< length t]" and "rx_ends r t f \<noteq> []" by simp_all
  then show "i \<le> j" and "j < length t" and "(k, g) \<in> set (rx_ends r t j)"
    using jkg by (auto simp: hd_in_set)
qed

lemma captured_before_equals:
  assumes "(k, g) \<in> set (rx_ends (Cat Boundary (Cat (Group 1 name) (Cat (Class (lit ''='')) (Group 2 rest)))) t j)"
  shows "\<exists>m. map_of g 1 = Some (j, m) \<and> j \<le> m \<and> has_prefix (drop m t) ''=''"
  using assms by (auto simp: Let_def lit_def dest: rx_ends_ge split: if_splits)

lemma assignment_shape:
  "\<exists>name rest. assignment_pattern = Cat Boundary (Cat (Group 1 name) (Cat (Class (lit ''='')) (Group 2 rest)))"
  by (simp add: assignment_pattern_def)

lemma assignment_ends:
  assumes "(k, g) \<in> set (rx_ends assignment_pattern t j)"
  shows "\<exists>m. map_of g 1 = Some (j, m) \<and> j \<le> m \<and> has_prefix (drop m t) ''=''"
  using assms assignment_shape captured_before_equals by metis

lemma take_through:
  assumes "i \<le> j" and "j \<le> m" and "has_prefix (drop m t) u"
  shows "contains t (take (j - i) (drop i t) @ take (m - j) (drop j t) @ u)"
proof -
  obtain v where v: "drop m t = u @ v" using assms(3) by (auto simp: prefix_def)
  have "t = take i t @ take (j - i) (drop i t) @ take (m - j) (drop j t) @ drop m t"
    using assms(1,2) by (metis append_take_drop_id drop_drop le_add_diff_inverse2)
  then have "t = take i t @ (take (j - i) (drop i t) @ take (m - j) (drop j t) @ u) @ v" using v by simp
  then show ?thesis by (metis sublist_appendI)
qed

lemma assignment_keeps_out:
  assumes "apart s" and "\<not> contains t s"
  shows "\<not> contains (rx_replace assignment_pattern (\<lambda>t g. captured t g 1 @ ''='' @ marker) t) s"
  unfolding rx_replace_def
proof (rule rx_replace_from_keeps_out [OF assms])
  fix i j k g
  assume "rx_find assignment_pattern t i = Some (j, k, g)"
  note found = rx_find_SomeD [OF this]
  obtain m where m: "map_of g 1 = Some (j, m)" "j \<le> m" "has_prefix (drop m t) ''=''"
    using assignment_ends [OF found(3)] by blast
  show "\<exists>kept. captured t g 1 @ ''='' @ marker = kept @ marker \<and> contains t (take (j - i) (drop i t) @ kept)"
    using take_through [OF found(1) m(2,3)] m(1) by (intro exI [of _ "captured t g 1 @ ''=''"]) (simp add: captured_def)
qed

lemma marked_keeps_out:
  assumes "apart s" and "\<not> contains t s"
  shows "\<not> contains (rx_replace r (\<lambda>_ _. marker) t) s"
  unfolding rx_replace_def
proof (rule rx_replace_from_keeps_out [OF assms])
  fix i j k g
  have "contains t (take (j - i) (drop i t))"
    by (meson sublist_order.order_trans sublist_drop sublist_take)
  then show "\<exists>kept. marker = kept @ marker \<and> contains t (take (j - i) (drop i t) @ kept)" by simp
qed

lemma patterns_keep_out:
  assumes "apart s" and "\<not> contains (redact_exact secrets t) s"
  shows "\<not> contains (redact secrets t) s"
  unfolding redact_def Let_def by (intro marked_keeps_out assignment_keeps_out assms)

lemma exact_keeps_out:
  "\<not> contains t s \<Longrightarrow> apart s \<Longrightarrow> [] \<notin> set secrets \<Longrightarrow> \<not> contains (redact_exact secrets t) s"
proof (induction secrets arbitrary: t)
  case (Cons x xs)
  have "x \<noteq> []" using Cons.prems(3) by auto
  then have "\<not> contains ([] @ replace_all x marker t) s"
    by (rule replace_all_keeps_out) (use Cons.prems(1) contains_marker [OF Cons.prems(2)] in simp_all)
  then show ?case using Cons by (simp add: redact_exact_def)
qed (simp add: redact_exact_def)

lemma exact_removes:
  assumes "s \<in> set secrets" and "apart s" and "[] \<notin> set secrets"
  shows "\<not> contains (redact_exact secrets t) s"
proof -
  obtain a b where ab: "secrets = a @ s # b" using assms(1) by (meson split_list)
  have "\<not> contains (replace_all s marker (redact_exact a t)) s"
    using replace_all_removes [of s "[]" "redact_exact a t" marker] assms(2) contains_marker [OF assms(2)]
    by (simp add: apart_def)
  then have "\<not> contains (redact_exact b (replace_all s marker (redact_exact a t))) s"
    using exact_keeps_out assms(2,3) ab by simp
  then show ?thesis by (simp add: ab redact_exact_def)
qed

lemma register_members:
  "set (register x r) = set r \<union> (if x = [] then {} else {x, json_escape x} - {[]})"
  by (auto simp: register_def add_secret_def)

lemma new_redactor_members:
  "set (new_redactor xs) = (\<Union>x \<in> set xs. {x, json_escape x}) - {[]}"
proof (induction xs rule: rev_induct)
  case (snoc x xs)
  then show ?case by (auto simp: new_redactor_def register_members)
qed (simp add: new_redactor_def)

lemma registered_form_removed:
  assumes "secret \<in> set secrets" and "form = secret \<or> form = json_escape secret" and "apart form"
  shows "\<not> contains (redact (new_redactor secrets) t) form"
proof (rule patterns_keep_out [OF assms(3)], rule exact_removes [OF _ assms(3)])
  show "form \<in> set (new_redactor secrets)"
    using assms by (auto simp: new_redactor_members apart_def)
qed (simp add: new_redactor_members)

lemma registered_secret_is_redacted_in:
  "secret \<in> set secrets \<Longrightarrow> apart secret \<Longrightarrow> \<not> contains (redact (new_redactor secrets) t) secret"
  using registered_form_removed [of secret secrets secret t] by simp

text \<open>C38. A redactor built from a list of secrets lets none of them through, neither as it is
  nor in its JSON encoded form, whatever the text and whatever other secrets and patterns apply
  to it, provided the form is not empty, has no square bracket and is not part of the word the
  redactor itself writes in its place.\<close>

theorem registered_secret_is_redacted:
  assumes "secret \<in> set secrets" and "form = secret \<or> form = json_escape secret" and "apart form"
  shows "\<not> contains (redact (new_redactor secrets) text) form"
  using registered_form_removed [OF assms] .

text \<open>At a concrete input.\<close>

theorem registered_secret_is_redacted_witness:
  "\<not> contains (redact (new_redactor [''hunter2'', ''a<b'']) ''pw hunter2, API_KEY=x and hunter2'') ''hunter2''"
  by (rule registered_secret_is_redacted [of "''hunter2''"]) (simp_all add: apart_def, code_simp)

end
