(* ===== verification/Feedback.thy ===== *)
theory Feedback
  imports Redact Config
begin

text \<open>
  Package \<^verbatim>\<open>internal/feedback\<close>: normalisation, fingerprint, compression and classification of
  an observation into structured feedback. Parameters: SHA-256 in hexadecimal, and
  \<^verbatim>\<open>regexp.Compile\<close> on the patterns of the configuration, as the test of the compiled
  expression on a text, \<^const>\<open>None\<close> when the pattern does not compile.
\<close>

section \<open>Normalisation (normalize.go)\<close>

definition esc :: char where
  "esc = CHR 0x1B"

definition carriage_return :: char where
  "carriage_return = CHR 0x0D"

definition ansi_pattern :: rx where
  "ansi_pattern = seq [Class (lit [esc, CHR ''['']),
     Times 0 None (byte_class (\<lambda>c. re_digit c \<or> c = CHR '';'' \<or> c = CHR ''?'')),
     Times 0 None (byte_class (\<lambda>c. 32 \<le> code c \<and> code c \<le> 47)),
     Class (byte_class (\<lambda>c. 64 \<le> code c \<and> code c \<le> 126))]"

definition line_pattern :: rx where
  "line_pattern = seq [Class (lit '':''), Group 1 (Times 1 None (byte_class re_digit)),
     Group 2 (Alt (Class (lit '':'')) (Alt (Class (lit '' '')) Boundary))]"

definition duration_pattern :: rx where
  "duration_pattern = seq [Boundary, Times 1 None (byte_class re_digit),
     Maybe (seq [Class (lit ''.''), Times 1 None (byte_class re_digit)]),
     Alt (Class (lit ''ms'')) (Class (lit ''s'')), Boundary]"

definition hex_pattern :: rx where
  "hex_pattern = seq [Class (lit ''0x''), Times 1 None (byte_class re_hex)]"

definition uuid_pattern :: rx where
  "uuid_pattern = (let h = (\<lambda>n. Times n (Some n) (byte_class re_hex)); d = Class (lit ''-'') in
     seq [Boundary, h 8, d, h 4, d, h 4, d, h 4, d, h 12, Boundary])"

definition tmp_root_pattern :: rx where
  "tmp_root_pattern = (let sep = Class (byte_class (\<lambda>c. c = backslash \<or> c = slash)) in
     seq [Maybe (Group 1 (seq [Class (fold_class re_upper), Class (lit '':'')])), sep,
       Alt (fold_lit ''tmp'') (fold_lit ''temp''), sep, Times 1 None non_space])"

definition space_pattern :: rx where
  "space_pattern = Times 1 None (byte_class (\<lambda>c. code c = 32 \<or> code c = 9))"

definition normalize_human_text :: "string \<Rightarrow> string" where
  "normalize_human_text text =
     replace_all [carriage_return] [newline]
       (replace_all [carriage_return, newline] [newline]
         (rx_replace ansi_pattern (\<lambda>_ _. []) text))"

definition normalize_fingerprint_text :: "string \<Rightarrow> string" where
  "normalize_fingerprint_text text =
     (let t0 = normalize_human_text text;
          t1 = replace_char backslash slash t0;
          t2 = rx_replace line_pattern (\<lambda>t g. '':<line>'' @ captured t g 2) t1;
          t3 = rx_replace duration_pattern (\<lambda>_ _. ''<duration>'') t2;
          t4 = rx_replace hex_pattern (\<lambda>_ _. ''<hex>'') t3;
          t5 = rx_replace uuid_pattern (\<lambda>_ _. ''<uuid>'') t4;
          t6 = rx_replace tmp_root_pattern (\<lambda>_ _. ''<tmp>'') t5
      in join_with [newline]
           (map (\<lambda>line. trim_space (rx_replace space_pattern (\<lambda>_ _. '' '') line)) (split_on newline t6)))"

section \<open>Input (classify.go)\<close>

record feedback_input =
  in_stage_id :: string
  in_code :: string
  in_observation :: observation
  in_rules :: "classifier_rule list"
  in_prior :: int
  in_secrets :: "string list"

record feedback_pipeline =
  fp_max_evidence :: int
  fp_max_summary :: int

definition trim_char :: "char \<Rightarrow> string \<Rightarrow> string" where
  \<comment> \<open>\<^verbatim>\<open>strings.Trim\<close> with a cutset of one byte\<close>
  "trim_char c s = rev (dropWhile (\<lambda>d. d = c) (rev (dropWhile (\<lambda>d. d = c) s)))"

definition observation_text :: "feedback_input \<Rightarrow> string" where
  "observation_text inp =
     trim_char newline (join_with [newline]
       [stdout (in_observation inp), stderr (in_observation inp), obs_data (in_observation inp)])"

section \<open>Fingerprint (fingerprint.go)\<close>

definition fingerprint_of :: "(string \<Rightarrow> digest) \<Rightarrow> string \<Rightarrow> string \<Rightarrow> string \<Rightarrow> digest" where
  "fingerprint_of H stage cat text =
     H (join_with [CHR 0x00] [stage, cat, normalize_fingerprint_text text])"

section \<open>Compression (compress.go)\<close>

definition meaningful_lines :: "string \<Rightarrow> string list" where
  "meaningful_lines text = filter (\<lambda>l. l \<noteq> []) (map trim_space (split_on newline text))"

definition observed :: "string \<Rightarrow> evidence" where
  "observed line = \<lparr>ev_source = ''observation'', ev_message = line, ev_path = [], ev_line = 0\<rparr>"

definition compress_evidence :: "string \<Rightarrow> nat \<Rightarrow> evidence list \<times> bool" where
  "compress_evidence text max_ev =
     (let lines = meaningful_lines text in
      if max_ev < length lines
      then (let head = max_ev div 2; tail = max_ev - head in
            (map observed (take head lines @ drop (length lines - tail) lines), True))
      else (map observed lines, False))"

text \<open>The loop that cuts the summary before its first invalid byte.\<close>

function valid_prefix :: "string \<Rightarrow> string" where
  "valid_prefix s =
     (if s = [] \<or> rune_len s = 0 then [] else take (rune_len s) s @ valid_prefix (drop (rune_len s) s))"
  by pat_completeness auto
termination
  by (relation "measure length") auto

declare valid_prefix.simps [simp del]

definition summarize :: "string \<Rightarrow> string \<Rightarrow> int \<Rightarrow> string \<times> bool" where
  "summarize cat text max_bytes =
     (let lines = meaningful_lines text;
          summ = (if lines \<noteq> [] then cat @ '': '' @ hd lines else cat)
      in if max_bytes \<le> 0 then ([], True)
         else (let limit = min (length summ) (nat max_bytes);
                   pre = take limit summ;
                   good = valid_prefix pre
               in if length good < length pre then (good, True) else (pre, limit < length summ)))"

section \<open>Classification (classify.go)\<close>

text \<open>The codes of package \<^verbatim>\<open>internal/executor\<close>.\<close>

definition code_exit :: string where "code_exit = ''EXIT''"
definition code_start_error :: string where "code_start_error = ''START_ERROR''"
definition code_execution_error :: string where "code_execution_error = ''EXECUTION_ERROR''"
definition code_cleanup_error :: string where "code_cleanup_error = ''CLEANUP_ERROR''"
definition code_timeout :: string where "code_timeout = ''TIMEOUT''"
definition code_cancelled :: string where "code_cancelled = ''CANCELLED''"

text \<open>The cache of compiled patterns. \<^verbatim>\<open>loadOrStore\<close> reads it under the read lock and again under
  the write lock: the two arguments are its contents at those two moments, between which other
  goroutines may have stored patterns.\<close>

type_synonym matcher = "string \<Rightarrow> bool"
type_synonym pattern_cache = "(string \<times> matcher option) list"

definition classifier_pattern_cache_limit :: nat where
  "classifier_pattern_cache_limit = 128"

definition load_or_store ::
    "(string \<Rightarrow> matcher option) \<Rightarrow> string \<Rightarrow> pattern_cache \<Rightarrow> pattern_cache \<Rightarrow> matcher option \<times> pattern_cache" where
  "load_or_store compile pattern at_read at_write =
     (case map_of at_read pattern of
        Some cached \<Rightarrow> (cached, at_write)
      | None \<Rightarrow>
          let value = compile pattern in
          (case map_of at_write pattern of
             Some cached \<Rightarrow> (cached, at_write)
           | None \<Rightarrow>
               (value, if length at_write < classifier_pattern_cache_limit
                       then (pattern, value) # at_write else at_write)))"

definition invalid_rule :: "nat \<Rightarrow> evidence" where
  "invalid_rule i = \<lparr>ev_source = ''classifier'',
     ev_message = ''invalid classifier rule at index '' @ nat_string i, ev_path = [], ev_line = 0\<rparr>"

text \<open>The loop over the rules from an index on: the compiled rules and the diagnostics.\<close>

fun compile_classifier_rules ::
    "(string \<Rightarrow> matcher option) \<Rightarrow> nat \<Rightarrow> classifier_rule list \<Rightarrow> pattern_cache
     \<Rightarrow> (string \<times> matcher) list \<times> evidence list \<times> pattern_cache" where
  "compile_classifier_rules compile i [] cache = ([], [], cache)"
| "compile_classifier_rules compile i (rule # rules) cache =
     (if rule_category rule = [] \<or> rule_pattern rule = []
      then compile_classifier_rules compile (Suc i) rules cache
      else
        (case load_or_store compile (rule_pattern rule) cache cache of
           (None, cache') \<Rightarrow>
             (case compile_classifier_rules compile (Suc i) rules cache' of
                (rs, ds, c) \<Rightarrow> (rs, invalid_rule i # ds, c))
         | (Some re, cache') \<Rightarrow>
             (case compile_classifier_rules compile (Suc i) rules cache' of
                (rs, ds, c) \<Rightarrow> ((rule_category rule, re) # rs, ds, c))))"

definition missing_executable :: "string \<Rightarrow> bool" where
  "missing_executable text \<longleftrightarrow>
     contains (to_lower text) ''executable file not found'' \<or> contains (to_lower text) ''file not found''
     \<or> contains (to_lower text) ''no such file or directory''"

definition category_of_code :: "string \<Rightarrow> string \<Rightarrow> string option" where
  "category_of_code c text =
     (if c \<in> {''INVALID_JSON'', ''INVALID_AGENT_JSON'', ''INVALID_DECISION_JSON'', ''INVALID_ACTION_ARGS''}
      then Some ''PROTOCOL_ERROR''
      else if c = ''APPROVAL_REQUIRED'' then Some ''APPROVAL_REQUIRED''
      else if c = ''APPROVAL_REJECTED'' then Some ''APPROVAL_REJECTED''
      else if c \<in> {''POLICY_DENIED'', ''UNKNOWN_ACTION'', ''REPOSITORY_ESCAPE'', ''PATH_DENIED'', ''SYMLINK_ESCAPE'',
                   ''CREDENTIAL_ACCESS'', ''GIT_INTERNALS'', ''PROTECTED_PATH'', ''UNCONFIGURED_CHECK'', ''RAW_SHELL_DENIED''}
      then Some ''POLICY_DENIED''
      else if c = ''STALE_PATCH'' then Some ''STALE_PATCH''
      else if c = ''EMPTY_PATCH'' then Some ''EMPTY_PATCH''
      else if c \<in> {''PATCH_CONFLICT'', ''INVALID_PATCH_SCHEMA''} then Some ''PATCH_FAILURE''
      else if c = ''REGRESSION'' then Some ''REGRESSION''
      else if c = code_timeout then Some ''TIMEOUT''
      else if c \<in> {code_cancelled, ''USER_CANCELLED''} then Some ''CANCELLED''
      else if c = code_start_error
      then Some (if missing_executable text then ''MISSING_EXECUTABLE'' else ''ENVIRONMENT_FAILURE'')
      else if c = code_execution_error then Some ''ENVIRONMENT_FAILURE''
      else if c = code_cleanup_error then Some ''INCOMPLETE_PROCESS_CLEANUP''
      else None)"

definition category_of_text :: "string \<Rightarrow> string option" where
  "category_of_text lower =
     (let has = contains lower in
      if has ''syntax error'' \<or> has ''compile error'' \<or> has ''compilation failed'' then Some ''COMPILE_FAILURE''
      else if has ''cannot use '' \<or> has ''undefined:'' \<or> has ''type error'' \<or> has ''mismatched types''
      then Some ''TYPE_FAILURE''
      else if has ''lint'' \<or> has ''gofmt'' \<or> has ''go vet'' \<or> has ''eslint'' then Some ''LINT_FAILURE''
      else if has ''build failed'' \<or> has ''build failure'' then Some ''BUILD_FAILURE''
      else if has ''--- fail:'' \<or> has ''fail '' \<or> has '' expected '' then Some ''TEST_FAILURE''
      else None)"

definition classify ::
    "(string \<Rightarrow> matcher option) \<Rightarrow> feedback_input \<Rightarrow> string \<Rightarrow> pattern_cache
     \<Rightarrow> string \<times> evidence list \<times> pattern_cache" where
  "classify compile inp text cache =
     (let c = (if in_code inp = [] then obs_code (in_observation inp) else in_code inp) in
      case compile_classifier_rules compile 0 (in_rules inp) cache of
        (rules, diagnostics, cache') \<Rightarrow>
          ((case category_of_code (to_upper c) text of
              Some k \<Rightarrow> k
            | None \<Rightarrow>
                (case find (\<lambda>(k, re). re text) rules of
                   Some (k, _) \<Rightarrow> k
                 | None \<Rightarrow>
                     (case category_of_text (to_lower text) of
                        Some k \<Rightarrow> k
                      | None \<Rightarrow>
                          if exit_code (in_observation inp) \<notin> {None, Some 0} then ''VALIDATION_FAILED''
                          else if 0 < in_prior inp then ''NO_PROGRESS'' else ''PROGRESS''))),
           diagnostics, cache'))"

definition retryable :: "string \<Rightarrow> bool" where
  "retryable cat \<longleftrightarrow> cat \<notin> {''APPROVAL_REQUIRED'', ''POLICY_DENIED'', ''PROTOCOL_ERROR'', ''INCOMPLETE_PROCESS_CLEANUP''}"

definition max_evidence :: "feedback_pipeline \<Rightarrow> nat" where
  "max_evidence p = (if 0 < fp_max_evidence p then nat (fp_max_evidence p) else 6)"

definition max_summary_bytes :: "feedback_pipeline \<Rightarrow> nat" where
  "max_summary_bytes p = (if 0 < fp_max_summary p then nat (fp_max_summary p) else 240)"

definition process ::
    "(string \<Rightarrow> digest) \<Rightarrow> (string \<Rightarrow> matcher option) \<Rightarrow> feedback_pipeline \<Rightarrow> feedback_input \<Rightarrow> pattern_cache
     \<Rightarrow> structured_feedback \<times> pattern_cache" where
  "process H compile p inp cache =
     (let redacted = redact (new_redactor (in_secrets inp)) (observation_text inp);
          human = normalize_human_text redacted
      in case classify compile inp human cache of
        (cat, diagnostics, cache') \<Rightarrow>
          let (ev, ev_truncated) =
                (if max_evidence p \<le> length diagnostics
                 then (take (max_evidence p) diagnostics,
                       max_evidence p < length diagnostics \<or> meaningful_lines human \<noteq> [])
                 else (case compress_evidence human (max_evidence p - length diagnostics) of
                         (es, t) \<Rightarrow> (diagnostics @ es, t)));
              (summ, summ_truncated) = summarize cat human (int (max_summary_bytes p))
          in (\<lparr>category = cat, fb_stage_id = in_stage_id inp, summary = summ,
               fingerprint = fingerprint_of H (in_stage_id inp) cat redacted, evidence_of = ev,
               retryable_of = retryable cat,
               fb_output_truncated = output_truncated (in_observation inp) \<or> ev_truncated \<or> summ_truncated,
               previous_occurrences = in_prior inp\<rparr>, cache'))"

end
