(* ===== verification/Feedback_Correct.thy ===== *)
theory Feedback_Correct
  imports Feedback
begin

text \<open>
  What the feedback pipeline promises: bounded evidence and a bounded summary in valid UTF-8,
  nothing cut without the flag that says so, results that do not depend on the shared cache of
  compiled patterns, and no secret of its input in what it reports, as long as no escape sequence
  or carriage return hides the secret from the redactor.
\<close>

section \<open>The cache of compiled patterns\<close>

definition cache_ok :: "(string \<Rightarrow> matcher option) \<Rightarrow> pattern_cache \<Rightarrow> bool" where
  "cache_ok compile c \<longleftrightarrow>
     (\<forall>p v. map_of c p = Some v \<longrightarrow> v = compile p) \<and> length c \<le> classifier_pattern_cache_limit"

lemma load_or_store_ok:
  assumes "cache_ok compile r" and "cache_ok compile w"
  shows "fst (load_or_store compile p r w) = compile p \<and> cache_ok compile (snd (load_or_store compile p r w))"
  using assms by (auto simp: load_or_store_def cache_ok_def Let_def split: option.splits)

lemma compile_rules_ok:
  assumes "cache_ok compile c" and "cache_ok compile c'"
  shows "cache_ok compile (snd (snd (compile_classifier_rules compile i rules c)))
    \<and> fst (compile_classifier_rules compile i rules c) = fst (compile_classifier_rules compile i rules c')
    \<and> fst (snd (compile_classifier_rules compile i rules c)) = fst (snd (compile_classifier_rules compile i rules c'))"
  using assms
proof (induction rules arbitrary: i c c')
  case (Cons rule rules)
  obtain v d where d: "load_or_store compile (rule_pattern rule) c c = (v, d)" by (rule prod.exhaust)
  obtain v' d' where d': "load_or_store compile (rule_pattern rule) c' c' = (v', d')" by (rule prod.exhaust)
  have v: "v' = v" "cache_ok compile d" "cache_ok compile d'"
    using load_or_store_ok [of compile c c "rule_pattern rule"] load_or_store_ok [of compile c' c' "rule_pattern rule"]
      Cons.prems d d' by auto
  obtain rs ds e where e: "compile_classifier_rules compile (Suc i) rules d = (rs, ds, e)" by (rule prod_cases3)
  obtain rs' ds' e' where e': "compile_classifier_rules compile (Suc i) rules d' = (rs', ds', e')" by (rule prod_cases3)
  have "cache_ok compile e \<and> rs = rs' \<and> ds = ds'"
    using Cons.IH [OF v(2,3), of "Suc i"] e e' by simp
  then show ?case
    using Cons.IH [OF Cons.prems, of "Suc i"] d d' e e' v(1) by (cases v) auto
qed simp

lemma rule_diagnostics:
  "e \<in> set (fst (snd (compile_classifier_rules compile i rules c))) \<Longrightarrow> ev_source e = ''classifier''"
proof (induction rules arbitrary: i c)
  case (Cons rule rules)
  obtain v d where d: "load_or_store compile (rule_pattern rule) c c = (v, d)" by (rule prod.exhaust)
  obtain rs ds c' where r: "compile_classifier_rules compile (Suc i) rules d = (rs, ds, c')" by (rule prod_cases3)
  show ?case
    using Cons.prems Cons.IH [of "Suc i" d] Cons.IH [of "Suc i" c] d r
    by (cases v) (auto simp: invalid_rule_def split: if_splits)
qed simp

lemma classify_diagnostics:
  "classify compile inp text c = (cat, ds, c') \<Longrightarrow> e \<in> set ds \<Longrightarrow> ev_source e = ''classifier''"
  using rule_diagnostics [of e compile 0 "in_rules inp" c]
  by (auto simp: classify_def Let_def split: prod.splits)

lemma classify_cache:
  assumes "cache_ok compile c" and "cache_ok compile c'"
  shows "cache_ok compile (snd (snd (classify compile inp text c)))
    \<and> fst (classify compile inp text c) = fst (classify compile inp text c')
    \<and> fst (snd (classify compile inp text c)) = fst (snd (classify compile inp text c'))"
  using compile_rules_ok [OF assms, of 0 "in_rules inp"]
  by (cases "compile_classifier_rules compile 0 (in_rules inp) c";
      cases "compile_classifier_rules compile 0 (in_rules inp) c'")
     (simp add: classify_def Let_def)

section \<open>Bounds\<close>

lemma prefix_same_length: "prefix a b \<Longrightarrow> \<not> length a < length b \<Longrightarrow> a = b"
  by (auto simp: prefix_def)

lemma valid_prefix_valid: "utf8_valid (valid_prefix s) \<and> prefix (valid_prefix s) s"
proof (induction s rule: valid_prefix.induct)
  case (1 s)
  show ?case
  proof (cases "s = [] \<or> rune_len s = 0")
    case True
    then show ?thesis by (subst (1 2) valid_prefix.simps) (auto simp: utf8_valid.simps)
  next
    case False
    let ?n = "rune_len s" and ?v = "valid_prefix (drop (rune_len s) s)"
    have n: "0 < ?n" "?n \<le> length s" using False rune_len_le by auto
    have ih: "utf8_valid ?v" "prefix ?v (drop ?n s)" using "1.IH" False by auto
    then obtain z where z: "drop ?n s = ?v @ z" by (auto simp: prefix_def)
    then have s: "s = (take ?n s @ ?v) @ z" by (metis append.assoc append_take_drop_id)
    have "rune_len (take ?n s @ ?v) = ?n"
    proof -
      have "take ?n s @ ?v = take (?n + length ?v) s"
        using s n(2) by (metis append_eq_conv_conj length_append length_take min.absorb2)
      then show ?thesis using rune_len_take [of s "?n + length ?v"] n(1) by simp
    qed
    then have "utf8_valid (take ?n s @ ?v)"
      using n ih(1) by (subst utf8_valid.simps) simp
    moreover have "valid_prefix s = take ?n s @ ?v" using False by (subst valid_prefix.simps) simp
    ultimately show ?thesis using s by (metis prefixI)
  qed
qed

definition full_summary :: "string \<Rightarrow> string \<Rightarrow> string" where
  "full_summary cat text =
     (case meaningful_lines text of [] \<Rightarrow> cat | l # _ \<Rightarrow> cat @ '': '' @ l)"

lemma summarize_bounded:
  assumes "summarize cat text n = (s, t)"
  shows "int (length s) \<le> max 0 n \<and> utf8_valid s \<and> prefix s (full_summary cat text)
    \<and> (\<not> t \<longrightarrow> s = full_summary cat text)"
proof (cases "n \<le> 0")
  case True
  then show ?thesis using assms by (auto simp: summarize_def utf8_valid.simps)
next
  case False
  define summ where "summ = full_summary cat text"
  have f: "(if meaningful_lines text \<noteq> [] then cat @ '': '' @ hd (meaningful_lines text) else cat) = summ"
    by (simp add: summ_def full_summary_def split: list.splits)
  define pre where "pre = take (min (length summ) (nat n)) summ"
  have r: "(s, t) = (if length (valid_prefix pre) < length pre then (valid_prefix pre, True)
      else (pre, min (length summ) (nat n) < length summ))"
    using assms False by (simp only: summarize_def Let_def f pre_def [symmetric] if_False)
  have v: "utf8_valid (valid_prefix pre)" "prefix (valid_prefix pre) pre" using valid_prefix_valid by auto
  have same: "valid_prefix pre = pre" if "\<not> length (valid_prefix pre) < length pre"
    using that prefix_same_length [OF v(2)] by simp
  have pre: "prefix pre summ" "length pre \<le> nat n" "length pre = min (length summ) (nat n)"
    by (auto simp: pre_def take_is_prefix)
  show ?thesis
  proof (cases "length (valid_prefix pre) < length pre")
    case True
    then have "s = valid_prefix pre" and "t" using r by auto
    then show ?thesis
      using v pre prefix_order.trans [OF v(2) pre(1)] prefix_length_le [OF v(2)] False by (auto simp: summ_def)
  next
    case less: False
    then have st: "s = pre" "t = (min (length summ) (nat n) < length summ)" using r by auto
    have "s = summ" if "\<not> t" using that st(2) unfolding st(1) pre_def by simp
    then show ?thesis using st(1) v same [OF less] pre by (auto simp: summ_def)
  qed
qed

lemma compress_bounded:
  assumes "compress_evidence text n = (es, t)"
  shows "length es \<le> n \<and> set es \<subseteq> observed ` set (meaningful_lines text)
    \<and> (\<not> t \<longrightarrow> es = map observed (meaningful_lines text))"
proof (cases "n < length (meaningful_lines text)")
  case True
  then have "es = map observed (take (n div 2) (meaningful_lines text)
      @ drop (length (meaningful_lines text) - (n - n div 2)) (meaningful_lines text))" and "t"
    using assms by (auto simp: compress_evidence_def Let_def)
  then show ?thesis using True by (auto dest: in_set_takeD in_set_dropD)
next
  case False
  then show ?thesis using assms by (auto simp: compress_evidence_def Let_def)
qed

section \<open>The report\<close>

definition human_text :: "feedback_input \<Rightarrow> string" where
  "human_text inp = normalize_human_text (redact (new_redactor (in_secrets inp)) (observation_text inp))"

lemma process_cases:
  assumes "process H compile p inp cache = (fb, cache')"
    and "classify compile inp (human_text inp) cache = (cat, ds, c)"
    and "summarize cat (human_text inp) (int (max_summary_bytes p)) = (s, t)"
    and "compress_evidence (human_text inp) (max_evidence p - length ds) = (es, u)"
  shows "cache' = c" and "category fb = cat" and "summary fb = s"
    and "t \<longrightarrow> fb_output_truncated fb"
    and "if max_evidence p \<le> length ds
      then evidence_of fb = take (max_evidence p) ds
        \<and> (\<not> fb_output_truncated fb \<longrightarrow> length ds = max_evidence p \<and> meaningful_lines (human_text inp) = [])
      else evidence_of fb = ds @ es \<and> (u \<longrightarrow> fb_output_truncated fb)"
    and "previous_occurrences fb = in_prior inp" and "retryable_of fb = retryable cat"
proof -
  have "max_evidence p \<le> length ds \<or> \<not> max_evidence p \<le> length ds" by simp
  then have "cache' = c \<and> category fb = cat \<and> summary fb = s \<and> (t \<longrightarrow> fb_output_truncated fb)
    \<and> (if max_evidence p \<le> length ds
      then evidence_of fb = take (max_evidence p) ds
        \<and> (\<not> fb_output_truncated fb \<longrightarrow> length ds = max_evidence p \<and> meaningful_lines (human_text inp) = [])
      else evidence_of fb = ds @ es \<and> (u \<longrightarrow> fb_output_truncated fb))
    \<and> previous_occurrences fb = in_prior inp \<and> retryable_of fb = retryable cat"
    using assms(1) assms(2-4) [unfolded human_text_def]
    by (elim disjE) (auto simp: process_def Let_def human_text_def)
  then show "cache' = c" and "category fb = cat" and "summary fb = s"
    and "t \<longrightarrow> fb_output_truncated fb"
    and "if max_evidence p \<le> length ds
      then evidence_of fb = take (max_evidence p) ds
        \<and> (\<not> fb_output_truncated fb \<longrightarrow> length ds = max_evidence p \<and> meaningful_lines (human_text inp) = [])
      else evidence_of fb = ds @ es \<and> (u \<longrightarrow> fb_output_truncated fb)"
    and "previous_occurrences fb = in_prior inp" and "retryable_of fb = retryable cat"
    by blast+
qed

lemma process_shape:
  fixes inp :: feedback_input
  obtains cat ds c s t es u where
    "classify compile inp (human_text inp) cache = (cat, ds, c)"
    "summarize cat (human_text inp) (int (max_summary_bytes p)) = (s, t)"
    "compress_evidence (human_text inp) (max_evidence p - length ds) = (es, u)"
  by (metis prod.exhaust)

lemma process_cache:
  assumes "cache_ok compile cache"
  shows "cache_ok compile (snd (process H compile p inp cache))
    \<and> fst (process H compile p inp cache) = fst (process H compile p inp [])"
proof -
  have e: "cache_ok compile []" by (simp add: cache_ok_def)
  obtain cat ds c where c: "classify compile inp (human_text inp) cache = (cat, ds, c)" by (rule prod_cases3)
  obtain cat' ds' c' where c': "classify compile inp (human_text inp) [] = (cat', ds', c')" by (rule prod_cases3)
  have same: "cat' = cat" "ds' = ds" "cache_ok compile c"
    using classify_cache [OF assms e, of inp "human_text inp"] c c' by simp_all
  show ?thesis
    using c c' same(3) unfolding same(1,2) human_text_def by (auto simp: process_def Let_def split: prod.splits)
qed

lemma category_by_code:
  assumes "process H compile p inp cache = (fb, cache')" and "in_code inp \<noteq> []"
    and "\<And>v. category_of_code (to_upper (in_code inp)) v = Some k"
  shows "category fb = k"
proof -
  obtain cat ds c s t es u where sh:
    "classify compile inp (human_text inp) cache = (cat, ds, c)"
    "summarize cat (human_text inp) (int (max_summary_bytes p)) = (s, t)"
    "compress_evidence (human_text inp) (max_evidence p - length ds) = (es, u)"
    by (rule process_shape)
  show ?thesis
    using process_cases(2) [OF assms(1) sh] sh(1) assms(2,3) by (auto simp: classify_def Let_def split: prod.splits)
qed

text \<open>C32. Feedback is bounded and honest about it: at most the configured number of evidence
  entries, a summary within the configured bytes that is valid UTF-8 (whatever bytes the command
  printed), and when the feedback is not marked truncated the output was not, the summary is the
  category with the whole first line and the evidence lists every line of the normalised text.
  The shared cache of compiled rules never changes a result, and keeps its own bound.\<close>

theorem feedback_is_bounded:
  assumes "process H compile p inp cache = (fb, cache')" and "cache_ok compile cache"
  shows "length (evidence_of fb) \<le> max_evidence p
    \<and> length (summary fb) \<le> max_summary_bytes p \<and> utf8_valid (summary fb)
    \<and> prefix (summary fb) (full_summary (category fb) (human_text inp))
    \<and> (\<not> fb_output_truncated fb \<longrightarrow>
         summary fb = full_summary (category fb) (human_text inp)
         \<and> (\<exists>ds. evidence_of fb = ds @ map observed (meaningful_lines (human_text inp))))
    \<and> fb = fst (process H compile p inp []) \<and> cache_ok compile cache'"
proof -
  obtain cat ds c s t es u where sh:
    "classify compile inp (human_text inp) cache = (cat, ds, c)"
    "summarize cat (human_text inp) (int (max_summary_bytes p)) = (s, t)"
    "compress_evidence (human_text inp) (max_evidence p - length ds) = (es, u)"
    by (rule process_shape)
  note r = process_cases [OF assms(1) sh]
  have s: "length s \<le> max_summary_bytes p \<and> utf8_valid s \<and> prefix s (full_summary cat (human_text inp))
      \<and> (\<not> t \<longrightarrow> s = full_summary cat (human_text inp))"
    using summarize_bounded [OF sh(2)] by simp
  have e: "length (evidence_of fb) \<le> max_evidence p
      \<and> (\<not> fb_output_truncated fb \<longrightarrow>
          (\<exists>ds. evidence_of fb = ds @ map observed (meaningful_lines (human_text inp))))"
    using r(5) compress_bounded [OF sh(3)] by (cases "max_evidence p \<le> length ds") auto
  show ?thesis
    using s e r(2-4) process_cache [OF assms(2), of H p inp] assms(1) by auto
qed

theorem feedback_is_bounded_witness:
  "let fb = fst (process (\<lambda>_. []) (\<lambda>_. None) \<lparr>fp_max_evidence = 1, fp_max_summary = 12\<rparr>
      \<lparr>in_stage_id = ''test'', in_code = ''REGRESSION'', in_observation = empty_observation\<lparr>stdout := ''a'' @ [newline] @ ''b''\<rparr>,
       in_rules = [], in_prior = 0, in_secrets = []\<rparr> [])
   in length (evidence_of fb) \<le> 1 \<and> length (summary fb) \<le> 12"
proof -
  let ?p = "\<lparr>fp_max_evidence = 1, fp_max_summary = 12\<rparr>"
  let ?i = "\<lparr>in_stage_id = ''test'', in_code = ''REGRESSION'', in_observation = empty_observation\<lparr>stdout := ''a'' @ [newline] @ ''b''\<rparr>,
       in_rules = [], in_prior = 0, in_secrets = []\<rparr>"
  obtain fb c where r: "process (\<lambda>_. []) (\<lambda>_. None) ?p ?i [] = (fb, c)" by (rule prod.exhaust)
  show ?thesis
    using feedback_is_bounded [OF r] unfolding Let_def r
    by (simp add: cache_ok_def max_evidence_def max_summary_bytes_def)
qed

section \<open>Secrets\<close>

lemma replace_all_bytes: "set (replace_all old new s) \<subseteq> set s \<union> set new"
proof (induction old new s rule: replace_all.induct)
  case (2 old new c s)
  then show ?case by (auto dest: in_set_dropD)
qed simp

lemma rx_replace_from_bytes:
  assumes "\<And>g. set (tmpl t g) \<subseteq> set t \<union> A"
  shows "set (rx_replace_from r tmpl t i) \<subseteq> set t \<union> A"
  using assms
proof (induction r tmpl t i rule: rx_replace_from.induct)
  case (1 r tmpl t i)
  show ?case
  proof (cases "rx_find r t i")
    case None
    then show ?thesis by (auto simp: rx_replace_from.simps [of r] dest: in_set_dropD)
  next
    case (Some m)
    obtain j k g where m: "m = (j, k, g)" by (cases m)
    have "set (if k \<le> i \<or> length t < k then [] else rx_replace_from r tmpl t k) \<subseteq> set t \<union> A"
      using "1.IH" [OF Some [unfolded m] refl refl] "1.prems" by auto
    moreover have "set (take (j - i) (drop i t)) \<subseteq> set t" by (meson in_set_dropD in_set_takeD subsetI)
    ultimately show ?thesis
      using Some m "1.prems" [of g] by (simp add: rx_replace_from.simps [of r]) blast
  qed
qed

lemma captured_bytes: "set (captured t g n) \<subseteq> set t"
  by (auto simp: captured_def split: option.splits dest!: in_set_takeD in_set_dropD)

lemma subset_through: "x \<subseteq> y \<union> A \<Longrightarrow> y \<subseteq> z \<union> A \<Longrightarrow> x \<subseteq> z \<union> A"
  by blast

lemma redact_bytes: "set (redact secrets text) \<subseteq> set text \<union> set (''='' @ marker)"
proof -
  let ?A = "set (''='' @ marker)"
  have e: "set (redact_exact secrets v) \<subseteq> set v \<union> set marker" for v
  proof (induction secrets arbitrary: v)
    case (Cons s ss)
    then show ?case using replace_all_bytes [of s marker v] by (force simp: redact_exact_def)
  qed (simp add: redact_exact_def)
  have a: "set (rx_replace assignment_pattern (\<lambda>t g. captured t g 1 @ ''='' @ marker) t) \<subseteq> set t \<union> ?A" for t
    unfolding rx_replace_def by (rule rx_replace_from_bytes) (use captured_bytes in force)
  have c: "set (rx_replace r (\<lambda>_ _. marker) t) \<subseteq> set t \<union> ?A" for r t
    unfolding rx_replace_def by (rule rx_replace_from_bytes) auto
  define t0 where "t0 = redact_exact secrets text"
  define t1 where "t1 = rx_replace assignment_pattern (\<lambda>t g. captured t g 1 @ ''='' @ marker) t0"
  define t2 where "t2 = rx_replace bearer_pattern (\<lambda>_ _. marker) t1"
  define t3 where "t3 = rx_replace sk_pattern (\<lambda>_ _. marker) t2"
  have "set t0 \<subseteq> set text \<union> ?A" using e unfolding t0_def by force
  from subset_through [OF a this] have "set t1 \<subseteq> set text \<union> ?A" unfolding t1_def .
  from subset_through [OF c this] have "set t2 \<subseteq> set text \<union> ?A" unfolding t2_def .
  from subset_through [OF c this] have "set t3 \<subseteq> set text \<union> ?A" unfolding t3_def .
  from subset_through [OF c this] show ?thesis
    by (simp only: redact_def Let_def t0_def t1_def t2_def t3_def)
qed

lemma replace_all_absent: "c \<notin> set t \<Longrightarrow> replace_all (c # old) new t = t"
  by (induction "c # old" new t rule: replace_all.induct) auto

lemma rx_find_never: "(\<And>j. rx_ends r t j = []) \<Longrightarrow> rx_find r t i = None"
  by (simp add: rx_find_def split: option.splits) (metis find_None_iff)

lemma no_escape_sequence:
  assumes "esc \<notin> set t"
  shows "rx_replace ansi_pattern tmpl t = t"
proof -
  have "lit [esc, CHR ''[''] (drop j t) = 0" for j
    using assms by (auto simp: lit_def prefix_def) (metis in_set_dropD list.set_intros(1))
  then have "rx_ends ansi_pattern t j = []" for j by (simp add: ansi_pattern_def)
  then show ?thesis by (simp add: rx_replace_def rx_replace_from.simps rx_find_never)
qed

lemma human_text_plain:
  assumes "esc \<notin> set (observation_text inp)" and "carriage_return \<notin> set (observation_text inp)"
  shows "human_text inp = redact (new_redactor (in_secrets inp)) (observation_text inp)"
proof -
  let ?r = "redact (new_redactor (in_secrets inp)) (observation_text inp)"
  have "esc \<notin> set ?r" and "carriage_return \<notin> set ?r"
    using redact_bytes [of "new_redactor (in_secrets inp)" "observation_text inp"] assms
    by (auto simp: marker_def esc_def carriage_return_def)
  then show ?thesis
    by (simp add: human_text_def normalize_human_text_def no_escape_sequence replace_all_absent)
qed

lemma trim_left_part: "contains s (trim_left s)"
proof (induction s rule: trim_left.induct)
  case (1 s)
  then show ?case
    by (subst trim_left.simps) (auto intro: sublist_order.order_trans [OF _ sublist_drop])
qed

lemma trim_right_prefix: "prefix (trim_right s) s"
  by (induction s rule: trim_right.induct) auto

lemma trim_space_part: "contains s (trim_space s)"
  unfolding trim_space_def by (meson sublist_order.order_trans trim_left_part trim_right_prefix prefix_imp_sublist)

lemma split_on_part: "l \<in> set (split_on c s) \<Longrightarrow> contains s l"
proof -
  assume l: "l \<in> set (split_on c s)"
  have "contains (join_with sep ls) l" if "l \<in> set ls" for sep ls
    using that by (induction sep ls rule: join_with.induct) (auto simp: sublist_append intro: sublist_appendI)
  from this [OF l, of "[c]"] show ?thesis by (simp add: join_split_on)
qed

lemma meaningful_line_part: "l \<in> set (meaningful_lines s) \<Longrightarrow> contains s l"
  unfolding meaningful_lines_def by (auto intro: sublist_order.order_trans [OF trim_space_part split_on_part])

text \<open>A secret without white space, colon or bracket, of the usual alphabet of tokens.\<close>

definition token :: "string \<Rightarrow> bool" where
  "token s \<longleftrightarrow> apart s \<and> CHR '':'' \<notin> set s \<and> CHR '' '' \<notin> set s"

lemma summary_keeps_out:
  assumes "token s" and "\<not> contains cat s" and "\<not> contains h s"
  shows "\<not> contains (full_summary cat h) s"
proof (cases "meaningful_lines h")
  case (Cons l ls)
  have l: "\<not> contains l s" using Cons meaningful_line_part [of l h] assms(3) sublist_order.order_trans by fastforce
  have "\<not> contains (cat @ CHR '':'' # [] @ CHR '' '' # l) s"
    using assms(1,2) l sublist_at_separator [of "CHR '':''" s cat "[] @ CHR '' '' # l"]
      sublist_at_separator [of "CHR '' ''" s "[]" l]
    by (auto simp: token_def apart_def)
  then show ?thesis using Cons by (simp add: full_summary_def)
qed (simp add: full_summary_def assms(2))

text \<open>C31. A secret given to the pipeline appears in no evidence taken from the observation and
  not in the summary, when the output holds no escape and no carriage return (the redactor runs
  before those are removed), the secret is an ordinary token and no category name contains it.\<close>

theorem feedback_hides_secrets:
  assumes "process H compile p inp cache = (fb, cache')" and "cache_ok compile cache"
    and "secret \<in> set (in_secrets inp)" and "token secret" and "\<not> contains (category fb) secret"
    and "esc \<notin> set (observation_text inp)" and "carriage_return \<notin> set (observation_text inp)"
  shows "\<not> contains (summary fb) secret
    \<and> (\<forall>e \<in> set (evidence_of fb). ev_source e = ''observation'' \<longrightarrow> \<not> contains (ev_message e) secret)"
proof -
  let ?h = "human_text inp"
  obtain cat ds c s t es u where sh:
    "classify compile inp ?h cache = (cat, ds, c)"
    "summarize cat ?h (int (max_summary_bytes p)) = (s, t)"
    "compress_evidence ?h (max_evidence p - length ds) = (es, u)"
    by (rule process_shape)
  note r = process_cases [OF assms(1) sh]
  have "apart secret" using assms(4) by (simp add: token_def)
  then have h: "\<not> contains ?h secret"
    using registered_secret_is_redacted_in [OF assms(3)] human_text_plain [OF assms(6,7)] by simp
  have "prefix s (full_summary cat ?h)" using summarize_bounded [OF sh(2)] by simp
  then have "\<not> contains s secret"
    using summary_keeps_out [OF assms(4) assms(5) h] r(2) by (auto simp: prefix_def sublist_append)
  moreover have "\<not> contains (ev_message e) secret" if e: "e \<in> set (evidence_of fb)" "ev_source e = ''observation''" for e
  proof -
    have "e \<notin> set ds" using classify_diagnostics [OF sh(1)] e(2) by auto
    then have "e \<in> set es" using r(5) e(1) by (auto split: if_splits dest: in_set_takeD)
    then obtain l where "e = observed l" and "l \<in> set (meaningful_lines ?h)" using compress_bounded [OF sh(3)] by auto
    then show ?thesis
      using meaningful_line_part [of l ?h] h sublist_order.order_trans [of secret l ?h] by (auto simp: observed_def)
  qed
  ultimately show ?thesis using r(3) by simp
qed

theorem feedback_hides_secrets_witness:
  "let fb = fst (process (\<lambda>_. []) (\<lambda>_. None) \<lparr>fp_max_evidence = 0, fp_max_summary = 0\<rparr>
      \<lparr>in_stage_id = ''test'', in_code = ''REGRESSION'', in_observation = empty_observation\<lparr>stdout := ''got hunter22x''\<rparr>,
       in_rules = [], in_prior = 0, in_secrets = [''hunter22x'']\<rparr> [])
   in \<not> contains (summary fb) ''hunter22x''"
proof -
  let ?p = "\<lparr>fp_max_evidence = 0, fp_max_summary = 0\<rparr>"
  let ?i = "\<lparr>in_stage_id = ''test'', in_code = ''REGRESSION'', in_observation = empty_observation\<lparr>stdout := ''got hunter22x''\<rparr>,
       in_rules = [], in_prior = 0, in_secrets = [''hunter22x'']\<rparr>"
  obtain fb c where r: "process (\<lambda>_. []) (\<lambda>_. None) ?p ?i [] = (fb, c)" by (rule prod.exhaust)
  have o: "observation_text ?i = ''got hunter22x''"
    by (simp add: observation_text_def trim_char_def empty_observation_def)
  have k: "category fb = ''REGRESSION''"
  proof -
    have "category_of_code (to_upper ''REGRESSION'') v = Some ''REGRESSION''" for v
      by (simp add: category_of_code_def ascii_upper_def byte_at_def code_timeout_def)
    then show ?thesis using category_by_code [OF r, of "''REGRESSION''"] by simp
  qed
  have t: "token ''hunter22x''" and n: "\<not> contains ''REGRESSION'' ''hunter22x''" by code_simp+
  have "\<not> contains (summary fb) ''hunter22x''"
    using feedback_hides_secrets [OF r, of "''hunter22x''"] k t n o
    by (simp add: cache_ok_def esc_def carriage_return_def)
  then show ?thesis by (simp add: r)
qed

text \<open>Without those conditions a secret can get through: with an escape sequence in its middle the
  redactor does not see it, and the normalisation then removes the sequence.\<close>

lemma no_assignment:
  assumes "CHR ''='' \<notin> set t"
  shows "rx_replace assignment_pattern tmpl t = t"
proof -
  have "rx_ends assignment_pattern t j = []" for j
  proof (rule ccontr)
    assume "rx_ends assignment_pattern t j \<noteq> []"
    then obtain k g where "(k, g) \<in> set (rx_ends assignment_pattern t j)" by (metis list.set_sel(1) surj_pair)
    from assignment_ends [OF this] obtain m where "has_prefix (drop m t) ''=''" by blast
    then have "CHR ''='' \<in> set (drop m t)" by (auto simp: prefix_def)
    then show False using assms in_set_dropD by metis
  qed
  then show ?thesis by (simp add: rx_replace_def rx_replace_from.simps rx_find_never)
qed

definition hidden_output :: string where
  "hidden_output = ''hunt'' @ [esc] @ ''[0mer22x''"

lemma split_secret_leaks:
  "normalize_human_text (redact (new_redactor [''hunter22x'']) hidden_output) = ''hunter22x''"
proof -
  have e: "redact_exact (new_redactor [''hunter22x'']) hidden_output = hidden_output" by code_simp
  have a: "rx_replace assignment_pattern (\<lambda>t g. captured t g 1 @ ''='' @ marker) hidden_output = hidden_output"
    by (rule no_assignment) (simp add: hidden_output_def esc_def)
  have b: "rx_replace bearer_pattern (\<lambda>_ _. marker) hidden_output = hidden_output" by code_simp
  have s: "rx_replace sk_pattern (\<lambda>_ _. marker) hidden_output = hidden_output" by code_simp
  have g: "rx_replace gh_pattern (\<lambda>_ _. marker) hidden_output = hidden_output" by code_simp
  show ?thesis unfolding redact_def Let_def e a b s g by code_simp
qed

end
