(* ===== verification/Executor.thy ===== *)
theory Executor
  imports Feedback
begin

text \<open>
  Package \<^verbatim>\<open>internal/executor\<close>, \<^verbatim>\<open>local.go\<close>: running one configured command. What the
  operating system and \<^verbatim>\<open>os/exec\<close> do with the process is a record of outcomes (whether it
  starts, what it writes, how waiting for it ends, whether its process tree can be cleaned up);
  the functions below are everything the source makes of them: the environment the command sees,
  the bounded output buffers, the code, the error and the observation.
\<close>

section \<open>The environment of the command\<close>

definition secret_env_name :: rx where
  "secret_env_name = Group 1 (Alt (fold_lit ''key'') (Alt (fold_lit ''token'') (Alt (fold_lit ''secret'')
     (Alt (fold_lit ''password'') (fold_lit ''credential'')))))"

text \<open>\<^verbatim>\<open>strings.Cut(entry, "=")\<close>: the name, if there is a separator.\<close>

definition env_name :: "string \<Rightarrow> string option" where
  "env_name entry = (if CHR ''='' \<in> set entry then Some (takeWhile (\<lambda>c. c \<noteq> CHR ''='') entry) else None)"

text \<open>A nil base environment stands for that of the harness (\<^verbatim>\<open>os.Environ\<close>, an argument).\<close>

definition sanitized_env :: "string list \<Rightarrow> string list option \<Rightarrow> string list" where
  "sanitized_env environ base =
     filter (\<lambda>entry. case env_name entry of None \<Rightarrow> False | Some name \<Rightarrow> \<not> rx_matches secret_env_name name)
       (case base of None \<Rightarrow> environ | Some b \<Rightarrow> b)"

section \<open>Bounded output\<close>

record bounded_buffer =
  bb_limit :: int
  bb_buf :: string
  bb_truncated :: bool

definition new_bounded_buffer :: "int \<Rightarrow> bounded_buffer" where
  "new_bounded_buffer limit = \<lparr>bb_limit = limit, bb_buf = [], bb_truncated = False\<rparr>"

definition buffer_write :: "string \<Rightarrow> bounded_buffer \<Rightarrow> bounded_buffer" where
  "buffer_write p b =
     (let remaining = bb_limit b - int (length (bb_buf b)) in
      if remaining \<le> 0 then b\<lparr>bb_truncated := bb_truncated b \<or> p \<noteq> []\<rparr>
      else
        (let n = min (nat remaining) (length p);
             b' = b\<lparr>bb_buf := bb_buf b @ take n p\<rparr>
         in if n < length p then b'\<lparr>bb_truncated := True\<rparr> else b'))"

section \<open>How the command ended\<close>

datatype wait_error =
    WaitOk
  | WaitExit int \<comment> \<open>\<^verbatim>\<open>exec.ExitError\<close> with its exit code\<close>
  | WaitOther string

datatype executor_error =
    ErrWait string
  | ErrProcessCleanup string
  | ErrJoined executor_error executor_error
  | ErrStart string

fun error_text :: "executor_error \<Rightarrow> string" where
  "error_text (ErrWait e) = ''wait for command: '' @ e"
| "error_text (ErrProcessCleanup e) = ''process cleanup failed: '' @ e"
| "error_text (ErrJoined a b) = error_text a @ [newline] @ error_text b"
| "error_text (ErrStart e) = e"

definition interpret_wait_error :: "wait_error \<Rightarrow> bool \<Rightarrow> int option \<times> executor_error option" where
  "interpret_wait_error w interrupted =
     (case w of
        WaitOk \<Rightarrow> (Some 0, None)
      | WaitExit c \<Rightarrow> (Some c, None)
      | WaitOther e \<Rightarrow> if interrupted then (None, None) else (None, Some (ErrWait e)))"

text \<open>\<^verbatim>\<open>errors.Join\<close> of an error that may be nil.\<close>

definition join_errors :: "executor_error option \<Rightarrow> executor_error \<Rightarrow> executor_error" where
  "join_errors a b = (case a of None \<Rightarrow> b | Some e \<Rightarrow> ErrJoined e b)"

section \<open>The diagnostic\<close>

definition max_executor_diagnostic_bytes :: nat where
  "max_executor_diagnostic_bytes = 768"

text \<open>\<^verbatim>\<open>strings.ToValidUTF8\<close> with U+FFFD: every run of invalid bytes becomes one replacement rune.\<close>

function to_valid_utf8 :: "bool \<Rightarrow> string \<Rightarrow> string" where
  \<comment> \<open>the flag: whether the byte before was invalid\<close>
  "to_valid_utf8 bad [] = []"
| "to_valid_utf8 bad (c # s) =
     (let n = rune_len (c # s) in
      if n = 0 then (if bad then [] else [CHR 0xEF, CHR 0xBF, CHR 0xBD]) @ to_valid_utf8 True s
      else take n (c # s) @ to_valid_utf8 False (drop (n - 1) s))"
  by pat_completeness auto
termination
  by (relation "measure (\<lambda>(bad, s). length s)") auto

fun drop_until_valid :: "nat \<Rightarrow> string \<Rightarrow> string" where
  \<comment> \<open>the loop that shortens the message: its prefix of at most so many bytes\<close>
  "drop_until_valid 0 s = []"
| "drop_until_valid (Suc n) s = (if utf8_valid (take (Suc n) s) then take (Suc n) s else drop_until_valid n s)"

definition executor_diagnostic :: "string \<Rightarrow> executor_error option \<Rightarrow> string \<times> bool" where
  "executor_diagnostic c err =
     (case err of
        None \<Rightarrow> ([], False)
      | Some e \<Rightarrow>
          let message = to_valid_utf8 False (error_text e);
              truncated = max_executor_diagnostic_bytes < length message;
              shown = (if truncated then drop_until_valid max_executor_diagnostic_bytes message else message)
          in (''{\"code\":\"'' @ json_escape c @ ''\",\"message\":\"'' @ json_escape shown @ ''\"}'', truncated))"

section \<open>One run\<close>

datatype context_error = DeadlineExceeded | Canceled

text \<open>What the system did: the failures before the process runs (an error text each), the chunks its
  two pipes delivered, how waiting ended, whether the context interrupted it and why, the failure of
  the clean-up, and whether the pipes had to be closed because output was still open.\<close>

record process_outcome =
  po_prepare :: "string option"
  po_pipes :: "string option"
  po_start :: "string option"
  po_after_start :: "string option"
  po_close_failed :: "string option" \<comment> \<open>closing the process tree after \<^verbatim>\<open>afterStart\<close> failed\<close>
  po_stdout :: "string list"
  po_stderr :: "string list"
  po_wait :: wait_error
  po_interrupted :: bool
  po_context :: "context_error option"
  po_cleanup :: "string option"
  po_pipes_open :: bool
  po_started :: gtime
  po_ended :: gtime

definition start_error_observation :: "gtime \<Rightarrow> gtime \<Rightarrow> string \<Rightarrow> observation" where
  "start_error_observation started ended err =
     empty_observation\<lparr>obs_code := code_start_error, started_at := started, ended_at := ended, stderr := err\<rparr>"

definition output_cap :: "int \<Rightarrow> int" where
  "output_cap n = (if n \<le> 0 then 65536 else n)"

definition run_local :: "process_outcome \<Rightarrow> command_spec \<Rightarrow> observation \<times> executor_error option" where
  "run_local po spec =
     (let fail = (\<lambda>e. (start_error_observation (po_started po) (po_ended po) (error_text e), Some e)) in
      case (po_prepare po, po_pipes po, po_start po) of
        (Some e, _, _) \<Rightarrow> fail (ErrStart e)
      | (None, Some e, _) \<Rightarrow> fail (ErrStart e)
      | (None, None, Some e) \<Rightarrow> fail (ErrStart e)
      | (None, None, None) \<Rightarrow>
          (case po_after_start po of
             Some e \<Rightarrow>
               fail (case po_close_failed po of None \<Rightarrow> ErrStart e | Some c \<Rightarrow> ErrJoined (ErrStart e) (ErrProcessCleanup c))
           | None \<Rightarrow>
               let cap = output_cap (cs_max_output_bytes spec);
                   out = fold buffer_write (po_stdout po) (new_bounded_buffer cap);
                   err = fold buffer_write (po_stderr po) (new_bounded_buffer cap);
                   drain_truncated = (po_cleanup po \<noteq> None \<or> po_pipes_open po);
                   cleanup = (case po_cleanup po of
                       Some e \<Rightarrow> Some e
                     | None \<Rightarrow> if po_pipes_open po \<and> \<not> po_interrupted po
                               then Some ''output pipes remained open after process-tree cleanup'' else None);
                   c0 = (if po_interrupted po \<and> po_context po = Some DeadlineExceeded then code_timeout
                         else if po_interrupted po \<and> po_context po = Some Canceled then code_cancelled
                         else code_exit);
                   (exit, e0) = interpret_wait_error (po_wait po) (po_interrupted po);
                   (c, e1) = (case cleanup of
                       Some e \<Rightarrow> (code_cleanup_error, Some (join_errors e0 (ErrProcessCleanup e)))
                     | None \<Rightarrow> (if e0 \<noteq> None then code_execution_error else c0, e0));
                   (diagnostic, diagnostic_truncated) = executor_diagnostic c e1
               in (\<lparr>obs_code = c, exit_code = exit, stdout = bb_buf out, stderr = bb_buf err,
                    output_truncated = (bb_truncated out \<or> bb_truncated err \<or> diagnostic_truncated \<or> drain_truncated),
                    started_at = po_started po, ended_at = po_ended po, obs_data = diagnostic\<rparr>, e1)))"

section \<open>The buffer keeps a prefix\<close>

lemma buffer_write_spec:
  assumes "bb_buf b = take (nat (bb_limit b)) s" and "bb_truncated b \<longleftrightarrow> nat (bb_limit b) < length s"
  shows "bb_buf (buffer_write p b) = take (nat (bb_limit b)) (s @ p)
    \<and> (bb_truncated (buffer_write p b) \<longleftrightarrow> nat (bb_limit b) < length (s @ p)) \<and> bb_limit (buffer_write p b) = bb_limit b"
proof (cases "bb_limit b - int (length (bb_buf b)) \<le> 0")
  case True
  then show ?thesis using assms by (cases p) (auto simp: buffer_write_def Let_def)
next
  case False
  then have l: "length s < nat (bb_limit b)" "bb_buf b = s" using assms by auto
  then have r: "nat (bb_limit b - int (length (bb_buf b))) = nat (bb_limit b) - length s" by simp
  show ?thesis
    using assms(2) False l by (auto simp: buffer_write_def Let_def r min_def)
qed

lemma buffer_keeps_prefix:
  "bb_buf (fold buffer_write ps (new_bounded_buffer limit)) = take (nat limit) (concat ps)
   \<and> (bb_truncated (fold buffer_write ps (new_bounded_buffer limit)) \<longleftrightarrow> nat limit < length (concat ps))
   \<and> bb_limit (fold buffer_write ps (new_bounded_buffer limit)) = limit"
proof (induction ps rule: rev_induct)
  case (snoc p ps)
  then show ?case
    using buffer_write_spec [of "fold buffer_write ps (new_bounded_buffer limit)" "concat ps" p] by simp
qed (simp add: new_bounded_buffer_def)

section \<open>What an observation says\<close>

lemma run_local_started:
  assumes "po_prepare po = None" and "po_pipes po = None" and "po_start po = None" and "po_after_start po = None"
  shows "let (obs, err) = run_local po spec; cap = nat (output_cap (cs_max_output_bytes spec)) in
    stdout obs = take cap (concat (po_stdout po)) \<and> stderr obs = take cap (concat (po_stderr po))
    \<and> (\<not> output_truncated obs \<longrightarrow> length (concat (po_stdout po)) \<le> cap \<and> length (concat (po_stderr po)) \<le> cap)
    \<and> (obs_code obs = code_exit \<longleftrightarrow>
         po_cleanup po = None \<and> \<not> (po_pipes_open po \<and> \<not> po_interrupted po)
         \<and> \<not> (po_interrupted po \<and> po_context po \<noteq> None)
         \<and> snd (interpret_wait_error (po_wait po) (po_interrupted po)) = None)
    \<and> exit_code obs = fst (interpret_wait_error (po_wait po) (po_interrupted po))
    \<and> (err = None \<longleftrightarrow>
         po_cleanup po = None \<and> \<not> (po_pipes_open po \<and> \<not> po_interrupted po)
         \<and> snd (interpret_wait_error (po_wait po) (po_interrupted po)) = None)"
proof -
  let ?cap = "output_cap (cs_max_output_bytes spec)"
  note k = buffer_keeps_prefix [of _ ?cap]
  obtain ex e0 where e0: "interpret_wait_error (po_wait po) (po_interrupted po) = (ex, e0)" by (rule prod.exhaust)
  have codes: "code_cleanup_error \<noteq> code_exit" "code_execution_error \<noteq> code_exit" "code_timeout \<noteq> code_exit"
      "code_cancelled \<noteq> code_exit"
    by (simp_all add: code_cleanup_error_def code_execution_error_def code_timeout_def code_cancelled_def code_exit_def)
  consider (c) x where "po_cleanup po = Some x"
    | (p) "po_cleanup po = None" "po_pipes_open po \<and> \<not> po_interrupted po"
    | (n) "po_cleanup po = None" "\<not> (po_pipes_open po \<and> \<not> po_interrupted po)"
    by (cases "po_cleanup po") blast+
  then show ?thesis
  proof cases
    case c
    obtain d t where d: "executor_diagnostic code_cleanup_error (Some (join_errors e0 (ErrProcessCleanup x))) = (d, t)"
      by (rule prod.exhaust)
    show ?thesis using assms c e0 codes k by (simp add: run_local_def Let_def d)
  next
    case p
    obtain d t where d: "executor_diagnostic code_cleanup_error (Some (join_errors e0
        (ErrProcessCleanup ''output pipes remained open after process-tree cleanup''))) = (d, t)"
      by (rule prod.exhaust)
    show ?thesis using assms p e0 codes k by (simp add: run_local_def Let_def d)
  next
    case n
    let ?c0 = "if po_interrupted po \<and> po_context po = Some DeadlineExceeded then code_timeout
                         else if po_interrupted po \<and> po_context po = Some Canceled then code_cancelled
                         else code_exit"
    have c0: "?c0 = code_exit \<longleftrightarrow> \<not> (po_interrupted po \<and> po_context po \<noteq> None)"
      using codes by (cases "po_context po"; cases "the (po_context po)") auto
    show ?thesis
    proof (cases e0)
      case None
      then show ?thesis
        using assms n e0 codes k c0 by (auto simp: run_local_def Let_def executor_diagnostic_def)
    next
      case (Some e)
      obtain d t where d: "executor_diagnostic code_execution_error (Some e) = (d, t)" by (rule prod.exhaust)
      show ?thesis using assms n e0 codes k Some by (auto simp: run_local_def Let_def d)
    qed
  qed
qed

section \<open>No secret reaches the command's environment\<close>

definition lower_text :: "string \<Rightarrow> string" where
  "lower_text s = map ascii_lower s"

lemma ascii_lower_idem: "ascii_lower (ascii_lower c) = ascii_lower c"
proof (cases "65 \<le> code c \<and> code c \<le> 90")
  case True
  then have "code (char_of (code c + 32) :: char) = code c + 32" by simp
  then show ?thesis using True by (simp add: ascii_lower_def)
next
  case False
  then have "ascii_lower c = c" by (auto simp: ascii_lower_def)
  then show ?thesis by simp
qed

lemma fold_class_lower:
  "t \<noteq> [] \<Longrightarrow> ascii_lower (hd t) = c \<Longrightarrow> fold_class (\<lambda>d. d = c) t = 1"
  by (cases t) (auto simp: fold_class_def ascii_lower_idem)

lemma fold_lit_matches:
  assumes "w \<noteq> []" and "lower_text (take (length w) (drop i t)) = w"
  shows "rx_ends (fold_lit w) t i \<noteq> []"
  using assms
proof (induction w arbitrary: i rule: fold_lit.induct)
  case (2 c)
  then show ?case
    using fold_class_lower [of "drop i t" c] by (cases "drop i t") (auto simp: lower_text_def)
next
  case (3 c d w)
  obtain x r where x: "drop i t = x # r" using "3.prems"(2) by (cases "drop i t") (auto simp: lower_text_def)
  have "ascii_lower x = c" and rest: "lower_text (take (length (d # w)) (drop (i + 1) t)) = d # w"
    using "3.prems"(2) x by (auto simp: lower_text_def drop_Suc tl_drop [symmetric])
  then have "rx_ends (Class (fold_class (\<lambda>e. e = c))) t i = [(i + 1, [])]"
    using fold_class_lower [of "drop i t" c] x by simp
  then show ?case using "3.IH" [OF _ rest] by (auto simp del: rx_ends.simps(1))
qed simp

lemma fold_lit_found:
  assumes "w \<noteq> []" and "contains (lower_text t) w"
  shows "\<exists>i < length t. rx_ends (fold_lit w) t i \<noteq> []"
proof -
  obtain a b where ab: "lower_text t = a @ w @ b" using assms(2) by (auto simp: sublist_def)
  then have "lower_text (take (length w) (drop (length a) t)) = w"
    by (simp add: lower_text_def flip: take_map drop_map)
  moreover have "length a < length t" using arg_cong [OF ab, of length] assms(1) by (simp add: lower_text_def)
  ultimately show ?thesis using fold_lit_matches [OF assms(1)] by blast
qed

definition secret_words :: "string list" where
  "secret_words = [''key'', ''token'', ''secret'', ''password'', ''credential'']"

lemma secret_name_matches:
  assumes "w \<in> set secret_words" and "contains (lower_text name) w"
  shows "rx_matches secret_env_name name"
proof -
  have "w \<noteq> []" using assms(1) by (auto simp: secret_words_def)
  then obtain i where i: "i < length name" "rx_ends (fold_lit w) name i \<noteq> []" using fold_lit_found assms(2) by blast
  have "rx_ends secret_env_name name i \<noteq> []"
    using i(2) assms(1) by (auto simp: secret_words_def secret_env_name_def simp del: fold_lit.simps)
  then have "find (\<lambda>j. rx_ends secret_env_name name j \<noteq> []) [0 ..< length name] \<noteq> None"
    using i(1) by (auto simp: find_None_iff)
  then show ?thesis by (auto simp: rx_matches_def rx_find_def)
qed

lemma cut_at_equals:
  "CHR ''='' \<in> set e \<Longrightarrow> \<exists>rest. e = takeWhile (\<lambda>c. c \<noteq> CHR ''='') e @ ''='' @ rest"
  by (induction e) auto

text \<open>A command sees no variable whose name contains key, token, secret, password or credential in
  any letter case, whatever the environment of the harness; and what it does see is unchanged, in
  order.\<close>

theorem no_secret_in_environment:
  assumes "entry \<in> set (sanitized_env environ base)" and "w \<in> {''key'', ''token'', ''secret'', ''password'', ''credential''}"
  shows "\<exists>name rest. entry = name @ ''='' @ rest \<and> \<not> contains (lower_text name) w
    \<and> entry \<in> set (case base of None \<Rightarrow> environ | Some b \<Rightarrow> b)"
proof -
  obtain name where n: "env_name entry = Some name" and ok: "\<not> rx_matches secret_env_name name"
    and mem: "entry \<in> set (case base of None \<Rightarrow> environ | Some b \<Rightarrow> b)"
    using assms(1) by (auto simp: sanitized_env_def split: option.splits)
  have eq: "CHR ''='' \<in> set entry" and name: "name = takeWhile (\<lambda>c. c \<noteq> CHR ''='') entry"
    using n by (auto simp: env_name_def split: if_splits)
  obtain rest where "entry = name @ ''='' @ rest" using cut_at_equals [OF eq] unfolding name by blast
  moreover have "\<not> contains (lower_text name) w"
    using secret_name_matches [of w name] ok assms(2) by (auto simp: secret_words_def)
  ultimately show ?thesis using mem by blast
qed

theorem no_secret_in_environment_witness:
  "\<exists>name rest. ''PATH=/bin'' = name @ ''='' @ rest \<and> \<not> contains (lower_text name) ''token''"
proof -
  have "''PATH=/bin'' \<in> set (sanitized_env [''GH_Token=x'', ''PATH=/bin''] None)" by code_simp
  from no_secret_in_environment [OF this, of "''token''"] show ?thesis by blast
qed

text \<open>The observation tells the truth about a command that was started: it shows each output up to
  the configured bytes and says when some is missing; and it passes (the test the validation
  pipeline makes: code EXIT with exit code 0) only if the command ended by itself with exit code
  0, its process tree was cleaned up and its output was complete or closed by an interruption.\<close>

theorem observation_is_truthful:
  assumes "po_prepare po = None" and "po_pipes po = None" and "po_start po = None" and "po_after_start po = None"
    and "run_local po spec = (obs, err)"
  shows "stdout obs = take (nat (output_cap (cs_max_output_bytes spec))) (concat (po_stdout po))
    \<and> stderr obs = take (nat (output_cap (cs_max_output_bytes spec))) (concat (po_stderr po))
    \<and> (\<not> output_truncated obs \<longrightarrow> stdout obs = concat (po_stdout po) \<and> stderr obs = concat (po_stderr po))
    \<and> (obs_code obs = code_exit \<and> exit_code obs = Some 0 \<longleftrightarrow>
         po_wait po \<in> {WaitOk, WaitExit 0} \<and> po_cleanup po = None
         \<and> \<not> (po_pipes_open po \<and> \<not> po_interrupted po) \<and> \<not> (po_interrupted po \<and> po_context po \<noteq> None))
    \<and> (obs_code obs = code_exit \<longrightarrow> err = None)"
proof -
  have w: "fst (interpret_wait_error (po_wait po) b) = Some 0 \<and> snd (interpret_wait_error (po_wait po) b) = None
      \<longleftrightarrow> po_wait po \<in> {WaitOk, WaitExit 0}" for b
    by (cases "po_wait po") (auto simp: interpret_wait_error_def)
  note r = run_local_started [OF assms(1-4), of spec, unfolded assms(5) Let_def prod.case]
  show ?thesis using r w [of "po_interrupted po"] by auto
qed

definition sample_outcome :: process_outcome where
  "sample_outcome = \<lparr>po_prepare = None, po_pipes = None, po_start = None, po_after_start = None, po_close_failed = None,
     po_stdout = [''ok''], po_stderr = [], po_wait = WaitOk, po_interrupted = False, po_context = None,
     po_cleanup = None, po_pipes_open = False, po_started = 0, po_ended = 1\<rparr>"

definition sample_spec :: command_spec where
  "sample_spec = \<lparr>cs_id = ''test'', cs_kind = ''test'', cs_executable = ''go'', cs_args = [], cs_working_directory = ''.'',
     cs_timeout = 1, cs_max_output_bytes = 0, cs_required = True, cs_classifiers = []\<rparr>"

theorem observation_is_truthful_witness:
  "stdout (fst (run_local sample_outcome sample_spec)) = ''ok'' \<and> exit_code (fst (run_local sample_outcome sample_spec)) = Some 0"
proof -
  obtain obs err where r: "run_local sample_outcome sample_spec = (obs, err)" by (rule prod.exhaust)
  have o: "po_prepare sample_outcome = None" "po_pipes sample_outcome = None" "po_start sample_outcome = None"
      "po_after_start sample_outcome = None" "po_stdout sample_outcome = [''ok'']" "po_wait sample_outcome = WaitOk"
      "po_interrupted sample_outcome = False" "po_cleanup sample_outcome = None" "po_pipes_open sample_outcome = False"
      "nat (output_cap (cs_max_output_bytes sample_spec)) = 65536"
    by (simp_all add: sample_outcome_def sample_spec_def output_cap_def)
  show ?thesis using observation_is_truthful [OF o(1-4) r] unfolding r fst_conv o by simp
qed

end
