(* ===== verification/Approval_Request.thy ===== *)
theory Approval_Request
  imports Policy Redact
begin

text \<open>
  Package \<^verbatim>\<open>internal/agent\<close>, \<^verbatim>\<open>approval.go\<close>: the request shown to the operator when an action
  needs approval, built from the action with every text redacted and bounded; and
  \<^verbatim>\<open>context.go\<close>. The parameter \<^verbatim>\<open>H\<close> is SHA-256 in hexadecimal. Marshalled arguments are
  kept as the \<^typ>\<open>json\<close> value they spell.
\<close>

section \<open>Types\<close>

type_synonym approval_evidence_binding = "string \<times> digest" \<comment> \<open>name and digest\<close>

record approval_required =
  ar_digest :: digest
  ar_action :: action
  ar_affected_files :: "string list"
  ar_risk :: risk
  ar_risk_reason :: string
  ar_baseline_evidence :: "approval_evidence_binding list"

definition max_approval_preview_bytes :: nat where "max_approval_preview_bytes = 2048"
definition max_approval_text_bytes :: nat where "max_approval_text_bytes = 512"
definition max_approval_evidence :: nat where "max_approval_evidence = 16"
definition max_approval_files :: nat where "max_approval_files = 16"

record approval_content_display =
  cd_sha256 :: digest
  cd_preview :: string
  cd_truncated :: bool

section \<open>Texts\<close>

definition bounded :: "string \<Rightarrow> nat \<Rightarrow> string" where
  "bounded value limit = (if length value \<le> limit then value else truncate_utf8 value limit)"

definition bounded_redacted :: "string list \<Rightarrow> string \<Rightarrow> nat \<Rightarrow> string" where
  "bounded_redacted secrets value limit = bounded (redact secrets value) limit"

definition content_display :: "(string \<Rightarrow> digest) \<Rightarrow> string list \<Rightarrow> string \<Rightarrow> approval_content_display" where
  "content_display H secrets value =
     (let redacted = redact secrets value;
          preview = bounded redacted max_approval_preview_bytes
      in \<lparr>cd_sha256 = H value, cd_preview = preview, cd_truncated = (length preview < length redacted)\<rparr>)"

definition patch_display :: "(string \<Rightarrow> digest) \<Rightarrow> string list \<Rightarrow> string \<Rightarrow> approval_content_display" where
  "patch_display H secrets patch =
     (let hunks = filter (\<lambda>line. has_prefix line ''@@ '') (split_on newline patch);
          redacted = redact secrets (join_with [newline] hunks);
          preview = bounded redacted max_approval_preview_bytes
      in \<lparr>cd_sha256 = H patch, cd_preview = preview, cd_truncated = (preview \<noteq> redact secrets patch)\<rparr>)"

definition display_json :: "approval_content_display \<Rightarrow> json" where
  "display_json d = JObj [(''sha256'', JStr (cd_sha256 d)), (''preview'', JStr (cd_preview d)),
     (''truncated'', JBool (cd_truncated d))]"

section \<open>The action as shown\<close>

text \<open>The bytes \<^verbatim>\<open>json.Marshal\<close> writes for a value.\<close>

fun json_text :: "json \<Rightarrow> string" where
  "json_text JNull = ''null''"
| "json_text (JBool b) = (if b then ''true'' else ''false'')"
| "json_text (JNum s) = s"
| "json_text (JStr s) = ''\"'' @ json_escape s @ ''\"''"
| "json_text (JArr vs) = ''['' @ join_with '','' (map json_text vs) @ '']''"
| "json_text (JObj kvs) =
     ''{'' @ join_with '','' (map (\<lambda>(k, v). ''\"'' @ json_escape k @ ''\":'' @ json_text v) kvs) @ ''}''"

text \<open>Arguments that are no JSON text never get here: the loop rejects the decision (\<^verbatim>\<open>valid\<close>).\<close>

definition args_text :: "action \<Rightarrow> string" where
  "args_text a = (case args a of None \<Rightarrow> [] | Some v \<Rightarrow> json_text v)"

definition summarized_action :: "(string \<Rightarrow> digest) \<Rightarrow> string list \<Rightarrow> action \<Rightarrow> action" where
  "summarized_action H secrets a =
     \<lparr>kind = kind a, args = Some (JObj [(''summary'', display_json (content_display H secrets (args_text a)))])\<rparr>"

definition bounded_redacted_action :: "(string \<Rightarrow> digest) \<Rightarrow> string list \<Rightarrow> action \<Rightarrow> action" where
  "bounded_redacted_action H secrets a0 =
     (let a = canonical_action a0;
          shown = (\<lambda>kvs. \<lparr>kind = kind a, args = Some (JObj kvs)\<rparr>);
          summarized = summarized_action H secrets a
      in case Option.bind (args a) as_fields of
        None \<Rightarrow> summarized
      | Some fs \<Rightarrow>
          let str = (\<lambda>k. Option.bind (field_of fs k) as_string) in
          if kind a = ''apply_patch'' then
            (case str ''patch'' of
               None \<Rightarrow> summarized
             | Some patch \<Rightarrow> shown [(''patch'', display_json (patch_display H secrets patch))])
          else if kind a = ''create_file'' then
            (case (str ''path'', str ''content'') of
               (Some path, Some content) \<Rightarrow>
                 shown [(''content'', display_json (content_display H secrets content)),
                        (''path'', JStr (bounded_redacted secrets path max_approval_text_bytes))]
             | _ \<Rightarrow> summarized)
          else if kind a = ''run_check'' then
            (case str ''id'' of
               None \<Rightarrow> summarized
             | Some i \<Rightarrow> shown [(''id'', JStr (bounded_redacted secrets i max_approval_text_bytes))])
          else summarized)"

section \<open>The files\<close>

definition patch_header_path :: "string \<Rightarrow> string \<Rightarrow> string" where
  "patch_header_path header pre =
     (case go_fields header of
        [] \<Rightarrow> []
      | f # _ \<Rightarrow> if f = ''/dev/null'' then [] else trim_prefix f pre)"

text \<open>The loop over the lines of a patch, with the latest old path and the files so far.\<close>

fun patch_files :: "string list \<Rightarrow> string \<Rightarrow> string list \<Rightarrow> string list" where
  "patch_files [] old files = files"
| "patch_files (line # lines) old files =
     (if has_prefix line ''--- '' then
        patch_files lines (patch_header_path (trim_prefix line ''--- '') ''a/'') files
      else if has_prefix line ''+++ '' then
        (let new = patch_header_path (trim_prefix line ''+++ '') ''b/'' in
         patch_files lines []
           (if new \<noteq> [] then new # files else if old \<noteq> [] then old # files else files))
      else patch_files lines old files)"

definition affected_files :: "action \<Rightarrow> string list" where
  "affected_files a =
     (case (Option.bind (args a) (struct_string ''path''), Option.bind (args a) (struct_string ''patch'')) of
        (Some path, Some patch) \<Rightarrow>
          sort (remdups
            ((if kind a = ''create_file'' \<and> path \<noteq> [] then [path] else [])
             @ (if kind a = ''apply_patch'' then patch_files (split_on newline patch) [] [] else [])))
      | _ \<Rightarrow> [])"

section \<open>The request\<close>

text \<open>The baselines are given in the iteration order of their map; \<^verbatim>\<open>sort.Slice\<close> leaves the order of
  equal names open, the stable order stands for it.\<close>

definition new_approval_required ::
    "(string \<Rightarrow> digest) \<Rightarrow> permission_profile \<Rightarrow> action \<Rightarrow> decision \<Rightarrow> (string \<times> digest) list \<Rightarrow> string list
     \<Rightarrow> approval_required" where
  "new_approval_required H prof a dec baselines secrets =
     (let text = (\<lambda>s. bounded_redacted secrets s max_approval_text_bytes);
          reason = (if d_message dec = [] then profile_string prof @ '' profile requires approval for '' @ kind a
                    else d_message dec)
      in \<lparr>ar_digest = d_digest dec,
          ar_action = bounded_redacted_action H secrets a,
          ar_affected_files = map text (take max_approval_files (affected_files a)),
          ar_risk = d_risk dec,
          ar_risk_reason = text reason,
          ar_baseline_evidence =
            take max_approval_evidence (sort_key fst (map (\<lambda>(n, d). (text n, text d)) baselines))\<rparr>)"

section \<open>context.go\<close>

definition assemble :: "int \<Rightarrow> 'item list \<Rightarrow> 'item list" where
  "assemble max_items items =
     (let n = (if max_items \<le> 0 then 16 else nat max_items) in
      if n < length items then drop (length items - n) items else items)"

section \<open>What an operator is shown\<close>

lemma bounded_length: "length (bounded s n) \<le> n"
  using back_up_le [of s n] by (auto simp: bounded_def truncate_utf8_def)

lemma bounded_prefix: "prefix (bounded s n) s"
  by (simp add: bounded_def truncate_utf8_def take_is_prefix)

lemma bounded_redacted_hides:
  assumes "secret \<in> set secrets" and "apart secret"
  shows "\<not> contains (bounded_redacted (new_redactor secrets) s n) secret"
  using registered_secret_is_redacted_in [OF assms, of s] bounded_prefix [of "redact (new_redactor secrets) s" n]
  unfolding bounded_redacted_def by (meson prefix_imp_sublist sublist_order.order_trans)

text \<open>Every string of a value.\<close>

fun json_strings :: "json \<Rightarrow> string list" where
  "json_strings (JStr s) = [s]"
| "json_strings (JArr vs) = concat (map json_strings vs)"
| "json_strings (JObj kvs) = concat (map (\<lambda>(k, v). json_strings v) kvs)"
| "json_strings _ = []"

definition shown_safely :: "(string \<Rightarrow> digest) \<Rightarrow> string \<Rightarrow> json \<Rightarrow> bool" where
  "shown_safely H secret v \<longleftrightarrow>
     (\<forall>s \<in> set (json_strings v). s \<in> range H \<or> length s \<le> max_approval_preview_bytes \<and> \<not> contains s secret)"

lemma content_display_safe:
  assumes "secret \<in> set secrets" and "apart secret"
  shows "shown_safely H secret (display_json (content_display H (new_redactor secrets) v))"
    and "shown_safely H secret (display_json (patch_display H (new_redactor secrets) v))"
  using bounded_redacted_hides [OF assms] bounded_length
  by (simp_all add: shown_safely_def display_json_def content_display_def patch_display_def Let_def bounded_redacted_def)

lemma bounded_text_safe:
  assumes "secret \<in> set secrets" and "apart secret"
  shows "shown_safely H secret (JStr (bounded_redacted (new_redactor secrets) v max_approval_text_bytes))"
proof -
  have "length (bounded_redacted (new_redactor secrets) v max_approval_text_bytes) \<le> max_approval_preview_bytes"
    using bounded_length [of "redact (new_redactor secrets) v" max_approval_text_bytes]
    by (simp add: bounded_redacted_def max_approval_text_bytes_def max_approval_preview_bytes_def)
  then show ?thesis using bounded_redacted_hides [OF assms] by (simp add: shown_safely_def)
qed

lemma shown_safely_obj:
  "shown_safely H secret (JObj kvs) \<longleftrightarrow> (\<forall>(k, v) \<in> set kvs. shown_safely H secret v)"
  by (auto simp: shown_safely_def)

lemma bounded_redacted_action_safe:
  assumes "secret \<in> set secrets" and "apart secret"
  shows "\<exists>v. args (bounded_redacted_action H (new_redactor secrets) a) = Some v \<and> shown_safely H secret v"
  using content_display_safe [OF assms] bounded_text_safe [OF assms]
  by (auto simp: bounded_redacted_action_def summarized_action_def Let_def shown_safely_obj split: option.splits)

text \<open>C39. What an operator is shown is bounded and hides the registered secrets: the request names at
  most 16 files and 16 baselines, each text has at most 512 bytes (the previews in the shown
  arguments 2048), and no registered secret (without square brackets) is in any of them, apart
  from the hexadecimal digests of the contents; the digest to approve is the decision's own.\<close>

theorem approval_request_hides_secrets:
  assumes "secret \<in> set secrets" and "apart secret"
  shows "let r = new_approval_required H prof a dec baselines (new_redactor secrets);
             ok = (\<lambda>s. length s \<le> 512 \<and> \<not> contains s secret)
    in length (ar_affected_files r) \<le> 16 \<and> length (ar_baseline_evidence r) \<le> 16
      \<and> list_all ok (ar_affected_files r) \<and> ok (ar_risk_reason r)
      \<and> list_all (\<lambda>(n, d). ok n \<and> ok d) (ar_baseline_evidence r)
      \<and> (\<exists>v. args (ar_action r) = Some v \<and> shown_safely H secret v)
      \<and> ar_digest r = d_digest dec"
proof -
  have ok: "length (bounded_redacted (new_redactor secrets) s max_approval_text_bytes) \<le> 512
      \<and> \<not> contains (bounded_redacted (new_redactor secrets) s max_approval_text_bytes) secret" for s
    using bounded_redacted_hides [OF assms] bounded_length [of "redact (new_redactor secrets) s" max_approval_text_bytes]
    by (simp add: bounded_redacted_def max_approval_text_bytes_def)
  show ?thesis
    using ok bounded_redacted_action_safe [OF assms]
    by (auto simp: Let_def new_approval_required_def max_approval_files_def max_approval_evidence_def
        list_all_iff dest!: in_set_takeD)
qed

theorem approval_request_hides_secrets_witness:
  "\<not> contains (ar_risk_reason (new_approval_required id ProfileSupervised \<lparr>kind = ''finish'', args = Some (JObj [])\<rparr>
      \<lparr>verdict_of = RequireApproval, d_risk = RiskGuarded, d_code = [], d_message = ''uses hunter22x'', d_digest = ''d''\<rparr>
      [] (new_redactor [''hunter22x'']))) ''hunter22x''"
proof -
  have "''hunter22x'' \<in> set [''hunter22x'']" and "apart ''hunter22x''" by code_simp+
  from approval_request_hides_secrets [OF this] show ?thesis by (simp add: Let_def)
qed

end
