(* ===== verification/Agent_Loop.thy ===== *)
theory Agent_Loop
  imports Budget Approval_Request Feedback Store
begin

text \<open>
  Package \<^verbatim>\<open>internal/agent\<close>, \<^verbatim>\<open>loop.go\<close>: the governance loop. A run is driven through its
  state machine by decisions of the provider; every action passes the policy engine, mutations are
  validated, and every state change is a compare-and-swap of the store with its event.

  The collaborators are a record of functions, the environment: the context, the clock, the
  provider, the action executor and the validator act on a world of type \<^typ>\<open>'w\<close>, the three
  store calls on a store of type \<^typ>\<open>'s\<close> (the models of the two stores fit, see
  \<^verbatim>\<open>Agent_Store\<close>), and \<^verbatim>\<open>e_encode\<close> stands for \<^verbatim>\<open>json.Marshal\<close> of a payload. Policy,
  budget, progress, feedback, approvals and the approval request are the models of those packages.
  A call of the loop runs to its end, under the lock of its caller; so the loop's own mutex is
  not modelled.
\<close>

section \<open>Types\<close>

record action_result =
  res_diff_digest :: digest
  res_observation :: observation

record validation_result =
  vr_stage_id :: string
  vr_passed :: bool
  vr_observation :: observation

record pending_approval =
  pa_run :: run
  pa_action :: action
  pa_digest :: digest

record loop_result =
  lr_state :: run_state
  lr_stop_code :: string

datatype loop_error =
    ErrApprovalNotGranted | ErrApprovalRejectionMismatch
  | ErrTransition domain_error | ErrStore store_error | ErrAction string

text \<open>What the events carry.\<close>

datatype payload =
    PEmpty
  | PReason string
  | PApproval approval_required
  | PDecision decision
  | PFeedback structured_feedback
  | PValidation validation_result
  | PProtocolError "string option"
  | PActionError string
  | PDigest digest

text \<open>\<^verbatim>\<open>Dependencies\<close>: the collaborators and the fixed parts.\<close>

record ('s, 'w) agent_env =
  e_cancelled :: "'w \<Rightarrow> bool \<times> 'w"
  e_now :: "'w \<Rightarrow> gtime \<times> 'w"
  e_decide :: "string \<Rightarrow> structured_feedback option \<Rightarrow> 'w \<Rightarrow> (string, agent_decision) result \<times> 'w"
  e_execute :: "action \<Rightarrow> 'w \<Rightarrow> (string, action_result) result \<times> 'w"
  e_baseline :: "run \<Rightarrow> 'w \<Rightarrow> validation_result \<times> 'w"
  e_current :: "run \<Rightarrow> 'w \<Rightarrow> validation_result \<times> 'w"
  e_final :: "run \<Rightarrow> 'w \<Rightarrow> validation_result \<times> 'w"
  e_update_if :: "run \<Rightarrow> run_state \<Rightarrow> string \<Rightarrow> string \<Rightarrow> 's \<Rightarrow> (store_error, run_event) result \<times> 's"
  e_update_detached :: "run \<Rightarrow> run_state \<Rightarrow> string \<Rightarrow> string \<Rightarrow> 's \<Rightarrow> (store_error, run_event) result \<times> 's"
    \<comment> \<open>under \<^verbatim>\<open>context.WithoutCancel\<close>\<close>
  e_append :: "run_id \<Rightarrow> string \<Rightarrow> string \<Rightarrow> 's \<Rightarrow> (store_error, run_event) result \<times> 's"
  e_encode :: "payload \<Rightarrow> string"
  e_policy_hash :: "json option \<Rightarrow> digest"
  e_sha :: "string \<Rightarrow> digest"
  e_feedback :: feedback_pipeline

text \<open>The mutable part of \<^verbatim>\<open>Loop\<close> and of its dependencies.\<close>

record ('s, 'w) loop_state =
  ls_store :: 's
  ls_world :: 'w
  ls_tracker :: tracker
  ls_detector :: "detector option"
  ls_grants :: "grants option"
  ls_pending :: "run_id \<Rightarrow> pending_approval option"
  ls_baselines :: "(string \<times> string) list"
  ls_redactor :: "string list"

definition bind_baselines :: "(string \<times> string) list \<Rightarrow> ('s, 'w) loop_state \<Rightarrow> ('s, 'w) loop_state" where
  "bind_baselines b s = s\<lparr>ls_baselines := b\<rparr>"

definition bind_approval_redactor :: "string list \<Rightarrow> ('s, 'w) loop_state \<Rightarrow> ('s, 'w) loop_state" where
  "bind_approval_redactor r s = s\<lparr>ls_redactor := r\<rparr>"

section \<open>Calls\<close>

definition in_world :: "('w \<Rightarrow> 'a \<times> 'w) \<Rightarrow> ('s, 'w) loop_state \<Rightarrow> 'a \<times> ('s, 'w) loop_state" where
  "in_world f s = (let (x, w) = f (ls_world s) in (x, s\<lparr>ls_world := w\<rparr>))"

definition in_store :: "('s \<Rightarrow> 'a \<times> 's) \<Rightarrow> ('s, 'w) loop_state \<Rightarrow> 'a \<times> ('s, 'w) loop_state" where
  "in_store f s = (let (x, t) = f (ls_store s) in (x, s\<lparr>ls_store := t\<rparr>))"

definition transition_payload ::
    "('s, 'w) agent_env \<Rightarrow> run_state \<Rightarrow> string \<Rightarrow> payload \<Rightarrow> run \<Rightarrow> ('s, 'w) loop_state
     \<Rightarrow> (loop_error, run) result \<times> ('s, 'w) loop_state" where
  "transition_payload env to t payload r s =
     (case transition (state r) to of
        Inl e \<Rightarrow> (Inl (ErrTransition e), s)
      | Inr _ \<Rightarrow>
          (case in_store (e_update_if env (r\<lparr>state := to\<rparr>) (state r) t (e_encode env payload)) s of
             (Inl e, s') \<Rightarrow> (Inl (ErrStore e), s')
           | (Inr _, s') \<Rightarrow> (Inr (r\<lparr>state := to\<rparr>), s')))"

definition transition_to ::
    "('s, 'w) agent_env \<Rightarrow> run_state \<Rightarrow> string \<Rightarrow> run \<Rightarrow> ('s, 'w) loop_state
     \<Rightarrow> (loop_error, run) result \<times> ('s, 'w) loop_state" where
  "transition_to env to t r s = transition_payload env to t PEmpty r s"

definition log_event ::
    "('s, 'w) agent_env \<Rightarrow> run \<Rightarrow> string \<Rightarrow> payload \<Rightarrow> ('s, 'w) loop_state
     \<Rightarrow> (loop_error, unit) result \<times> ('s, 'w) loop_state" where
  "log_event env r t payload s =
     (case in_store (e_append env (rid r) t (e_encode env payload)) s of
        (Inl e, s') \<Rightarrow> (Inl (ErrStore e), s')
      | (Inr _, s') \<Rightarrow> (Inr (), s'))"

definition stop_run ::
    "('s, 'w) agent_env \<Rightarrow> string \<Rightarrow> run \<Rightarrow> ('s, 'w) loop_state
     \<Rightarrow> (loop_error, loop_result) result \<times> ('s, 'w) loop_state" where
  "stop_run env c r s =
     (if state r = StateStopped then (Inr \<lparr>lr_state = state r, lr_stop_code = c\<rparr>, s)
      else
        (case transition (state r) StateStopped of
           Inl e \<Rightarrow> (Inl (ErrTransition e), s)
         | Inr _ \<Rightarrow>
             (case in_store (e_update_detached env (r\<lparr>state := StateStopped\<rparr>) (state r) ''RunStopped''
                      (e_encode env (PReason c))) s of
                (Inl e, s') \<Rightarrow> (Inl (ErrStore e), s')
              | (Inr _, s') \<Rightarrow> (Inr \<lparr>lr_state = StateStopped, lr_stop_code = c\<rparr>, s'))))"

definition make_feedback :: "('s, 'w) agent_env \<Rightarrow> run \<Rightarrow> string \<Rightarrow> observation \<Rightarrow> structured_feedback" where
  "make_feedback env r c obs =
     fst (process (e_sha env) (\<lambda>_. None) (e_feedback env)
       \<lparr>in_stage_id = current_stage r, in_code = c, in_observation = obs, in_rules = [], in_prior = 0,
        in_secrets = []\<rparr> [])"

definition delete_pending :: "run_id \<Rightarrow> digest \<Rightarrow> ('s, 'w) loop_state \<Rightarrow> ('s, 'w) loop_state" where
  "delete_pending i d s =
     (case ls_pending s i of
        None \<Rightarrow> s
      | Some p \<Rightarrow> if pa_digest p = d then s\<lparr>ls_pending := (ls_pending s)(i := None)\<rparr> else s)"

definition valid_decision :: "agent_decision \<Rightarrow> bool" where
  "valid_decision d \<longleftrightarrow> version d = ''1'' \<and> kind (action_of d) \<noteq> [] \<and> args (action_of d) \<noteq> None"

definition is_mutating :: "action \<Rightarrow> bool" where
  "is_mutating a \<longleftrightarrow> kind a = ''apply_patch'' \<or> kind a = ''create_file''"

section \<open>One turn of the loop\<close>

text \<open>A turn continues with a run and feedback for the provider, or returns.\<close>

datatype turn =
    Continue run "structured_feedback option"
  | Return "(loop_error, loop_result) result"

text \<open>\<^verbatim>\<open>if err := call(); err != nil { return Result{}, err }\<close>.\<close>

definition attempt ::
    "(loop_error, 'a) result \<times> ('s, 'w) loop_state \<Rightarrow> ('a \<Rightarrow> ('s, 'w) loop_state \<Rightarrow> turn \<times> ('s, 'w) loop_state)
     \<Rightarrow> turn \<times> ('s, 'w) loop_state" where
  "attempt call next =
     (case call of (Inl e, s) \<Rightarrow> (Return (Inl e), s) | (Inr x, s) \<Rightarrow> next x s)"

definition stopping ::
    "('s, 'w) agent_env \<Rightarrow> string \<Rightarrow> run \<Rightarrow> ('s, 'w) loop_state \<Rightarrow> turn \<times> ('s, 'w) loop_state" where
  "stopping env c r s = map_prod Return id (stop_run env c r s)"

definition on_protocol_error ::
    "('s, 'w) agent_env \<Rightarrow> run \<Rightarrow> structured_feedback option \<Rightarrow> string option \<Rightarrow> ('s, 'w) loop_state
     \<Rightarrow> turn \<times> ('s, 'w) loop_state" where
  "on_protocol_error env r prev err s =
     (case record_protocol_repair (ls_tracker s) of
        (Inl _, _) \<Rightarrow> stopping env ''PROTOCOL_EXHAUSTED'' r s
      | (Inr _, t) \<Rightarrow>
          attempt (log_event env r ''ProtocolError'' (PProtocolError err) (s\<lparr>ls_tracker := t\<rparr>))
            (\<lambda>_ s. (Continue r prev, s)))"

definition on_denied ::
    "('s, 'w) agent_env \<Rightarrow> run \<Rightarrow> decision \<Rightarrow> ('s, 'w) loop_state \<Rightarrow> turn \<times> ('s, 'w) loop_state" where
  "on_denied env r dec s =
     (let fb = make_feedback env r ''POLICY_DENIED'' (empty_observation\<lparr>stdout := d_message dec\<rparr>) in
      attempt (log_event env r ''PolicyDenied'' (PDecision dec) s)
        (\<lambda>_ s. attempt (log_event env r ''FeedbackProduced'' (PFeedback fb) s)
          (\<lambda>_ s. (Continue r (Some fb), s))))"

definition on_approval ::
    "('s, 'w) agent_env \<Rightarrow> run \<Rightarrow> action \<Rightarrow> decision \<Rightarrow> ('s, 'w) loop_state \<Rightarrow> turn \<times> ('s, 'w) loop_state" where
  "on_approval env r a dec s =
     (let request = new_approval_required (e_sha env) (profile r) a dec (ls_baselines s) (ls_redactor s);
          entry = \<lparr>pa_run = r\<lparr>state := StateAwaitingApproval\<rparr>, pa_action = a, pa_digest = d_digest dec\<rparr>;
          s1 = s\<lparr>ls_pending := (ls_pending s)(rid r := Some entry)\<rparr>
      in case transition_payload env StateAwaitingApproval ''ApprovalRequired'' (PApproval request) r s1 of
           (Inl e, s2) \<Rightarrow> (Return (Inl e), delete_pending (rid r) (d_digest dec) s2)
         | (Inr r', s2) \<Rightarrow> (Return (Inr \<lparr>lr_state = state r', lr_stop_code = ''APPROVAL_REQUIRED''\<rparr>), s2))"

text \<open>The branch of \<^verbatim>\<open>finish\<close>; the run is already \<^verbatim>\<open>EXECUTING\<close>.\<close>

definition on_finish ::
    "('s, 'w) agent_env \<Rightarrow> run \<Rightarrow> ('s, 'w) loop_state \<Rightarrow> turn \<times> ('s, 'w) loop_state" where
  "on_finish env r s =
     (if profile r = ProfileReview then
        attempt (transition_to env StateDeciding ''ReviewFinish'' r s) (\<lambda>r s.
        attempt (transition_to env StateReviewComplete ''ReviewComplete'' r s) (\<lambda>r s.
        (Return (Inr \<lparr>lr_state = state r, lr_stop_code = []\<rparr>), s)))
      else
        attempt (transition_to env StateValidating ''FinishRequested'' r s) (\<lambda>r s.
        let (final, s) = in_world (e_final env r) s in
        if \<not> vr_passed final then
          let fb = make_feedback env r ''REGRESSION'' (vr_observation final) in
          attempt (log_event env r ''ValidationFailed'' (PValidation final) s) (\<lambda>_ s.
          attempt (log_event env r ''FeedbackProduced'' (PFeedback fb) s) (\<lambda>_ s.
          attempt (transition_to env StateDeciding ''FinalRegression'' r s) (\<lambda>r s.
          (Continue r (Some fb), s))))
        else
          attempt (transition_to env StateFinalValidating ''FinalValidationPassed'' r s) (\<lambda>r s.
          attempt (transition_to env StateSucceeded ''RunSucceeded'' r s) (\<lambda>r s.
          (Return (Inr \<lparr>lr_state = state r, lr_stop_code = []\<rparr>), s)))))"

definition no_progress :: "structured_feedback \<Rightarrow> digest \<Rightarrow> ('s, 'w) loop_state \<Rightarrow> bool \<times> ('s, 'w) loop_state" where
  "no_progress fb dd s =
     (case ls_detector s of
        None \<Rightarrow> (False, s)
      | Some p \<Rightarrow> (let (o1, p') = observe (fingerprint fb) dd p in (o1 = ProgressStop, s\<lparr>ls_detector := Some p'\<rparr>)))"

definition validation_passed :: "string \<Rightarrow> structured_feedback" where
  "validation_passed stage =
     \<lparr>category = ''VALIDATION_PASSED'', fb_stage_id = stage, summary = [], fingerprint = [], evidence_of = [],
      retryable_of = False, fb_output_truncated = False, previous_occurrences = 0\<rparr>"

text \<open>After a mutation was executed.\<close>

definition on_mutation ::
    "('s, 'w) agent_env \<Rightarrow> run \<Rightarrow> action_result \<Rightarrow> ('s, 'w) loop_state \<Rightarrow> turn \<times> ('s, 'w) loop_state" where
  "on_mutation env r res s =
     (case record_mutation (ls_tracker s) of
        (Inl _, _) \<Rightarrow> stopping env ''BUDGET_EXHAUSTED'' r s
      | (Inr _, t) \<Rightarrow>
          attempt (transition_to env StateValidating ''ValidationStarted'' r (s\<lparr>ls_tracker := t\<rparr>)) (\<lambda>r s.
          let (current, s) = in_world (e_current env r) s in
          if \<not> vr_passed current then
            let fb = make_feedback env r [] (vr_observation current) in
            attempt (log_event env r ''ValidationFailed'' (PValidation current) s) (\<lambda>_ s.
            attempt (log_event env r ''FeedbackProduced'' (PFeedback fb) s) (\<lambda>_ s.
            attempt (transition_to env StateDeciding ''ValidationFeedback'' r s) (\<lambda>r s.
            let (halt, s) = no_progress fb (res_diff_digest res) s in
            if halt then stopping env ''NO_PROGRESS'' r s else (Continue r (Some fb), s))))
          else
            attempt (log_event env r ''ValidationPassed'' (PValidation current) s) (\<lambda>_ s.
            attempt (transition_to env StateDeciding ''ActionComplete'' r s) (\<lambda>r s.
            (Continue r (Some (validation_passed (vr_stage_id current))), s)))))"

text \<open>After an action was executed, with an error or not.\<close>

definition on_executed ::
    "('s, 'w) agent_env \<Rightarrow> run \<Rightarrow> structured_feedback option \<Rightarrow> action \<Rightarrow> (string, action_result) result
     \<Rightarrow> ('s, 'w) loop_state \<Rightarrow> turn \<times> ('s, 'w) loop_state" where
  "on_executed env r prev a res s =
     (case res of
        Inl err \<Rightarrow>
          let fb = make_feedback env r ''ACTION_FAILED'' (empty_observation\<lparr>stdout := err\<rparr>) in
          attempt (log_event env r ''ActionFailed'' (PActionError err) s) (\<lambda>_ s.
          attempt (transition_to env StateDeciding ''ActionFeedback'' r s) (\<lambda>r s.
          (Continue r (Some fb), s)))
      | Inr done \<Rightarrow>
          if is_mutating a then on_mutation env r done s
          else attempt (transition_to env StateDeciding ''ActionComplete'' r s) (\<lambda>r s. (Continue r prev, s)))"

text \<open>An allowed action.\<close>

definition on_allowed ::
    "('s, 'w) agent_env \<Rightarrow> run \<Rightarrow> structured_feedback option \<Rightarrow> action \<Rightarrow> ('s, 'w) loop_state
     \<Rightarrow> turn \<times> ('s, 'w) loop_state" where
  "on_allowed env r prev a s =
     attempt (transition_to env StateExecuting ''ActionExecuting'' r s) (\<lambda>r s.
     if kind a = ''finish'' then on_finish env r s
     else let (res, s) = in_world (e_execute env a) s in on_executed env r prev a res s)"

text \<open>The context the loop gives the policy engine has the run, the profile and the baselines; the other
  fields are left at their zero values.\<close>

definition loop_context :: "run \<Rightarrow> (string \<times> string) list \<Rightarrow> policy_context" where
  "loop_context r baselines =
     \<lparr>ctx_run_id = rid r, ctx_profile = profile r, ctx_repo_root = [], ctx_dirty = False,
      ctx_baselines = baselines, ctx_configured_checks = []\<rparr>"

definition judge :: "('s, 'w) agent_env \<Rightarrow> run \<Rightarrow> ('s, 'w) loop_state \<Rightarrow> action \<Rightarrow> decision" where
  "judge env r s a = evaluate (e_policy_hash env) (loop_context r (ls_baselines s)) a"

definition on_decision ::
    "('s, 'w) agent_env \<Rightarrow> run \<Rightarrow> structured_feedback option \<Rightarrow> action \<Rightarrow> ('s, 'w) loop_state
     \<Rightarrow> turn \<times> ('s, 'w) loop_state" where
  "on_decision env r prev a s =
     (let dec = judge env r s a in
      case verdict_of dec of
        Deny \<Rightarrow> on_denied env r dec s
      | RequireApproval \<Rightarrow> on_approval env r a dec s
      | Allow \<Rightarrow> on_allowed env r prev a s)"

definition iterate ::
    "('s, 'w) agent_env \<Rightarrow> run \<Rightarrow> structured_feedback option \<Rightarrow> ('s, 'w) loop_state
     \<Rightarrow> turn \<times> ('s, 'w) loop_state" where
  "iterate env r prev s =
     (let (cancelled, s) = in_world (e_cancelled env) s in
      if cancelled then stopping env ''USER_CANCELLED'' r s
      else
        let (now, s) = in_world (e_now env) s in
        case check_time (ls_tracker s) now of
          Inl _ \<Rightarrow> stopping env ''BUDGET_EXHAUSTED'' r s
        | Inr _ \<Rightarrow>
            let (response, s) = in_world (e_decide env (task r) prev) s in
            case response of
              Inl err \<Rightarrow> on_protocol_error env r prev (Some err) s
            | Inr d \<Rightarrow>
                if \<not> valid_decision d then on_protocol_error env r prev None s
                else
                  (case record_decision (ls_tracker s) of
                     (Inl _, _) \<Rightarrow> stopping env ''BUDGET_EXHAUSTED'' r s
                   | (Inr _, t) \<Rightarrow> on_decision env r prev (action_of d) (s\<lparr>ls_tracker := t\<rparr>)))"

section \<open>What the calls leave alone\<close>

lemma in_world_frame:
  "in_world f s = (x, s') \<Longrightarrow> \<exists>w. f (ls_world s) = (x, w) \<and> s' = s\<lparr>ls_world := w\<rparr>"
  by (auto simp: in_world_def split: prod.splits)

lemma in_store_frame:
  "in_store f s = (x, s') \<Longrightarrow> \<exists>t. f (ls_store s) = (x, t) \<and> s' = s\<lparr>ls_store := t\<rparr>"
  by (auto simp: in_store_def split: prod.splits)

lemma transition_frame:
  "transition_payload env to t p r s = (x, s') \<Longrightarrow> \<exists>st. s' = s\<lparr>ls_store := st\<rparr>"
  by (auto simp: transition_payload_def split: sum.splits prod.splits dest!: in_store_frame)
    (metis loop_state.surjective loop_state.update_convs(1))

lemma log_frame: "log_event env r t p s = (x, s') \<Longrightarrow> \<exists>st. s' = s\<lparr>ls_store := st\<rparr>"
  by (auto simp: log_event_def split: sum.splits prod.splits dest!: in_store_frame)

lemma stop_frame: "stop_run env c r s = (x, s') \<Longrightarrow> \<exists>st. s' = s\<lparr>ls_store := st\<rparr>"
  by (auto simp: stop_run_def split: if_splits sum.splits prod.splits dest!: in_store_frame)
    (metis loop_state.surjective loop_state.update_convs(1))+

section \<open>The loop ends\<close>

text \<open>How many turns are left: every turn that continues used a decision (which gives the repairs
  back) or a repair.\<close>

definition turns_left :: "tracker \<Rightarrow> nat" where
  "turns_left t =
     nat (max_decisions (limits_of t) - decisions (usage_of t)) * Suc (nat (max_protocol_repairs (limits_of t)))
     + nat (max_protocol_repairs (limits_of t) - protocol_repairs (usage_of t))"

lemma record_decision_turns:
  assumes "record_decision t = (Inr u, t')"
  shows "turns_left t' < turns_left t"
proof -
  let ?R = "nat (max_protocol_repairs (limits_of t))"
  define d where "d = nat (max_decisions (limits_of t) - (decisions (usage_of t) + 1))"
  have "nat (max_decisions (limits_of t) - decisions (usage_of t)) = Suc d"
    and "turns_left t' = d * Suc ?R + ?R"
    using assms by (auto simp: turns_left_def go_simps d_def split: if_splits)
  then show ?thesis by (simp add: turns_left_def)
qed

lemma record_repair_turns: "record_protocol_repair t = (Inr u, t') \<Longrightarrow> turns_left t' < turns_left t"
  by (auto simp: turns_left_def go_simps split: if_splits)

lemma record_mutation_turns: "record_mutation t = (Inr u, t') \<Longrightarrow> turns_left t' = turns_left t"
  by (auto simp: turns_left_def go_simps split: if_splits)

abbreviation left :: "('s, 'w) loop_state \<Rightarrow> nat" where
  "left s \<equiv> turns_left (ls_tracker s)"

lemma attempt_cases:
  assumes "attempt c k = (x, s')"
  obtains e where "c = (Inl e, s')" "x = Return (Inl e)"
  | y s where "c = (Inr y, s)" "k y s = (x, s')"
  using assms by (cases c; cases "fst c") (auto simp: attempt_def)

lemma in_world_eq: "in_world f s = (fst (f (ls_world s)), s\<lparr>ls_world := snd (f (ls_world s))\<rparr>)"
  by (simp add: in_world_def case_prod_beta Let_def)

text \<open>Observations of the state that the calls to the store and the validator, the pending approvals and
  the detector leave alone.\<close>

locale call_frame =
  fixes env :: "('s, 'w) agent_env"
    and f :: "('s, 'w) loop_state \<Rightarrow> 'a"
  assumes frame_store: "f (s\<lparr>ls_store := st\<rparr>) = f s"
    and frame_final: "f (s\<lparr>ls_world := snd (e_final env r (ls_world s))\<rparr>) = f s"
    and frame_current: "f (s\<lparr>ls_world := snd (e_current env r (ls_world s))\<rparr>) = f s"
    and frame_pending: "f (s\<lparr>ls_pending := p\<rparr>) = f s"
    and frame_detector: "f (s\<lparr>ls_detector := d\<rparr>) = f s"
begin

lemmas frames [simp] = frame_store frame_final frame_current frame_pending frame_detector

lemma call_frame [simp]:
  "f (snd (transition_payload env to t p r s)) = f s"
  "f (snd (transition_to env to t r s)) = f s"
  "f (snd (log_event env r t p s)) = f s"
  "f (snd (stop_run env c r s)) = f s"
  "f (snd (stopping env c r s)) = f s"
  "f (delete_pending i d s) = f s"
proof -
  show t: "f (snd (transition_payload env to t p r s)) = f s" for p
    using transition_frame [of env to t p r s] by (cases "transition_payload env to t p r s") fastforce
  show "f (snd (transition_to env to t r s)) = f s" by (simp add: transition_to_def t)
  show "f (snd (log_event env r t p s)) = f s"
    using log_frame [of env r t p s] by (cases "log_event env r t p s") fastforce
  show st: "f (snd (stop_run env c r s)) = f s"
    using stop_frame [of env c r s] by (cases "stop_run env c r s") fastforce
  then show "f (snd (stopping env c r s)) = f s" by (simp add: stopping_def)
  show "f (delete_pending i d s) = f s" by (simp add: delete_pending_def split: option.splits)
qed

lemma attempt_frame:
  assumes "f (snd c) = n" and "\<And>y s. f s = n \<Longrightarrow> f (snd (k y s)) = n"
  shows "f (snd (attempt c k)) = n"
  using assms by (cases c; cases "fst c") (auto simp: attempt_def)

lemma no_progress_frame [simp]: "f (snd (no_progress fb dd s)) = f s"
  by (auto simp: no_progress_def Let_def split: option.splits prod.splits)

lemma on_denied_frame: "f (snd (on_denied env r dec s)) = f s"
  by (auto simp: on_denied_def Let_def intro!: attempt_frame)

lemma on_approval_frame: "f (snd (on_approval env r a dec s)) = f s"
proof -
  let ?request = "new_approval_required (e_sha env) (profile r) a dec (ls_baselines s) (ls_redactor s)"
  let ?s1 = "s\<lparr>ls_pending := (ls_pending s)
    (rid r := Some \<lparr>pa_run = r\<lparr>state := StateAwaitingApproval\<rparr>, pa_action = a, pa_digest = d_digest dec\<rparr>)\<rparr>"
  obtain x s2 where x: "transition_payload env StateAwaitingApproval ''ApprovalRequired'' (PApproval ?request) r ?s1 = (x, s2)"
    by (rule prod.exhaust)
  have "f s2 = f s"
    using call_frame(1) [of StateAwaitingApproval "''ApprovalRequired''" "PApproval ?request" r ?s1] x by simp
  then show ?thesis using x by (cases x) (auto simp: on_approval_def Let_def)
qed

lemma on_finish_frame: "f (snd (on_finish env r s)) = f s"
  by (auto simp: on_finish_def Let_def in_world_eq intro!: attempt_frame)

lemma on_mutation_records:
  "f (snd (on_mutation env r res s)) = f (s\<lparr>ls_tracker := snd (record_mutation (ls_tracker s))\<rparr>)"
proof (cases "record_mutation (ls_tracker s)")
  case (Pair x t)
  show ?thesis
  proof (cases x)
    case (Inl e)
    then have "t = ls_tracker s" using Pair by (auto simp: go_simps split: if_splits)
    then show ?thesis using Inl Pair by (simp add: on_mutation_def)
  next
    case (Inr u)
    show ?thesis
      unfolding on_mutation_def Pair Inr
      by (auto simp: Let_def in_world_eq case_prod_beta intro!: attempt_frame)
  qed
qed

end

text \<open>Observations that see at most the turns left in the tracker.\<close>

locale handler_frame = call_frame +
  assumes frame_tracker: "turns_left t = left s \<Longrightarrow> f (s\<lparr>ls_tracker := t\<rparr>) = f s"
begin

lemma on_mutation_frame: "f (snd (on_mutation env r res s)) = f s"
proof -
  have "turns_left (snd (record_mutation (ls_tracker s))) = left s"
    by (auto simp: turns_left_def go_simps)
  then show ?thesis by (simp add: on_mutation_records frame_tracker)
qed

lemma on_executed_frame: "f (snd (on_executed env r prev a res s)) = f s"
  by (cases res) (auto simp: on_executed_def Let_def on_mutation_frame intro!: attempt_frame)

end

text \<open>Observations that the execution of an action leaves alone as well.\<close>

locale decision_frame = handler_frame +
  assumes frame_execute: "f (s\<lparr>ls_world := snd (e_execute env a (ls_world s))\<rparr>) = f s"
begin

lemma on_allowed_frame: "f (snd (on_allowed env r prev a s)) = f s"
  by (auto simp: on_allowed_def Let_def in_world_eq on_finish_frame on_executed_frame frame_execute intro!: attempt_frame)

lemma on_decision_frame: "f (snd (on_decision env r prev a s)) = f s"
  by (simp add: on_decision_def Let_def on_denied_frame on_approval_frame on_allowed_frame split: verdict.splits)

end

interpretation turns: decision_frame env left for env :: "('s, 'w) agent_env"
  by unfold_locales auto

lemma iterate_decreases:
  assumes "iterate env r prev s = (Continue r' prev', s')"
  shows "left s' < left s"
proof -
  obtain c w1 where c: "e_cancelled env (ls_world s) = (c, w1)" by (rule prod.exhaust)
  obtain n w2 where n: "e_now env w1 = (n, w2)" by (rule prod.exhaust)
  obtain resp w3 where d: "e_decide env (task r) prev w2 = (resp, w3)" by (rule prod.exhaust)
  let ?s = "s\<lparr>ls_world := w3\<rparr>"
  have stop: "stopping env code r st \<noteq> (Continue r' prev', s')" for code st
    by (simp add: stopping_def map_prod_def split: prod.splits)
  have repair: "left s' < left s" if "on_protocol_error env r prev err ?s = (Continue r' prev', s')" for err
  proof -
    obtain x t where x: "record_protocol_repair (ls_tracker s) = (x, t)" by (rule prod.exhaust)
    with that stop obtain u where "x = Inr u" by (cases x) (auto simp: on_protocol_error_def)
    moreover have "left (snd (attempt (log_event env r ''ProtocolError'' (PProtocolError err) (?s\<lparr>ls_tracker := t\<rparr>))
        (\<lambda>_ s. (Continue r prev, s)))) = turns_left t"
      by (auto intro!: turns.attempt_frame)
    ultimately have "left s' = turns_left t" using that x by (simp add: on_protocol_error_def)
    then show ?thesis using record_repair_turns x \<open>x = Inr u\<close> by simp
  qed
  have decide: "left s' < left s" if "record_decision (ls_tracker s) = (Inr u, t)"
    and "on_decision env r prev a (?s\<lparr>ls_tracker := t\<rparr>) = (Continue r' prev', s')" for u t a
    using record_decision_turns [OF that(1)] turns.on_decision_frame [of env r prev a "?s\<lparr>ls_tracker := t\<rparr>"] that(2) by simp
  show ?thesis
    using assms c n d stop repair decide
    by (auto simp: iterate_def in_world_eq Let_def split: if_splits sum.splits prod.splits)
qed

function agent_loop ::
    "('s, 'w) agent_env \<Rightarrow> run \<Rightarrow> structured_feedback option \<Rightarrow> ('s, 'w) loop_state
     \<Rightarrow> (loop_error, loop_result) result \<times> ('s, 'w) loop_state" where
  "agent_loop env r prev s =
     (case iterate env r prev s of
        (Return x, s') \<Rightarrow> (x, s')
      | (Continue r' prev', s') \<Rightarrow> agent_loop env r' prev' s')"
  by pat_completeness auto
termination
  by (relation "measure (\<lambda>(env, r, prev, s). left s)") (auto dest: iterate_decreases [OF sym])

declare agent_loop.simps [simp del]

section \<open>Starting a run\<close>

text \<open>The two guarded transitions before the loop, each with the run as it is then.\<close>

definition enter_preflight ::
    "('s, 'w) agent_env \<Rightarrow> run \<Rightarrow> ('s, 'w) loop_state \<Rightarrow> turn \<times> ('s, 'w) loop_state" where
  "enter_preflight env r s =
     (if state r = StateCreated
      then attempt (transition_to env StatePreflight ''PreflightComplete'' r s) (\<lambda>r s. (Continue r None, s))
      else (Continue r None, s))"

definition enter_baseline ::
    "('s, 'w) agent_env \<Rightarrow> run \<Rightarrow> ('s, 'w) loop_state \<Rightarrow> turn \<times> ('s, 'w) loop_state" where
  "enter_baseline env r s =
     (if state r = StatePreflight \<and> profile r \<noteq> ProfileReview
      then attempt (transition_to env StateBaselineValidating ''BaselineStarted'' r s) (\<lambda>r s.
        let (base, s) = in_world (e_baseline env r) s in
        if vr_passed base then stopping env ''NO_REPRODUCTION'' r s
        else attempt (log_event env r ''BaselineFailed'' (PValidation base) s) (\<lambda>_ s. (Continue r None, s)))
      else (Continue r None, s))"

definition enter_deciding ::
    "('s, 'w) agent_env \<Rightarrow> run \<Rightarrow> ('s, 'w) loop_state \<Rightarrow> turn \<times> ('s, 'w) loop_state" where
  "enter_deciding env r s =
     (if state r \<noteq> StateDeciding
      then attempt (transition_to env StateDeciding ''Deciding'' r s) (\<lambda>r s. (Continue r None, s))
      else (Continue r None, s))"

text \<open>One step after another, as long as the run continues.\<close>

definition proceed ::
    "turn \<times> ('s, 'w) loop_state \<Rightarrow> (run \<Rightarrow> ('s, 'w) loop_state \<Rightarrow> turn \<times> ('s, 'w) loop_state)
     \<Rightarrow> turn \<times> ('s, 'w) loop_state" where
  "proceed tr next = (case tr of (Return x, s) \<Rightarrow> (Return x, s) | (Continue r _, s) \<Rightarrow> next r s)"

definition start_run ::
    "('s, 'w) agent_env \<Rightarrow> run \<Rightarrow> ('s, 'w) loop_state \<Rightarrow> turn \<times> ('s, 'w) loop_state" where
  "start_run env r s =
     (let (cancelled, s) = in_world (e_cancelled env) s in
      if cancelled then stopping env ''USER_CANCELLED'' r s
      else proceed (proceed (enter_preflight env r s) (enter_baseline env)) (enter_deciding env))"

definition run_with ::
    "('s, 'w) agent_env \<Rightarrow> run \<Rightarrow> structured_feedback option \<Rightarrow> ('s, 'w) loop_state
     \<Rightarrow> (loop_error, loop_result) result \<times> ('s, 'w) loop_state" where
  "run_with env r prev s =
     (case start_run env r s of
        (Return x, s') \<Rightarrow> (x, s')
      | (Continue r' _, s') \<Rightarrow> agent_loop env r' prev s')"

definition run_agent ::
    "('s, 'w) agent_env \<Rightarrow> run \<Rightarrow> ('s, 'w) loop_state \<Rightarrow> (loop_error, loop_result) result \<times> ('s, 'w) loop_state" where
  "run_agent env r s = run_with env r None s"

section \<open>Approvals\<close>

text \<open>A turn that continues goes on with the loop, as \<^verbatim>\<open>l.run\<close> with its run and feedback.\<close>

definition go_on ::
    "('s, 'w) agent_env \<Rightarrow> turn \<times> ('s, 'w) loop_state \<Rightarrow> (loop_error, loop_result) result \<times> ('s, 'w) loop_state" where
  "go_on env tr = (case tr of (Return x, s) \<Rightarrow> (x, s) | (Continue r prev, s) \<Rightarrow> run_with env r prev s)"

text \<open>A pending mutation, once executed; \<^verbatim>\<open>i\<close> and \<^verbatim>\<open>d\<close> name the entry to delete.\<close>

definition resumed_mutation ::
    "('s, 'w) agent_env \<Rightarrow> run_id \<Rightarrow> digest \<Rightarrow> run \<Rightarrow> ('s, 'w) loop_state \<Rightarrow> turn \<times> ('s, 'w) loop_state" where
  "resumed_mutation env i d r s =
     (case record_mutation (ls_tracker s) of
        (Inl _, _) \<Rightarrow> stopping env ''BUDGET_EXHAUSTED'' r s
      | (Inr _, t) \<Rightarrow>
          attempt (transition_to env StateValidating ''ValidationStarted'' r (s\<lparr>ls_tracker := t\<rparr>)) (\<lambda>r s.
          let (current, s) = in_world (e_current env r) s in
          if \<not> vr_passed current then
            let fb = make_feedback env r [] (vr_observation current) in
            attempt (log_event env r ''ValidationFailed'' (PValidation current) s) (\<lambda>_ s.
            attempt (log_event env r ''FeedbackProduced'' (PFeedback fb) s) (\<lambda>_ s.
            attempt (transition_to env StateDeciding ''ValidationFeedback'' r s) (\<lambda>r s.
            (Continue r (Some fb), delete_pending i d s))))
          else
            attempt (log_event env r ''ValidationPassed'' (PValidation current) s) (\<lambda>_ s.
            let s = s\<lparr>ls_pending := (ls_pending s)(i := None)\<rparr> in
            attempt (transition_to env StateDeciding ''ActionComplete'' r s) (\<lambda>r s. (Continue r None, s)))))"

definition resume_approval ::
    "('s, 'w) agent_env \<Rightarrow> run_id \<Rightarrow> digest \<Rightarrow> ('s, 'w) loop_state
     \<Rightarrow> (loop_error, loop_result) result \<times> ('s, 'w) loop_state" where
  "resume_approval env i d s =
     (case (ls_pending s i, ls_grants s) of
        (Some p, Some g) \<Rightarrow>
          if pa_digest p \<noteq> d then (Inl ErrApprovalNotGranted, s)
          else
            (case consume d g of
               (False, g') \<Rightarrow> (Inl ErrApprovalNotGranted, s\<lparr>ls_grants := Some g'\<rparr>)
             | (True, g') \<Rightarrow>
                 go_on env
                   (attempt (transition_to env StateExecuting ''ApprovalGranted'' (pa_run p) (s\<lparr>ls_grants := Some g'\<rparr>))
                      (\<lambda>r s.
                        let (res, s) = in_world (e_execute env (pa_action p)) s in
                        case res of
                          Inl err \<Rightarrow> (Return (Inl (ErrAction err)), s)
                        | Inr _ \<Rightarrow>
                            if is_mutating (pa_action p) then resumed_mutation env i d r s
                            else (Continue r None, s\<lparr>ls_pending := (ls_pending s)(i := None)\<rparr>))))
      | _ \<Rightarrow> (Inl ErrApprovalNotGranted, s))"

definition reject_approval ::
    "('s, 'w) agent_env \<Rightarrow> run_id \<Rightarrow> digest \<Rightarrow> bool \<Rightarrow> ('s, 'w) loop_state
     \<Rightarrow> (loop_error, loop_result) result \<times> ('s, 'w) loop_state" where
  "reject_approval env i d terminate s =
     (case ls_pending s i of
        None \<Rightarrow> (Inl ErrApprovalRejectionMismatch, s)
      | Some p \<Rightarrow>
          if pa_digest p \<noteq> d then (Inl ErrApprovalRejectionMismatch, s)
          else
            go_on env
              (attempt (log_event env (pa_run p) ''ApprovalRejected'' (PDigest d) s) (\<lambda>_ s.
               if terminate then
                 (case stop_run env ''APPROVAL_REJECTED'' (pa_run p) s of
                    (Inr res, s') \<Rightarrow> (Return (Inr res), delete_pending i d s')
                  | (Inl e, s') \<Rightarrow> (Return (Inl e), s'))
               else
                 let fb = make_feedback env (pa_run p) ''APPROVAL_REJECTED''
                            (empty_observation\<lparr>stdout := ''user rejected the pending action''\<rparr>) in
                 attempt (log_event env (pa_run p) ''FeedbackProduced'' (PFeedback fb) s) (\<lambda>_ s.
                 attempt (transition_to env StateDeciding ''ApprovalRejectedContinued'' (pa_run p) s) (\<lambda>r s.
                 (Continue r (Some fb), delete_pending i d s))))))"

end
