(* ===== verification/Agent_Logic.thy ===== *)
theory Agent_Logic
  imports Agent_Loop
begin

text \<open>
  How properties of the governance loop are proved: a predicate on the run, the store and the
  world that every call of the environment keeps, under what the loop has established when it
  makes the call, holds when the loop returns. The contract of the calls is a locale; each
  property of the loop is an interpretation of it.
\<close>

section \<open>Outcomes\<close>

text \<open>What is pending was so before, which \<^verbatim>\<open>P\<close> tells, or belongs to the run.\<close>

definition own_pending :: "(run_id \<Rightarrow> pending_approval \<Rightarrow> bool) \<Rightarrow> run \<Rightarrow> ('s, 'w) loop_state \<Rightarrow> bool" where
  "own_pending P r s \<longleftrightarrow>
     (\<forall>i p. ls_pending s i = Some p \<longrightarrow> P i p \<or> (i = rid r \<and> (\<exists>x. pa_run p = r\<lparr>state := x\<rparr>)))"

lemma own_pending_True [simp]: "own_pending (\<lambda>_ _. True) r s"
  by (simp add: own_pending_def)

lemma own_pending_frame [simp]:
  "own_pending P r (s\<lparr>ls_store := st\<rparr>) = own_pending P r s"
  "own_pending P r (s\<lparr>ls_world := w\<rparr>) = own_pending P r s"
  "own_pending P r (s\<lparr>ls_tracker := t\<rparr>) = own_pending P r s"
  "own_pending P r (s\<lparr>ls_grants := g\<rparr>) = own_pending P r s"
  "own_pending P r (s\<lparr>ls_detector := d\<rparr>) = own_pending P r s"
  by (simp_all add: own_pending_def)

lemma own_pending_state [simp]: "own_pending P (r\<lparr>state := x\<rparr>) s = own_pending P r s"
  by (simp add: own_pending_def)

lemma own_pending_deleted:
  "own_pending P r s \<Longrightarrow> own_pending P r (s\<lparr>ls_pending := (ls_pending s)(i := None)\<rparr>)"
  "own_pending P r s \<Longrightarrow> own_pending P r (delete_pending i h s)"
  by (auto simp: own_pending_def delete_pending_def split: option.splits)

lemma own_pending_added:
  "own_pending P r s \<Longrightarrow> pa_run p = r\<lparr>state := x\<rparr> \<Longrightarrow> own_pending P r (s\<lparr>ls_pending := (ls_pending s)(rid r := Some p)\<rparr>)"
  by (auto simp: own_pending_def)

definition holds_in ::
    "(run \<Rightarrow> 's \<Rightarrow> 'w \<Rightarrow> bool) \<Rightarrow> (run_id \<Rightarrow> pending_approval \<Rightarrow> bool) \<Rightarrow> (string \<times> string) list \<Rightarrow> run \<Rightarrow> ('s, 'w) loop_state \<Rightarrow> bool" where
  "holds_in I P b r s \<longleftrightarrow> I r (ls_store s) (ls_world s) \<and> ls_baselines s = b \<and> own_pending P r s"

definition result_ok ::
    "(run \<Rightarrow> 's \<Rightarrow> 'w \<Rightarrow> bool) \<Rightarrow> (run_id \<Rightarrow> pending_approval \<Rightarrow> bool) \<Rightarrow> (string \<times> string) list
     \<Rightarrow> (loop_error, loop_result) result \<times> ('s, 'w) loop_state \<Rightarrow> bool" where
  "result_ok I P b out \<longleftrightarrow>
     (\<exists>r. holds_in I P b r (snd out) \<and> (\<forall>res. fst out = Inr res \<longrightarrow> lr_state res = state r))"

definition turn_ok ::
    "(run \<Rightarrow> 's \<Rightarrow> 'w \<Rightarrow> bool) \<Rightarrow> (run_id \<Rightarrow> pending_approval \<Rightarrow> bool) \<Rightarrow> (string \<times> string) list \<Rightarrow> turn \<times> ('s, 'w) loop_state \<Rightarrow> bool" where
  "turn_ok I P b tr \<longleftrightarrow>
     (case fst tr of Continue r _ \<Rightarrow> holds_in I P b r (snd tr) | Return x \<Rightarrow> result_ok I P b (x, snd tr))"

lemma turn_ok_simps:
  "turn_ok I P b (Continue r p, s) \<longleftrightarrow> holds_in I P b r s"
  "turn_ok I P b (Return x, s) \<longleftrightarrow> result_ok I P b (x, s)"
  by (simp_all add: turn_ok_def)

lemma loop_context_state [simp]: "loop_context (r\<lparr>state := x\<rparr>) b = loop_context r b"
  by (simp add: loop_context_def)

section \<open>The contract\<close>

locale loop_logic =
  fixes env :: "('s, 'w) agent_env"
    and I :: "run \<Rightarrow> 's \<Rightarrow> 'w \<Rightarrow> bool"
    and P :: "run_id \<Rightarrow> pending_approval \<Rightarrow> bool"
    and b :: "(string \<times> string) list"
  assumes update_fails: "I r st w \<Longrightarrow> e_update_if env (r\<lparr>state := to\<rparr>) (state r) t p st = (Inl e, st') \<Longrightarrow> I r st' w"
    and update_done: "I r st w \<Longrightarrow> transition (state r) to = Inr () \<Longrightarrow> to \<noteq> StateFinalValidating
      \<Longrightarrow> e_update_if env (r\<lparr>state := to\<rparr>) (state r) t p st = (Inr ev, st') \<Longrightarrow> I (r\<lparr>state := to\<rparr>) st' w"
    and detached_fails: "I r st w
      \<Longrightarrow> e_update_detached env (r\<lparr>state := StateStopped\<rparr>) (state r) t p st = (Inl e, st') \<Longrightarrow> I r st' w"
    and detached_done: "I r st w \<Longrightarrow> transition (state r) StateStopped = Inr ()
      \<Longrightarrow> e_update_detached env (r\<lparr>state := StateStopped\<rparr>) (state r) t p st = (Inr ev, st')
      \<Longrightarrow> I (r\<lparr>state := StateStopped\<rparr>) st' w"
    and append_keeps: "I r st w \<Longrightarrow> e_append env (rid r) t p st = (x, st') \<Longrightarrow> I r st' w"
    and cancelled_keeps: "I r st w \<Longrightarrow> e_cancelled env w = (x1, w') \<Longrightarrow> I r st w'"
    and now_keeps: "I r st w \<Longrightarrow> e_now env w = (x2, w') \<Longrightarrow> I r st w'"
    and decide_keeps: "I r st w \<Longrightarrow> e_decide env (task r) fb w = (x3, w') \<Longrightarrow> I r st w'"
    and baseline_keeps: "I r st w \<Longrightarrow> state r = StateBaselineValidating \<Longrightarrow> e_baseline env r w = (v, w') \<Longrightarrow> I r st w'"
    and current_keeps: "I r st w \<Longrightarrow> state r = StateValidating \<Longrightarrow> e_current env r w = (v, w') \<Longrightarrow> I r st w'"
    and final_keeps: "I r st w \<Longrightarrow> state r = StateValidating \<Longrightarrow> e_final env r w = (v, w') \<Longrightarrow> I r st w'"
    and final_passes: "I r st w \<Longrightarrow> state r = StateValidating \<Longrightarrow> profile r \<noteq> ProfileReview
      \<Longrightarrow> e_final env r w = (v, w') \<Longrightarrow> vr_passed v
      \<Longrightarrow> e_update_if env (r\<lparr>state := StateFinalValidating\<rparr>) (state r) t p st = (Inr ev, st')
      \<Longrightarrow> I (r\<lparr>state := StateFinalValidating\<rparr>) st' w'"
    and execute_keeps: "I r st w \<Longrightarrow> state r = StateExecuting \<Longrightarrow> kind a \<noteq> ''finish'' \<Longrightarrow> args a \<noteq> None
      \<Longrightarrow> verdict_of (evaluate (e_policy_hash env) (loop_context r b) a) = Allow
      \<Longrightarrow> e_execute env a w = (x4, w') \<Longrightarrow> I r st w'"
begin

lemma in_world_holds:
  assumes "in_world f s = (x, s')" and "holds_in I P b r s"
    and "\<And>w'. f (ls_world s) = (x, w') \<Longrightarrow> I r (ls_store s) (ls_world s) \<Longrightarrow> I r (ls_store s) w'"
  shows "holds_in I P b r s'"
  using assms by (auto simp: holds_in_def dest!: in_world_frame)

lemma transition_holds:
  assumes "transition_payload env to t p r s = (x, s')" and "holds_in I P b r s"
  shows "x = Inl e \<Longrightarrow> holds_in I P b r s'"
    and "x = Inr r' \<Longrightarrow> to \<noteq> StateFinalValidating \<Longrightarrow> holds_in I P b r' s' \<and> r' = r\<lparr>state := to\<rparr>"
proof -
  obtain y st where y: "e_update_if env (r\<lparr>state := to\<rparr>) (state r) t (e_encode env p) (ls_store s) = (y, st)"
    by (rule prod.exhaust)
  show "holds_in I P b r s'" if "x = Inl e"
    using assms y that update_fails [of r "ls_store s" "ls_world s" to t "e_encode env p" _ st]
    by (auto simp: transition_payload_def in_store_def holds_in_def split: sum.splits)
  show "holds_in I P b r' s' \<and> r' = r\<lparr>state := to\<rparr>" if "x = Inr r'" and "to \<noteq> StateFinalValidating"
    using assms y that update_done [of r "ls_store s" "ls_world s" to t "e_encode env p" _ st]
    by (auto simp: transition_payload_def in_store_def holds_in_def split: sum.splits)
qed

lemma result_error: "holds_in I P b r s \<Longrightarrow> result_ok I P b (Inl e, s)"
  by (auto simp: result_ok_def)

lemma result_state: "holds_in I P b r s \<Longrightarrow> result_ok I P b (Inr \<lparr>lr_state = state r, lr_stop_code = c\<rparr>, s)"
  by (auto simp: result_ok_def)

lemma result_moved: "holds_in I P b (r\<lparr>state := x\<rparr>) s \<Longrightarrow> result_ok I P b (Inr \<lparr>lr_state = x, lr_stop_code = c\<rparr>, s)"
  using result_state [of "r\<lparr>state := x\<rparr>" s c] by simp

lemma attempt_transition:
  assumes "holds_in I P b r s" and "to \<noteq> StateFinalValidating"
    and "\<And>s'. holds_in I P b (r\<lparr>state := to\<rparr>) s' \<Longrightarrow> turn_ok I P b (k (r\<lparr>state := to\<rparr>) s')"
  shows "turn_ok I P b (attempt (transition_to env to t r s) k)"
proof -
  obtain x s' where x: "transition_payload env to t PEmpty r s = (x, s')" by (rule prod.exhaust)
  show ?thesis
    using transition_holds [OF x assms(1)] assms(2,3)
    by (cases x) (auto simp: transition_to_def attempt_def x turn_ok_simps result_error)
qed

lemma log_holds:
  assumes "log_event env r t p s = (x, s')" and "holds_in I P b r s"
  shows "holds_in I P b r s'"
  using assms append_keeps [of r "ls_store s" "ls_world s"]
  by (auto simp: log_event_def in_store_def holds_in_def split: sum.splits prod.splits)

lemma attempt_log:
  assumes "holds_in I P b r s" and "\<And>s'. holds_in I P b r s' \<Longrightarrow> turn_ok I P b (k () s')"
  shows "turn_ok I P b (attempt (log_event env r t p s) k)"
proof -
  obtain x s' where x: "log_event env r t p s = (x, s')" by (rule prod.exhaust)
  then show ?thesis
    using log_holds [OF x assms(1)] assms(2) by (cases x) (auto simp: attempt_def turn_ok_simps result_error)
qed

lemma stop_run_ok:
  assumes "holds_in I P b r s"
  shows "result_ok I P b (stop_run env c r s)"
proof -
  obtain y st where y: "e_update_detached env (r\<lparr>state := StateStopped\<rparr>) (state r) ''RunStopped''
      (e_encode env (PReason c)) (ls_store s) = (y, st)"
    by (rule prod.exhaust)
  have "holds_in I P b (r\<lparr>state := StateStopped\<rparr>) (s\<lparr>ls_store := st\<rparr>)"
    if "y = Inr ev" and "transition (state r) StateStopped = Inr ()" for ev
    using assms y that detached_done by (auto simp: holds_in_def)
  moreover have "holds_in I P b r (s\<lparr>ls_store := st\<rparr>)" if "y = Inl e" for e
    using assms y that detached_fails by (auto simp: holds_in_def)
  ultimately show ?thesis
    using assms y result_state [of "r\<lparr>state := StateStopped\<rparr>" "s\<lparr>ls_store := st\<rparr>" c] result_state [OF assms, of c]
    by (cases y) (auto simp: stop_run_def in_store_def result_error split: sum.splits)
qed

lemma stopping_ok: "holds_in I P b r s \<Longrightarrow> turn_ok I P b (stopping env c r s)"
  using stop_run_ok [of r s c] by (cases "stop_run env c r s") (simp add: stopping_def turn_ok_simps)

lemma frame [simp]:
  "holds_in I P b r (s\<lparr>ls_tracker := t\<rparr>) \<longleftrightarrow> holds_in I P b r s"
  "holds_in I P b r (s\<lparr>ls_grants := g\<rparr>) \<longleftrightarrow> holds_in I P b r s"
  "holds_in I P b r (s\<lparr>ls_detector := d\<rparr>) \<longleftrightarrow> holds_in I P b r s"
  by (auto simp: holds_in_def)

lemma deleted [simp, intro]:
  "holds_in I P b r s \<Longrightarrow> holds_in I P b r (s\<lparr>ls_pending := (ls_pending s)(i := None)\<rparr>)"
  "holds_in I P b r s \<Longrightarrow> holds_in I P b r (delete_pending i h s)"
  by (auto simp: holds_in_def delete_pending_def own_pending_deleted split: option.splits)

lemma result_deleted: "result_ok I P b (x, s) \<Longrightarrow> result_ok I P b (x, delete_pending i h s)"
  unfolding result_ok_def by auto


lemma on_protocol_error_ok: "holds_in I P b r s \<Longrightarrow> turn_ok I P b (on_protocol_error env r prev err s)"
  by (cases "record_protocol_repair (ls_tracker s)"; cases "fst (record_protocol_repair (ls_tracker s))")
    (auto simp: on_protocol_error_def turn_ok_simps intro!: stopping_ok attempt_log)

lemma on_denied_ok: "holds_in I P b r s \<Longrightarrow> turn_ok I P b (on_denied env r dec s)"
  by (auto simp: on_denied_def Let_def turn_ok_simps intro!: attempt_log)

lemma on_approval_ok:
  assumes "holds_in I P b r s"
  shows "turn_ok I P b (on_approval env r a dec s)"
proof -
  let ?request = "new_approval_required (e_sha env) (profile r) a dec (ls_baselines s) (ls_redactor s)"
  let ?s1 = "s\<lparr>ls_pending := (ls_pending s)
    (rid r := Some \<lparr>pa_run = r\<lparr>state := StateAwaitingApproval\<rparr>, pa_action = a, pa_digest = d_digest dec\<rparr>)\<rparr>"
  obtain x s2 where x: "transition_payload env StateAwaitingApproval ''ApprovalRequired'' (PApproval ?request) r ?s1 = (x, s2)"
    by (rule prod.exhaust)
  have "holds_in I P b r ?s1" using assms by (auto simp: holds_in_def intro: own_pending_added)
  from transition_holds [OF x this] show ?thesis
    using x by (cases x) (auto simp: on_approval_def Let_def turn_ok_simps result_error intro: result_moved result_deleted)
qed

lemma on_finish_ok:
  assumes "holds_in I P b r s"
  shows "turn_ok I P b (on_finish env r s)"
proof (cases "profile r = ProfileReview")
  case True
  then show ?thesis
    using assms by (auto simp: on_finish_def turn_ok_simps intro!: attempt_transition intro: result_moved)
next
  case False
  have "turn_ok I P b (let (final, s) = in_world (e_final env r1) s1 in
        if \<not> vr_passed final then
          let fb = make_feedback env r1 ''REGRESSION'' (vr_observation final) in
          attempt (log_event env r1 ''ValidationFailed'' (PValidation final) s) (\<lambda>_ s.
          attempt (log_event env r1 ''FeedbackProduced'' (PFeedback fb) s) (\<lambda>_ s.
          attempt (transition_to env StateDeciding ''FinalRegression'' r1 s) (\<lambda>r s.
          (Continue r (Some fb), s))))
        else
          attempt (transition_to env StateFinalValidating ''FinalValidationPassed'' r1 s) (\<lambda>r s.
          attempt (transition_to env StateSucceeded ''RunSucceeded'' r s) (\<lambda>r s.
          (Return (Inr \<lparr>lr_state = state r, lr_stop_code = []\<rparr>), s))))"
    if r1: "r1 = r\<lparr>state := StateValidating\<rparr>" and s1: "holds_in I P b r1 s1" for r1 and s1 :: "('s, 'w) loop_state"
  proof -
    obtain v w where v: "e_final env r1 (ls_world s1) = (v, w)" by (rule prod.exhaust)
    let ?s = "s1\<lparr>ls_world := w\<rparr>"
    have s: "holds_in I P b r1 ?s"
      using s1 r1 v final_keeps [of r1 "ls_store s1" "ls_world s1" v w] by (simp add: holds_in_def)
    show ?thesis
    proof (cases "vr_passed v")
      case passed: True
      obtain x s2 where x: "transition_payload env StateFinalValidating ''FinalValidationPassed'' PEmpty r1 ?s = (x, s2)"
        by (rule prod.exhaust)
      have "turn_ok I P b (attempt (x, s2) (\<lambda>r s. attempt (transition_to env StateSucceeded ''RunSucceeded'' r s) (\<lambda>r s.
          (Return (Inr \<lparr>lr_state = state r, lr_stop_code = []\<rparr>), s))))"
      proof (cases x)
        case (Inl e)
        then show ?thesis using transition_holds(1) [OF x s] by (simp add: attempt_def turn_ok_simps result_error)
      next
        case (Inr r2)
        obtain y st where y: "e_update_if env (r1\<lparr>state := StateFinalValidating\<rparr>) (state r1) ''FinalValidationPassed''
            (e_encode env PEmpty) (ls_store s1) = (y, st)"
          by (rule prod.exhaust)
        have "r2 = r1\<lparr>state := StateFinalValidating\<rparr>" and "s2 = ?s\<lparr>ls_store := st\<rparr>" and "\<exists>ev. y = Inr ev"
          using x Inr y by (auto simp: transition_payload_def in_store_def split: sum.splits)
        moreover have "I (r1\<lparr>state := StateFinalValidating\<rparr>) st w" if "y = Inr ev" for ev
          using final_passes [of r1 "ls_store s1" "ls_world s1" v w] s1 r1 v passed y that False
          by (simp add: holds_in_def)
        ultimately have "holds_in I P b r2 s2" using s1 by (auto simp: holds_in_def)
        then show ?thesis
          unfolding Inr by (auto simp: attempt_def [of "(Inr r2, s2)"] turn_ok_simps intro!: attempt_transition intro: result_moved)
      qed
      then show ?thesis using v passed by (simp add: in_world_eq Let_def transition_to_def x)
    next
      case failed: False
      then show ?thesis
        using v s by (auto simp: in_world_eq Let_def turn_ok_simps intro!: attempt_transition attempt_log)
    qed
  qed
  then show ?thesis
    using assms False by (auto simp: on_finish_def intro!: attempt_transition)
qed


lemma current_holds:
  assumes "in_world (e_current env r) s = (v, s')" and "holds_in I P b r s" and "state r = StateValidating"
  shows "holds_in I P b r s'"
  using in_world_holds [OF assms(1,2)] current_keeps assms(3) by blast

lemma no_progress_holds [simp]: "holds_in I P b r (snd (no_progress fb dd s)) \<longleftrightarrow> holds_in I P b r s"
  by (auto simp: no_progress_def Let_def split: option.splits prod.splits)

lemma on_mutation_ok:
  assumes "holds_in I P b r s"
  shows "turn_ok I P b (on_mutation env r res s)"
proof (cases "record_mutation (ls_tracker s)")
  case (Pair x t)
  show ?thesis
  proof (cases x)
    case (Inl e)
    then show ?thesis using Pair assms by (simp add: on_mutation_def stopping_ok)
  next
    case (Inr u)
    have "turn_ok I P b (let (current, s) = in_world (e_current env r1) s1 in
          if \<not> vr_passed current then
            let fb = make_feedback env r1 [] (vr_observation current) in
            attempt (log_event env r1 ''ValidationFailed'' (PValidation current) s) (\<lambda>_ s.
            attempt (log_event env r1 ''FeedbackProduced'' (PFeedback fb) s) (\<lambda>_ s.
            attempt (transition_to env StateDeciding ''ValidationFeedback'' r1 s) (\<lambda>r s.
            let (halt, s) = no_progress fb (res_diff_digest res) s in
            if halt then stopping env ''NO_PROGRESS'' r s else (Continue r (Some fb), s))))
          else
            attempt (log_event env r1 ''ValidationPassed'' (PValidation current) s) (\<lambda>_ s.
            attempt (transition_to env StateDeciding ''ActionComplete'' r1 s) (\<lambda>r s.
            (Continue r (Some (validation_passed (vr_stage_id current))), s))))"
      if "state r1 = StateValidating" and "holds_in I P b r1 s1" for r1 and s1 :: "('s, 'w) loop_state"
    proof -
      obtain v s2 where v: "in_world (e_current env r1) s1 = (v, s2)" by (rule prod.exhaust)
      have "holds_in I P b r1 s2" using current_holds [OF v that(2,1)] .
      then show ?thesis
        unfolding v by (auto simp: Let_def case_prod_beta turn_ok_simps intro!: attempt_log attempt_transition stopping_ok)
    qed
    then show ?thesis
      unfolding on_mutation_def Pair Inr using assms by (auto intro!: attempt_transition)
  qed
qed

lemma on_executed_ok: "holds_in I P b r s \<Longrightarrow> turn_ok I P b (on_executed env r prev a res s)"
  by (cases res) (auto simp: on_executed_def Let_def turn_ok_simps intro!: on_mutation_ok attempt_log attempt_transition)

lemma on_allowed_ok:
  assumes "holds_in I P b r s" and "args a \<noteq> None"
    and "verdict_of (evaluate (e_policy_hash env) (loop_context r b) a) = Allow"
  shows "turn_ok I P b (on_allowed env r prev a s)"
proof -
  have "turn_ok I P b (let (res, s) = in_world (e_execute env a) s1 in on_executed env (r\<lparr>state := StateExecuting\<rparr>) prev a res s)"
    if s1: "holds_in I P b (r\<lparr>state := StateExecuting\<rparr>) s1" and "kind a \<noteq> ''finish''" for s1 :: "('s, 'w) loop_state"
  proof -
    obtain res s2 where e: "in_world (e_execute env a) s1 = (res, s2)" by (rule prod.exhaust)
    have "holds_in I P b (r\<lparr>state := StateExecuting\<rparr>) s2"
      using in_world_holds [OF e s1] execute_keeps [of "r\<lparr>state := StateExecuting\<rparr>"] that(2) assms(2,3) by auto
    then show ?thesis using on_executed_ok by (simp add: e)
  qed
  then show ?thesis using assms(1) on_finish_ok by (auto simp: on_allowed_def intro!: attempt_transition)
qed

lemma on_decision_ok:
  assumes "holds_in I P b r s" and "args a \<noteq> None"
  shows "turn_ok I P b (on_decision env r prev a s)"
  using assms on_denied_ok on_approval_ok on_allowed_ok
  by (auto simp: on_decision_def judge_def holds_in_def Let_def split: verdict.splits)

lemma iterate_ok:
  assumes "holds_in I P b r s"
  shows "turn_ok I P b (iterate env r prev s)"
proof -
  obtain c s1 where c: "in_world (e_cancelled env) s = (c, s1)" by (rule prod.exhaust)
  have h1: "holds_in I P b r s1" using in_world_holds [OF c assms] cancelled_keeps by blast
  obtain n s2 where n: "in_world (e_now env) s1 = (n, s2)" by (rule prod.exhaust)
  have h2: "holds_in I P b r s2" using in_world_holds [OF n h1] now_keeps by blast
  obtain d s3 where d: "in_world (e_decide env (task r) prev) s2 = (d, s3)" by (rule prod.exhaust)
  have h3: "holds_in I P b r s3" using in_world_holds [OF d h2] decide_keeps by blast
  have "turn_ok I P b (on_decision env r prev (action_of v) (s3\<lparr>ls_tracker := t\<rparr>))" if "valid_decision v" for v t
    using that h3 by (intro on_decision_ok) (simp_all add: valid_decision_def)
  then show ?thesis
    unfolding iterate_def c n d prod.case Let_def
    using h1 h2 h3 stopping_ok on_protocol_error_ok by (auto split: sum.splits prod.splits)
qed

lemma loop_ok:
  assumes "holds_in I P b r s"
  shows "result_ok I P b (agent_loop env r prev s)"
  using assms
proof (induction "left s" arbitrary: r prev s rule: less_induct)
  case less
  obtain t s' where t: "iterate env r prev s = (t, s')" by (rule prod.exhaust)
  show ?case
  proof (cases t)
    case (Continue r' prev')
    then show ?thesis
      using less.hyps [of s' r' prev'] iterate_decreases [of env r prev s r' prev' s'] iterate_ok [OF less.prems, of prev] t
      by (simp add: agent_loop.simps [of env r] turn_ok_simps)
  next
    case (Return x)
    then show ?thesis
      using iterate_ok [OF less.prems, of prev] t by (simp add: agent_loop.simps [of env r] turn_ok_simps)
  qed
qed

lemma proceed_ok:
  assumes "turn_ok I P b tr" and "\<And>r s. holds_in I P b r s \<Longrightarrow> turn_ok I P b (k r s)"
  shows "turn_ok I P b (proceed tr k)"
  using assms by (cases tr; cases "fst tr") (auto simp: proceed_def turn_ok_simps)

lemma enter_ok:
  assumes "holds_in I P b r s"
  shows "turn_ok I P b (enter_preflight env r s)" and "turn_ok I P b (enter_baseline env r s)"
    and "turn_ok I P b (enter_deciding env r s)"
proof -
  show "turn_ok I P b (enter_preflight env r s)" and "turn_ok I P b (enter_deciding env r s)"
    using assms by (auto simp: enter_preflight_def enter_deciding_def turn_ok_simps intro!: attempt_transition)
  have "turn_ok I P b (let (base, s) = in_world (e_baseline env r1) s1 in
        if vr_passed base then stopping env ''NO_REPRODUCTION'' r1 s
        else attempt (log_event env r1 ''BaselineFailed'' (PValidation base) s) (\<lambda>_ s. (Continue r1 None, s)))"
    if "state r1 = StateBaselineValidating" and "holds_in I P b r1 s1" for r1 and s1 :: "('s, 'w) loop_state"
  proof -
    obtain v s2 where v: "in_world (e_baseline env r1) s1 = (v, s2)" by (rule prod.exhaust)
    have "holds_in I P b r1 s2" using in_world_holds [OF v that(2)] baseline_keeps that(1) by blast
    then show ?thesis unfolding v by (auto simp: turn_ok_simps intro!: attempt_log stopping_ok)
  qed
  then show "turn_ok I P b (enter_baseline env r s)"
    using assms by (auto simp: enter_baseline_def turn_ok_simps intro!: attempt_transition)
qed

lemma start_ok:
  assumes "holds_in I P b r s"
  shows "turn_ok I P b (start_run env r s)"
proof -
  obtain c s1 where c: "in_world (e_cancelled env) s = (c, s1)" by (rule prod.exhaust)
  have "holds_in I P b r s1" using in_world_holds [OF c assms] cancelled_keeps by blast
  then show ?thesis
    unfolding start_run_def c by (auto intro!: stopping_ok proceed_ok enter_ok)
qed

theorem run_ok:
  assumes "holds_in I P b r s"
  shows "result_ok I P b (run_with env r prev s)"
  using start_ok [OF assms] loop_ok
  by (auto simp: run_with_def turn_ok_simps split: prod.splits turn.splits)

lemma go_on_ok: "turn_ok I P b tr \<Longrightarrow> result_ok I P b (go_on env tr)"
  using run_ok by (auto simp: go_on_def turn_ok_simps split: prod.splits turn.splits)

lemma resumed_mutation_ok:
  assumes "holds_in I P b r s"
  shows "turn_ok I P b (resumed_mutation env i d r s)"
proof (cases "record_mutation (ls_tracker s)")
  case (Pair x t)
  show ?thesis
  proof (cases x)
    case (Inl e)
    then show ?thesis using Pair assms by (simp add: resumed_mutation_def stopping_ok)
  next
    case (Inr u)
    have "turn_ok I P b (let (current, s) = in_world (e_current env r1) s1 in
          if \<not> vr_passed current then
            let fb = make_feedback env r1 [] (vr_observation current) in
            attempt (log_event env r1 ''ValidationFailed'' (PValidation current) s) (\<lambda>_ s.
            attempt (log_event env r1 ''FeedbackProduced'' (PFeedback fb) s) (\<lambda>_ s.
            attempt (transition_to env StateDeciding ''ValidationFeedback'' r1 s) (\<lambda>r s.
            (Continue r (Some fb), delete_pending i d s))))
          else
            attempt (log_event env r1 ''ValidationPassed'' (PValidation current) s) (\<lambda>_ s.
            let s = s\<lparr>ls_pending := (ls_pending s)(i := None)\<rparr> in
            attempt (transition_to env StateDeciding ''ActionComplete'' r1 s) (\<lambda>r s. (Continue r None, s))))"
      if "state r1 = StateValidating" and "holds_in I P b r1 s1" for r1 and s1 :: "('s, 'w) loop_state"
    proof -
      obtain v s2 where v: "in_world (e_current env r1) s1 = (v, s2)" by (rule prod.exhaust)
      have "holds_in I P b r1 s2" using current_holds [OF v that(2,1)] .
      then show ?thesis
        unfolding v by (auto simp: Let_def turn_ok_simps intro!: attempt_log attempt_transition)
    qed
    then show ?thesis
      unfolding resumed_mutation_def Pair Inr using assms by (auto intro!: attempt_transition)
  qed
qed

theorem resume_ok:
  assumes "ls_pending s i = Some p" and "holds_in I P b (pa_run p) s"
    and "\<And>r st w x w'. I r st w \<Longrightarrow> state r = StateExecuting \<Longrightarrow> e_execute env (pa_action p) w = (x, w') \<Longrightarrow> I r st w'"
  shows "result_ok I P b (resume_approval env i d s)"
proof -
  have "turn_ok I P b (let (res, s) = in_world (e_execute env (pa_action p)) s1 in
      case res of
        Inl err \<Rightarrow> (Return (Inl (ErrAction err)), s)
      | Inr _ \<Rightarrow>
          if is_mutating (pa_action p) then resumed_mutation env i d r1 s
          else (Continue r1 None, s\<lparr>ls_pending := (ls_pending s)(i := None)\<rparr>))"
    if "state r1 = StateExecuting" and "holds_in I P b r1 s1" for r1 and s1 :: "('s, 'w) loop_state"
  proof -
    obtain v s2 where v: "in_world (e_execute env (pa_action p)) s1 = (v, s2)" by (rule prod.exhaust)
    have "holds_in I P b r1 s2" using in_world_holds [OF v that(2)] assms(3) that(1) by blast
    then show ?thesis unfolding v
      by (auto simp: turn_ok_simps intro: result_error resumed_mutation_ok split: sum.splits)
  qed
  then show ?thesis
    using assms(1,2)
    by (auto simp: resume_approval_def intro!: result_error go_on_ok attempt_transition split: option.splits prod.splits bool.splits)
qed

theorem reject_ok:
  assumes "ls_pending s i = Some p" and "holds_in I P b (pa_run p) s"
  shows "result_ok I P b (reject_approval env i d terminate s)"
proof -
  have "turn_ok I P b (case stop_run env c (pa_run p) s1 of
      (Inr res, s') \<Rightarrow> (Return (Inr res), delete_pending i d s') | (Inl e, s') \<Rightarrow> (Return (Inl e), s'))"
    if "holds_in I P b (pa_run p) s1" for s1 c
    using stop_run_ok [OF that, of c] result_deleted by (auto simp: turn_ok_simps split: prod.splits sum.splits)
  then show ?thesis
    using assms by (auto simp: reject_approval_def Let_def turn_ok_simps
        intro!: result_error go_on_ok attempt_log attempt_transition)
qed

end

end
