(* ===== verification/Agent_Safety.thy ===== *)
theory Agent_Safety
  imports Agent_Logic
begin

text \<open>
  What the governance loop lets happen, whatever the provider, the tools, the validator, the clock
  and the store do: which actions are executed, when a run succeeds, how often the collaborators
  are called. The calls of the collaborators are recorded by wrapping the environment; a theorem
  shows that the recording changes nothing.
\<close>

section \<open>Recording the calls\<close>

datatype call =
    CallDecide
  | CallExecute action bool \<comment> \<open>whether it succeeded\<close>
  | CallBaseline bool
  | CallCurrent bool
  | CallFinal bool

definition unseen :: "('w \<Rightarrow> 'a \<times> 'w) \<Rightarrow> 'w \<times> call list \<Rightarrow> 'a \<times> 'w \<times> call list" where
  "unseen f wt = (let (x, w) = f (fst wt) in (x, w, snd wt))"

definition seen :: "('a \<Rightarrow> call) \<Rightarrow> ('w \<Rightarrow> 'a \<times> 'w) \<Rightarrow> 'w \<times> call list \<Rightarrow> 'a \<times> 'w \<times> call list" where
  "seen c f wt = (let (x, w) = f (fst wt) in (x, w, snd wt @ [c x]))"

definition traced :: "('s, 'w) agent_env \<Rightarrow> ('s, 'w \<times> call list) agent_env" where
  "traced env =
     \<lparr>e_cancelled = unseen (e_cancelled env), e_now = unseen (e_now env),
      e_decide = (\<lambda>t fb. seen (\<lambda>_. CallDecide) (e_decide env t fb)),
      e_execute = (\<lambda>a. seen (\<lambda>x. CallExecute a (\<not> isl x)) (e_execute env a)),
      e_baseline = (\<lambda>r. seen (\<lambda>v. CallBaseline (vr_passed v)) (e_baseline env r)),
      e_current = (\<lambda>r. seen (\<lambda>v. CallCurrent (vr_passed v)) (e_current env r)),
      e_final = (\<lambda>r. seen (\<lambda>v. CallFinal (vr_passed v)) (e_final env r)),
      e_update_if = e_update_if env, e_update_detached = e_update_detached env, e_append = e_append env,
      e_encode = e_encode env, e_policy_hash = e_policy_hash env, e_sha = e_sha env, e_feedback = e_feedback env\<rparr>"

lemma traced_fields [simp]:
  "e_cancelled (traced env) = unseen (e_cancelled env)" "e_now (traced env) = unseen (e_now env)"
  "e_decide (traced env) t fb = seen (\<lambda>_. CallDecide) (e_decide env t fb)"
  "e_execute (traced env) a = seen (\<lambda>x. CallExecute a (\<not> isl x)) (e_execute env a)"
  "e_baseline (traced env) r = seen (\<lambda>v. CallBaseline (vr_passed v)) (e_baseline env r)"
  "e_current (traced env) r = seen (\<lambda>v. CallCurrent (vr_passed v)) (e_current env r)"
  "e_final (traced env) r = seen (\<lambda>v. CallFinal (vr_passed v)) (e_final env r)"
  "e_update_if (traced env) = e_update_if env" "e_update_detached (traced env) = e_update_detached env"
  "e_append (traced env) = e_append env" "e_encode (traced env) = e_encode env"
  "e_policy_hash (traced env) = e_policy_hash env" "e_sha (traced env) = e_sha env"
  "e_feedback (traced env) = e_feedback env"
  by (simp_all add: traced_def)

lemma seen_eqs:
  "unseen f (w, tr) = (x, wt) \<longleftrightarrow> (\<exists>w'. f w = (x, w') \<and> wt = (w', tr))"
  "seen c f (w, tr) = (x, wt) \<longleftrightarrow> (\<exists>w'. f w = (x, w') \<and> wt = (w', tr @ [c x]))"
  by (auto simp: unseen_def seen_def split: prod.splits)

text \<open>A state with a record of the calls so far, and the state without the record.\<close>

definition with_trace :: "call list \<Rightarrow> ('s, 'w) loop_state \<Rightarrow> ('s, 'w \<times> call list) loop_state" where
  "with_trace tr s =
     \<lparr>ls_store = ls_store s, ls_world = (ls_world s, tr), ls_tracker = ls_tracker s, ls_detector = ls_detector s,
      ls_grants = ls_grants s, ls_pending = ls_pending s, ls_baselines = ls_baselines s, ls_redactor = ls_redactor s\<rparr>"

definition erase :: "('s, 'w \<times> call list) loop_state \<Rightarrow> ('s, 'w) loop_state" where
  "erase s =
     \<lparr>ls_store = ls_store s, ls_world = fst (ls_world s), ls_tracker = ls_tracker s, ls_detector = ls_detector s,
      ls_grants = ls_grants s, ls_pending = ls_pending s, ls_baselines = ls_baselines s, ls_redactor = ls_redactor s\<rparr>"

definition trace_of :: "('s, 'w \<times> call list) loop_state \<Rightarrow> call list" where
  "trace_of s = snd (ls_world s)"

lemma with_trace_simps [simp]:
  "ls_store (with_trace tr s) = ls_store s" "ls_world (with_trace tr s) = (ls_world s, tr)"
  "ls_tracker (with_trace tr s) = ls_tracker s" "ls_baselines (with_trace tr s) = ls_baselines s"
  "ls_pending (with_trace tr s) = ls_pending s" "ls_grants (with_trace tr s) = ls_grants s"
  "erase (with_trace tr s) = s" "trace_of (with_trace tr s) = tr"
  by (simp_all add: with_trace_def erase_def trace_of_def)

lemma erase_simps [simp]:
  "ls_store (erase s) = ls_store s" "ls_world (erase s) = fst (ls_world s)" "ls_tracker (erase s) = ls_tracker s"
  "ls_detector (erase s) = ls_detector s" "ls_grants (erase s) = ls_grants s" "ls_pending (erase s) = ls_pending s"
  "ls_baselines (erase s) = ls_baselines s" "ls_redactor (erase s) = ls_redactor s"
  "erase (s\<lparr>ls_store := st\<rparr>) = (erase s)\<lparr>ls_store := st\<rparr>" "erase (s\<lparr>ls_tracker := t\<rparr>) = (erase s)\<lparr>ls_tracker := t\<rparr>"
  "erase (s\<lparr>ls_detector := d\<rparr>) = (erase s)\<lparr>ls_detector := d\<rparr>" "erase (s\<lparr>ls_grants := g\<rparr>) = (erase s)\<lparr>ls_grants := g\<rparr>"
  "erase (s\<lparr>ls_pending := p\<rparr>) = (erase s)\<lparr>ls_pending := p\<rparr>"
  "erase (s\<lparr>ls_world := wt\<rparr>) = (erase s)\<lparr>ls_world := fst wt\<rparr>"
  by (simp_all add: erase_def)

abbreviation forget :: "'a \<times> ('s, 'w \<times> call list) loop_state \<Rightarrow> 'a \<times> ('s, 'w) loop_state" where
  "forget \<equiv> map_prod id erase"

lemma forget_world [simp]:
  "forget (in_world (unseen f) s) = in_world f (erase s)" "forget (in_world (seen c f) s) = in_world f (erase s)"
  by (simp_all add: in_world_def unseen_def seen_def split: prod.splits)

lemma forget_store [simp]: "forget (in_store f s) = in_store f (erase s)"
  by (simp add: in_store_def split: prod.splits)

lemma forget_transition [simp]:
  "forget (transition_payload (traced env) to t p r s) = transition_payload env to t p r (erase s)"
  by (auto simp: transition_payload_def in_store_def simp del: transition_Inr split: sum.splits prod.splits)

lemma forget_transition_to [simp]: "forget (transition_to (traced env) to t r s) = transition_to env to t r (erase s)"
  by (simp add: transition_to_def)

lemma forget_log [simp]: "forget (log_event (traced env) r t p s) = log_event env r t p (erase s)"
  by (auto simp: log_event_def in_store_def split: sum.splits prod.splits)

lemma forget_stop [simp]: "forget (stop_run (traced env) c r s) = stop_run env c r (erase s)"
  by (auto simp: stop_run_def in_store_def simp del: transition_Inr split: sum.splits prod.splits)

lemma forget_feedback [simp]: "make_feedback (traced env) r c obs = make_feedback env r c obs"
  by (simp add: make_feedback_def)

lemma forget_attempt:
  assumes "forget c = c'" and "\<And>x s. forget (k x s) = k' x (erase s)"
  shows "forget (attempt c k) = attempt c' k'"
  using assms by (cases c; cases "fst c") (auto simp: attempt_def)

lemma forget_stopping [simp]: "forget (stopping (traced env) c r s) = stopping env c r (erase s)"
  using forget_stop [of env c r s] by (simp add: stopping_def map_prod_def case_prod_beta prod_eq_iff)

lemma forget_delete [simp]: "erase (delete_pending i d s) = delete_pending i d (erase s)"
  by (simp add: delete_pending_def split: option.splits)

lemma seen_parts [simp]:
  "fst (unseen f wt) = fst (f (fst wt))" "fst (snd (unseen f wt)) = snd (f (fst wt))" "snd (snd (unseen f wt)) = snd wt"
  "fst (seen c f wt) = fst (f (fst wt))" "fst (snd (seen c f wt)) = snd (f (fst wt))"
  "snd (snd (seen c f wt)) = snd wt @ [c (fst (f (fst wt)))]"
  by (simp_all add: unseen_def seen_def case_prod_beta Let_def)

lemma forget_protocol [simp]:
  "forget (on_protocol_error (traced env) r prev err s) = on_protocol_error env r prev err (erase s)"
  by (auto simp: on_protocol_error_def intro!: forget_attempt split: prod.splits sum.splits)

lemma forget_denied [simp]: "forget (on_denied (traced env) r dec s) = on_denied env r dec (erase s)"
  by (auto simp: on_denied_def Let_def intro!: forget_attempt)

lemma forget_approval [simp]: "forget (on_approval (traced env) r a dec s) = on_approval env r a dec (erase s)"
proof -
  let ?request = "new_approval_required (e_sha env) (profile r) a dec (ls_baselines s) (ls_redactor s)"
  let ?p = "(ls_pending s)
    (rid r := Some \<lparr>pa_run = r\<lparr>state := StateAwaitingApproval\<rparr>, pa_action = a, pa_digest = d_digest dec\<rparr>)"
  obtain x s2 where x: "transition_payload (traced env) StateAwaitingApproval ''ApprovalRequired'' (PApproval ?request) r
      (s\<lparr>ls_pending := ?p\<rparr>) = (x, s2)"
    by (rule prod.exhaust)
  then have "transition_payload env StateAwaitingApproval ''ApprovalRequired'' (PApproval ?request) r
      ((erase s)\<lparr>ls_pending := ?p\<rparr>) = (x, erase s2)"
    using forget_transition [of env StateAwaitingApproval "''ApprovalRequired''" "PApproval ?request" r "s\<lparr>ls_pending := ?p\<rparr>"]
    by simp
  then show ?thesis using x by (cases x) (simp_all add: on_approval_def Let_def)
qed

lemma forget_finish [simp]: "forget (on_finish (traced env) r s) = on_finish env r (erase s)"
  by (auto simp: on_finish_def in_world_eq Let_def intro!: forget_attempt)

lemma forget_progress [simp]: "forget (no_progress fb dd s) = no_progress fb dd (erase s)"
  by (auto simp: no_progress_def Let_def split: option.splits prod.splits)

lemma forget_mutation [simp]: "forget (on_mutation (traced env) r res s) = on_mutation env r res (erase s)"
proof (cases "record_mutation (ls_tracker s)")
  case (Pair x t)
  show ?thesis
  proof (cases x)
    case (Inr u)
    have "forget (let (halt, s) = no_progress fb dd s1 in
        if halt then stopping (traced env) c r1 s else (Continue r1 (Some fb), s))
      = (let (halt, s) = no_progress fb dd (erase s1) in
        if halt then stopping env c r1 s else (Continue r1 (Some fb), s))" for fb dd s1 r1 c
      unfolding forget_progress [symmetric] by (cases "no_progress fb dd s1") simp
    then show ?thesis
      unfolding on_mutation_def Pair Inr
      by (auto simp: in_world_eq Let_def Pair Inr intro!: forget_attempt)
  qed (simp add: on_mutation_def Pair)
qed

lemma forget_executed [simp]:
  "forget (on_executed (traced env) r prev a res s) = on_executed env r prev a res (erase s)"
  by (cases res) (auto simp: on_executed_def Let_def intro!: forget_attempt)

lemma forget_allowed [simp]: "forget (on_allowed (traced env) r prev a s) = on_allowed env r prev a (erase s)"
  by (auto simp: on_allowed_def in_world_eq Let_def intro!: forget_attempt)

lemma forget_decision [simp]: "forget (on_decision (traced env) r prev a s) = on_decision env r prev a (erase s)"
  by (simp add: on_decision_def judge_def Let_def split: verdict.splits)

lemma forget_iterate: "forget (iterate (traced env) r prev s) = iterate env r prev (erase s)"
  by (auto simp: iterate_def in_world_eq Let_def split: sum.splits prod.splits)

lemma forget_loop [simp]: "forget (agent_loop (traced env) r prev s) = agent_loop env r prev (erase s)"
proof (induction "left s" arbitrary: r prev s rule: less_induct)
  case less
  obtain t s' where t: "iterate (traced env) r prev s = (t, s')" by (rule prod.exhaust)
  then have t': "iterate env r prev (erase s) = (t, erase s')" using forget_iterate [of env r prev s] by simp
  show ?case
  proof (cases t)
    case (Continue r' prev')
    then have "left s' < left s" using iterate_decreases t by blast
    then show ?thesis
      using less [of s' r' prev'] Continue t t' by (simp add: agent_loop.simps [of _ r])
  next
    case (Return x)
    then show ?thesis using t t' by (simp add: agent_loop.simps [of _ r])
  qed
qed

lemma forget_proceed:
  assumes "forget tr = tr'" and "\<And>r s. forget (k r s) = k' r (erase s)"
  shows "forget (proceed tr k) = proceed tr' k'"
  using assms by (cases tr; cases "fst tr") (auto simp: proceed_def)

lemma forget_enter [simp]:
  "forget (enter_preflight (traced env) r s) = enter_preflight env r (erase s)"
  "forget (enter_baseline (traced env) r s) = enter_baseline env r (erase s)"
  "forget (enter_deciding (traced env) r s) = enter_deciding env r (erase s)"
  by (auto simp: enter_preflight_def enter_baseline_def enter_deciding_def in_world_eq intro!: forget_attempt)

lemma forget_start [simp]: "forget (start_run (traced env) r s) = start_run env r (erase s)"
  by (auto simp: start_run_def in_world_eq intro!: forget_proceed)

lemma forget_run [simp]: "forget (run_with (traced env) r prev s) = run_with env r prev (erase s)"
proof -
  obtain t s' where t: "start_run (traced env) r s = (t, s')" by (rule prod.exhaust)
  then have "start_run env r (erase s) = (t, erase s')" using forget_start [of env r s] by simp
  then show ?thesis using t by (cases t) (simp_all add: run_with_def)
qed

lemma forget_go_on:
  assumes "forget tr = tr'"
  shows "forget (go_on (traced env) tr) = go_on env tr'"
  using assms by (cases tr; cases "fst tr") (auto simp: go_on_def)

lemma forget_resumed [simp]:
  "forget (resumed_mutation (traced env) i d r s) = resumed_mutation env i d r (erase s)"
  by (cases "record_mutation (ls_tracker s)"; cases "fst (record_mutation (ls_tracker s))")
    (auto simp: resumed_mutation_def in_world_eq Let_def intro!: forget_attempt)

lemma forget_resume: "forget (resume_approval (traced env) i d s) = resume_approval env i d (erase s)"
  by (auto simp: resume_approval_def in_world_eq intro!: forget_go_on forget_attempt
      split: option.splits prod.splits bool.splits sum.splits)

section \<open>Only allowed actions are executed\<close>

fun executed :: "call list \<Rightarrow> action list" where
  "executed [] = []"
| "executed (CallExecute a ok # cs) = a # executed cs"
| "executed (_ # cs) = executed cs"

lemma executed_append [simp]: "executed (cs @ ds) = executed cs @ executed ds"
  by (induction cs rule: executed.induct) auto

definition allowed_actions ::
    "('s, 'w) agent_env \<Rightarrow> run \<Rightarrow> (string \<times> string) list \<Rightarrow> action set" where
  "allowed_actions env r b =
     {a. verdict_of (evaluate (e_policy_hash env) (loop_context r b) a) = Allow \<and> kind a \<noteq> ''finish'' \<and> args a \<noteq> None}"

definition within_policy ::
    "('s, 'w) agent_env \<Rightarrow> run \<Rightarrow> (string \<times> string) list \<Rightarrow> action set \<Rightarrow> run \<Rightarrow> 's \<Rightarrow> 'w \<times> call list \<Rightarrow> bool" where
  "within_policy env r0 b extra r st wt \<longleftrightarrow>
     rid r = rid r0 \<and> profile r = profile r0 \<and> set (executed (snd wt)) \<subseteq> allowed_actions env r0 b \<union> extra"

lemma same_context: "rid r = rid r0 \<Longrightarrow> profile r = profile r0 \<Longrightarrow> loop_context r b = loop_context r0 b"
  by (simp add: loop_context_def)

interpretation policy_logic: loop_logic "traced env" "within_policy env r0 b extra" "\<lambda>_ _. True" b
  for env :: "('s, 'w) agent_env" and r0 b extra
proof (unfold_locales, goal_cases)
  case (13 r st w a x4 w')
  then show ?case
    using same_context [of r r0 b] by (cases w) (auto simp: within_policy_def allowed_actions_def seen_eqs)
qed (auto simp: within_policy_def seen_eqs unseen_def seen_def split: prod.splits)

lemma run_check_denied:
  assumes "kind a = ''run_check''"
  shows "verdict_of (evaluate H (loop_context r b) a) = Deny"
proof (rule ccontr)
  assume "verdict_of (evaluate H (loop_context r b) a) \<noteq> Deny"
  then obtain raw where "fst (fst (validate_canonical_action (loop_context r b) (kind a) raw (inspect_args (decode_any raw))))
      \<noteq> RiskHardDenied"
    by (rule evaluate_not_denied) blast
  then show False
    using assms
    by (auto simp: validate_canonical_action_def validate_run_check_def loop_context_def Let_def
        split: option.splits if_splits)
qed

lemma mutation_needs_auto:
  assumes "verdict_of (evaluate H (loop_context r b) a) = Allow" and "is_mutating a"
  shows "profile r = ProfileWorkspaceAuto"
proof -
  obtain ra c m where cl: "classify_risk (loop_context r b) a = (ra, c, m)" by (cases "classify_risk (loop_context r b) a")
  have "is_mutation (kind a)" using assms(2) by (auto simp: is_mutating_def is_mutation_def)
  then show ?thesis
    using assms(1) cl
    by (cases "profile r") (auto simp: evaluate_def Let_def loop_context_def split: if_splits)
qed

text \<open>C1. Whatever the provider proposes and the collaborators do, a run executes only actions that
  the policy engine allows outright for its profile, identifier and baselines: never one that is
  denied or needs an approval, never a configured check, and file changes only under the
  automatic profile. Recording the calls changes neither result nor state.\<close>

theorem only_allowed_actions_run:
  "let out = run_agent (traced env) r (with_trace [] s); done = executed (trace_of (snd out))
   in forget out = run_agent env r s
    \<and> set done \<subseteq> allowed_actions env r (ls_baselines s)
    \<and> (\<forall>a \<in> set done. kind a \<noteq> ''run_check'' \<and> (is_mutating a \<longrightarrow> profile r = ProfileWorkspaceAuto))"
proof -
  let ?b = "ls_baselines s"
  have "holds_in (within_policy env r ?b {}) (\<lambda>_ _. True) ?b r (with_trace [] s)"
    by (simp add: holds_in_def within_policy_def)
  from policy_logic.run_ok [OF this, of None]
  have sub: "set (executed (trace_of (snd (run_agent (traced env) r (with_trace [] s))))) \<subseteq> allowed_actions env r ?b"
    by (auto simp: result_ok_def holds_in_def within_policy_def trace_of_def run_agent_def)
  have kinds: "kind a \<noteq> ''run_check'' \<and> (is_mutating a \<longrightarrow> profile r = ProfileWorkspaceAuto)"
    if "a \<in> allowed_actions env r ?b" for a
    using that run_check_denied [of a "e_policy_hash env" r ?b] mutation_needs_auto [of "e_policy_hash env" r ?b a]
    by (auto simp: allowed_actions_def)
  have "forget (run_agent (traced env) r (with_trace [] s)) = run_agent env r s"
    by (simp add: run_agent_def)
  then show ?thesis using sub kinds unfolding Let_def by blast
qed

section \<open>Success\<close>

definition effects :: "call list \<Rightarrow> call list" where
  "effects cs = filter (\<lambda>c. c \<noteq> CallDecide) cs"

definition validated_last :: "run \<Rightarrow> run \<Rightarrow> 's \<Rightarrow> 'w \<times> call list \<Rightarrow> bool" where
  "validated_last r0 r st wt \<longleftrightarrow> profile r = profile r0 \<and>
     (state r \<in> {StateFinalValidating, StateSucceeded} \<longrightarrow>
       (\<exists>cs. effects (snd wt) = cs @ [CallFinal True]) \<and> profile r0 \<noteq> ProfileReview)"

interpretation success_logic: loop_logic "traced env" "validated_last r0" "\<lambda>_ _. True" b
  for env :: "('s, 'w) agent_env" and r0 b
proof (unfold_locales, goal_cases)
  case (2 r st w to t p ev st')
  then show ?case by (cases "state r") (auto simp: validated_last_def may_step_iff)
next
  case (8 r st w fb x3 w')
  then show ?case by (cases w) (auto simp: validated_last_def effects_def seen_eqs)
next
  case (12 r st w v w' t p ev st')
  then show ?case by (cases w) (auto simp: validated_last_def effects_def seen_eqs)
qed (auto simp: validated_last_def unseen_def seen_def split: prod.splits)

text \<open>C21. A run that succeeds has just passed the final validation: the last thing that happened
  outside the provider is a final validation that passed, so no action was executed and nothing
  else was validated after it; and the profile is not the review profile.\<close>

theorem success_needs_final_validation:
  assumes "run_agent (traced env) r (with_trace [] s) = (Inr res, s')" and "lr_state res = StateSucceeded"
    and "state r \<notin> {StateFinalValidating, StateSucceeded}"
  shows "(\<exists>cs. effects (trace_of s') = cs @ [CallFinal True]) \<and> profile r \<noteq> ProfileReview"
proof -
  have "holds_in (validated_last r) (\<lambda>_ _. True) (ls_baselines s) r (with_trace [] s)"
    using assms(3) by (simp add: holds_in_def validated_last_def)
  from success_logic.run_ok [OF this, of env None] show ?thesis
    using assms(1,2) by (auto simp: result_ok_def holds_in_def validated_last_def trace_of_def run_agent_def)
qed

section \<open>A run that succeeds\<close>

text \<open>Collaborators for the witnesses: the provider asks to finish, the baseline fails, the final
  validation passes, and the store accepts every call.\<close>

definition finish_action :: action where
  "finish_action = \<lparr>kind = ''finish'', args = Some (JObj [])\<rparr>"

definition verdict_of_stage :: "bool \<Rightarrow> validation_result" where
  "verdict_of_stage ok = \<lparr>vr_stage_id = ''test'', vr_passed = ok, vr_observation = empty_observation\<rparr>"

definition sample_env :: "(unit, 'w) agent_env" where
  "sample_env =
     \<lparr>e_cancelled = Pair False, e_now = Pair 0,
      e_decide = (\<lambda>_ _. Pair (Inr \<lparr>version = ''1'', action_of = finish_action, expected_outcome = []\<rparr>)),
      e_execute = (\<lambda>_. Pair (Inl ''none'')),
      e_baseline = (\<lambda>_. Pair (verdict_of_stage False)), e_current = (\<lambda>_. Pair (verdict_of_stage False)),
      e_final = (\<lambda>_. Pair (verdict_of_stage True)),
      e_update_if = (\<lambda>r _ t p. Pair (Inr (new_event id (rid r) 1 t p [] 0))),
      e_update_detached = (\<lambda>r _ t p. Pair (Inr (new_event id (rid r) 1 t p [] 0))),
      e_append = (\<lambda>i t p. Pair (Inr (new_event id i 1 t p [] 0))),
      e_encode = (\<lambda>_. ''{}''), e_policy_hash = (\<lambda>_. []), e_sha = id,
      e_feedback = \<lparr>fp_max_evidence = 0, fp_max_summary = 0\<rparr>\<rparr>"

definition sample_state :: "(unit, unit) loop_state" where
  "sample_state =
     \<lparr>ls_store = (), ls_world = (), ls_tracker = new_tracker \<lparr>max_decisions = 3, max_mutations = 1,
        max_protocol_repairs = 1, wall_clock = 60\<rparr> 0, ls_detector = None, ls_grants = Some {},
      ls_pending = (\<lambda>_. None), ls_baselines = [], ls_redactor = []\<rparr>"

definition fresh_run :: "permission_profile \<Rightarrow> run" where
  "fresh_run p = \<lparr>rid = ''r'', state = StateCreated, profile = p, task = ''t'', repo_root = ''/repo'',
     current_stage = [], created_at = 0, updated_at = 0\<rparr>"

lemma only_allowed_actions_run_witness:
  "forget (run_agent (traced sample_env) (fresh_run ProfileReview) (with_trace [] sample_state))
   = run_agent sample_env (fresh_run ProfileReview) sample_state"
  using only_allowed_actions_run [of sample_env "fresh_run ProfileReview" sample_state] by (simp add: Let_def)

lemma finish_allowed:
  "verdict_of (evaluate (\<lambda>_. []) (loop_context (fresh_run ProfileWorkspaceAuto) []) finish_action) = Allow"
  by code_simp

lemma sample_env_fields [simp]:
  "e_cancelled sample_env = Pair False" "e_now sample_env = Pair 0"
  "e_decide sample_env t fb = Pair (Inr \<lparr>version = ''1'', action_of = finish_action, expected_outcome = []\<rparr>)"
  "e_baseline sample_env r = Pair (verdict_of_stage False)" "e_current sample_env r = Pair (verdict_of_stage False)"
  "e_final sample_env r = Pair (verdict_of_stage True)" "e_execute sample_env a = Pair (Inl ''none'')"
  "e_update_if sample_env r x t p st = (Inr (new_event id (rid r) 1 t p [] 0), st)"
  "e_update_detached sample_env r x t p st = (Inr (new_event id (rid r) 1 t p [] 0), st)"
  "e_append sample_env i t p st = (Inr (new_event id i 1 t p [] 0), st)"
  "e_policy_hash sample_env = (\<lambda>_. [])"
  by (simp_all add: sample_env_def)

lemmas handler_simps = in_world_eq in_store_def attempt_def transition_to_def transition_payload_def log_event_def
  may_step_iff transition_def seen_def unseen_def proceed_def verdict_of_stage_def

lemma sample_start:
  "\<exists>s'. start_run (traced sample_env) (fresh_run ProfileWorkspaceAuto) (with_trace [] sample_state)
   = (Continue ((fresh_run ProfileWorkspaceAuto)\<lparr>state := StateDeciding\<rparr>) None, s')
   \<and> ls_tracker s' = ls_tracker sample_state \<and> ls_baselines s' = []"
  by (simp add: start_run_def enter_preflight_def enter_baseline_def enter_deciding_def handler_simps fresh_run_def
      sample_state_def)

lemma sample_iterate:
  assumes "ls_tracker s = ls_tracker sample_state" and "ls_baselines s = []"
  shows "\<exists>s'. iterate (traced sample_env) ((fresh_run ProfileWorkspaceAuto)\<lparr>state := StateDeciding\<rparr>) None s
    = (Return (Inr \<lparr>lr_state = StateSucceeded, lr_stop_code = []\<rparr>), s')"
proof -
  let ?r = "(fresh_run ProfileWorkspaceAuto)\<lparr>state := StateDeciding\<rparr>"
  have t: "check_time (ls_tracker s) 0 = Inr ()" and "\<exists>t. record_decision (ls_tracker s) = (Inr (), t)"
    unfolding assms by (simp_all add: sample_state_def new_tracker_def check_time_def time_sub_def int64_bounds
        record_decision_def record_use_def)
  then obtain t where d: "record_decision (ls_tracker s) = (Inr (), t)" by blast
  have v: "valid_decision \<lparr>version = ''1'', action_of = finish_action, expected_outcome = []\<rparr>"
    by (simp add: valid_decision_def finish_action_def)
  define s1 where "s1 = s\<lparr>ls_world := (fst (ls_world s), snd (ls_world s) @ [CallDecide]), ls_tracker := t\<rparr>"
  have "iterate (traced sample_env) ?r None s = on_decision (traced sample_env) ?r None finish_action s1"
    using t d v by (simp add: iterate_def handler_simps s1_def)
  also have "\<dots> = on_allowed (traced sample_env) ?r None finish_action s1"
    using finish_allowed assms(2) by (simp add: on_decision_def judge_def s1_def)
  also have "\<exists>s'. \<dots> = (Return (Inr \<lparr>lr_state = StateSucceeded, lr_stop_code = []\<rparr>), s')"
    by (simp add: on_allowed_def on_finish_def handler_simps fresh_run_def finish_action_def)
  finally show ?thesis .
qed

lemma sample_run_succeeds:
  "\<exists>s'. run_agent (traced sample_env) (fresh_run ProfileWorkspaceAuto) (with_trace [] sample_state)
     = (Inr \<lparr>lr_state = StateSucceeded, lr_stop_code = []\<rparr>, s')"
  using sample_start sample_iterate by (fastforce simp: run_agent_def run_with_def agent_loop.simps)

text \<open>At a concrete input.\<close>

theorem success_needs_final_validation_witness:
  "\<exists>s' cs. effects (trace_of s') = cs @ [CallFinal True]
    \<and> snd (run_agent (traced sample_env) (fresh_run ProfileWorkspaceAuto) (with_trace [] sample_state)) = s'"
proof -
  obtain s' where "run_agent (traced sample_env) (fresh_run ProfileWorkspaceAuto) (with_trace [] sample_state)
     = (Inr \<lparr>lr_state = StateSucceeded, lr_stop_code = []\<rparr>, s')"
    using sample_run_succeeds by blast
  from success_needs_final_validation [OF this] this show ?thesis by (auto simp: fresh_run_def)
qed

end
