(* ===== verification/Validation.thy ===== *)
theory Validation
  imports Executor Tools Agent_Safety
begin

text \<open>
  Package \<^verbatim>\<open>internal/validation\<close> (\<^verbatim>\<open>pipeline.go\<close>, \<^verbatim>\<open>result.go\<close>), the pipeline of
  configured checks, and the composition of \<^verbatim>\<open>cmd/ai4se-harness/local.go\<close> that gives the
  governance loop its executor and its validator. The executor of commands is a function of type
  \<^verbatim>\<open>'w runner\<close> on the world (\<^verbatim>\<open>run_local\<close> of \<^verbatim>\<open>Executor\<close> is one whose world
  tells how the process went). The last theorem composes the pipeline with the loop.
\<close>

section \<open>The pipeline\<close>

record stage_result =
  sr_stage :: command_spec
  sr_observation :: observation
  sr_passed :: bool

record pipeline_result =
  pr_stages :: "stage_result list"
  pr_failed_stage :: string
  pr_complete :: bool

type_synonym 'w runner = "command_spec \<Rightarrow> 'w \<Rightarrow> (observation \<times> executor_error option) \<times> 'w"

definition stage_passed :: "observation \<Rightarrow> bool" where
  "stage_passed obs \<longleftrightarrow> obs_code obs = code_exit \<and> exit_code obs = Some 0"

definition empty_stage_result :: stage_result where
  "empty_stage_result =
     \<lparr>sr_stage = \<lparr>cs_id = [], cs_kind = [], cs_executable = [], cs_args = [], cs_working_directory = [], cs_timeout = 0,
        cs_max_output_bytes = 0, cs_required = False, cs_classifiers = []\<rparr>,
      sr_observation = empty_observation, sr_passed = False\<rparr>"

definition run_stage :: "command_spec list \<Rightarrow> 'w runner \<Rightarrow> int \<Rightarrow> 'w \<Rightarrow> stage_result \<times> 'w" where
  "run_stage stages ex i w =
     (if i < 0 \<or> int (length stages) \<le> i then (empty_stage_result, w)
      else
        (let st = stages ! nat i; ((obs, err), w') = ex st w;
             obs' = (if err \<noteq> None \<and> obs_code obs = [] then obs\<lparr>obs_code := code_start_error\<rparr> else obs)
         in (\<lparr>sr_stage = st, sr_observation = obs', sr_passed = stage_passed obs'\<rparr>, w')))"

function run_stages ::
    "command_spec list \<Rightarrow> 'w runner \<Rightarrow> bool \<Rightarrow> nat \<Rightarrow> stage_result list \<Rightarrow> 'w \<Rightarrow> pipeline_result \<times> 'w" where
  \<comment> \<open>the loop, at index \<^verbatim>\<open>i\<close> with the results so far\<close>
  "run_stages stages ex required_only i results w =
     (if length stages \<le> i then (\<lparr>pr_stages = results, pr_failed_stage = [], pr_complete = True\<rparr>, w)
      else if required_only \<and> \<not> cs_required (stages ! i) then run_stages stages ex required_only (i + 1) results w
      else
        (let (res, w') = run_stage stages ex (int i) w in
         if \<not> sr_passed res \<and> cs_required (sr_stage res)
         then (\<lparr>pr_stages = results @ [res], pr_failed_stage = cs_id (sr_stage res), pr_complete = False\<rparr>, w')
         else run_stages stages ex required_only (i + 1) (results @ [res]) w'))"
  by pat_completeness auto
termination
  by (relation "measure (\<lambda>(stages, ex, ro, i, results, w). length stages - i)") auto

definition run_from :: "command_spec list \<Rightarrow> 'w runner \<Rightarrow> int \<Rightarrow> 'w \<Rightarrow> pipeline_result \<times> 'w" where
  "run_from stages ex start w = run_stages stages ex False (nat (max 0 start)) [] w"

definition run_all_required :: "command_spec list \<Rightarrow> 'w runner \<Rightarrow> 'w \<Rightarrow> pipeline_result \<times> 'w" where
  "run_all_required stages ex w = run_stages stages ex True 0 [] w"

section \<open>The local composition\<close>

text \<open>\<^verbatim>\<open>resolvedChecks\<close>; \<^const>\<open>None\<close> is the error of a stage whose timeout does not parse.\<close>

fun resolved_checks ::
    "(string \<Rightarrow> duration option) \<Rightarrow> string \<Rightarrow> validation_stage list \<Rightarrow> command_spec list option" where
  "resolved_checks parse goos [] = Some []"
| "resolved_checks parse goos (st # sts) =
     (case resolve_stage parse st goos of
        None \<Rightarrow> None
      | Some c \<Rightarrow> (case resolved_checks parse goos sts of None \<Rightarrow> None | Some cs \<Rightarrow> Some (c # cs)))"

text \<open>\<^verbatim>\<open>parseWallClock\<close>: a wall clock that does not parse is one minute.\<close>

definition parse_wall_clock :: "(string \<Rightarrow> duration option) \<Rightarrow> string \<Rightarrow> duration" where
  "parse_wall_clock parse raw = (case parse raw of None \<Rightarrow> 60000000000 | Some d \<Rightarrow> d)"

definition budget_limits :: "(string \<Rightarrow> duration option) \<Rightarrow> budget_config \<Rightarrow> limits" where
  "budget_limits parse b =
     \<lparr>max_decisions = bc_max_decisions b, max_mutations = bc_max_mutations b,
      max_protocol_repairs = bc_max_protocol_repairs b, wall_clock = parse_wall_clock parse (bc_wall_clock b)\<rparr>"

text \<open>\<^verbatim>\<open>localActions.Execute\<close>. The text of an error of a tool is an argument.\<close>

definition local_execute ::
    "(tool_error \<Rightarrow> string) \<Rightarrow> (json option \<Rightarrow> 'w \<Rightarrow> (tool_error, tool_result) result \<times> 'w) tool_registry
     \<Rightarrow> command_spec list \<Rightarrow> 'w runner \<Rightarrow> action \<Rightarrow> 'w \<Rightarrow> (string, action_result) result \<times> 'w" where
  "local_execute tool_text reg checks ex a w =
     (if kind a = ''run_check'' then
        (case Option.bind (args a) (struct_string ''id'') of
           None \<Rightarrow> (Inl ''invalid arguments'', w)
         | Some i \<Rightarrow>
             (case find (\<lambda>c. cs_id c = i) checks of
                None \<Rightarrow> (Inl ''configured check not found'', w)
              | Some c \<Rightarrow>
                  (case ex c w of
                     ((obs, None), w') \<Rightarrow> (Inr \<lparr>res_diff_digest = [], res_observation = obs\<rparr>, w')
                   | ((obs, Some e), w') \<Rightarrow> (Inl (error_text e), w'))))
      else
        (case registry_execute reg a w of
           (Inl e, w') \<Rightarrow> (Inl (tool_text e), w')
         | (Inr t, w') \<Rightarrow>
             (Inr \<lparr>res_diff_digest = tr_sha256 t, res_observation = empty_observation\<lparr>stdout := tr_text t\<rparr>\<rparr>, w')))"

definition local_validation_result :: "pipeline_result \<Rightarrow> validation_result" where
  "local_validation_result r =
     (if pr_stages r = [] then \<lparr>vr_stage_id = ''validation'', vr_passed = False, vr_observation = empty_observation\<rparr>
      else let st = List.last (pr_stages r) in
        \<lparr>vr_stage_id = cs_id (sr_stage st), vr_passed = pr_complete r, vr_observation = sr_observation st\<rparr>)"

text \<open>\<^verbatim>\<open>localValidator\<close> in the dependencies of the loop.\<close>

definition local_env ::
    "('s, 'w) agent_env \<Rightarrow> (tool_error \<Rightarrow> string)
     \<Rightarrow> (json option \<Rightarrow> 'w \<Rightarrow> (tool_error, tool_result) result \<times> 'w) tool_registry
     \<Rightarrow> command_spec list \<Rightarrow> 'w runner \<Rightarrow> ('s, 'w) agent_env" where
  "local_env env tool_text reg checks ex =
     env\<lparr>e_execute := local_execute tool_text reg checks ex,
         e_baseline := (\<lambda>_ w. map_prod local_validation_result id (run_all_required checks ex w)),
         e_current := (\<lambda>_ w. map_prod local_validation_result id (run_from checks ex 0 w)),
         e_final := (\<lambda>_ w. map_prod local_validation_result id (run_all_required checks ex w))\<rparr>"

section \<open>What a run of the pipeline means\<close>

text \<open>A runner that records what it ran; the rest of the world is untouched.\<close>

type_synonym command_log = "(command_spec \<times> observation) list"

definition logged :: "'w runner \<Rightarrow> ('w \<times> command_log) runner" where
  "logged ex c wl = (let ((obs, err), w') = ex c (fst wl) in ((obs, err), w', snd wl @ [(c, obs)]))"

definition ok_log :: "command_log \<Rightarrow> bool" where
  "ok_log log = list_all (\<lambda>(c, obs). stage_passed obs) log"

lemma ok_log_simps [simp]:
  "ok_log []" "ok_log (xs @ ys) \<longleftrightarrow> ok_log xs \<and> ok_log ys" "ok_log [(c, obs)] \<longleftrightarrow> stage_passed obs"
  by (simp_all add: ok_log_def)

lemma start_error_fails: "stage_passed (obs\<lparr>obs_code := code_start_error\<rparr>) = False"
  by (simp add: stage_passed_def code_start_error_def code_exit_def)

lemma run_stage_logged:
  assumes "i < length stages"
  obtains res w' obs where "run_stage stages (logged ex) (int i) (w, log) = (res, w', log @ [(stages ! i, obs)])"
    and "sr_stage res = stages ! i" and "sr_passed res = stage_passed obs"
proof -
  obtain obs err w' where "ex (stages ! i) w = ((obs, err), w')" by (metis prod.exhaust)
  moreover have "stage_passed (if err \<noteq> None \<and> obs_code obs = [] then obs\<lparr>obs_code := code_start_error\<rparr> else obs)
      = stage_passed obs"
    using start_error_fails by (auto simp: stage_passed_def code_exit_def)
  ultimately show ?thesis using assms by (intro that) (auto simp: run_stage_def logged_def Let_def)
qed

lemma drop_required:
  assumes "i < length stages"
  shows "filter cs_required (drop i stages)
    = (if cs_required (stages ! i) then [stages ! i] else []) @ filter cs_required (drop (Suc i) stages)"
  using Cons_nth_drop_Suc [OF assms, symmetric] by simp

definition ran_as :: "command_spec list \<Rightarrow> command_log \<Rightarrow> pipeline_result \<Rightarrow> bool" where
  "ran_as required rn res \<longleftrightarrow>
     (if pr_complete res then map fst rn = required \<and> ok_log rn
      else \<exists>c obs pre. rn = pre @ [(c, obs)] \<and> ok_log pre \<and> \<not> stage_passed obs \<and> pr_failed_stage res = cs_id c
        \<and> prefix (map fst rn) required)"

lemma ran_as_pass:
  assumes "ran_as required rn res" and "stage_passed obs"
  shows "ran_as (c # required) ((c, obs) # rn) res"
proof (cases "pr_complete res")
  case True
  then show ?thesis using assms by (simp add: ran_as_def ok_log_def)
next
  case False
  then obtain d o' pre where d: "rn = pre @ [(d, o')]" "ok_log pre" "\<not> stage_passed o'" "pr_failed_stage res = cs_id d"
      "prefix (map fst rn) required"
    using assms(1) by (auto simp: ran_as_def)
  have "(c, obs) # rn = ((c, obs) # pre) @ [(d, o')]" "ok_log ((c, obs) # pre)"
    "prefix (map fst ((c, obs) # rn)) (c # required)"
    using d assms(2) by (simp_all add: ok_log_def)
  then show ?thesis using d(3,4) False unfolding ran_as_def by auto
qed

lemma ran_as_fail:
  "\<not> stage_passed obs \<Longrightarrow> \<not> pr_complete res \<Longrightarrow> pr_failed_stage res = cs_id c \<Longrightarrow> ran_as (c # required) [(c, obs)] res"
  by (auto simp: ran_as_def)

lemma run_stages_required:
  assumes "run_stages stages (logged ex) True i results (w, log) = (res, w', log')"
  shows "\<exists>rn. log' = log @ rn \<and> map sr_stage (pr_stages res) = map sr_stage results @ map fst rn
    \<and> ran_as (filter cs_required (drop i stages)) rn res"
  using assms
proof (induction "length stages - i" arbitrary: i results w log)
  case 0
  then show ?case by (auto simp: run_stages.simps [of _ _ _ i] ran_as_def)
next
  case (Suc n)
  then have i: "i < length stages" by simp
  have n: "n = length stages - Suc i" using Suc.hyps(2) by simp
  show ?case
  proof (cases "cs_required (stages ! i)")
    case False
    then have "run_stages stages (logged ex) True (Suc i) results (w, log) = (res, w', log')"
      using Suc.prems(1) i by (simp add: run_stages.simps [of _ _ _ i])
    from Suc.hyps(1) [OF n this] show ?thesis using False by (simp add: drop_required [OF i])
  next
    case True
    obtain x w1 obs where x: "run_stage stages (logged ex) (int i) (w, log) = (x, w1, log @ [(stages ! i, obs)])"
      "sr_stage x = stages ! i" "sr_passed x = stage_passed obs"
      by (rule run_stage_logged [OF i])
    have split: "filter cs_required (drop i stages) = stages ! i # filter cs_required (drop (Suc i) stages)"
      using True by (simp add: drop_required [OF i])
    show ?thesis
    proof (cases "stage_passed obs")
      case passed: True
      then have "run_stages stages (logged ex) True (Suc i) (results @ [x]) (w1, log @ [(stages ! i, obs)]) = (res, w', log')"
        using Suc.prems(1) i True x by (simp add: run_stages.simps [of _ _ _ i])
      from Suc.hyps(1) [OF n this] obtain rn where "log' = log @ (stages ! i, obs) # rn"
          "map sr_stage (pr_stages res) = map sr_stage results @ map fst ((stages ! i, obs) # rn)"
          "ran_as (filter cs_required (drop (Suc i) stages)) rn res"
        using x(2) by auto
      then show ?thesis unfolding split using ran_as_pass passed by blast
    next
      case False
      then have "res = \<lparr>pr_stages = results @ [x], pr_failed_stage = cs_id (stages ! i), pr_complete = False\<rparr>"
          "log' = log @ [(stages ! i, obs)]"
        using Suc.prems(1) i True x by (auto simp: run_stages.simps [of _ _ _ i])
      then show ?thesis unfolding split using x(2) ran_as_fail [OF False] by simp
    qed
  qed
qed

text \<open>C40. Validating everything required runs the required stages of the pipeline in their order and
  nothing else, and stops at the first that does not exit with code 0, which it reports as the
  failed one; it is complete exactly if all of them ran and passed. To the governance loop it
  counts as passed exactly if, moreover, there is a required stage.\<close>

theorem required_stages_decide:
  assumes "run_all_required stages (logged ex) (w, []) = (res, w', log)"
  shows "map sr_stage (pr_stages res) = map fst log
    \<and> (pr_complete res \<longleftrightarrow> map fst log = filter cs_required stages \<and> ok_log log)
    \<and> (\<not> pr_complete res \<longrightarrow>
        (\<exists>pre c obs. log = pre @ [(c, obs)] \<and> ok_log pre \<and> \<not> stage_passed obs \<and> pr_failed_stage res = cs_id c
          \<and> prefix (map fst log) (filter cs_required stages)))
    \<and> (vr_passed (local_validation_result res) \<longleftrightarrow> log \<noteq> [] \<and> map fst log = filter cs_required stages \<and> ok_log log)"
proof -
  from run_stages_required [OF assms [unfolded run_all_required_def]]
  have r: "map sr_stage (pr_stages res) = map fst log" "ran_as (filter cs_required stages) log res" by auto
  have c: "pr_complete res \<longleftrightarrow> map fst log = filter cs_required stages \<and> ok_log log"
    using r(2) by (auto simp: ran_as_def split: if_splits)
  have "pr_stages res = [] \<longleftrightarrow> log = []" using arg_cong [OF r(1), of length] by auto
  then have v: "vr_passed (local_validation_result res) \<longleftrightarrow> log \<noteq> [] \<and> pr_complete res"
    by (auto simp: local_validation_result_def Let_def)
  have f: "\<not> pr_complete res \<Longrightarrow> \<exists>pre d obs. log = pre @ [(d, obs)] \<and> ok_log pre \<and> \<not> stage_passed obs
      \<and> pr_failed_stage res = cs_id d \<and> prefix (map fst log) (filter cs_required stages)"
    using r(2) unfolding ran_as_def by auto
  show ?thesis unfolding v using r(1) c f by blast
qed

text \<open>At a concrete input.\<close>

definition stage_of :: "string \<Rightarrow> bool \<Rightarrow> command_spec" where
  "stage_of i required = \<lparr>cs_id = i, cs_kind = ''test'', cs_executable = ''go'', cs_args = [], cs_working_directory = ''.'',
     cs_timeout = 1, cs_max_output_bytes = 0, cs_required = required, cs_classifiers = []\<rparr>"

definition exits_with :: "int \<Rightarrow> observation" where
  "exits_with n = empty_observation\<lparr>obs_code := code_exit, exit_code := Some n\<rparr>"

definition sample_runner :: "unit runner" where
  "sample_runner c w = ((exits_with (if cs_id c = ''lint'' then 1 else 0), None), w)"

lemma sample_pipeline:
  "run_all_required [stage_of ''test'' True, stage_of ''docs'' False, stage_of ''lint'' True, stage_of ''race'' True]
     (logged sample_runner) ((), [])
   = (\<lparr>pr_stages =
        [\<lparr>sr_stage = stage_of ''test'' True, sr_observation = exits_with 0, sr_passed = True\<rparr>,
         \<lparr>sr_stage = stage_of ''lint'' True, sr_observation = exits_with 1, sr_passed = False\<rparr>],
       pr_failed_stage = ''lint'', pr_complete = False\<rparr>, (),
      [(stage_of ''test'' True, exits_with 0), (stage_of ''lint'' True, exits_with 1)])"
  by code_simp

theorem required_stages_decide_witness:
  "\<not> vr_passed (local_validation_result (fst (run_all_required
     [stage_of ''test'' True, stage_of ''docs'' False, stage_of ''lint'' True, stage_of ''race'' True]
     (logged sample_runner) ((), []))))"
  unfolding sample_pipeline fst_conv
  using required_stages_decide [OF sample_pipeline] by (simp add: stage_of_def)

section \<open>A successful run has passed the configured checks\<close>

definition checks_passed :: "command_spec list \<Rightarrow> command_log \<Rightarrow> bool" where
  "checks_passed checks log \<longleftrightarrow>
     (\<exists>pre final. log = pre @ final \<and> map fst final = filter cs_required checks \<and> ok_log final \<and> final \<noteq> [])"

text \<open>The environment of the loop over a world with the log of the commands: only the runner writes
  the log.\<close>

definition validated_by ::
    "command_spec list \<Rightarrow> run \<Rightarrow> 's \<Rightarrow> 'w \<times> command_log \<Rightarrow> bool" where
  "validated_by checks r st wl \<longleftrightarrow>
     (state r \<in> {StateFinalValidating, StateSucceeded} \<longrightarrow> checks_passed checks (snd wl))"

definition lifted :: "('w \<Rightarrow> 'a \<times> 'w) \<Rightarrow> 'w \<times> command_log \<Rightarrow> 'a \<times> 'w \<times> command_log" where
  "lifted f wl = (let (x, w') = f (fst wl) in (x, w', snd wl))"

definition logging_env ::
    "('s, 'w) agent_env \<Rightarrow> (tool_error \<Rightarrow> string)
     \<Rightarrow> (json option \<Rightarrow> 'w \<Rightarrow> (tool_error, tool_result) result \<times> 'w) tool_registry
     \<Rightarrow> command_spec list \<Rightarrow> 'w runner \<Rightarrow> ('s, 'w \<times> command_log) agent_env" where
  "logging_env env tool_text reg checks ex =
     local_env
       \<lparr>e_cancelled = lifted (e_cancelled env), e_now = lifted (e_now env),
        e_decide = (\<lambda>t fb. lifted (e_decide env t fb)), e_execute = (\<lambda>a. lifted (e_execute env a)),
        e_baseline = (\<lambda>r. lifted (e_baseline env r)), e_current = (\<lambda>r. lifted (e_current env r)),
        e_final = (\<lambda>r. lifted (e_final env r)),
        e_update_if = e_update_if env, e_update_detached = e_update_detached env, e_append = e_append env,
        e_encode = e_encode env, e_policy_hash = e_policy_hash env, e_sha = e_sha env, e_feedback = e_feedback env\<rparr>
       tool_text (map (map_prod id (\<lambda>t raw. lifted (t raw))) reg) checks (logged ex)"

lemma logging_env_fields [simp]:
  "e_cancelled (logging_env env tt reg checks ex) = lifted (e_cancelled env)"
  "e_now (logging_env env tt reg checks ex) = lifted (e_now env)"
  "e_decide (logging_env env tt reg checks ex) t fb = lifted (e_decide env t fb)"
  "e_final (logging_env env tt reg checks ex) r w
     = map_prod local_validation_result id (run_all_required checks (logged ex) w)"
  by (simp_all add: logging_env_def local_env_def)

lemma run_all_required_extends:
  assumes "run_all_required checks (logged ex) (w, log) = (res, w', log')" and "vr_passed (local_validation_result res)"
  shows "checks_passed checks log'"
proof -
  have c: "pr_complete res" "pr_stages res \<noteq> []"
    using assms(2) by (auto simp: local_validation_result_def Let_def split: if_splits)
  from run_stages_required [OF assms(1) [unfolded run_all_required_def]] obtain rn
    where rn: "log' = log @ rn" "map sr_stage (pr_stages res) = map fst rn" "ran_as (filter cs_required checks) rn res"
    by auto
  moreover have "rn \<noteq> []" using arg_cong [OF rn(2), of length] c(2) by auto
  ultimately show ?thesis using c(1) by (auto simp: checks_passed_def ran_as_def)
qed

interpretation local_logic: loop_logic "logging_env env tt reg checks ex" "validated_by checks" "\<lambda>_ _. True" b
  for env :: "('s, 'w) agent_env" and tt reg checks ex b
proof (unfold_locales, goal_cases)
  case (2 r st w to t p ev st')
  then show ?case by (cases "state r") (auto simp: validated_by_def may_step_iff)
next
  case (12 r st w v w' t p ev st')
  then show ?case
    using run_all_required_extends [of checks ex "fst w" "snd w"]
    by (cases "run_all_required checks (logged ex) w") (auto simp: validated_by_def)
qed (auto simp: validated_by_def lifted_def Let_def split: prod.splits)

text \<open>C4. In the local composition a run that succeeds has the configured checks behind it: the last
  commands run, whatever the provider and the tools did before, are the required stages in their
  order, at least one, each ended with exit code 0.\<close>

theorem success_means_checks_passed:
  assumes "run_agent (logging_env env tool_text reg checks ex) r s = (Inr res, s')"
    and "lr_state res = StateSucceeded" and "state r \<notin> {StateFinalValidating, StateSucceeded}"
  shows "\<exists>pre final. snd (ls_world s') = pre @ final \<and> map fst final = filter cs_required checks
    \<and> final \<noteq> [] \<and> (\<forall>(c, obs) \<in> set final. obs_code obs = code_exit \<and> exit_code obs = Some 0)"
proof -
  have "holds_in (validated_by checks) (\<lambda>_ _. True) (ls_baselines s) r s" using assms(3) by (simp add: holds_in_def validated_by_def)
  from local_logic.run_ok [OF this, of env tool_text reg ex None] have "checks_passed checks (snd (ls_world s'))"
    using assms(1,2) by (auto simp: result_ok_def holds_in_def validated_by_def run_agent_def)
  then show ?thesis by (auto simp: checks_passed_def ok_log_def stage_passed_def list_all_iff)
qed

text \<open>At a concrete input: the only check fails as the baseline and passes as the final validation.\<close>

definition second_time_lucky :: "nat runner" where
  "second_time_lucky c n = ((exits_with (if n = 0 then 1 else 0), None), n + 1)"

definition checked_state :: "(unit, nat \<times> command_log) loop_state" where
  "checked_state =
     \<lparr>ls_store = (), ls_world = (0, []), ls_tracker = ls_tracker sample_state, ls_detector = None, ls_grants = Some {},
      ls_pending = (\<lambda>_. None), ls_baselines = [], ls_redactor = []\<rparr>"

definition checked_env :: "(unit, nat \<times> command_log) agent_env" where
  "checked_env = logging_env sample_env (\<lambda>_. []) [] [stage_of ''test'' True] second_time_lucky"

lemma checked_required:
  "run_all_required [stage_of ''test'' True] (logged second_time_lucky) (n, log) =
     (let obs = exits_with (if n = 0 then 1 else 0); res = \<lparr>sr_stage = stage_of ''test'' True, sr_observation = obs, sr_passed = n \<noteq> 0\<rparr>
      in (if n = 0 then \<lparr>pr_stages = [res], pr_failed_stage = ''test'', pr_complete = False\<rparr>
          else \<lparr>pr_stages = [res], pr_failed_stage = [], pr_complete = True\<rparr>, n + 1, log @ [(stage_of ''test'' True, obs)]))"
  by (simp add: run_all_required_def run_stages.simps run_stage_def logged_def second_time_lucky_def Let_def
      stage_passed_def exits_with_def stage_of_def)

lemma checked_env_fields [simp]:
  "e_cancelled checked_env = lifted (Pair False)" "e_now checked_env = lifted (Pair 0)"
  "e_decide checked_env t fb = lifted (Pair (Inr \<lparr>version = ''1'', action_of = finish_action, expected_outcome = []\<rparr>))"
  "e_baseline checked_env r w
     = map_prod local_validation_result id (run_all_required [stage_of ''test'' True] (logged second_time_lucky) w)"
  "e_final checked_env r w
     = map_prod local_validation_result id (run_all_required [stage_of ''test'' True] (logged second_time_lucky) w)"
  "e_update_if checked_env r x t p st = (Inr (new_event id (rid r) 1 t p [] 0), st)"
  "e_update_detached checked_env r x t p st = (Inr (new_event id (rid r) 1 t p [] 0), st)"
  "e_append checked_env i t p st = (Inr (new_event id i 1 t p [] 0), st)"
  "e_policy_hash checked_env = (\<lambda>_. [])"
  by (simp_all add: checked_env_def logging_env_def local_env_def)

lemmas checked_simps = in_world_eq in_store_def attempt_def transition_to_def transition_payload_def log_event_def
  may_step_iff transition_def lifted_def proceed_def checked_required local_validation_result_def Let_def

lemma checked_start:
  "\<exists>s'. start_run checked_env (fresh_run ProfileWorkspaceAuto) checked_state
   = (Continue ((fresh_run ProfileWorkspaceAuto)\<lparr>state := StateDeciding\<rparr>) None, s')
   \<and> ls_tracker s' = ls_tracker sample_state \<and> ls_baselines s' = [] \<and> fst (ls_world s') = 1"
  by (simp add: start_run_def enter_preflight_def enter_baseline_def enter_deciding_def checked_simps fresh_run_def
      checked_state_def)

lemma checked_iterate:
  assumes "ls_tracker s = ls_tracker sample_state" and "ls_baselines s = []" and "fst (ls_world s) = 1"
  shows "\<exists>s'. iterate checked_env ((fresh_run ProfileWorkspaceAuto)\<lparr>state := StateDeciding\<rparr>) None s
    = (Return (Inr \<lparr>lr_state = StateSucceeded, lr_stop_code = []\<rparr>), s')"
proof -
  let ?r = "(fresh_run ProfileWorkspaceAuto)\<lparr>state := StateDeciding\<rparr>"
  obtain log where w: "ls_world s = (1, log)" using assms(3) by (cases "ls_world s") simp
  have t: "check_time (ls_tracker s) 0 = Inr ()" and "\<exists>t. record_decision (ls_tracker s) = (Inr (), t)"
    unfolding assms(1) by (simp_all add: sample_state_def new_tracker_def check_time_def time_sub_def int64_bounds
        record_decision_def record_use_def)
  then obtain t where d: "record_decision (ls_tracker s) = (Inr (), t)" by blast
  have v: "valid_decision \<lparr>version = ''1'', action_of = finish_action, expected_outcome = []\<rparr>"
    by (simp add: valid_decision_def finish_action_def)
  define s1 where "s1 = s\<lparr>ls_world := (1, log), ls_tracker := t\<rparr>"
  have "iterate checked_env ?r None s = on_decision checked_env ?r None finish_action s1"
    using t d v w by (simp add: iterate_def checked_simps s1_def)
  also have "\<dots> = on_allowed checked_env ?r None finish_action s1"
    using finish_allowed assms(2) by (simp add: on_decision_def judge_def s1_def)
  also have "\<exists>s'. \<dots> = (Return (Inr \<lparr>lr_state = StateSucceeded, lr_stop_code = []\<rparr>), s')"
    by (simp add: on_allowed_def on_finish_def checked_simps fresh_run_def finish_action_def s1_def)
  finally show ?thesis .
qed

lemma checked_run_succeeds:
  "\<exists>s'. run_agent checked_env (fresh_run ProfileWorkspaceAuto) checked_state
     = (Inr \<lparr>lr_state = StateSucceeded, lr_stop_code = []\<rparr>, s')"
  using checked_start checked_iterate by (fastforce simp: run_agent_def run_with_def agent_loop.simps)

theorem success_means_checks_passed_witness:
  "\<exists>pre final. snd (ls_world (snd (run_agent checked_env (fresh_run ProfileWorkspaceAuto) checked_state))) = pre @ final
     \<and> map fst final = [stage_of ''test'' True]"
proof -
  obtain s' where r: "run_agent checked_env (fresh_run ProfileWorkspaceAuto) checked_state
     = (Inr \<lparr>lr_state = StateSucceeded, lr_stop_code = []\<rparr>, s')"
    using checked_run_succeeds by blast
  have c: "state (fresh_run ProfileWorkspaceAuto) \<notin> {StateFinalValidating, StateSucceeded}" by (simp add: fresh_run_def)
  have f: "filter cs_required [stage_of ''test'' True] = [stage_of ''test'' True]" by (simp add: stage_of_def)
  have "\<exists>pre final. snd (ls_world s') = pre @ final \<and> map fst final = filter cs_required [stage_of ''test'' True]"
    using success_means_checks_passed [OF r [unfolded checked_env_def] _ c] unfolding loop_result.simps by blast
  then show ?thesis unfolding r snd_conv f .
qed

end
