(* ===== verification/Repo_Lock.thy ===== *)
theory Repo_Lock
  imports Store
begin

text \<open>
  Package \<^verbatim>\<open>internal/app\<close>, \<^verbatim>\<open>repolock.go\<close>: at most one active run per repository, by an
  ownership map in memory and a lease file created exclusively. Several harness processes share
  the directory of the lease files; each has its own maps. The directory is an association list
  from file names to contents; an operation takes the faults of its file system calls as an
  argument. Parameters: how a repository path becomes canonical (\<^verbatim>\<open>Abs\<close>,
  \<^verbatim>\<open>EvalSymlinks\<close>), \<^verbatim>\<open>strings.ToLower\<close>, and the file name of a key (SHA-256 in
  hexadecimal with the suffix \<^verbatim>\<open>.lease\<close>).
\<close>

section \<open>State\<close>

datatype lock_error = ErrRepoBusy | ErrLockKey | ErrLockFile

record lease =
  lease_key :: string
  lease_path :: string

record lease_record =
  lease_version :: int
  lease_record_key :: string
  lease_run :: run_id
  lease_created :: gtime

text \<open>What is at a path: a lease that decodes, other data, or a directory.\<close>

datatype dir_entry = LeaseData lease_record | OtherData | Subdirectory

type_synonym lock_dir = "(string \<times> dir_entry) list"

record repo_locks =
  owners :: "string \<Rightarrow> lease option"
  keys_by_run :: "run_id \<Rightarrow> lease option"

record lock_env =
  le_canonical :: "string \<Rightarrow> string option"
  le_windows :: bool
  le_lower :: "string \<Rightarrow> string"
  le_path :: "string \<Rightarrow> string" \<comment> \<open>\<^verbatim>\<open>leasePath\<close>\<close>

definition new_repo_locks :: repo_locks where
  "new_repo_locks = \<lparr>owners = (\<lambda>_. None), keys_by_run = (\<lambda>_. None)\<rparr>"

definition repository_lock_key :: "lock_env \<Rightarrow> string \<Rightarrow> string option" where
  "repository_lock_key env root =
     (case le_canonical env root of
        None \<Rightarrow> None
      | Some key \<Rightarrow> Some (if le_windows env then le_lower env key else key))"

section \<open>Acquiring\<close>

text \<open>The first call that fails: the directory, the open for another reason than an existing file,
  the write (or its sync) or the close; the last two remove the file again, which may fail too, and
  the failed write may have left anything.\<close>

datatype acquire_fault = NoFault | MkdirFails | OpenFails | WriteFails bool dir_entry | CloseFails bool

definition acquire ::
    "lock_env \<Rightarrow> acquire_fault \<Rightarrow> gtime \<Rightarrow> string \<Rightarrow> run_id \<Rightarrow> repo_locks \<times> lock_dir
     \<Rightarrow> (lock_error, unit) result \<times> repo_locks \<times> lock_dir" where
  "acquire env fault now root i s =
     (case s of (l, d) \<Rightarrow>
       (case repository_lock_key env root of
          None \<Rightarrow> (Inl ErrLockKey, l, d)
        | Some key \<Rightarrow>
            if i = [] then (Inl ErrRepoBusy, l, d)
            else if owners l key \<noteq> None then (Inl ErrRepoBusy, l, d)
            else
              (let path = le_path env key;
                   lrec = \<lparr>lease_version = 1, lease_record_key = key, lease_run = i, lease_created = now\<rparr>
               in if fault = MkdirFails then (Inl ErrLockFile, l, d)
                  else if map_of d path \<noteq> None then (Inl ErrRepoBusy, l, d)
                  else
                    (case fault of
                       OpenFails \<Rightarrow> (Inl ErrLockFile, l, d)
                     | WriteFails removed rest \<Rightarrow> (Inl ErrLockFile, l, if removed then d else (path, rest) # d)
                     | CloseFails removed \<Rightarrow> (Inl ErrLockFile, l, if removed then d else (path, LeaseData lrec) # d)
                     | _ \<Rightarrow>
                         (Inr (),
                          l\<lparr>owners := (owners l)(key \<mapsto> \<lparr>lease_key = key, lease_path = path\<rparr>),
                            keys_by_run := (keys_by_run l)(i \<mapsto> \<lparr>lease_key = key, lease_path = path\<rparr>)\<rparr>,
                          (path, LeaseData lrec) # d)))))"

section \<open>Releasing\<close>

text \<open>Which paths cannot be read, and whether removing fails.\<close>

record release_fault =
  rf_unreadable :: "string \<Rightarrow> bool"
  rf_remove_fails :: bool

definition no_release_fault :: release_fault where
  "no_release_fault = \<lparr>rf_unreadable = (\<lambda>_. False), rf_remove_fails = False\<rparr>"

definition read_lease :: "release_fault \<Rightarrow> lock_dir \<Rightarrow> string \<Rightarrow> lease_record option" where
  "read_lease fault d path =
     (if rf_unreadable fault path then None
      else case map_of d path of Some (LeaseData r) \<Rightarrow> Some r | _ \<Rightarrow> None)"

text \<open>\<^verbatim>\<open>releaseEntry\<close> in its two parts: the check of the file and, when it passed, the removal.\<close>

definition may_release :: "release_fault \<Rightarrow> lock_dir \<Rightarrow> lease \<Rightarrow> run_id \<Rightarrow> bool" where
  "may_release fault d entry i =
     (case read_lease fault d (lease_path entry) of
        None \<Rightarrow> False
      | Some r \<Rightarrow> lease_version r = 1 \<and> lease_record_key r = lease_key entry \<and> lease_run r = i)"

definition forget_entry :: "string \<Rightarrow> lease option \<Rightarrow> lease option" where
  "forget_entry path cur = (case cur of Some e \<Rightarrow> if lease_path e = path then None else Some e | None \<Rightarrow> None)"

definition remove_entry :: "release_fault \<Rightarrow> lease \<Rightarrow> run_id \<Rightarrow> repo_locks \<times> lock_dir \<Rightarrow> repo_locks \<times> lock_dir" where
  "remove_entry fault entry i s =
     (case s of (l, d) \<Rightarrow>
       if rf_remove_fails fault \<or> map_of d (lease_path entry) = None then (l, d)
       else
         (l\<lparr>owners := (owners l)(lease_key entry := forget_entry (lease_path entry) (owners l (lease_key entry))),
            keys_by_run := (keys_by_run l)(i := forget_entry (lease_path entry) (keys_by_run l i))\<rparr>,
          filter (\<lambda>(p, _). p \<noteq> lease_path entry) d))"

definition release_entry :: "release_fault \<Rightarrow> lease \<Rightarrow> run_id \<Rightarrow> repo_locks \<times> lock_dir \<Rightarrow> repo_locks \<times> lock_dir" where
  "release_entry fault entry i s = (if may_release fault (snd s) entry i then remove_entry fault entry i s else s)"

definition release_lease ::
    "lock_env \<Rightarrow> release_fault \<Rightarrow> string \<Rightarrow> run_id \<Rightarrow> repo_locks \<times> lock_dir \<Rightarrow> repo_locks \<times> lock_dir" where
  "release_lease env fault root i s =
     (case repository_lock_key env root of
        None \<Rightarrow> s
      | Some key \<Rightarrow>
          let fresh = \<lparr>lease_key = key, lease_path = le_path env key\<rparr>;
              entry = (case keys_by_run (fst s) i of None \<Rightarrow> fresh | Some e \<Rightarrow> if lease_key e = key then e else fresh)
          in release_entry fault entry i s)"

definition lease_suffix :: string where
  "lease_suffix = ''.lease''"

fun find_lease :: "release_fault \<Rightarrow> lock_dir \<Rightarrow> run_id \<Rightarrow> (string \<times> dir_entry) list \<Rightarrow> lease option" where
  \<comment> \<open>the scan of \<^verbatim>\<open>ReleaseRun\<close> through the entries of the directory\<close>
  "find_lease fault d i [] = None"
| "find_lease fault d i ((path, e) # es) =
     (if e = Subdirectory \<or> \<not> has_suffix path lease_suffix then find_lease fault d i es
      else
        (case read_lease fault d path of
           None \<Rightarrow> find_lease fault d i es
         | Some r \<Rightarrow>
             if lease_version r = 1 \<and> lease_run r = i then Some \<lparr>lease_key = lease_record_key r, lease_path = path\<rparr>
             else find_lease fault d i es))"

definition release_run :: "release_fault \<Rightarrow> run_id \<Rightarrow> repo_locks \<times> lock_dir \<Rightarrow> repo_locks \<times> lock_dir" where
  "release_run fault i s =
     (case keys_by_run (fst s) i of
        Some entry \<Rightarrow> release_entry fault entry i s
      | None \<Rightarrow>
          (case find_lease fault (snd s) i (sort_key fst (snd s)) of
             None \<Rightarrow> s
           | Some entry \<Rightarrow> release_entry fault entry i s))"

section \<open>Several processes\<close>

datatype lock_op =
    OpAcquire nat acquire_fault gtime string run_id
  | OpRelease nat release_fault string run_id
  | OpReleaseRun nat release_fault run_id
  | OpRestart nat

type_synonym lock_system = "(nat \<Rightarrow> repo_locks) \<times> lock_dir"

definition by_process ::
    "nat \<Rightarrow> (repo_locks \<times> lock_dir \<Rightarrow> 'a \<times> repo_locks \<times> lock_dir) \<Rightarrow> lock_system \<Rightarrow> 'a \<times> lock_system" where
  "by_process p f s = (let (x, l, d) = f (fst s p, snd s) in (x, ((fst s)(p := l), d)))"

fun exec_op :: "lock_env \<Rightarrow> lock_op \<Rightarrow> lock_system \<Rightarrow> (lock_error, unit) result \<times> lock_system" where
  "exec_op env (OpAcquire p fault now root i) s = by_process p (acquire env fault now root i) s"
| "exec_op env (OpRelease p fault root i) s = by_process p (\<lambda>t. (Inr (), release_lease env fault root i t)) s"
| "exec_op env (OpReleaseRun p fault i) s = by_process p (\<lambda>t. (Inr (), release_run fault i t)) s"
| "exec_op env (OpRestart p) s = (Inr (), ((fst s)(p := new_repo_locks), snd s))"

fun exec_ops ::
    "lock_env \<Rightarrow> lock_op list \<Rightarrow> lock_system \<Rightarrow> (lock_error, unit) result list \<times> lock_system" where
  "exec_ops env [] s = ([], s)"
| "exec_ops env (op # ops) s =
     (let (x, s') = exec_op env op s; (xs, s'') = exec_ops env ops s' in (x # xs, s''))"

fun names_run :: "run_id \<Rightarrow> lock_op \<Rightarrow> bool" where
  "names_run i (OpRelease p fault root j) \<longleftrightarrow> j = i"
| "names_run i (OpReleaseRun p fault j) \<longleftrightarrow> j = i"
| "names_run i _ \<longleftrightarrow> False"

fun asks_for :: "lock_env \<Rightarrow> string \<Rightarrow> lock_op \<Rightarrow> bool" where
  "asks_for env key (OpAcquire p fault now root j) \<longleftrightarrow> repository_lock_key env root = Some key"
| "asks_for env key _ \<longleftrightarrow> False"

section \<open>A lease stays with its run\<close>

definition held_by :: "lock_dir \<Rightarrow> string \<Rightarrow> lease_record \<Rightarrow> bool" where
  "held_by d path r \<longleftrightarrow> map_of d path = Some (LeaseData r)"

lemma map_of_remove: "map_of (filter (\<lambda>(p, _). p \<noteq> q) d) p = (if p = q then None else map_of d p)"
  by (induction d) auto

lemma acquire_cases:
  obtains (refused) e where "acquire env fault now root i (l, d) = (Inl e, l, d)"
  | (littered) e path x where "acquire env fault now root i (l, d) = (Inl e, l, (path, x) # d)" "map_of d path = None"
  | (acquired) key path where "repository_lock_key env root = Some key" "path = le_path env key"
      "i \<noteq> []" "owners l key = None" "map_of d path = None"
      "acquire env fault now root i (l, d) =
         (Inr (), l\<lparr>owners := (owners l)(key \<mapsto> \<lparr>lease_key = key, lease_path = path\<rparr>),
                   keys_by_run := (keys_by_run l)(i \<mapsto> \<lparr>lease_key = key, lease_path = path\<rparr>)\<rparr>,
          (path, LeaseData \<lparr>lease_version = 1, lease_record_key = key, lease_run = i, lease_created = now\<rparr>) # d)"
proof (cases "repository_lock_key env root")
  case None
  then show thesis by (intro refused) (simp add: acquire_def)
next
  case (Some key)
  let ?path = "le_path env key"
  show thesis
  proof (cases "i = [] \<or> owners l key \<noteq> None \<or> fault = MkdirFails \<or> map_of d ?path \<noteq> None")
    case True
    then have "\<exists>e. acquire env fault now root i (l, d) = (Inl e, l, d)" using Some by (auto simp: acquire_def Let_def)
    then show thesis using refused by blast
  next
    case False
    note free = False Some
    show thesis
    proof (cases fault)
      case NoFault
      show thesis by (rule acquired [OF Some]) (use free NoFault in \<open>simp_all add: acquire_def Let_def\<close>)
    next
      case OpenFails
      then show thesis using free by (intro refused) (simp add: acquire_def Let_def)
    next
      case (WriteFails removed rest)
      then show thesis
        using free refused littered [where path = ?path and x = rest] by (cases removed) (simp_all add: acquire_def Let_def)
    next
      case (CloseFails removed)
      then show thesis
        using free refused
          littered [where path = ?path and x = "LeaseData \<lparr>lease_version = 1, lease_record_key = key, lease_run = i, lease_created = now\<rparr>"]
        by (cases removed) (simp_all add: acquire_def Let_def)
    qed (use free in simp)
  qed
qed

lemma held_acquire:
  assumes "held_by d path r" and "acquire env fault now root j (l, d) = (x, l', d')"
  shows "held_by d' path r" and "repository_lock_key env root = Some key \<Longrightarrow> path = le_path env key \<Longrightarrow> x \<noteq> Inr ()"
  using assms by (cases rule: acquire_cases [of env fault now root j l d]; auto simp: held_by_def)+

lemma held_release_entry:
  assumes "held_by d path r" and "lease_run r \<noteq> j"
  shows "held_by (snd (release_entry fault entry j (l, d))) path r"
proof (cases "may_release fault d entry j")
  case True
  then have "lease_path entry \<noteq> path"
    using assms(1,2) by (auto simp: may_release_def read_lease_def held_by_def split: option.splits if_splits dir_entry.splits)
  then show ?thesis
    using assms by (auto simp: release_entry_def remove_entry_def held_by_def map_of_remove split: if_splits)
qed (use assms in \<open>simp add: release_entry_def\<close>)

lemma held_releases:
  assumes "held_by d path r" and "lease_run r \<noteq> j"
  shows "held_by (snd (release_run fault j (l, d))) path r" and "held_by (snd (release_lease env fault root j (l, d))) path r"
  using assms(1) held_release_entry [OF assms] by (auto simp: release_run_def release_lease_def Let_def split: option.splits)

lemma held_op:
  assumes "held_by (snd s) path r" and "\<not> names_run (lease_run r) op" and "exec_op env op s = (x, s')"
  shows "held_by (snd s') path r" and "asks_for env key op \<Longrightarrow> path = le_path env key \<Longrightarrow> x \<noteq> Inr ()"
proof -
  have "held_by (snd s') path r \<and> (asks_for env key op \<longrightarrow> path = le_path env key \<longrightarrow> x \<noteq> Inr ())"
  proof (cases op)
    case (OpAcquire p fault now root j)
    then show ?thesis
      using assms held_acquire [OF assms(1), of env fault now root j "fst s p"]
      by (auto simp: by_process_def Let_def split: prod.splits)
  next
    case (OpRelease p fault root j)
    then show ?thesis
      using assms held_releases(2) [OF assms(1), of j env fault root "fst s p"]
      by (auto simp: by_process_def Let_def split: prod.splits)
  next
    case (OpReleaseRun p fault j)
    then show ?thesis
      using assms held_releases(1) [OF assms(1), of j fault "fst s p"]
      by (auto simp: by_process_def Let_def split: prod.splits)
  qed (use assms in auto)
  then show "held_by (snd s') path r" and "asks_for env key op \<Longrightarrow> path = le_path env key \<Longrightarrow> x \<noteq> Inr ()"
    by auto
qed

lemma held_ops:
  assumes "held_by (snd s) (le_path env key) r" and "\<forall>op \<in> set ops. \<not> names_run (lease_run r) op"
    and "exec_ops env ops s = (results, s')"
  shows "list_all2 (\<lambda>op x. asks_for env key op \<longrightarrow> x \<noteq> Inr ()) ops results \<and> held_by (snd s') (le_path env key) r"
  using assms
proof (induction ops arbitrary: s results)
  case (Cons op ops)
  obtain x s1 where x: "exec_op env op s = (x, s1)" by (rule prod.exhaust)
  obtain xs where xs: "exec_ops env ops s1 = (xs, s')" "results = x # xs"
    using Cons.prems(3) x by (auto simp: Let_def split: prod.splits)
  have n: "\<not> names_run (lease_run r) op" using Cons.prems(2) by simp
  show ?case
    using Cons.IH [OF held_op(1) [OF Cons.prems(1) n x] _ xs(1)] Cons.prems(2) held_op(2) [OF Cons.prems(1) n x, of key] xs(2)
    by simp
qed simp

text \<open>The process that acquired also remembers the lease.\<close>

definition remembered :: "lock_system \<Rightarrow> nat \<Rightarrow> run_id \<Rightarrow> lease \<Rightarrow> bool" where
  "remembered s p i entry \<longleftrightarrow> keys_by_run (fst s p) i = Some entry \<and> owners (fst s p) (lease_key entry) = Some entry"

lemma acquired_is_held:
  assumes "exec_op env (OpAcquire p fault now root i) s = (Inr (), s')" and "repository_lock_key env root = Some key"
  shows "held_by (snd s') (le_path env key)
      \<lparr>lease_version = 1, lease_record_key = key, lease_run = i, lease_created = now\<rparr>"
    and "remembered s' p i \<lparr>lease_key = key, lease_path = le_path env key\<rparr>"
  using assms by (cases rule: acquire_cases [of env fault now root i "fst s p" "snd s"];
      auto simp: by_process_def held_by_def remembered_def)+

text \<open>C24. Once a run has the lease of a repository, no acquisition of that repository succeeds, in
  any process and for any run, whatever the processes do in between (restarting included), until
  somebody releases that very run; and the lease file still names the run.\<close>

theorem lease_is_exclusive:
  assumes "exec_op env (OpAcquire p fault now root i) s = (Inr (), s1)" and "repository_lock_key env root = Some key"
    and "\<forall>op \<in> set ops. \<not> names_run i op" and "exec_ops env ops s1 = (results, s2)"
  shows "list_all2 (\<lambda>op x. asks_for env key op \<longrightarrow> x \<noteq> Inr ()) ops results
    \<and> (\<exists>r. map_of (snd s2) (le_path env key) = Some (LeaseData r) \<and> lease_run r = i)"
  using held_ops [OF acquired_is_held(1) [OF assms(1,2)] _ assms(4)] assms(3) by (auto simp: held_by_def)

text \<open>At a concrete input: a second process that starts meanwhile is refused.\<close>

definition sample_locks :: lock_env where
  "sample_locks = \<lparr>le_canonical = Some, le_windows = False, le_lower = id, le_path = (\<lambda>k. k @ ''.lease'')\<rparr>"

definition no_locks :: lock_system where
  "no_locks = ((\<lambda>_. new_repo_locks), [])"

lemma sample_acquire:
  "exec_op sample_locks (OpAcquire 0 NoFault 7 ''/repo'' ''r'') no_locks
   = (Inr (), snd (exec_op sample_locks (OpAcquire 0 NoFault 7 ''/repo'' ''r'') no_locks))"
  by (simp add: by_process_def acquire_def repository_lock_key_def sample_locks_def no_locks_def new_repo_locks_def Let_def)

theorem lease_is_exclusive_witness:
  "fst (exec_ops sample_locks [OpRestart 1, OpAcquire 1 NoFault 8 ''/repo'' ''q'']
     (snd (exec_op sample_locks (OpAcquire 0 NoFault 7 ''/repo'' ''r'') no_locks))) ! 1 \<noteq> Inr ()"
proof -
  let ?s1 = "snd (exec_op sample_locks (OpAcquire 0 NoFault 7 ''/repo'' ''r'') no_locks)"
  let ?ops = "[OpRestart 1, OpAcquire 1 NoFault 8 ''/repo'' ''q'']"
  have k: "repository_lock_key sample_locks ''/repo'' = Some ''/repo''" by (simp add: repository_lock_key_def sample_locks_def)
  obtain rs s2 where r: "exec_ops sample_locks ?ops ?s1 = (rs, s2)" by (rule prod.exhaust)
  have "\<forall>op \<in> set ?ops. \<not> names_run ''r'' op" by simp
  from lease_is_exclusive [OF sample_acquire k this r] have
    "list_all2 (\<lambda>op x. asks_for sample_locks ''/repo'' op \<longrightarrow> x \<noteq> Inr ()) ?ops rs" ..
  then have "asks_for sample_locks ''/repo'' (?ops ! 1) \<longrightarrow> rs ! 1 \<noteq> Inr ()" by (rule list_all2_nthD) simp
  then show ?thesis unfolding r by (simp add: k)
qed

section \<open>A released lease is free again\<close>

fun disturbs :: "nat \<Rightarrow> run_id \<Rightarrow> lock_op \<Rightarrow> bool" where
  \<comment> \<open>the operations that make a process forget a run: a restart, or the run taking another repository\<close>
  "disturbs p i (OpAcquire q fault now root j) \<longleftrightarrow> q = p \<and> j = i"
| "disturbs p i (OpRestart q) \<longleftrightarrow> q = p"
| "disturbs p i op \<longleftrightarrow> names_run i op"

lemma remembered_acquire:
  assumes "remembered s p i entry" and "i \<noteq> j" and "held_by (snd s) (lease_path entry) r"
    and "acquire env fault now root j (fst s p, snd s) = (x, l', d')"
  shows "keys_by_run l' i = Some entry \<and> owners l' (lease_key entry) = Some entry"
  using assms by (cases rule: acquire_cases [of env fault now root j "fst s p" "snd s"]) (auto simp: remembered_def)

lemma remembered_release_entry:
  assumes "keys_by_run l i = Some entry" and "owners l (lease_key entry) = Some entry"
    and "held_by d (lease_path entry) r" and "lease_run r \<noteq> j" and "i \<noteq> j"
  shows "keys_by_run (fst (release_entry fault e j (l, d))) i = Some entry
    \<and> owners (fst (release_entry fault e j (l, d))) (lease_key entry) = Some entry"
proof (cases "may_release fault d e j")
  case True
  then have "lease_path e \<noteq> lease_path entry"
    using assms(3,4) by (auto simp: may_release_def read_lease_def held_by_def split: option.splits if_splits dir_entry.splits)
  then show ?thesis
    using assms by (auto simp: release_entry_def remove_entry_def forget_entry_def)
qed (use assms in \<open>simp add: release_entry_def\<close>)

lemma remembered_op:
  assumes "remembered s p i entry" and "held_by (snd s) (lease_path entry) r" and "lease_run r = i"
    and "\<not> disturbs p i op" and "exec_op env op s = (x, s')"
  shows "remembered s' p i entry"
proof -
  have m: "keys_by_run (fst s p) i = Some entry" "owners (fst s p) (lease_key entry) = Some entry"
    using assms(1) by (simp_all add: remembered_def)
  show ?thesis
  proof (cases op)
    case (OpAcquire q fault now root j)
    then show ?thesis
      using assms remembered_acquire [OF assms(1) _ assms(2), of j env fault now root]
      by (cases "q = p") (auto simp: by_process_def Let_def remembered_def split: prod.splits)
  next
    case (OpRelease q fault root j)
    have "i \<noteq> j" "lease_run r \<noteq> j" using assms(3,4) OpRelease by auto
    then show ?thesis
      using assms(1,5) OpRelease remembered_release_entry [OF m assms(2)]
      by (auto simp: by_process_def release_lease_def Let_def remembered_def split: prod.splits option.splits)
        (metis fst_conv)+
  next
    case (OpReleaseRun q fault j)
    have "i \<noteq> j" "lease_run r \<noteq> j" using assms(3,4) OpReleaseRun by auto
    then show ?thesis
      using assms(1,5) OpReleaseRun remembered_release_entry [OF m assms(2)]
      by (auto simp: by_process_def release_run_def Let_def remembered_def split: prod.splits option.splits)
        (metis fst_conv)+
  qed (use assms in \<open>auto simp: remembered_def\<close>)
qed

lemma remembered_ops:
  assumes "remembered s p i \<lparr>lease_key = key, lease_path = le_path env key\<rparr>" and "held_by (snd s) (le_path env key) r"
    and "lease_run r = i" and "\<forall>op \<in> set ops. \<not> disturbs p i op \<and> \<not> names_run i op" and "exec_ops env ops s = (results, s')"
  shows "remembered s' p i \<lparr>lease_key = key, lease_path = le_path env key\<rparr>"
  using assms
proof (induction ops arbitrary: s results)
  case (Cons op ops)
  obtain x s1 where x: "exec_op env op s = (x, s1)" by (rule prod.exhaust)
  obtain xs where xs: "exec_ops env ops s1 = (xs, s')"
    using Cons.prems(5) x by (auto simp: Let_def split: prod.splits)
  have "remembered s1 p i \<lparr>lease_key = key, lease_path = le_path env key\<rparr>"
    using remembered_op [OF Cons.prems(1) _ Cons.prems(3) _ x] Cons.prems(2,4) by simp
  moreover have "held_by (snd s1) (le_path env key) r" using held_op(1) [OF Cons.prems(2) _ x] Cons.prems(3,4) by simp
  ultimately show ?case using Cons.IH Cons.prems(3,4) xs by simp
qed simp

lemma release_frees:
  assumes "keys_by_run l i = Some e" and "owners l (lease_key e) = Some e"
    and "map_of d (lease_path e) = Some (LeaseData r)" and "lease_version r = 1" and "lease_record_key r = lease_key e"
    and "lease_run r = i"
  shows "release_run no_release_fault i (l, d)
    = (l\<lparr>owners := (owners l)(lease_key e := None), keys_by_run := (keys_by_run l)(i := None)\<rparr>,
       filter (\<lambda>(p, _). p \<noteq> lease_path e) d)"
  using assms
  by (simp add: release_run_def release_entry_def may_release_def read_lease_def no_release_fault_def remove_entry_def
      forget_entry_def)

text \<open>Releasing undoes acquiring: when the process that acquired the lease releases the run, after
  anything the processes did in between but release that run (or make its process forget it), the
  lease file is gone and every run of that process, and of every process that does not itself
  remember an owner, can acquire the repository.\<close>

theorem released_lease_is_free:
  assumes "exec_op env (OpAcquire p fault now root i) s = (Inr (), s1)" and "repository_lock_key env root = Some key"
    and "\<forall>op \<in> set ops. \<not> disturbs p i op \<and> \<not> names_run i op" and "exec_ops env ops s1 = (results, s2)"
    and "exec_op env (OpReleaseRun p no_release_fault i) s2 = (x, s3)" and "j \<noteq> []"
    and "q = p \<or> owners (fst s2 q) key = None"
  shows "map_of (snd s3) (le_path env key) = None \<and> fst (exec_op env (OpAcquire q NoFault later root j) s3) = Inr ()"
proof -
  let ?e = "\<lparr>lease_key = key, lease_path = le_path env key\<rparr>"
  let ?r = "\<lparr>lease_version = 1, lease_record_key = key, lease_run = i, lease_created = now\<rparr>"
  have h: "held_by (snd s2) (le_path env key) ?r"
    using held_ops [OF acquired_is_held(1) [OF assms(1,2)] _ assms(4)] assms(3) by simp
  have m: "remembered s2 p i ?e"
    using remembered_ops [OF acquired_is_held(2,1) [OF assms(1,2)] _ assms(3,4)] by simp
  have r: "release_run no_release_fault i (fst s2 p, snd s2)
    = ((fst s2 p)\<lparr>owners := (owners (fst s2 p))(key := None), keys_by_run := (keys_by_run (fst s2 p))(i := None)\<rparr>,
       filter (\<lambda>(p, _). p \<noteq> le_path env key) (snd s2))"
    using release_frees [of "fst s2 p" i ?e "snd s2" ?r] h m by (simp add: held_by_def remembered_def)
  then have s3: "snd s3 = filter (\<lambda>(p, _). p \<noteq> le_path env key) (snd s2)" and "owners (fst s3 q) key = None"
    using assms(5,7) by (auto simp: by_process_def)
  moreover have "map_of (snd s3) (le_path env key) = None" by (simp add: s3 map_of_remove)
  ultimately show ?thesis
    using assms(2,6) by (simp add: by_process_def acquire_def Let_def)
qed

theorem released_lease_is_free_witness:
  "fst (exec_op sample_locks (OpAcquire 1 NoFault 9 ''/repo'' ''q'')
     (snd (exec_op sample_locks (OpReleaseRun 0 no_release_fault ''r'')
       (snd (exec_op sample_locks (OpAcquire 0 NoFault 7 ''/repo'' ''r'') no_locks))))) = Inr ()"
proof -
  let ?s1 = "snd (exec_op sample_locks (OpAcquire 0 NoFault 7 ''/repo'' ''r'') no_locks)"
  have k: "repository_lock_key sample_locks ''/repo'' = Some ''/repo''" by (simp add: repository_lock_key_def sample_locks_def)
  obtain x s3 where r: "exec_op sample_locks (OpReleaseRun 0 no_release_fault ''r'') ?s1 = (x, s3)" by (rule prod.exhaust)
  have o: "(1::nat) = 0 \<or> owners (fst ?s1 1) ''/repo'' = None"
    by (simp add: by_process_def acquire_def repository_lock_key_def sample_locks_def no_locks_def new_repo_locks_def Let_def)
  have e: "exec_ops sample_locks [] ?s1 = ([], ?s1)" by simp
  have n: "\<forall>op \<in> set []. \<not> disturbs 0 ''r'' op \<and> \<not> names_run ''r'' op" by simp
  show ?thesis
    unfolding r snd_conv using released_lease_is_free [OF sample_acquire k n e r _ o, of "''q''"] by simp
qed

section \<open>What the lease files do not prevent\<close>

text \<open>Any process that names a run releases its lease from the directory, alive or not; recovery at
  start-up does so for every run of the store it opens. The process that held the lease then keeps
  its entry in memory: releasing does nothing, and it refuses the repository for ever.\<close>

lemma stale_owner_blocks:
  assumes "keys_by_run l i = Some e" and "owners l (lease_key e) = Some e" and "map_of d (lease_path e) = None"
    and "repository_lock_key env root = Some (lease_key e)"
  shows "release_run fault i (l, d) = (l, d) \<and> acquire env f now root j (release_run fault i (l, d)) = (Inl ErrRepoBusy, l, d)"
  using assms by (simp add: release_run_def release_entry_def may_release_def read_lease_def acquire_def)

text \<open>The check and the removal are two calls: between them another process may release the same run
  and acquire the repository, and the removal then takes the newer lease away.\<close>

lemma release_race:
  assumes "may_release fault d e i" and "\<not> rf_remove_fails fault"
    and "held_by d' (lease_path e) r" \<comment> \<open>the directory when the removal happens, with a newer lease\<close>
  shows "map_of (snd (remove_entry fault e i (l, d'))) (lease_path e) = None"
  using assms by (simp add: remove_entry_def held_by_def map_of_remove)

end
