(* ===== verification/Go_Url.thy ===== *)
theory Go_Url
  imports Prelude
begin

text \<open>
  What the sources use of \<^verbatim>\<open>net/url\<close> (as of Go 1.26, the version of \<^verbatim>\<open>go.mod\<close>):
  \<^verbatim>\<open>Parse\<close> and \<^verbatim>\<open>ParseRequestURI\<close>, the host name and the port of a URL, and
  \<^verbatim>\<open>net.JoinHostPort\<close>. \<^verbatim>\<open>netip.ParseAddr\<close> on the text between brackets is an
  argument: whether it is an IPv6 address.
\<close>

record url =
  u_scheme :: string
  u_user :: bool \<comment> \<open>whether there is user information\<close>
  u_host :: string
  u_path :: string
  u_raw_query :: string
  u_fragment :: string

datatype url_mode = EncodePath | EncodeUserPassword | EncodeFragment | EncodeHost | EncodeZone

definition hex_value :: "char \<Rightarrow> nat option" where
  "hex_value c =
     (let n = code c in
      if 48 \<le> n \<and> n \<le> 57 then Some (n - 48)
      else if 97 \<le> n \<and> n \<le> 102 then Some (n - 87)
      else if 65 \<le> n \<and> n \<le> 70 then Some (n - 55) else None)"

definition ascii_alnum :: "char \<Rightarrow> bool" where
  "ascii_alnum c \<longleftrightarrow> (let n = code c in (48 \<le> n \<and> n \<le> 57) \<or> (97 \<le> n \<and> n \<le> 122) \<or> (65 \<le> n \<and> n \<le> 90))"

text \<open>\<^verbatim>\<open>shouldEscape\<close> in the host modes.\<close>

definition host_char :: "char \<Rightarrow> bool" where
  "host_char c \<longleftrightarrow> ascii_alnum c \<or> c \<in> set ''!$&()*+,;=:[]<>-_.~'' \<or> code c = 34 \<or> code c = 39"

fun url_unescape :: "url_mode \<Rightarrow> string \<Rightarrow> string option" where
  "url_unescape mode [] = Some []"
| "url_unescape mode (c # s) =
     (if c = CHR ''%'' then
        (case s of
           a # b # rest \<Rightarrow>
             (case (hex_value a, hex_value b) of
                (Some x, Some y) \<Rightarrow>
                  let v = 16 * x + y; pct = (a = CHR ''2'' \<and> b = CHR ''5'') in
                  if mode = EncodeHost \<and> x < 8 \<and> \<not> pct then None
                  else if mode = EncodeZone \<and> \<not> pct \<and> v \<noteq> 32 \<and> (\<not> host_char (char_of v)) then None
                  else map_option ((#) (char_of v)) (url_unescape mode rest)
              | _ \<Rightarrow> None)
         | _ \<Rightarrow> None)
      else if (mode = EncodeHost \<or> mode = EncodeZone) \<and> code c < 128 \<and> \<not> host_char c then None
      else map_option ((#) c) (url_unescape mode s))"

definition valid_optional_port :: "string \<Rightarrow> bool" where
  "valid_optional_port p = (case p of [] \<Rightarrow> True | c # ds \<Rightarrow> c = CHR '':'' \<and> list_all ascii_digit ds)"

text \<open>Cutting at the first and at the last occurrence of a byte.\<close>

definition cut_first :: "char \<Rightarrow> string \<Rightarrow> (string \<times> string) option" where
  "cut_first c s = (if c \<in> set s then Some (takeWhile (\<lambda>d. d \<noteq> c) s, drop 1 (dropWhile (\<lambda>d. d \<noteq> c) s)) else None)"

definition cut_last :: "char \<Rightarrow> string \<Rightarrow> (string \<times> string) option" where
  "cut_last c s = map_option (\<lambda>(a, b). (rev b, rev a)) (cut_first c (rev s))"

fun find_text :: "string \<Rightarrow> string \<Rightarrow> nat option" where
  "find_text p [] = (if p = [] then Some 0 else None)"
| "find_text p (c # s) = (if has_prefix (c # s) p then Some 0 else map_option Suc (find_text p s))"

definition parse_bracketed :: "(string \<Rightarrow> bool) \<Rightarrow> string \<Rightarrow> string option" where
  \<comment> \<open>the rest after the opening bracket\<close>
  "parse_bracketed is_ipv6 rest =
     (case cut_last (CHR '']'') rest of
        None \<Rightarrow> None
      | Some (name, port) \<Rightarrow>
          if \<not> valid_optional_port port then None
          else
            (case (case find_text ''%25'' name of
                     None \<Rightarrow> url_unescape EncodeHost name
                   | Some i \<Rightarrow>
                       (case (url_unescape EncodeHost (take i name), url_unescape EncodeZone (drop i name)) of
                          (Some h, Some z) \<Rightarrow> Some (h @ z) | _ \<Rightarrow> None)) of
               None \<Rightarrow> None
             | Some h \<Rightarrow> if is_ipv6 h then Some (''['' @ h @ '']'' @ port) else None))"

definition parse_host :: "(string \<Rightarrow> bool) \<Rightarrow> string \<Rightarrow> string option" where
  "parse_host is_ipv6 host =
     (if CHR ''['' \<in> set host then
        (if hd host = CHR ''['' \<and> CHR ''['' \<notin> set (tl host) then parse_bracketed is_ipv6 (tl host) else None)
      else
        (case cut_first (CHR '':'') host of
           None \<Rightarrow> url_unescape EncodeHost host
         | Some (_, p) \<Rightarrow> if list_all ascii_digit p then url_unescape EncodeHost host else None))"

definition userinfo_char :: "char \<Rightarrow> bool" where
  "userinfo_char c \<longleftrightarrow> ascii_alnum c \<or> c \<in> set ''-._:~!$&()*+,;=%@'' \<or> code c = 39"

definition parse_authority :: "(string \<Rightarrow> bool) \<Rightarrow> string \<Rightarrow> (bool \<times> string) option" where
  "parse_authority is_ipv6 authority =
     (case cut_last (CHR ''@'') authority of
        None \<Rightarrow> map_option (Pair False) (parse_host is_ipv6 authority)
      | Some (userinfo, host) \<Rightarrow>
          (case parse_host is_ipv6 host of
             None \<Rightarrow> None
           | Some h \<Rightarrow>
               if \<not> list_all userinfo_char userinfo then None
               else
                 (case cut_first (CHR '':'') userinfo of
                    None \<Rightarrow> if url_unescape EncodeUserPassword userinfo = None then None else Some (True, h)
                  | Some (name, password) \<Rightarrow>
                      if url_unescape EncodeUserPassword name = None \<or> url_unescape EncodeUserPassword password = None
                      then None else Some (True, h))))"

text \<open>\<^verbatim>\<open>getScheme\<close>: nothing for a missing scheme before a colon, else the scheme and the rest.\<close>

fun get_scheme :: "string \<Rightarrow> string \<Rightarrow> string \<Rightarrow> (string \<times> string) option" where
  "get_scheme raw acc [] = Some ([], raw)"
| "get_scheme raw acc (c # s) =
     (if (97 \<le> code c \<and> code c \<le> 122) \<or> (65 \<le> code c \<and> code c \<le> 90) then get_scheme raw (c # acc) s
      else if ascii_digit c \<or> c \<in> set ''+-.'' then
        (if acc = [] then Some ([], raw) else get_scheme raw (c # acc) s)
      else if c = CHR '':'' then (if acc = [] then None else Some (rev acc, s))
      else Some ([], raw))"

definition cut_query :: "string \<Rightarrow> string \<times> string" where
  "cut_query rest =
     (case cut_first (CHR ''?'') rest of None \<Rightarrow> (rest, []) | Some (a, q) \<Rightarrow> (a, q))"

definition has_control :: "string \<Rightarrow> bool" where
  "has_control s \<longleftrightarrow> list_ex (\<lambda>c. code c < 32 \<or> code c = 127) s"

definition parse_hierarchy :: "(string \<Rightarrow> bool) \<Rightarrow> bool \<Rightarrow> string \<Rightarrow> string \<Rightarrow> string \<Rightarrow> url option" where
  \<comment> \<open>the rest of \<^verbatim>\<open>parse\<close>, after the scheme and the query are split off\<close>
  "parse_hierarchy is_ipv6 via_request scheme query rest =
     (if \<not> has_prefix rest ''/'' \<and> scheme \<noteq> [] then
        Some \<lparr>u_scheme = scheme, u_user = False, u_host = [], u_path = [], u_raw_query = query, u_fragment = []\<rparr>
      else if \<not> has_prefix rest ''/'' \<and> (via_request \<or> CHR '':'' \<in> set (takeWhile (\<lambda>c. c \<noteq> slash) rest)) then None
      else if (scheme \<noteq> [] \<or> (\<not> via_request \<and> \<not> has_prefix rest ''///'')) \<and> has_prefix rest ''//'' then
        (let authority = takeWhile (\<lambda>c. c \<noteq> slash) (drop 2 rest); path = dropWhile (\<lambda>c. c \<noteq> slash) (drop 2 rest) in
         case (parse_authority is_ipv6 authority, url_unescape EncodePath path) of
           (Some (user, host), Some p) \<Rightarrow>
             Some \<lparr>u_scheme = scheme, u_user = user, u_host = host, u_path = p, u_raw_query = query, u_fragment = []\<rparr>
         | _ \<Rightarrow> None)
      else
        map_option (\<lambda>p. \<lparr>u_scheme = scheme, u_user = False, u_host = [], u_path = p, u_raw_query = query, u_fragment = []\<rparr>)
          (url_unescape EncodePath rest))"

definition url_parse_rest :: "(string \<Rightarrow> bool) \<Rightarrow> bool \<Rightarrow> string \<Rightarrow> url option" where
  "url_parse_rest is_ipv6 via_request raw =
     (if has_control raw then None
      else if raw = [] \<and> via_request then None
      else if raw = ''*'' then
        Some \<lparr>u_scheme = [], u_user = False, u_host = [], u_path = ''*'', u_raw_query = [], u_fragment = []\<rparr>
      else
        (case get_scheme raw [] raw of
           None \<Rightarrow> None
         | Some (scheme, rest) \<Rightarrow>
             (case cut_query rest of (r, q) \<Rightarrow> parse_hierarchy is_ipv6 via_request (to_lower scheme) q r)))"

definition parse_request_uri :: "(string \<Rightarrow> bool) \<Rightarrow> string \<Rightarrow> url option" where
  "parse_request_uri is_ipv6 raw = url_parse_rest is_ipv6 True raw"

definition url_parse :: "(string \<Rightarrow> bool) \<Rightarrow> string \<Rightarrow> url option" where
  "url_parse is_ipv6 raw =
     (case cut_first (CHR ''#'') raw of
        None \<Rightarrow> url_parse_rest is_ipv6 False raw
      | Some (a, frag) \<Rightarrow>
          (case (url_parse_rest is_ipv6 False a, url_unescape EncodeFragment frag) of
             (Some u, Some f) \<Rightarrow> Some (u\<lparr>u_fragment := f\<rparr>)
           | _ \<Rightarrow> None))"

section \<open>Host name and port\<close>

definition split_host_port :: "string \<Rightarrow> string \<times> string" where
  "split_host_port hp =
     (let (host, port) =
        (case cut_last (CHR '':'') hp of
           None \<Rightarrow> (hp, [])
         | Some (h, p) \<Rightarrow> if list_all ascii_digit p then (h, p) else (hp, []))
      in (if host \<noteq> [] \<and> hd host = CHR ''['' \<and> List.last host = CHR '']'' \<and> 2 \<le> length host
          then butlast (tl host) else host, port))"

definition url_hostname :: "url \<Rightarrow> string" where
  "url_hostname u = fst (split_host_port (u_host u))"

definition url_port :: "url \<Rightarrow> string" where
  "url_port u = snd (split_host_port (u_host u))"

definition join_host_port :: "string \<Rightarrow> string \<Rightarrow> string" where
  "join_host_port host port =
     (if CHR '':'' \<in> set host then ''['' @ host @ '']:'' @ port else host @ '':'' @ port)"

end
