(* ===== verification/Credential_Store.thy ===== *)
theory Credential_Store
  imports Go_Url
begin

text \<open>
  Package \<^verbatim>\<open>internal/credentials\<close>, \<^verbatim>\<open>store.go\<close>: references to credentials, their
  normalisation, the contract of a credential store and the store in memory. A store is a record of
  its four operations on a state; what the context and the clock say enters with the operations
  (\<^verbatim>\<open>memory_ops cancelled now\<close>). Clearing of buffers has no counterpart: values are immutable.
  The locale states what the service relies on. The store in memory interprets it here; that the
  keyring store and the vault keep it, under the laws of the keyring and of the cipher, are the
  theorems \<^verbatim>\<open>keyring_store_keeps_contract\<close> and \<^verbatim>\<open>vault_keeps_contract\<close>.
\<close>

section \<open>Types\<close>

datatype cred_error =
    ErrCredentialNotFound | ErrAlreadyConfigured | ErrAmbiguousCredential | ErrInvalidCredential | ErrInvalidKey
  | ErrUnavailable | ErrLocked | ErrKeyring | ErrDecrypt | ErrInvalidVault | ErrUnsupportedVersion
  | ErrUnsafeParameters | ErrPasswordUnavailable | ErrVaultCommitted
  | ErrCredContext \<comment> \<open>the context's own error\<close>
  | ErrCredJoined cred_error cred_error

definition max_credential_bytes :: nat where
  "max_credential_bytes = 65536"

record cred_ref =
  cr_provider :: string
  cr_host :: string

record cred_status =
  st_ref :: cred_ref
  st_configured :: bool
  st_backend :: string
  st_updated_at :: gtime

definition empty_ref :: cred_ref where
  "empty_ref = \<lparr>cr_provider = [], cr_host = []\<rparr>"

definition empty_status :: cred_status where
  "empty_status = \<lparr>st_ref = empty_ref, st_configured = False, st_backend = [], st_updated_at = zero_time\<rparr>"

text \<open>The interface \<^verbatim>\<open>Store\<close>.\<close>

record 's cred_ops =
  co_set :: "cred_ref \<Rightarrow> string \<Rightarrow> 's \<Rightarrow> (cred_error, unit) result \<times> 's"
  co_get :: "cred_ref \<Rightarrow> 's \<Rightarrow> (cred_error, string) result"
  co_delete :: "cred_ref \<Rightarrow> 's \<Rightarrow> (cred_error, unit) result \<times> 's"
  co_status :: "cred_ref \<Rightarrow> 's \<Rightarrow> (cred_error, cred_status) result"

section \<open>References\<close>

definition provider_char :: "char \<Rightarrow> bool" where
  "provider_char c \<longleftrightarrow> (97 \<le> code c \<and> code c \<le> 122) \<or> ascii_digit c"

definition provider_id :: "string \<Rightarrow> bool" where
  "provider_id p = (case p of [] \<Rightarrow> False | c # cs \<Rightarrow> provider_char c \<and> list_all (\<lambda>d. provider_char d \<or> d \<in> set ''._-'') cs)"

definition normalize_ref :: "(string \<Rightarrow> bool) \<Rightarrow> cred_ref \<Rightarrow> cred_ref option" where
  "normalize_ref is_ipv6 ref =
     (let provider = to_lower (trim_space (cr_provider ref)) in
      if \<not> provider_id provider then None
      else
        (case url_parse is_ipv6 (''//'' @ trim_space (cr_host ref)) of
           None \<Rightarrow> None
         | Some u \<Rightarrow>
             if u_scheme u \<noteq> [] \<or> u_user u \<or> u_host u = [] \<or> u_path u \<noteq> [] \<or> u_raw_query u \<noteq> [] \<or> u_fragment u \<noteq> []
             then None
             else
               (let hostname = to_lower (trim_suffix (url_hostname u) ''.''); port = url_port u in
                if hostname = [] \<or> list_ex (\<lambda>c. code c \<in> {32, 9, 13, 10}) hostname then None
                else Some \<lparr>cr_provider = provider,
                           cr_host = (if port \<noteq> [] then join_host_port hostname port
                                      else if CHR '':'' \<in> set hostname then ''['' @ hostname @ '']'' else hostname)\<rparr>)))"

definition ref_identity :: "cred_ref \<Rightarrow> string" where
  "ref_identity ref = cr_provider ref @ [CHR 0x00] @ cr_host ref"

definition valid_secret :: "string \<Rightarrow> bool" where
  "valid_secret secret \<longleftrightarrow> 0 < length secret \<and> length secret \<le> max_credential_bytes"

section \<open>The store in memory\<close>

type_synonym cred_memory = "(string \<times> string \<times> gtime) list" \<comment> \<open>by identity: the secret and the time of its update\<close>

definition cred_memory_set ::
    "(string \<Rightarrow> bool) \<Rightarrow> bool \<Rightarrow> gtime \<Rightarrow> cred_ref \<Rightarrow> string \<Rightarrow> cred_memory \<Rightarrow> (cred_error, unit) result \<times> cred_memory" where
  "cred_memory_set is_ipv6 cancelled now ref secret s =
     (if cancelled then (Inl ErrCredContext, s)
      else
        (case normalize_ref is_ipv6 ref of
           None \<Rightarrow> (Inl ErrInvalidCredential, s)
         | Some n \<Rightarrow>
             if \<not> valid_secret secret then (Inl ErrInvalidCredential, s)
             else (Inr (), AList.update (ref_identity n) (secret, now) s)))"

definition cred_memory_get :: "(string \<Rightarrow> bool) \<Rightarrow> bool \<Rightarrow> cred_ref \<Rightarrow> cred_memory \<Rightarrow> (cred_error, string) result" where
  "cred_memory_get is_ipv6 cancelled ref s =
     (if cancelled then Inl ErrCredContext
      else
        (case normalize_ref is_ipv6 ref of
           None \<Rightarrow> Inl ErrInvalidCredential
         | Some n \<Rightarrow>
             (case map_of s (ref_identity n) of None \<Rightarrow> Inl ErrCredentialNotFound | Some (secret, t) \<Rightarrow> Inr secret)))"

definition cred_memory_delete ::
    "(string \<Rightarrow> bool) \<Rightarrow> bool \<Rightarrow> cred_ref \<Rightarrow> cred_memory \<Rightarrow> (cred_error, unit) result \<times> cred_memory" where
  "cred_memory_delete is_ipv6 cancelled ref s =
     (if cancelled then (Inl ErrCredContext, s)
      else
        (case normalize_ref is_ipv6 ref of
           None \<Rightarrow> (Inl ErrInvalidCredential, s)
         | Some n \<Rightarrow>
             if map_of s (ref_identity n) = None then (Inl ErrCredentialNotFound, s)
             else (Inr (), AList.delete (ref_identity n) s)))"

definition cred_memory_status :: "(string \<Rightarrow> bool) \<Rightarrow> bool \<Rightarrow> cred_ref \<Rightarrow> cred_memory \<Rightarrow> (cred_error, cred_status) result" where
  "cred_memory_status is_ipv6 cancelled ref s =
     (if cancelled then Inl ErrCredContext
      else
        (case normalize_ref is_ipv6 ref of
           None \<Rightarrow> Inl ErrInvalidCredential
         | Some n \<Rightarrow>
             Inr \<lparr>st_ref = n, st_configured = (map_of s (ref_identity n) \<noteq> None), st_backend = ''memory'',
                  st_updated_at = (case map_of s (ref_identity n) of None \<Rightarrow> zero_time | Some (x, t) \<Rightarrow> t)\<rparr>))"

definition cred_memory_ops :: "(string \<Rightarrow> bool) \<Rightarrow> bool \<Rightarrow> gtime \<Rightarrow> cred_memory cred_ops" where
  "cred_memory_ops is_ipv6 cancelled now =
     \<lparr>co_set = cred_memory_set is_ipv6 cancelled now, co_get = cred_memory_get is_ipv6 cancelled,
      co_delete = cred_memory_delete is_ipv6 cancelled, co_status = cred_memory_status is_ipv6 cancelled\<rparr>"

text \<open>\<^verbatim>\<open>errors.Is\<close>.\<close>

fun is_cred_error :: "cred_error \<Rightarrow> cred_error \<Rightarrow> bool" where
  "is_cred_error target (ErrCredJoined a b) \<longleftrightarrow> is_cred_error target a \<or> is_cred_error target b"
| "is_cred_error target e \<longleftrightarrow> e = target"

section \<open>What the service relies on\<close>

text \<open>\<^verbatim>\<open>content s i\<close> is what the store has under the identity \<^verbatim>\<open>i\<close>. A write or
  a deletion that fails may have left anything there; nothing else changes. Reading gives what is
  there when the status says that something is.\<close>

locale credential_backend =
  fixes ops :: "'s cred_ops"
    and ident :: "cred_ref \<Rightarrow> string option"
    and content :: "'s \<Rightarrow> string \<Rightarrow> string option"
  assumes set_done: "co_set ops r x s = (Inr (), s') \<Longrightarrow> \<exists>i. ident r = Some i \<and> content s' = (content s)(i \<mapsto> x)"
    and set_fails: "co_set ops r x s = (Inl e, s')
      \<Longrightarrow> content s' = content s \<or> (\<exists>i y. ident r = Some i \<and> content s' = (content s)(i := y))"
    and get_done: "co_get ops r s = Inr x \<Longrightarrow> \<exists>i. ident r = Some i \<and> (content s i \<noteq> None \<longrightarrow> content s i = Some x)"
    and delete_done: "co_delete ops r s = (Inr (), s') \<Longrightarrow> \<exists>i. ident r = Some i \<and> content s' = (content s)(i := None)"
    and delete_fails: "co_delete ops r s = (Inl e, s')
      \<Longrightarrow> content s' = content s \<or> (\<exists>i y. ident r = Some i \<and> content s' = (content s)(i := y))"
    and status_done: "co_status ops r s = Inr st \<Longrightarrow> \<exists>i. ident r = Some i \<and> (st_configured st \<longleftrightarrow> content s i \<noteq> None)"
begin

lemma set_elsewhere:
  assumes "ident r = Some i" and "j \<noteq> i"
  shows "content (snd (co_set ops r x s)) j = content s j"
proof -
  obtain y s' where y: "co_set ops r x s = (y, s')" by (rule prod.exhaust)
  show ?thesis using assms y set_done [of r x s s'] set_fails [of r x s _ s'] by (cases y) (force simp: y)+
qed

lemma delete_elsewhere:
  assumes "ident r = Some i" and "j \<noteq> i"
  shows "content (snd (co_delete ops r s)) j = content s j"
proof -
  obtain y s' where y: "co_delete ops r s = (y, s')" by (rule prod.exhaust)
  show ?thesis using assms y delete_done [of r s s'] delete_fails [of r s _ s'] by (cases y) (force simp: y)+
qed

end

text \<open>What clearing relies on besides: a store that does not find the credential has none.\<close>

locale clean_backend = credential_backend +
  assumes delete_missing: "co_delete ops r s = (Inl e, s') \<Longrightarrow> is_cred_error ErrCredentialNotFound e
      \<Longrightarrow> \<exists>i. ident r = Some i \<and> content s' i = None"
begin

lemma delete_gone:
  assumes "co_delete ops r s = (x, s')" and "x = Inr () \<or> (\<exists>e. x = Inl e \<and> is_cred_error ErrCredentialNotFound e)"
  shows "\<exists>i. ident r = Some i \<and> content s' i = None"
  using assms delete_done [of r s s'] delete_missing [of r s _ s'] by auto

end

definition identity_of :: "(string \<Rightarrow> bool) \<Rightarrow> cred_ref \<Rightarrow> string option" where
  "identity_of is_ipv6 r = map_option ref_identity (normalize_ref is_ipv6 r)"

definition memory_content :: "cred_memory \<Rightarrow> string \<Rightarrow> string option" where
  "memory_content s i = map_option fst (map_of s i)"

interpretation memory_backend: clean_backend "cred_memory_ops is_ipv6 cancelled now" "identity_of is_ipv6" memory_content
  for is_ipv6 cancelled now
proof (unfold_locales, goal_cases)
  case (1 r x s s')
  then show ?case
    by (force simp: cred_memory_ops_def cred_memory_set_def identity_of_def memory_content_def update_conv' split: if_splits option.splits)
next
  case (2 r x s e s')
  then show ?case
    by (auto simp: cred_memory_ops_def cred_memory_set_def split: if_splits option.splits)
next
  case (3 r s x)
  then show ?case
    by (auto simp: cred_memory_ops_def cred_memory_get_def identity_of_def memory_content_def split: if_splits option.splits)
next
  case (4 r s s')
  then show ?case
    by (force simp: cred_memory_ops_def cred_memory_delete_def identity_of_def memory_content_def delete_conv' split: if_splits option.splits)
next
  case (5 r s e s')
  then show ?case
    by (auto simp: cred_memory_ops_def cred_memory_delete_def split: if_splits option.splits)
next
  case (6 r s st)
  then show ?case
    by (auto simp: cred_memory_ops_def cred_memory_status_def identity_of_def memory_content_def split: if_splits option.splits)
next
  case (7 r s e s')
  then show ?case
    by (auto simp: cred_memory_ops_def cred_memory_delete_def identity_of_def memory_content_def split: if_splits option.splits)
qed

end
