(* ===== verification/Vault.thy ===== *)
theory Vault
  imports Credential_Store Store_Log
begin

text \<open>
  Package \<^verbatim>\<open>internal/credentials\<close>, \<^verbatim>\<open>vault.go\<close>: the encrypted vault, one file per
  reference. Parameters: the key derivation (\<^verbatim>\<open>argon2.IDKey\<close> with its time, memory, threads
  and key length), the authenticated encryption (\<^verbatim>\<open>chacha20poly1305.NewX\<close>: \<^verbatim>\<open>Seal\<close>
  and \<^verbatim>\<open>Open\<close>) and SHA-256 in hexadecimal. The password the callback returns, the bytes of
  the random reader and the faults of the file system are the operation's surroundings.
\<close>

section \<open>Parameters and surroundings\<close>

record vault_env =
  ve_is_ipv6 :: "string \<Rightarrow> bool"
  ve_sha :: "string \<Rightarrow> string"
  ve_kdf :: "string \<Rightarrow> string \<Rightarrow> nat \<Rightarrow> nat \<Rightarrow> nat \<Rightarrow> nat \<Rightarrow> string" \<comment> \<open>password, salt, time, memory, threads, key length\<close>
  ve_seal :: "string \<Rightarrow> string \<Rightarrow> string \<Rightarrow> string \<Rightarrow> string" \<comment> \<open>key, nonce, plaintext, associated data\<close>
  ve_open :: "string \<Rightarrow> string \<Rightarrow> string \<Rightarrow> string \<Rightarrow> string option" \<comment> \<open>key, nonce, ciphertext, associated data\<close>
  ve_path :: string

text \<open>How an atomic write goes: it fails before the replacement, after it (when the directory is
  synchronised), or when the permissions of the new file are restricted.\<close>

datatype write_outcome = Written | NotReplaced | DirectoryNotSynced | NotRestricted

record vault_call =
  vc_cancelled :: bool
  vc_password :: "string option" \<comment> \<open>nothing: no callback, or its error\<close>
  vc_random :: string
  vc_now :: gtime
  vc_write :: write_outcome
  vc_unreadable :: bool
  vc_remove_fails :: bool
  vc_sync_fails :: bool
  vc_stat_fails :: bool

type_synonym vault_files = "string \<Rightarrow> (string \<times> gtime) option" \<comment> \<open>contents and modification time\<close>

section \<open>The format\<close>

definition vault_magic :: string where
  "vault_magic = ''A4SEVLT1''"

definition vault_version :: char where
  "vault_version = CHR 0x01"

definition vault_salt_bytes :: nat where "vault_salt_bytes = 16"

definition vault_nonce_bytes :: nat where "vault_nonce_bytes = 24"

definition vault_overhead :: nat where "vault_overhead = 16"

definition vault_header_size :: nat where
  "vault_header_size = 8 + 1 + vault_salt_bytes + 4 + 4 + 1 + 1 + vault_nonce_bytes"

definition argon_time :: nat where "argon_time = 3"

definition argon_memory_kib :: nat where "argon_memory_kib = 64 * 1024"

definition argon_threads :: nat where "argon_threads = 2"

definition argon_key_bytes :: nat where "argon_key_bytes = 32"

definition max_vault_bytes :: nat where
  "max_vault_bytes = vault_header_size + max_credential_bytes + vault_overhead"

definition vault_data :: "string \<Rightarrow> string \<Rightarrow> string \<Rightarrow> string" where
  "vault_data salt nonce ciphertext =
     vault_magic @ [vault_version] @ salt @ big_endian 4 argon_time @ big_endian 4 argon_memory_kib
       @ [char_of argon_threads, char_of argon_key_bytes] @ nonce @ ciphertext"

record vault_parameters =
  vp_salt :: string
  vp_time :: nat
  vp_memory :: nat
  vp_threads :: nat
  vp_key_bytes :: nat
  vp_nonce :: string
  vp_ciphertext :: string

definition slice :: "string \<Rightarrow> nat \<Rightarrow> nat \<Rightarrow> string" where
  "slice data a b = take (b - a) (drop a data)"

fun big_endian_value :: "string \<Rightarrow> nat" where
  "big_endian_value bs = foldl (\<lambda>n c. n * 256 + code c) 0 bs"

definition parse_vault :: "string \<Rightarrow> (cred_error, vault_parameters) result" where
  "parse_vault data =
     (if length data < vault_header_size + vault_overhead \<or> take 8 data \<noteq> vault_magic then Inl ErrInvalidVault
      else if data ! 8 \<noteq> vault_version then Inl ErrUnsupportedVersion
      else
        (let p = \<lparr>vp_salt = slice data 9 25, vp_time = big_endian_value (slice data 25 29),
                  vp_memory = big_endian_value (slice data 29 33), vp_threads = code (data ! 33),
                  vp_key_bytes = code (data ! 34), vp_nonce = slice data 35 59, vp_ciphertext = []\<rparr>
         in if vp_time p \<noteq> argon_time \<or> vp_memory p \<noteq> argon_memory_kib \<or> vp_threads p \<noteq> argon_threads
               \<or> vp_key_bytes p \<noteq> argon_key_bytes
            then Inl ErrUnsafeParameters
            else Inr (p\<lparr>vp_ciphertext := drop vault_header_size data\<rparr>)))"

section \<open>The operations\<close>

definition master_password :: "vault_call \<Rightarrow> (cred_error, string) result" where
  "master_password call =
     (case vc_password call of
        None \<Rightarrow> Inl ErrPasswordUnavailable
      | Some p \<Rightarrow> if p = [] then Inl ErrPasswordUnavailable else Inr p)"

definition record_path :: "vault_env \<Rightarrow> cred_ref \<Rightarrow> string" where
  "record_path env ref = ve_path env @ ''.'' @ ve_sha env (ref_identity ref) @ ''.vlt''"

definition write_vault_atomically ::
    "vault_call \<Rightarrow> string \<Rightarrow> string \<Rightarrow> vault_files \<Rightarrow> (cred_error, unit) result \<times> vault_files" where
  "write_vault_atomically call path data fs =
     (let fs' = fs(path \<mapsto> (data, vc_now call)) in
      case vc_write call of
        NotReplaced \<Rightarrow> (Inl ErrInvalidVault, fs)
      | DirectoryNotSynced \<Rightarrow> (Inl ErrInvalidVault, fs')
      | NotRestricted \<Rightarrow> (Inl (ErrCredJoined ErrVaultCommitted ErrInvalidVault), fs')
      | Written \<Rightarrow> (Inr (), fs'))"

definition vault_set ::
    "vault_env \<Rightarrow> vault_call \<Rightarrow> cred_ref \<Rightarrow> string \<Rightarrow> vault_files \<Rightarrow> (cred_error, unit) result \<times> vault_files" where
  "vault_set env call ref secret fs =
     (if vc_cancelled call then (Inl ErrCredContext, fs)
      else
        (case normalize_ref (ve_is_ipv6 env) ref of
           None \<Rightarrow> (Inl ErrInvalidCredential, fs)
         | Some n \<Rightarrow>
             if \<not> valid_secret secret \<or> ve_path env = [] then (Inl ErrInvalidCredential, fs)
             else
               (case master_password call of
                  Inl e \<Rightarrow> (Inl e, fs)
                | Inr password \<Rightarrow>
                    if length (vc_random call) < vault_salt_bytes + vault_nonce_bytes then (Inl ErrInvalidVault, fs)
                    else
                      (let salt = take vault_salt_bytes (vc_random call);
                           nonce = take vault_nonce_bytes (drop vault_salt_bytes (vc_random call));
                           key = ve_kdf env password salt argon_time argon_memory_kib argon_threads argon_key_bytes
                       in if length key \<noteq> argon_key_bytes then (Inl ErrInvalidVault, fs)
                          else write_vault_atomically call (record_path env n)
                                 (vault_data salt nonce (ve_seal env key nonce secret (ref_identity n))) fs))))"

definition read_vault :: "vault_call \<Rightarrow> string \<Rightarrow> vault_files \<Rightarrow> (cred_error, string) result" where
  "read_vault call path fs =
     (case fs path of
        None \<Rightarrow> Inl ErrCredentialNotFound
      | Some (data, t) \<Rightarrow>
          if vc_unreadable call \<or> length data < vault_header_size + vault_overhead \<or> max_vault_bytes < length data
          then Inl ErrInvalidVault else Inr data)"

definition vault_get :: "vault_env \<Rightarrow> vault_call \<Rightarrow> cred_ref \<Rightarrow> vault_files \<Rightarrow> (cred_error, string) result" where
  "vault_get env call ref fs =
     (if vc_cancelled call then Inl ErrCredContext
      else
        (case normalize_ref (ve_is_ipv6 env) ref of
           None \<Rightarrow> Inl ErrInvalidCredential
         | Some n \<Rightarrow>
             if ve_path env = [] then Inl ErrInvalidCredential
             else
               (case read_vault call (record_path env n) fs of
                  Inl e \<Rightarrow> Inl e
                | Inr data \<Rightarrow>
                    (case parse_vault data of
                       Inl e \<Rightarrow> Inl e
                     | Inr p \<Rightarrow>
                         (case master_password call of
                            Inl e \<Rightarrow> Inl e
                          | Inr password \<Rightarrow>
                              (let key = ve_kdf env password (vp_salt p) (vp_time p) (vp_memory p) (vp_threads p) (vp_key_bytes p)
                               in if length key \<noteq> argon_key_bytes then Inl ErrInvalidVault
                                  else
                                    (case ve_open env key (vp_nonce p) (vp_ciphertext p) (ref_identity n) of
                                       None \<Rightarrow> Inl ErrDecrypt
                                     | Some plaintext \<Rightarrow> Inr plaintext)))))))"

definition vault_delete :: "vault_env \<Rightarrow> vault_call \<Rightarrow> cred_ref \<Rightarrow> vault_files \<Rightarrow> (cred_error, unit) result \<times> vault_files" where
  "vault_delete env call ref fs =
     (if vc_cancelled call then (Inl ErrCredContext, fs)
      else
        (case normalize_ref (ve_is_ipv6 env) ref of
           None \<Rightarrow> (Inl ErrInvalidCredential, fs)
         | Some n \<Rightarrow>
             if fs (record_path env n) = None then (Inl ErrCredentialNotFound, fs)
             else if vc_remove_fails call then (Inl ErrInvalidVault, fs)
             else (if vc_sync_fails call then Inl ErrInvalidVault else Inr (), fs(record_path env n := None))))"

definition vault_status :: "vault_env \<Rightarrow> vault_call \<Rightarrow> cred_ref \<Rightarrow> vault_files \<Rightarrow> (cred_error, cred_status) result" where
  "vault_status env call ref fs =
     (if vc_cancelled call then Inl ErrCredContext
      else
        (case normalize_ref (ve_is_ipv6 env) ref of
           None \<Rightarrow> Inl ErrInvalidCredential
         | Some n \<Rightarrow>
             if ve_path env = [] then Inl ErrInvalidCredential
             else
               (case fs (record_path env n) of
                  None \<Rightarrow> Inr \<lparr>st_ref = n, st_configured = False, st_backend = ''vault'', st_updated_at = zero_time\<rparr>
                | Some (data, t) \<Rightarrow>
                    if vc_stat_fails call then Inl ErrInvalidVault
                    else Inr \<lparr>st_ref = n, st_configured = True, st_backend = ''vault'', st_updated_at = t\<rparr>)))"

section \<open>Writing and reading the format\<close>

lemmas vault_sizes = vault_salt_bytes_def vault_nonce_bytes_def vault_overhead_def vault_header_size_def
  vault_magic_def max_vault_bytes_def max_credential_bytes_def

lemma big_endian_round_trip: "big_endian_value (big_endian k n) = n mod 256 ^ k"
proof (induction k arbitrary: n)
  case (Suc k)
  have "n mod 256 ^ Suc k = n mod 256 + 256 * (n div 256 mod 256 ^ k)" by (simp add: mod_mult2_eq)
  then show ?case using Suc [of "n div 256"] by simp
qed simp

lemma big_endian_of_value: "big_endian (length bs) (big_endian_value bs) = bs"
proof (induction bs rule: rev_induct)
  case (snoc b bs)
  have "code b < 256" by simp
  then show ?case using snoc by simp
qed simp

text \<open>What is parsed is exactly what was written: \<^const>\<open>parse_vault\<close> accepts a file if and only
  if it is \<^const>\<open>vault_data\<close> of a salt, a nonce and a ciphertext of the right lengths.\<close>

lemma parse_vault_data:
  assumes "length salt = 16" and "length nonce = 24" and "16 \<le> length ciphertext"
  shows "parse_vault (vault_data salt nonce ciphertext)
    = Inr \<lparr>vp_salt = salt, vp_time = argon_time, vp_memory = argon_memory_kib, vp_threads = argon_threads,
           vp_key_bytes = argon_key_bytes, vp_nonce = nonce, vp_ciphertext = ciphertext\<rparr>"
proof -
  let ?d = "vault_data salt nonce ciphertext"
  let ?pre = "vault_magic @ [vault_version]"
  have d: "?d = ?pre @ salt @ big_endian 4 argon_time @ big_endian 4 argon_memory_kib
      @ [char_of argon_threads, char_of argon_key_bytes] @ nonce @ ciphertext"
    by (simp add: vault_data_def)
  have l: "length ?pre = 9" by (simp add: vault_magic_def)
  have s: "slice ?d 9 25 = salt" "slice ?d 25 29 = big_endian 4 argon_time" "slice ?d 29 33 = big_endian 4 argon_memory_kib"
      "slice ?d 35 59 = nonce" "drop 59 ?d = ciphertext"
    unfolding d using assms(1,2) l by (simp_all add: slice_def)
  have c: "?d ! 8 = vault_version" "?d ! 33 = char_of argon_threads" "?d ! 34 = char_of argon_key_bytes"
    unfolding d using assms(1,2) by (simp_all add: vault_magic_def nth_append)
  have p: "take 8 ?d = vault_magic" "length ?d \<ge> 75"
    unfolding d using assms by (simp_all add: vault_magic_def)
  have b: "big_endian_value (big_endian 4 argon_time) = argon_time"
      "big_endian_value (big_endian 4 argon_memory_kib) = argon_memory_kib"
    by (simp_all only: big_endian_round_trip, simp_all add: argon_time_def argon_memory_kib_def)
  show ?thesis
    using p s c b
    by (simp add: parse_vault_def Let_def vault_header_size_def vault_salt_bytes_def vault_nonce_bytes_def vault_overhead_def
        argon_threads_def argon_key_bytes_def del: big_endian_value.simps)
qed

lemma slice_step: "a \<le> b \<Longrightarrow> b \<le> length data \<Longrightarrow> drop a data = slice data a b @ drop b data"
  unfolding slice_def by (metis append_take_drop_id drop_drop le_add_diff_inverse2)

lemma byte_step: "a < length data \<Longrightarrow> drop a data = data ! a # drop (Suc a) data"
  by (simp add: Cons_nth_drop_Suc)

lemma parsed_vault_data:
  assumes "parse_vault data = Inr p"
  shows "data = vault_data (vp_salt p) (vp_nonce p) (vp_ciphertext p) \<and> length (vp_salt p) = 16 \<and> length (vp_nonce p) = 24
    \<and> 16 \<le> length (vp_ciphertext p) \<and> vp_time p = argon_time \<and> vp_memory p = argon_memory_kib
    \<and> vp_threads p = argon_threads \<and> vp_key_bytes p = argon_key_bytes"
proof -
  have l: "75 \<le> length data" and m: "take 8 data = vault_magic" and v: "data ! 8 = vault_version"
    and t: "big_endian_value (slice data 25 29) = argon_time" "big_endian_value (slice data 29 33) = argon_memory_kib"
      "code (data ! 33) = argon_threads" "code (data ! 34) = argon_key_bytes"
    and p: "vp_salt p = slice data 9 25" "vp_nonce p = slice data 35 59" "vp_ciphertext p = drop 59 data"
      "vp_time p = argon_time" "vp_memory p = argon_memory_kib" "vp_threads p = argon_threads" "vp_key_bytes p = argon_key_bytes"
    using assms
    by (auto simp: parse_vault_def Let_def vault_header_size_def vault_salt_bytes_def vault_nonce_bytes_def vault_overhead_def
        simp del: big_endian_value.simps split: if_splits)
  have len: "length (slice data a b) = b - a" if "b \<le> length data" for a b using that by (simp add: slice_def)
  have b: "slice data 25 29 = big_endian 4 argon_time" "slice data 29 33 = big_endian 4 argon_memory_kib"
    using big_endian_of_value [of "slice data 25 29"] big_endian_of_value [of "slice data 29 33"] t len l by auto
  have c: "data ! 33 = char_of argon_threads" "data ! 34 = char_of argon_key_bytes"
    unfolding t(3,4) [symmetric] by simp_all
  have "data = take 8 data @ drop 8 data" by simp
  also have "drop 8 data = data ! 8 # drop 9 data" using byte_step [of 8 data] l by simp
  also have "drop 9 data = slice data 9 25 @ drop 25 data" using slice_step [of 9 25 data] l by simp
  also have "drop 25 data = slice data 25 29 @ drop 29 data" using slice_step [of 25 29 data] l by simp
  also have "drop 29 data = slice data 29 33 @ drop 33 data" using slice_step [of 29 33 data] l by simp
  also have "drop 33 data = data ! 33 # drop 34 data" using byte_step [of 33 data] l by simp
  also have "drop 34 data = data ! 34 # drop 35 data" using byte_step [of 34 data] l by simp
  also have "drop 35 data = slice data 35 59 @ drop 59 data" using slice_step [of 35 59 data] l by simp
  finally have "data = vault_data (vp_salt p) (vp_nonce p) (vp_ciphertext p)"
    unfolding vault_data_def p(1-3) m v b c by simp
  then show ?thesis using p l len [of 25 9] len [of 59 35] by simp
qed

section \<open>The vault gives back what was stored\<close>

lemma vault_set_done:
  assumes "vault_set env call r x fs = (Inr (), fs')"
  obtains n password salt nonce key where "normalize_ref (ve_is_ipv6 env) r = Some n" and "ve_path env \<noteq> []" and "valid_secret x"
    and "vc_password call = Some password" and "password \<noteq> []" and "length salt = 16" and "length nonce = 24"
    and "key = ve_kdf env password salt argon_time argon_memory_kib argon_threads argon_key_bytes" and "length key = argon_key_bytes"
    and "fs' = fs(record_path env n \<mapsto> (vault_data salt nonce (ve_seal env key nonce x (ref_identity n)), vc_now call))"
proof -
  let ?salt = "take 16 (vc_random call)"
  let ?nonce = "take 24 (drop 16 (vc_random call))"
  obtain n password where f: "normalize_ref (ve_is_ipv6 env) r = Some n" "ve_path env \<noteq> []" "valid_secret x"
    "vc_password call = Some password" "password \<noteq> []" "40 \<le> length (vc_random call)"
    "length (ve_kdf env password ?salt argon_time argon_memory_kib argon_threads argon_key_bytes) = argon_key_bytes"
    "fs' = fs(record_path env n \<mapsto> (vault_data ?salt ?nonce (ve_seal env
       (ve_kdf env password ?salt argon_time argon_memory_kib argon_threads argon_key_bytes) ?nonce x (ref_identity n)), vc_now call))"
    using assms
    by (auto simp: vault_set_def master_password_def write_vault_atomically_def Let_def vault_salt_bytes_def
        vault_nonce_bytes_def split: if_splits option.splits write_outcome.splits sum.splits)
  moreover have "length ?salt = 16" "length ?nonce = 24" using f(6) by simp_all
  ultimately show thesis using that by blast
qed

text \<open>C11. Storing and reading: after a successful write, reading under any spelling of the reference
  with the same password gives the secret back, and every reference with another file reads as it
  did. The facts used of the cryptography are that opening undoes sealing and that a sealed text is
  16 bytes longer. Conversely whatever is read was in a file of exactly the vault's format, with the
  fixed key derivation parameters, sealed for that very reference: a file copied from another
  reference or with weaker parameters is refused.\<close>

theorem vault_round_trip:
  assumes "\<And>k n m a. ve_open env k n (ve_seal env k n m a) a = Some m"
    and "\<And>k n m a. length (ve_seal env k n m a) = length m + 16"
    and "vault_set env call r x fs = (Inr (), fs')"
    and "normalize_ref (ve_is_ipv6 env) r = Some n" and "normalize_ref (ve_is_ipv6 env) r' = Some n'"
    and "\<not> vc_cancelled call'" and "\<not> vc_unreadable call'" and "vc_password call' = vc_password call"
  shows "(n' = n \<longrightarrow> vault_get env call' r' fs' = Inr x)
    \<and> (record_path env n' \<noteq> record_path env n \<longrightarrow> vault_get env call' r' fs' = vault_get env call' r' fs)
    \<and> (vault_get env call' r' fs = Inr y \<longrightarrow>
        (\<exists>salt nonce c t password. fs (record_path env n') = Some (vault_data salt nonce c, t)
          \<and> length salt = 16 \<and> length nonce = 24 \<and> vc_password call = Some password
          \<and> ve_open env (ve_kdf env password salt 3 65536 2 32) nonce c (ref_identity n') = Some y))"
proof (intro conjI impI)
  obtain password salt nonce key where s: "ve_path env \<noteq> []" "valid_secret x"
    "vc_password call = Some password" "password \<noteq> []" "length salt = 16" "length nonce = 24"
    "key = ve_kdf env password salt argon_time argon_memory_kib argon_threads argon_key_bytes" "length key = argon_key_bytes"
    "fs' = fs(record_path env n \<mapsto> (vault_data salt nonce (ve_seal env key nonce x (ref_identity n)), vc_now call))"
    using vault_set_done [OF assms(3)] assms(4) by (metis option.inject)
  let ?c = "ve_seal env key nonce x (ref_identity n)"
  have "16 \<le> length ?c" "length (vault_data salt nonce ?c) \<le> max_vault_bytes" "75 \<le> length (vault_data salt nonce ?c)"
    using assms(2) [of key nonce x "ref_identity n"] s by (auto simp: vault_data_def vault_sizes valid_secret_def)
  then show "vault_get env call' r' fs' = Inr x" if "n' = n"
    using that assms(1,5-8) s parse_vault_data [OF s(5,6)]
    by (simp add: vault_get_def read_vault_def master_password_def Let_def vault_header_size_def vault_salt_bytes_def
        vault_nonce_bytes_def vault_overhead_def)
  show "vault_get env call' r' fs' = vault_get env call' r' fs" if "record_path env n' \<noteq> record_path env n"
    using that assms(5) s(9) by (simp add: vault_get_def read_vault_def)
next
  assume y: "vault_get env call' r' fs = Inr y"
  then obtain data t p password where d: "fs (record_path env n') = Some (data, t)" "parse_vault data = Inr p"
    "vc_password call' = Some password"
    "ve_open env (ve_kdf env password (vp_salt p) (vp_time p) (vp_memory p) (vp_threads p) (vp_key_bytes p)) (vp_nonce p)
       (vp_ciphertext p) (ref_identity n') = Some y"
    using assms(5) by (auto simp: vault_get_def read_vault_def master_password_def Let_def split: if_splits option.splits sum.splits)
  then show "\<exists>salt nonce c t password. fs (record_path env n') = Some (vault_data salt nonce c, t)
          \<and> length salt = 16 \<and> length nonce = 24 \<and> vc_password call = Some password
          \<and> ve_open env (ve_kdf env password salt 3 65536 2 32) nonce c (ref_identity n') = Some y"
    using parsed_vault_data [OF d(2)] assms(8)
    by (auto simp: argon_time_def argon_memory_kib_def argon_threads_def argon_key_bytes_def)
qed

text \<open>At a concrete input, with a cipher that satisfies the two facts.\<close>

definition sample_vault :: vault_env where
  "sample_vault = \<lparr>ve_is_ipv6 = (\<lambda>_. False), ve_sha = id, ve_kdf = (\<lambda>pw salt t m th k. replicate 32 (CHR ''k'')),
     ve_seal = (\<lambda>k n m a. replicate 16 (CHR ''t'') @ m), ve_open = (\<lambda>k n c a. Some (drop 16 c)), ve_path = ''/v''\<rparr>"

definition sample_vault_call :: vault_call where
  "sample_vault_call = \<lparr>vc_cancelled = False, vc_password = Some ''pw'', vc_random = replicate 40 (CHR ''r''), vc_now = 1,
     vc_write = Written, vc_unreadable = False, vc_remove_fails = False, vc_sync_fails = False, vc_stat_fails = False\<rparr>"

definition openai_ref :: "string \<Rightarrow> cred_ref" where
  "openai_ref host = \<lparr>cr_provider = ''openai'', cr_host = host\<rparr>"

lemma openai_ref_normal:
  "normalize_ref (\<lambda>_. False) (openai_ref ''api.openai.com'') = Some (openai_ref ''api.openai.com'')"
  "normalize_ref (\<lambda>_. False) (openai_ref ''API.OpenAI.com.'') = Some (openai_ref ''api.openai.com'')"
  by code_simp+

theorem vault_round_trip_witness:
  "vault_get sample_vault sample_vault_call (openai_ref ''API.OpenAI.com.'')
     (snd (vault_set sample_vault sample_vault_call (openai_ref ''api.openai.com'') ''sk-1'' (\<lambda>_. None))) = Inr ''sk-1''"
proof -
  let ?s = "vault_set sample_vault sample_vault_call (openai_ref ''api.openai.com'') ''sk-1'' (\<lambda>_. None)"
  have i: "ve_is_ipv6 sample_vault = (\<lambda>_. False)" by (simp add: sample_vault_def)
  have s: "?s = (Inr (), snd ?s)"
    using openai_ref_normal(1)
    by (simp add: vault_set_def sample_vault_def sample_vault_call_def master_password_def valid_secret_def Let_def
        write_vault_atomically_def vault_sizes argon_key_bytes_def)
  have c: "\<not> vc_cancelled sample_vault_call" "\<not> vc_unreadable sample_vault_call"
    by (simp_all add: sample_vault_call_def)
  show ?thesis
    using vault_round_trip [OF _ _ s openai_ref_normal(1) [folded i] openai_ref_normal(2) [folded i] c refl]
    by (simp add: sample_vault_def)
qed

section \<open>The vault keeps the contract of a credential store\<close>

definition vault_ops :: "vault_env \<Rightarrow> vault_call \<Rightarrow> vault_files cred_ops" where
  "vault_ops env call =
     \<lparr>co_set = vault_set env call, co_get = vault_get env call, co_delete = vault_delete env call, co_status = vault_status env call\<rparr>"

text \<open>A reference is filed under the hash in its file's name.\<close>

definition vault_identity :: "vault_env \<Rightarrow> cred_ref \<Rightarrow> string option" where
  "vault_identity env r = map_option (\<lambda>n. ve_sha env (ref_identity n)) (normalize_ref (ve_is_ipv6 env) r)"

definition vault_file :: "vault_env \<Rightarrow> string \<Rightarrow> string" where
  "vault_file env h = ve_path env @ ''.'' @ h @ ''.vlt''"

lemma record_path_file: "record_path env n = vault_file env (ve_sha env (ref_identity n))"
  by (simp add: record_path_def vault_file_def)

lemma vault_file_eq [simp]: "vault_file env h = vault_file env h' \<longleftrightarrow> h = h'"
  by (simp add: vault_file_def)

text \<open>What a file holds under a password: the decryption of its ciphertext, whether or not it is
  authentic, for the status only looks for the file. \<^verbatim>\<open>plain\<close> is the unauthenticated
  decryption of the cipher: it depends on the key, the nonce and the ciphertext alone.\<close>

definition file_secret :: "vault_env \<Rightarrow> (string \<Rightarrow> string \<Rightarrow> string \<Rightarrow> string) \<Rightarrow> string \<Rightarrow> string \<Rightarrow> string" where
  "file_secret env plain password data =
     (case parse_vault data of
        Inl e \<Rightarrow> []
      | Inr p \<Rightarrow> plain (ve_kdf env password (vp_salt p) (vp_time p) (vp_memory p) (vp_threads p) (vp_key_bytes p)) (vp_nonce p) (vp_ciphertext p))"

definition vault_content ::
    "vault_env \<Rightarrow> (string \<Rightarrow> string \<Rightarrow> string \<Rightarrow> string) \<Rightarrow> string \<Rightarrow> vault_files \<Rightarrow> string \<Rightarrow> string option" where
  "vault_content env plain password fs h = map_option (\<lambda>(data, t). file_secret env plain password data) (fs (vault_file env h))"

lemma vault_content_upd [simp]:
  "vault_content env plain password (fs(vault_file env h \<mapsto> (data, t)))
     = (vault_content env plain password fs)(h \<mapsto> file_secret env plain password data)"
  "vault_content env plain password (fs(vault_file env h := None)) = (vault_content env plain password fs)(h := None)"
  by (auto simp: vault_content_def fun_eq_iff)

text \<open>The documented behaviour of the authenticated encryption: opening undoes sealing, a sealed text is
  16 bytes longer, and what is opened is the decryption.\<close>

definition cipher_laws :: "vault_env \<Rightarrow> (string \<Rightarrow> string \<Rightarrow> string \<Rightarrow> string) \<Rightarrow> bool" where
  "cipher_laws env plain \<longleftrightarrow>
     (\<forall>k n m a. ve_open env k n (ve_seal env k n m a) a = Some m \<and> length (ve_seal env k n m a) = length m + 16)
     \<and> (\<forall>k n c a m. ve_open env k n c a = Some m \<longrightarrow> m = plain k n c)"

lemma sealed_secret:
  assumes "cipher_laws env plain" and "length salt = 16" and "length nonce = 24"
    and "key = ve_kdf env password salt argon_time argon_memory_kib argon_threads argon_key_bytes"
  shows "file_secret env plain password (vault_data salt nonce (ve_seal env key nonce x a)) = x"
proof -
  have "16 \<le> length (ve_seal env key nonce x a)" using assms(1) by (simp add: cipher_laws_def)
  moreover have "plain key nonce (ve_seal env key nonce x a) = x" using assms(1) unfolding cipher_laws_def by metis
  ultimately show ?thesis using assms(4) parse_vault_data [OF assms(2,3)] by (simp add: file_secret_def)
qed

lemma vault_set_cases:
  assumes "vault_set env call r x fs = (y, fs')"
  shows "(fs' = fs \<and> (\<exists>e. y = Inl e))
    \<or> (\<exists>n password salt nonce key. normalize_ref (ve_is_ipv6 env) r = Some n \<and> vc_password call = Some password
         \<and> length salt = 16 \<and> length nonce = 24
         \<and> key = ve_kdf env password salt argon_time argon_memory_kib argon_threads argon_key_bytes
         \<and> fs' = fs(record_path env n \<mapsto> (vault_data salt nonce (ve_seal env key nonce x (ref_identity n)), vc_now call)))"
proof (cases "fs' = fs \<and> (\<exists>e. y = Inl e)")
  case False
  let ?salt = "take 16 (vc_random call)"
  let ?nonce = "take 24 (drop 16 (vc_random call))"
  obtain n password where f: "normalize_ref (ve_is_ipv6 env) r = Some n" "vc_password call = Some password"
    "40 \<le> length (vc_random call)"
    "fs' = fs(record_path env n \<mapsto> (vault_data ?salt ?nonce (ve_seal env
       (ve_kdf env password ?salt argon_time argon_memory_kib argon_threads argon_key_bytes) ?nonce x (ref_identity n)), vc_now call))"
    using False assms
    by (auto simp: vault_set_def master_password_def write_vault_atomically_def Let_def vault_salt_bytes_def
        vault_nonce_bytes_def split: if_splits option.splits write_outcome.splits sum.splits)
  moreover have "length ?salt = 16" "length ?nonce = 24" using f(3) by simp_all
  ultimately show ?thesis by blast
qed blast

lemma vault_set_somehow:
  assumes "cipher_laws env plain" and "\<And>p. vc_password call = Some p \<Longrightarrow> p = password" and "vault_set env call r x fs = (y, fs')"
  shows "(vault_content env plain password fs' = vault_content env plain password fs \<and> (\<exists>e. y = Inl e))
    \<or> (\<exists>h. vault_identity env r = Some h \<and> vault_content env plain password fs' = (vault_content env plain password fs)(h \<mapsto> x))"
  using vault_set_cases [OF assms(3)]
proof (elim disjE exE conjE)
  fix n pw salt nonce key
  assume n: "normalize_ref (ve_is_ipv6 env) r = Some n" and pw: "vc_password call = Some pw"
    and f: "length salt = 16" "length nonce = 24"
      "key = ve_kdf env pw salt argon_time argon_memory_kib argon_threads argon_key_bytes"
      "fs' = fs(record_path env n \<mapsto> (vault_data salt nonce (ve_seal env key nonce x (ref_identity n)), vc_now call))"
  then show ?thesis
    using sealed_secret [OF assms(1) f(1,2)] assms(2) [OF pw] by (simp add: vault_identity_def record_path_file)
qed auto

lemma vault_get_done:
  assumes "cipher_laws env plain" and "\<And>p. vc_password call = Some p \<Longrightarrow> p = password" and "vault_get env call r fs = Inr x"
  shows "\<exists>h. vault_identity env r = Some h \<and> vault_content env plain password fs h = Some x"
proof -
  obtain n data t p pw where d: "normalize_ref (ve_is_ipv6 env) r = Some n" "fs (record_path env n) = Some (data, t)"
    "parse_vault data = Inr p" "vc_password call = Some pw"
    "ve_open env (ve_kdf env pw (vp_salt p) (vp_time p) (vp_memory p) (vp_threads p) (vp_key_bytes p)) (vp_nonce p)
       (vp_ciphertext p) (ref_identity n) = Some x"
    using assms(3)
    by (auto simp: vault_get_def read_vault_def master_password_def Let_def split: if_splits option.splits sum.splits)
  then have "file_secret env plain password data = x"
    using assms(1) assms(2) [OF d(4)] unfolding cipher_laws_def by (fastforce simp: file_secret_def)
  then show ?thesis using d(1,2) by (simp add: vault_identity_def vault_content_def record_path_file)
qed

lemma vault_delete_somehow:
  assumes "vault_delete env call r fs = (y, fs')"
  shows "(vault_content env plain password fs' = vault_content env plain password fs \<and> (\<exists>e. y = Inl e))
    \<or> (\<exists>h. vault_identity env r = Some h \<and> vault_content env plain password fs' = (vault_content env plain password fs)(h := None))"
  using assms by (auto simp: vault_delete_def vault_identity_def record_path_file split: if_splits option.splits)

lemma vault_delete_missing:
  assumes "vault_delete env call r fs = (Inl e, fs')" and "is_cred_error ErrCredentialNotFound e"
  shows "\<exists>h. vault_identity env r = Some h \<and> vault_content env plain password fs' h = None"
  using assms
  by (auto simp: vault_delete_def vault_identity_def vault_content_def record_path_file split: if_splits option.splits)

lemma vault_status_done:
  assumes "vault_status env call r fs = Inr st"
  shows "\<exists>h. vault_identity env r = Some h \<and> (st_configured st \<longleftrightarrow> vault_content env plain password fs h \<noteq> None)"
  using assms
  by (auto simp: vault_status_def vault_identity_def vault_content_def record_path_file split: if_splits option.splits)

text \<open>C13. Whatever fails while they run (the password callback, the random source, the key derivation, the
  write, the directory's synchronisation, a removal), the operations of the vault under one password
  keep the contract of a credential store and the one of clearing, so the service above is a map
  over it: a write that succeeds is what is read afterwards, one that fails leaves the file or
  replaces it as a whole, nothing else changes, and the status and the reading agree.\<close>

theorem vault_keeps_contract:
  assumes "cipher_laws env plain" and "\<And>p. vc_password call = Some p \<Longrightarrow> p = password"
  shows "clean_backend (vault_ops env call) (vault_identity env) (vault_content env plain password)"
proof (unfold_locales; unfold vault_ops_def cred_ops.simps)
  show "\<exists>i. vault_identity env r = Some i
      \<and> vault_content env plain password s' = (vault_content env plain password s)(i \<mapsto> x)"
    if "vault_set env call r x s = (Inr (), s')" for r x s s'
    using vault_set_somehow [OF assms that] by blast
  show "vault_content env plain password s' = vault_content env plain password s
      \<or> (\<exists>i y. vault_identity env r = Some i \<and> vault_content env plain password s' = (vault_content env plain password s)(i := y))"
    if "vault_set env call r x s = (Inl e, s')" for r x s e s'
    using vault_set_somehow [OF assms that] by blast
  show "\<exists>i. vault_identity env r = Some i
      \<and> (vault_content env plain password s i \<noteq> None \<longrightarrow> vault_content env plain password s i = Some x)"
    if "vault_get env call r s = Inr x" for r s x
    using vault_get_done [OF assms that] by blast
  show "\<exists>i. vault_identity env r = Some i \<and> vault_content env plain password s' = (vault_content env plain password s)(i := None)"
    if "vault_delete env call r s = (Inr (), s')" for r s s'
    using vault_delete_somehow [OF that] by blast
  show "vault_content env plain password s' = vault_content env plain password s
      \<or> (\<exists>i y. vault_identity env r = Some i \<and> vault_content env plain password s' = (vault_content env plain password s)(i := y))"
    if "vault_delete env call r s = (Inl e, s')" for r s e s'
    using vault_delete_somehow [OF that] by blast
qed (rule vault_status_done vault_delete_missing; assumption)+

theorem vault_keeps_contract_witness:
  "clean_backend (vault_ops sample_vault sample_vault_call) (vault_identity sample_vault)
     (vault_content sample_vault (\<lambda>k n. drop 16) ''pw'')"
  by (rule vault_keeps_contract) (auto simp: cipher_laws_def sample_vault_def sample_vault_call_def)

end
