(* ===== verification/Credential_Service.thy ===== *)
theory Credential_Service
  imports Credential_Store
begin

text \<open>
  Package \<^verbatim>\<open>internal/credentials\<close>, \<^verbatim>\<open>service.go\<close>: the service over a primary and a
  fallback store, either of which may be missing. The state is that of both stores. The locks per
  reference make an operation atomic with respect to others on the same reference; an operation
  here is one such section, so the lock table is not modelled.
\<close>

section \<open>Inspecting the stores\<close>

record backend_state =
  bs_status :: cred_status
  bs_err :: "cred_error option"
  bs_present :: bool

definition fallback_eligible :: "cred_error \<Rightarrow> bool" where
  "fallback_eligible e \<longleftrightarrow> is_cred_error ErrUnavailable e \<or> is_cred_error ErrLocked e"

definition inspect_store :: "'s cred_ops option \<Rightarrow> cred_ref \<Rightarrow> 's \<Rightarrow> backend_state" where
  "inspect_store store ref s =
     (case store of
        None \<Rightarrow> \<lparr>bs_status = empty_status, bs_err = None, bs_present = False\<rparr>
      | Some ops \<Rightarrow>
          (case co_status ops ref s of
             Inl e \<Rightarrow> \<lparr>bs_status = empty_status, bs_err = Some e, bs_present = True\<rparr>
           | Inr st \<Rightarrow> \<lparr>bs_status = st, bs_err = None, bs_present = True\<rparr>))"

definition inspection_error :: "backend_state \<Rightarrow> backend_state \<Rightarrow> cred_error option" where
  "inspection_error p f =
     (case bs_err p of
        Some e \<Rightarrow> if \<not> fallback_eligible e then Some e else bs_err f
      | None \<Rightarrow> bs_err f)"

datatype chosen_store = Primary | Fallback

definition configured_backend :: "backend_state \<Rightarrow> backend_state \<Rightarrow> (cred_error, chosen_store option) result" where
  "configured_backend p f =
     (case inspection_error p f of
        Some e \<Rightarrow> Inl e
      | None \<Rightarrow>
          if st_configured (bs_status p) \<and> st_configured (bs_status f) then Inl ErrAmbiguousCredential
          else if st_configured (bs_status p) then Inr (Some Primary)
          else if st_configured (bs_status f) then Inr (Some Fallback)
          else (case bs_err p of Some e \<Rightarrow> Inl e | None \<Rightarrow> Inr None))"

section \<open>The operations\<close>

definition in_primary :: "('p \<Rightarrow> 'a \<times> 'p) \<Rightarrow> 'p \<times> 'f \<Rightarrow> 'a \<times> 'p \<times> 'f" where
  "in_primary g s = (let (x, p) = g (fst s) in (x, p, snd s))"

definition in_fallback :: "('f \<Rightarrow> 'a \<times> 'f) \<Rightarrow> 'p \<times> 'f \<Rightarrow> 'a \<times> 'p \<times> 'f" where
  "in_fallback g s = (let (x, f) = g (snd s) in (x, fst s, f))"

definition set_in ::
    "'p cred_ops option \<Rightarrow> 'f cred_ops option \<Rightarrow> chosen_store \<Rightarrow> cred_ref \<Rightarrow> string \<Rightarrow> 'p \<times> 'f
     \<Rightarrow> (cred_error, unit) result \<times> 'p \<times> 'f" where
  "set_in P F which ref x s =
     (case which of
        Primary \<Rightarrow> in_primary (co_set (the P) ref x) s
      | Fallback \<Rightarrow> in_fallback (co_set (the F) ref x) s)"

definition service_add ::
    "(string \<Rightarrow> bool) \<Rightarrow> 'p cred_ops option \<Rightarrow> 'f cred_ops option \<Rightarrow> cred_ref \<Rightarrow> string \<Rightarrow> 'p \<times> 'f
     \<Rightarrow> (cred_error, unit) result \<times> 'p \<times> 'f" where
  "service_add is_ipv6 P F ref secret s =
     (case normalize_ref is_ipv6 ref of
        None \<Rightarrow> (Inl ErrInvalidCredential, s)
      | Some n \<Rightarrow>
          if \<not> valid_secret secret then (Inl ErrInvalidCredential, s)
          else
            (let p = inspect_store P n (fst s); f = inspect_store F n (snd s) in
             case inspection_error p f of
               Some e \<Rightarrow> (Inl e, s)
             | None \<Rightarrow>
                 if st_configured (bs_status p) \<or> st_configured (bs_status f) then (Inl ErrAlreadyConfigured, s)
                 else if bs_present p \<and> bs_err p = None then set_in P F Primary n secret s
                 else if bs_present p \<and> fallback_eligible (the (bs_err p)) \<and> bs_present f then set_in P F Fallback n secret s
                 else if bs_present p then (Inl (the (bs_err p)), s)
                 else if bs_present f then set_in P F Fallback n secret s
                 else (Inl ErrUnavailable, s)))"

definition service_update ::
    "(string \<Rightarrow> bool) \<Rightarrow> 'p cred_ops option \<Rightarrow> 'f cred_ops option \<Rightarrow> cred_ref \<Rightarrow> string \<Rightarrow> 'p \<times> 'f
     \<Rightarrow> (cred_error, unit) result \<times> 'p \<times> 'f" where
  "service_update is_ipv6 P F ref secret s =
     (case normalize_ref is_ipv6 ref of
        None \<Rightarrow> (Inl ErrInvalidCredential, s)
      | Some n \<Rightarrow>
          if \<not> valid_secret secret then (Inl ErrInvalidCredential, s)
          else
            (case configured_backend (inspect_store P n (fst s)) (inspect_store F n (snd s)) of
               Inl e \<Rightarrow> (Inl e, s)
             | Inr None \<Rightarrow> (Inl ErrCredentialNotFound, s)
             | Inr (Some which) \<Rightarrow> set_in P F which n secret s))"

definition service_status ::
    "(string \<Rightarrow> bool) \<Rightarrow> 'p cred_ops option \<Rightarrow> 'f cred_ops option \<Rightarrow> cred_ref \<Rightarrow> 'p \<times> 'f
     \<Rightarrow> (cred_error, cred_status) result" where
  "service_status is_ipv6 P F ref s =
     (case normalize_ref is_ipv6 ref of
        None \<Rightarrow> Inl ErrInvalidCredential
      | Some n \<Rightarrow>
          (let p = inspect_store P n (fst s); f = inspect_store F n (snd s) in
           case configured_backend p f of
             Inl e \<Rightarrow> Inl e
           | Inr (Some Primary) \<Rightarrow> Inr (bs_status p)
           | Inr (Some Fallback) \<Rightarrow> Inr (bs_status f)
           | Inr None \<Rightarrow>
               if bs_present p \<and> bs_err p = None then Inr (bs_status p)
               else if bs_present f \<and> bs_err f = None then Inr (bs_status f)
               else Inl ErrUnavailable))"

text \<open>One round of the loop of \<^verbatim>\<open>Clear\<close>: whether a deletion was attempted, and its error unless
  the store had nothing.\<close>

definition clear_one ::
    "'s cred_ops option \<Rightarrow> backend_state \<Rightarrow> cred_ref \<Rightarrow> 's \<Rightarrow> (bool \<times> cred_error option) \<times> 's" where
  "clear_one store st ref s =
     (if \<not> bs_present st \<or> (bs_err st = None \<and> \<not> st_configured (bs_status st)) then ((False, None), s)
      else
        (case co_delete (the store) ref s of
           (Inr _, s') \<Rightarrow> ((True, None), s')
         | (Inl e, s') \<Rightarrow> ((True, if is_cred_error ErrCredentialNotFound e then None else Some e), s')))"

definition service_clear ::
    "(string \<Rightarrow> bool) \<Rightarrow> 'p cred_ops option \<Rightarrow> 'f cred_ops option \<Rightarrow> cred_ref \<Rightarrow> 'p \<times> 'f
     \<Rightarrow> (cred_error, unit) result \<times> 'p \<times> 'f" where
  "service_clear is_ipv6 P F ref s =
     (case normalize_ref is_ipv6 ref of
        None \<Rightarrow> (Inl ErrInvalidCredential, s)
      | Some n \<Rightarrow>
          (let p = inspect_store P n (fst s); f = inspect_store F n (snd s);
               ((tried1, e1), sp) = clear_one P p n (fst s); ((tried2, e2), sf) = clear_one F f n (snd s)
           in (case e1 of
                 Some e \<Rightarrow> Inl e
               | None \<Rightarrow> (case e2 of Some e \<Rightarrow> Inl e
                                   | None \<Rightarrow> if tried1 \<or> tried2 then Inr () else Inl ErrCredentialNotFound),
               sp, sf)))"

definition service_get ::
    "(string \<Rightarrow> bool) \<Rightarrow> 'p cred_ops option \<Rightarrow> 'f cred_ops option \<Rightarrow> string \<Rightarrow> string \<Rightarrow> 'p \<times> 'f
     \<Rightarrow> (cred_error, string) result" where
  "service_get is_ipv6 P F provider host s =
     (case normalize_ref is_ipv6 \<lparr>cr_provider = provider, cr_host = host\<rparr> of
        None \<Rightarrow> Inl ErrInvalidCredential
      | Some n \<Rightarrow>
          (case configured_backend (inspect_store P n (fst s)) (inspect_store F n (snd s)) of
             Inl e \<Rightarrow> Inl e
           | Inr None \<Rightarrow> Inl ErrCredentialNotFound
           | Inr (Some Primary) \<Rightarrow> co_get (the P) n (fst s)
           | Inr (Some Fallback) \<Rightarrow> co_get (the F) n (snd s)))"

section \<open>The contract\<close>

definition backend_for ::
    "(cred_ref \<Rightarrow> string option) \<Rightarrow> 's cred_ops option \<Rightarrow> ('s \<Rightarrow> string \<Rightarrow> string option) \<Rightarrow> bool" where
  "backend_for ident store content \<longleftrightarrow>
     (case store of None \<Rightarrow> (\<forall>s i. content s i = None) | Some ops \<Rightarrow> credential_backend ops ident content)"

definition clean_for ::
    "(cred_ref \<Rightarrow> string option) \<Rightarrow> 's cred_ops option \<Rightarrow> ('s \<Rightarrow> string \<Rightarrow> string option) \<Rightarrow> bool" where
  "clean_for ident store content \<longleftrightarrow> (case store of None \<Rightarrow> True | Some ops \<Rightarrow> clean_backend ops ident content)"

text \<open>The two stores as one map. Each store files a reference under an identity of its own (the keyring
  under the reference itself, the vault under its hash), so the map has both as its argument: what
  exactly one of the stores has.\<close>

definition cred_map ::
    "('p \<Rightarrow> string \<Rightarrow> string option) \<Rightarrow> ('f \<Rightarrow> string \<Rightarrow> string option) \<Rightarrow> 'p \<times> 'f \<Rightarrow> string \<Rightarrow> string \<Rightarrow> string option" where
  "cred_map pc fc s i k =
     (case (pc (fst s) i, fc (snd s) k) of (Some x, None) \<Rightarrow> Some x | (None, y) \<Rightarrow> y | (Some _, Some _) \<Rightarrow> None)"

definition duplicated ::
    "('p \<Rightarrow> string \<Rightarrow> string option) \<Rightarrow> ('f \<Rightarrow> string \<Rightarrow> string option) \<Rightarrow> 'p \<times> 'f \<Rightarrow> string \<Rightarrow> string \<Rightarrow> bool" where
  "duplicated pc fc s i k \<longleftrightarrow> pc (fst s) i \<noteq> None \<and> fc (snd s) k \<noteq> None"

text \<open>Two states that agree on every other reference.\<close>

definition same_elsewhere ::
    "('p \<Rightarrow> string \<Rightarrow> string option) \<Rightarrow> ('f \<Rightarrow> string \<Rightarrow> string option) \<Rightarrow> string \<Rightarrow> string \<Rightarrow> 'p \<times> 'f \<Rightarrow> 'p \<times> 'f \<Rightarrow> bool" where
  "same_elsewhere pc fc i k s s' \<longleftrightarrow>
     (\<forall>j. j \<noteq> i \<longrightarrow> pc (fst s') j = pc (fst s) j) \<and> (\<forall>l. l \<noteq> k \<longrightarrow> fc (snd s') l = fc (snd s) l)"

lemma same_elsewhere_refl [simp]: "same_elsewhere pc fc i k s s"
  by (simp add: same_elsewhere_def)

lemma same_elsewhere_map:
  "same_elsewhere pc fc i k s s' \<Longrightarrow> j \<noteq> i \<Longrightarrow> l \<noteq> k
     \<Longrightarrow> cred_map pc fc s' j l = cred_map pc fc s j l \<and> duplicated pc fc s' j l = duplicated pc fc s j l"
  by (simp add: same_elsewhere_def cred_map_def duplicated_def)

locale credential_pair =
  fixes P :: "'p cred_ops option" and F :: "'f cred_ops option"
    and identP :: "cred_ref \<Rightarrow> string option" and identF :: "cred_ref \<Rightarrow> string option"
    and pc :: "'p \<Rightarrow> string \<Rightarrow> string option" and fc :: "'f \<Rightarrow> string \<Rightarrow> string option"
  assumes primary: "backend_for identP P pc" and fallback: "backend_for identF F fc"
begin

lemma primary_backend: "P = Some ops \<Longrightarrow> credential_backend ops identP pc"
  using primary by (simp add: backend_for_def)

lemma fallback_backend: "F = Some ops \<Longrightarrow> credential_backend ops identF fc"
  using fallback by (simp add: backend_for_def)

lemma absent: "P = None \<Longrightarrow> pc s i = None" "F = None \<Longrightarrow> fc t k = None"
  using primary fallback by (simp_all add: backend_for_def)

lemma primary_inspected:
  assumes "identP n = Some i" and "bs_err (inspect_store P n s) = None"
  shows "st_configured (bs_status (inspect_store P n s)) \<longleftrightarrow> pc s i \<noteq> None"
  using assms absent(1) credential_backend.status_done [OF primary_backend]
  by (fastforce simp: inspect_store_def empty_status_def split: option.splits sum.splits)

lemma fallback_inspected:
  assumes "identF n = Some k" and "bs_err (inspect_store F n s) = None"
  shows "st_configured (bs_status (inspect_store F n s)) \<longleftrightarrow> fc s k \<noteq> None"
  using assms absent(2) credential_backend.status_done [OF fallback_backend]
  by (fastforce simp: inspect_store_def empty_status_def split: option.splits sum.splits)

lemma present_some: "bs_present (inspect_store store n s) \<longleftrightarrow> store \<noteq> None"
  by (auto simp: inspect_store_def split: option.splits sum.splits)

lemma error_unconfigured: "bs_err (inspect_store store n s) \<noteq> None \<Longrightarrow> \<not> st_configured (bs_status (inspect_store store n s))"
  by (auto simp: inspect_store_def empty_status_def split: option.splits sum.splits)

lemma configured_present: "st_configured (bs_status (inspect_store store n s)) \<Longrightarrow> store \<noteq> None"
  by (auto simp: inspect_store_def empty_status_def split: option.splits sum.splits)

lemma set_in_done:
  assumes "set_in P F which n x s = (Inr (), s')" and "identP n = Some i" and "identF n = Some k"
    and "which = Primary \<Longrightarrow> P \<noteq> None" and "which = Fallback \<Longrightarrow> F \<noteq> None"
  shows "which = Primary \<Longrightarrow> pc (fst s') = (pc (fst s))(i \<mapsto> x) \<and> snd s' = snd s"
    and "which = Fallback \<Longrightarrow> fc (snd s') = (fc (snd s))(k \<mapsto> x) \<and> fst s' = fst s"
  using assms credential_backend.set_done [OF primary_backend]
    credential_backend.set_done [OF fallback_backend]
  by (cases which; fastforce simp: set_in_def in_primary_def in_fallback_def split: prod.splits)+

text \<open>However a write goes, it changes nothing at other references.\<close>

lemma set_in_elsewhere:
  assumes "set_in P F which n x s = (y, s')" and "identP n = Some i" and "identF n = Some k"
    and "which = Primary \<Longrightarrow> P \<noteq> None" and "which = Fallback \<Longrightarrow> F \<noteq> None"
  shows "same_elsewhere pc fc i k s s'"
proof (cases which)
  case Primary
  then obtain ops where ops: "P = Some ops" using assms(4) by auto
  show ?thesis
    using Primary ops assms(1) credential_backend.set_elsewhere [OF primary_backend [OF ops] assms(2), where x = x and s = "fst s"]
    by (auto simp: set_in_def in_primary_def same_elsewhere_def split: prod.splits)
next
  case Fallback
  then obtain ops where ops: "F = Some ops" using assms(5) by auto
  show ?thesis
    using Fallback ops assms(1) credential_backend.set_elsewhere [OF fallback_backend [OF ops] assms(3), where x = x and s = "snd s"]
    by (auto simp: set_in_def in_fallback_def same_elsewhere_def split: prod.splits)
qed

lemma clear_one_elsewhere:
  "identP n = Some i \<Longrightarrow> j \<noteq> i \<Longrightarrow> pc (snd (clear_one P (inspect_store P n t) n t)) j = pc t j"
  "identF n = Some k \<Longrightarrow> l \<noteq> k \<Longrightarrow> fc (snd (clear_one F (inspect_store F n u) n u)) l = fc u l"
  using credential_backend.delete_elsewhere [OF primary_backend, of _ n i j t]
    credential_backend.delete_elsewhere [OF fallback_backend, of _ n k l u]
  by (cases P; cases F; force simp: clear_one_def inspect_store_def split: prod.split sum.split)+

lemma clear_elsewhere:
  assumes "service_clear is_ipv6 P F r s = (y, s')" and "normalize_ref is_ipv6 r = Some n"
    and "identP n = Some i" and "identF n = Some k"
  shows "same_elsewhere pc fc i k s s'"
  using assms(1,2) clear_one_elsewhere(1) [OF assms(3), of _ "fst s"] clear_one_elsewhere(2) [OF assms(4), of _ "snd s"]
  by (auto simp: service_clear_def same_elsewhere_def Let_def split: prod.splits)

lemma add_elsewhere:
  assumes "service_add is_ipv6 P F r x s = (y, s')" and "normalize_ref is_ipv6 r = Some n"
    and "identP n = Some i" and "identF n = Some k"
  shows "same_elsewhere pc fc i k s s'"
proof -
  have "s' = s \<or> (\<exists>which. set_in P F which n x s = (y, s') \<and> (which = Primary \<longrightarrow> P \<noteq> None) \<and> (which = Fallback \<longrightarrow> F \<noteq> None))"
    using assms(1,2) unfolding service_add_def Let_def present_some by (auto split: if_splits option.splits)
  then show ?thesis using set_in_elsewhere [OF _ assms(3,4)] same_elsewhere_refl by metis
qed

lemma update_elsewhere:
  assumes "service_update is_ipv6 P F r x s = (y, s')" and "normalize_ref is_ipv6 r = Some n"
    and "identP n = Some i" and "identF n = Some k"
  shows "same_elsewhere pc fc i k s s'"
proof -
  have "which = Primary \<Longrightarrow> P \<noteq> None" "which = Fallback \<Longrightarrow> F \<noteq> None"
    if "configured_backend (inspect_store P n (fst s)) (inspect_store F n (snd s)) = Inr (Some which)" for which
    using that configured_present [of P n "fst s"] configured_present [of F n "snd s"]
    by (auto simp: configured_backend_def split: option.splits if_splits)
  then have "s' = s \<or> (\<exists>which. set_in P F which n x s = (y, s') \<and> (which = Primary \<longrightarrow> P \<noteq> None) \<and> (which = Fallback \<longrightarrow> F \<noteq> None))"
    using assms(1,2) by (auto simp: service_update_def split: if_splits option.splits sum.splits)
  then show ?thesis using set_in_elsewhere [OF _ assms(3,4)] same_elsewhere_refl by metis
qed

text \<open>An operation that the primary store can answer (its status is read without an error).\<close>

definition readable :: "cred_ref \<Rightarrow> 'p \<times> 'f \<Rightarrow> bool" where
  "readable n s \<longleftrightarrow> bs_err (inspect_store P n (fst s)) = None"

lemma configured_cases:
  assumes "configured_backend (inspect_store P n (fst s)) (inspect_store F n (snd s)) = Inr which"
    and "readable n s" and "identP n = Some i" and "identF n = Some k"
  shows "which = Some Primary \<Longrightarrow> pc (fst s) i \<noteq> None \<and> fc (snd s) k = None \<and> P \<noteq> None"
    and "which = Some Fallback \<Longrightarrow> pc (fst s) i = None \<and> fc (snd s) k \<noteq> None \<and> F \<noteq> None"
  using assms primary_inspected [OF assms(3), of "fst s"] fallback_inspected [OF assms(4), of "snd s"]
    configured_present [of P n "fst s"] configured_present [of F n "snd s"]
  by (auto simp: configured_backend_def inspection_error_def readable_def split: option.splits if_splits)

lemma set_map:
  assumes "set_in P F which n x s = (Inr (), s')" and "identP n = Some i" and "identF n = Some k"
    and "which = Primary \<Longrightarrow> P \<noteq> None \<and> fc (snd s) k = None" and "which = Fallback \<Longrightarrow> F \<noteq> None \<and> pc (fst s) i = None"
  shows "cred_map pc fc s' i k = Some x \<and> \<not> duplicated pc fc s' i k"
  using set_in_done [OF assms(1-3)] assms(4,5)
  by (cases which) (auto simp: cred_map_def duplicated_def)

lemma add_done:
  assumes "service_add is_ipv6 P F r x s = (Inr (), s')" and "normalize_ref is_ipv6 r = Some n"
    and "identP n = Some i" and "identF n = Some k" and "readable n s"
  shows "cred_map pc fc s i k = None \<and> cred_map pc fc s' i k = Some x \<and> \<not> duplicated pc fc s' i k"
proof -
  let ?p = "inspect_store P n (fst s)" and ?f = "inspect_store F n (snd s)"
  have f: "bs_err ?f = None" "\<not> st_configured (bs_status ?p)" "\<not> st_configured (bs_status ?f)"
    using assms by (auto simp: service_add_def Let_def inspection_error_def readable_def split: if_splits option.splits)
  then have none: "pc (fst s) i = None" "fc (snd s) k = None"
    using assms(5) primary_inspected [OF assms(3)] fallback_inspected [OF assms(4)] by (auto simp: readable_def)
  obtain which where "set_in P F which n x s = (Inr (), s')" "which = Primary \<Longrightarrow> P \<noteq> None" "which = Fallback \<Longrightarrow> F \<noteq> None"
    using assms f by (auto simp: service_add_def Let_def inspection_error_def readable_def present_some split: if_splits option.splits)
  then show ?thesis using set_map [OF _ assms(3,4)] none by (auto simp: cred_map_def)
qed

lemma update_done:
  assumes "service_update is_ipv6 P F r x s = (Inr (), s')" and "normalize_ref is_ipv6 r = Some n"
    and "identP n = Some i" and "identF n = Some k" and "readable n s"
  shows "cred_map pc fc s i k \<noteq> None \<and> cred_map pc fc s' i k = Some x \<and> \<not> duplicated pc fc s' i k"
proof -
  obtain which where w: "configured_backend (inspect_store P n (fst s)) (inspect_store F n (snd s)) = Inr (Some which)"
    "set_in P F which n x s = (Inr (), s')"
    using assms by (auto simp: service_update_def split: if_splits option.splits sum.splits)
  note c = configured_cases [OF w(1) assms(5,3,4)]
  show ?thesis using set_map [OF w(2) assms(3,4)] c by (cases which) (auto simp: cred_map_def)
qed

lemma get_done:
  assumes "service_get is_ipv6 P F pr h s = Inr x" and "normalize_ref is_ipv6 \<lparr>cr_provider = pr, cr_host = h\<rparr> = Some n"
    and "identP n = Some i" and "identF n = Some k" and "readable n s"
  shows "cred_map pc fc s i k = Some x \<and> \<not> duplicated pc fc s i k"
proof -
  obtain which where w: "configured_backend (inspect_store P n (fst s)) (inspect_store F n (snd s)) = Inr (Some which)"
    "case which of Primary \<Rightarrow> co_get (the P) n (fst s) = Inr x | Fallback \<Rightarrow> co_get (the F) n (snd s) = Inr x"
    using assms by (auto simp: service_get_def split: if_splits option.splits sum.splits chosen_store.splits)
  note c = configured_cases [OF w(1) assms(5,3,4)]
  show ?thesis
  proof (cases which)
    case Primary
    then obtain ops where "P = Some ops" "co_get ops n (fst s) = Inr x" using c(1) w(2) by auto
    then show ?thesis
      using credential_backend.get_done [OF primary_backend] c(1) Primary assms(3)
      by (fastforce simp: cred_map_def duplicated_def)
  next
    case Fallback
    then obtain ops where "F = Some ops" "co_get ops n (snd s) = Inr x" using c(2) w(2) by auto
    then show ?thesis
      using credential_backend.get_done [OF fallback_backend] c(2) Fallback assms(4)
      by (fastforce simp: cred_map_def duplicated_def)
  qed
qed

text \<open>When both stores can answer, what does not fit the map is refused, and nothing is changed.\<close>

lemma refusals:
  assumes "normalize_ref is_ipv6 r = Some n" and "identP n = Some i" and "identF n = Some k" and "readable n s"
    and "bs_err (inspect_store F n (snd s)) = None" and "valid_secret x"
  shows "cred_map pc fc s i k \<noteq> None \<or> duplicated pc fc s i k \<Longrightarrow> service_add is_ipv6 P F r x s = (Inl ErrAlreadyConfigured, s)"
    and "cred_map pc fc s i k = None \<Longrightarrow>
      service_update is_ipv6 P F r x s = (Inl (if duplicated pc fc s i k then ErrAmbiguousCredential else ErrCredentialNotFound), s)"
    and "cred_map pc fc s i k = None \<Longrightarrow>
      service_get is_ipv6 P F (cr_provider r) (cr_host r) s
        = Inl (if duplicated pc fc s i k then ErrAmbiguousCredential else ErrCredentialNotFound)"
proof -
  have c: "st_configured (bs_status (inspect_store P n (fst s))) \<longleftrightarrow> pc (fst s) i \<noteq> None"
    "st_configured (bs_status (inspect_store F n (snd s))) \<longleftrightarrow> fc (snd s) k \<noteq> None"
    "bs_err (inspect_store P n (fst s)) = None"
    using assms(4,5) primary_inspected [OF assms(2)] fallback_inspected [OF assms(3)] by (simp_all add: readable_def)
  have r: "\<lparr>cr_provider = cr_provider r, cr_host = cr_host r\<rparr> = r" by simp
  show "service_add is_ipv6 P F r x s = (Inl ErrAlreadyConfigured, s)" if "cred_map pc fc s i k \<noteq> None \<or> duplicated pc fc s i k"
  proof -
    have "pc (fst s) i \<noteq> None \<or> fc (snd s) k \<noteq> None"
      using that by (auto simp: cred_map_def duplicated_def split: option.splits)
    then show ?thesis
      unfolding service_add_def using assms(1,5,6) c by (simp add: Let_def inspection_error_def)
  qed
  have none: "configured_backend (inspect_store P n (fst s)) (inspect_store F n (snd s))
      = (if duplicated pc fc s i k then Inl ErrAmbiguousCredential else Inr None)" if "cred_map pc fc s i k = None"
    using that assms(5) c
    by (auto simp: configured_backend_def inspection_error_def cred_map_def duplicated_def split: option.splits)
  show "service_update is_ipv6 P F r x s = (Inl (if duplicated pc fc s i k then ErrAmbiguousCredential else ErrCredentialNotFound), s)"
      "service_get is_ipv6 P F (cr_provider r) (cr_host r) s
        = Inl (if duplicated pc fc s i k then ErrAmbiguousCredential else ErrCredentialNotFound)"
    if "cred_map pc fc s i k = None"
    using assms(1,6) none [OF that] by (simp_all add: service_update_def service_get_def r)
qed

end

context clean_backend
begin

lemma clear_one_clears:
  assumes "clear_one (Some ops) (inspect_store (Some ops) n s) n s = ((tried, None), s')" and "ident n = Some i"
  shows "content s' = (content s)(i := None)"
proof (cases "\<exists>st. co_status ops n s = Inr st \<and> \<not> st_configured st")
  case True
  then show ?thesis
    using assms status_done by (fastforce simp: clear_one_def inspect_store_def fun_eq_iff)
next
  case False
  obtain x s1 where d: "co_delete ops n s = (x, s1)" by (rule prod.exhaust)
  have "s' = s1" and x: "x = Inr () \<or> (\<exists>e. x = Inl e \<and> is_cred_error ErrCredentialNotFound e)"
    using assms(1) False d
    by (auto simp: clear_one_def inspect_store_def split: sum.splits if_splits)
  moreover have "content s1 i = None" using delete_gone [OF d x] assms(2) by auto
  moreover have "content s1 j = content s j" if "j \<noteq> i" for j using delete_elsewhere [OF assms(2) that, of s] d by simp
  ultimately show ?thesis by (auto simp: fun_eq_iff)
qed

end

locale clean_pair = credential_pair +
  assumes clean_primary: "clean_for identP P pc" and clean_fallback: "clean_for identF F fc"
begin

lemma clear_primary:
  assumes "clear_one P (inspect_store P n s) n s = ((tried, None), s')" and "identP n = Some i"
  shows "pc s' = (pc s)(i := None)"
  using assms absent(1) clean_backend.clear_one_clears clean_primary by (cases P) (auto simp: clean_for_def)

lemma clear_fallback:
  assumes "clear_one F (inspect_store F n s) n s = ((tried, None), s')" and "identF n = Some k"
  shows "fc s' = (fc s)(k := None)"
  using assms absent(2) clean_backend.clear_one_clears clean_fallback by (cases F) (auto simp: clean_for_def)

lemma clear_done:
  assumes "service_clear is_ipv6 P F r s = (Inr (), s')" and "normalize_ref is_ipv6 r = Some n"
    and "identP n = Some i" and "identF n = Some k"
  shows "cred_map pc fc s' i k = None \<and> \<not> duplicated pc fc s' i k"
proof -
  obtain t1 t2 where "clear_one P (inspect_store P n (fst s)) n (fst s) = ((t1, None), fst s')"
    "clear_one F (inspect_store F n (snd s)) n (snd s) = ((t2, None), snd s')"
    using assms(1,2) by (auto simp: service_clear_def Let_def split: prod.splits option.splits if_splits)
  then show ?thesis
    using clear_primary [OF _ assms(3)] clear_fallback [OF _ assms(4)]
    by (auto simp: cred_map_def duplicated_def)
qed

end

interpretation memory_pair: clean_pair
  "Some (cred_memory_ops is_ipv6 cancelled now)" "None :: cred_memory cred_ops option" "identity_of is_ipv6" "identity_of is_ipv6"
  memory_content "\<lambda>_ _. None"
  for is_ipv6 cancelled now
  by unfold_locales
    (simp_all add: backend_for_def clean_for_def memory_backend.credential_backend_axioms memory_backend.clean_backend_axioms)

text \<open>C12. Over any two stores that keep their contract (either may be missing), as long as the status of
  the reference can be read from the primary store, the service is a map from references to secrets.
  When they succeed, adding has found the reference free and binds it, updating has found it bound
  and rebinds it, reading gives what is bound, and none of them leaves the secret in two places; if
  no store forgets to say that it has a credential when it denies having it, clearing unbinds it
  everywhere. Whether they succeed or fail, they change nothing at other references. And if the
  fallback can be read as well, adding at a bound reference and updating or reading at a free one are
  refused with the error that says so, as is using a reference that both stores have; a refusal
  changes nothing. (With a primary that cannot be read, adding may leave the secret in both stores,
  see the end of this theory.)\<close>

theorem credential_service_is_a_map:
  assumes "backend_for identP P pc" and "backend_for identF F fc" and "normalize_ref is_ipv6 r = Some n"
    and "identP n = Some i" and "identF n = Some k" and "bs_err (inspect_store P n (fst s)) = None"
  shows "(service_add is_ipv6 P F r x s = (Inr (), s') \<longrightarrow>
        cred_map pc fc s i k = None \<and> cred_map pc fc s' i k = Some x \<and> \<not> duplicated pc fc s' i k)
    \<and> (service_update is_ipv6 P F r x s = (Inr (), s') \<longrightarrow>
        cred_map pc fc s i k \<noteq> None \<and> cred_map pc fc s' i k = Some x \<and> \<not> duplicated pc fc s' i k)
    \<and> (service_get is_ipv6 P F (cr_provider r) (cr_host r) s = Inr y \<longrightarrow>
        cred_map pc fc s i k = Some y \<and> \<not> duplicated pc fc s i k)
    \<and> (clean_for identP P pc \<and> clean_for identF F fc \<and> service_clear is_ipv6 P F r s = (Inr (), s') \<longrightarrow>
        cred_map pc fc s' i k = None \<and> \<not> duplicated pc fc s' i k)
    \<and> (\<forall>j l t. j \<noteq> i \<and> l \<noteq> k
        \<and> t \<in> {snd (service_add is_ipv6 P F r x s), snd (service_update is_ipv6 P F r x s), snd (service_clear is_ipv6 P F r s)}
        \<longrightarrow> cred_map pc fc t j l = cred_map pc fc s j l \<and> duplicated pc fc t j l = duplicated pc fc s j l)
    \<and> (bs_err (inspect_store F n (snd s)) = None \<and> valid_secret x \<longrightarrow>
        (cred_map pc fc s i k \<noteq> None \<or> duplicated pc fc s i k \<longrightarrow>
           service_add is_ipv6 P F r x s = (Inl ErrAlreadyConfigured, s))
        \<and> (cred_map pc fc s i k = None \<longrightarrow>
             (let e = if duplicated pc fc s i k then ErrAmbiguousCredential else ErrCredentialNotFound in
              service_update is_ipv6 P F r x s = (Inl e, s)
              \<and> service_get is_ipv6 P F (cr_provider r) (cr_host r) s = Inl e)))"
proof -
  have pair: "credential_pair P F identP identF pc fc" using assms(1,2) by unfold_locales
  have r: "\<lparr>cr_provider = cr_provider r, cr_host = cr_host r\<rparr> = r" by simp
  have c: "clean_pair P F identP identF pc fc" if "clean_for identP P pc" "clean_for identF F fc"
    using pair that by (simp add: clean_pair_def clean_pair_axioms_def)
  have readable: "credential_pair.readable P n s" using assms(6) by (simp add: credential_pair.readable_def [OF pair])
  note ids = assms(3-5)
  have elsewhere: "cred_map pc fc t j l = cred_map pc fc s j l \<and> duplicated pc fc t j l = duplicated pc fc s j l"
    if "t \<in> {snd (service_add is_ipv6 P F r x s), snd (service_update is_ipv6 P F r x s), snd (service_clear is_ipv6 P F r s)}"
      and "j \<noteq> i" and "l \<noteq> k" for t j l
  proof -
    have "same_elsewhere pc fc i k s t"
      using that(1) credential_pair.add_elsewhere [OF pair _ ids] credential_pair.update_elsewhere [OF pair _ ids]
        credential_pair.clear_elsewhere [OF pair _ ids] by (metis (no_types) empty_iff insert_iff prod.collapse)
    then show ?thesis by (rule same_elsewhere_map [OF _ that(2,3)])
  qed
  show ?thesis
    unfolding Let_def
    using credential_pair.add_done [OF pair _ ids readable] credential_pair.update_done [OF pair _ ids readable]
      credential_pair.get_done [OF pair, where pr = "cr_provider r" and h = "cr_host r", unfolded r, OF _ ids readable]
      clean_pair.clear_done [OF c _ ids] elsewhere credential_pair.refusals [OF pair ids readable, of x]
    by blast
qed

text \<open>At a concrete input: the store in memory, as the browser tests compose it.\<close>

definition openai_host :: cred_ref where
  "openai_host = \<lparr>cr_provider = ''openai'', cr_host = ''api.openai.com''\<rparr>"

theorem credential_service_is_a_map_witness:
  "cred_map memory_content (\<lambda>(_::unit) _. None)
     (snd (service_add (\<lambda>_. False) (Some (cred_memory_ops (\<lambda>_. False) False 1)) None openai_host ''sk'' ([], ())))
     (ref_identity openai_host) (ref_identity openai_host) = Some ''sk''"
proof -
  let ?P = "Some (cred_memory_ops (\<lambda>_. False) False 1)"
  let ?add = "service_add (\<lambda>_. False) ?P (None :: unit cred_ops option) openai_host ''sk'' ([], ())"
  have n: "normalize_ref (\<lambda>_. False) openai_host = Some openai_host" by code_simp
  have b: "backend_for (identity_of (\<lambda>_. False)) ?P memory_content"
      "backend_for (identity_of (\<lambda>_. False)) (None :: unit cred_ops option) (\<lambda>_ _. None)"
    by (simp_all add: backend_for_def memory_backend.credential_backend_axioms)
  have i: "identity_of (\<lambda>_. False) openai_host = Some (ref_identity openai_host)" by (simp add: identity_of_def n)
  have e: "bs_err (inspect_store ?P openai_host (fst ([], ()))) = None"
    by (simp add: inspect_store_def cred_memory_ops_def cred_memory_status_def n)
  have a: "?add = (Inr (), snd ?add)"
    by (simp add: service_add_def n valid_secret_def max_credential_bytes_def inspect_store_def cred_memory_ops_def
        cred_memory_status_def inspection_error_def Let_def set_in_def in_primary_def cred_memory_set_def empty_status_def)
  show ?thesis using credential_service_is_a_map [OF b n i i e, of "''sk''" "snd ?add"] a by simp
qed

section \<open>A locked primary store\<close>

text \<open>When the primary store cannot be read because it is locked or unavailable, adding goes to the
  fallback although the primary may hold the reference: afterwards both do, and once the primary
  can be read again every operation but clearing is refused.\<close>

lemma locked_primary_duplicates:
  assumes "normalize_ref is_ipv6 r = Some n" and "valid_secret x" and "co_status p n (fst s) = Inl ErrLocked"
    and "co_status f n (snd s) = Inr st" and "\<not> st_configured st"
  shows "service_add is_ipv6 (Some p) (Some f) r x s = set_in (Some p) (Some f) Fallback n x s"
  using assms
  by (simp add: service_add_def inspect_store_def inspection_error_def fallback_eligible_def empty_status_def)

lemma duplicate_is_refused:
  assumes "normalize_ref is_ipv6 \<lparr>cr_provider = pr, cr_host = h\<rparr> = Some n" and "co_status p n (fst s) = Inr st"
    and "co_status f n (snd s) = Inr st'" and "st_configured st" and "st_configured st'"
  shows "service_get is_ipv6 (Some p) (Some f) pr h s = Inl ErrAmbiguousCredential"
  using assms by (simp add: service_get_def inspect_store_def configured_backend_def inspection_error_def)

end
