(* ===== verification/Keyring_Store.thy ===== *)
theory Keyring_Store
  imports Credential_Service
begin

text \<open>
  Package \<^verbatim>\<open>internal/credentials\<close>, \<^verbatim>\<open>keyring.go\<close> and \<^verbatim>\<open>keyring_errors_linux.go\<close>:
  the store on the keyring of the operating system. The keyring library is a parameter, a record
  of its three calls on a state; what is used of them is \<^verbatim>\<open>keyring_laws\<close>. The secret and a
  marker that it is configured are two entries of the keyring.
\<close>

section \<open>The keyring library\<close>

datatype keyring_failure =
    KrNotFound | KrTooBig | KrUnsupported
  | KrDBus string \<comment> \<open>a D-Bus error with its name\<close>
  | KrExec string \<comment> \<open>an executable that could not be started\<close>
  | KrOther string

record 'k keyring =
  kr_set :: "string \<Rightarrow> string \<Rightarrow> string \<Rightarrow> 'k \<Rightarrow> (keyring_failure, unit) result \<times> 'k" \<comment> \<open>service, user, password\<close>
  kr_get :: "string \<Rightarrow> string \<Rightarrow> 'k \<Rightarrow> (keyring_failure, string) result"
  kr_delete :: "string \<Rightarrow> string \<Rightarrow> 'k \<Rightarrow> (keyring_failure, unit) result \<times> 'k"

definition keyring_service :: string where
  "keyring_service = ''ai4se-harness''"

definition classify_platform_keyring_error :: "keyring_failure \<Rightarrow> cred_error" where
  "classify_platform_keyring_error e =
     (case e of
        KrDBus name \<Rightarrow>
          if name = ''org.freedesktop.Secret.Error.IsLocked'' then ErrLocked
          else if name \<in> {''org.freedesktop.DBus.Error.ServiceUnknown'', ''org.freedesktop.DBus.Error.NameHasNoOwner'',
              ''org.freedesktop.DBus.Error.NoReply'', ''org.freedesktop.DBus.Error.Disconnected'',
              ''org.freedesktop.DBus.Error.NotSupported''} then ErrUnavailable
          else ErrKeyring
      | KrExec name \<Rightarrow> if name = ''dbus-launch'' then ErrUnavailable else ErrKeyring
      | KrOther message \<Rightarrow>
          if message = ''dbus: couldn'' @ [CHR 0x27] @ ''t determine address of session bus'' then ErrUnavailable
          else if has_prefix message ''failed to unlock correct collection '' then ErrLocked
          else ErrKeyring
      | _ \<Rightarrow> ErrKeyring)"

definition classify_keyring_error :: "keyring_failure \<Rightarrow> cred_error" where
  "classify_keyring_error e =
     (case e of
        KrNotFound \<Rightarrow> ErrCredentialNotFound
      | KrTooBig \<Rightarrow> ErrInvalidKey
      | KrUnsupported \<Rightarrow> ErrUnavailable
      | _ \<Rightarrow> classify_platform_keyring_error e)"

section \<open>The store\<close>

definition keyring_account :: "cred_ref \<Rightarrow> string" where
  "keyring_account ref = cr_provider ref @ ''|'' @ cr_host ref"

definition keyring_status_account :: "cred_ref \<Rightarrow> string" where
  "keyring_status_account ref = keyring_account ref @ ''|status''"

type_synonym 'k keyring_state = "'k \<times> (string \<Rightarrow> gtime option)" \<comment> \<open>with the times of the updates, by identity\<close>

definition keyring_set ::
    "'k keyring \<Rightarrow> (string \<Rightarrow> bool) \<Rightarrow> bool \<Rightarrow> gtime \<Rightarrow> cred_ref \<Rightarrow> string \<Rightarrow> 'k keyring_state
     \<Rightarrow> (cred_error, unit) result \<times> 'k keyring_state" where
  "keyring_set kr is_ipv6 cancelled now ref secret s =
     (if cancelled then (Inl ErrCredContext, s)
      else
        (case normalize_ref is_ipv6 ref of
           None \<Rightarrow> (Inl ErrInvalidCredential, s)
         | Some n \<Rightarrow>
             if \<not> valid_secret secret then (Inl ErrInvalidCredential, s)
             else
               (case kr_set kr keyring_service (keyring_account n) secret (fst s) of
                  (Inl e, k) \<Rightarrow> (Inl (classify_keyring_error e), k, snd s)
                | (Inr _, k) \<Rightarrow>
                    (case kr_set kr keyring_service (keyring_status_account n) ''configured'' k of
                       (Inl e, k') \<Rightarrow>
                         (case kr_delete kr keyring_service (keyring_account n) k' of
                            (Inr _, k'') \<Rightarrow> (Inl (classify_keyring_error e), k'', snd s)
                          | (Inl e', k'') \<Rightarrow>
                              (Inl (if e' = KrNotFound then classify_keyring_error e
                                    else ErrCredJoined (classify_keyring_error e) (classify_keyring_error e')), k'', snd s))
                     | (Inr _, k') \<Rightarrow> (Inr (), k', (snd s)(ref_identity n \<mapsto> now))))))"

definition keyring_get ::
    "'k keyring \<Rightarrow> (string \<Rightarrow> bool) \<Rightarrow> bool \<Rightarrow> cred_ref \<Rightarrow> 'k keyring_state \<Rightarrow> (cred_error, string) result" where
  "keyring_get kr is_ipv6 cancelled ref s =
     (if cancelled then Inl ErrCredContext
      else
        (case normalize_ref is_ipv6 ref of
           None \<Rightarrow> Inl ErrInvalidCredential
         | Some n \<Rightarrow>
             (case kr_get kr keyring_service (keyring_account n) (fst s) of
                Inl e \<Rightarrow> Inl (classify_keyring_error e)
              | Inr secret \<Rightarrow> Inr secret)))"

definition keyring_delete ::
    "'k keyring \<Rightarrow> (string \<Rightarrow> bool) \<Rightarrow> bool \<Rightarrow> cred_ref \<Rightarrow> 'k keyring_state
     \<Rightarrow> (cred_error, unit) result \<times> 'k keyring_state" where
  "keyring_delete kr is_ipv6 cancelled ref s =
     (if cancelled then (Inl ErrCredContext, s)
      else
        (case normalize_ref is_ipv6 ref of
           None \<Rightarrow> (Inl ErrInvalidCredential, s)
         | Some n \<Rightarrow>
             (case kr_delete kr keyring_service (keyring_account n) (fst s) of
                (Inl e, k) \<Rightarrow> (Inl (classify_keyring_error e), k, snd s)
              | (Inr _, k) \<Rightarrow>
                  (case kr_delete kr keyring_service (keyring_status_account n) k of
                     (Inl e, k') \<Rightarrow>
                       if e \<noteq> KrNotFound then (Inl (classify_keyring_error e), k', snd s)
                       else (Inr (), k', (snd s)(ref_identity n := None))
                   | (Inr _, k') \<Rightarrow> (Inr (), k', (snd s)(ref_identity n := None))))))"

definition keyring_status ::
    "'k keyring \<Rightarrow> (string \<Rightarrow> bool) \<Rightarrow> bool \<Rightarrow> cred_ref \<Rightarrow> 'k keyring_state \<Rightarrow> (cred_error, cred_status) result" where
  "keyring_status kr is_ipv6 cancelled ref s =
     (if cancelled then Inl ErrCredContext
      else
        (case normalize_ref is_ipv6 ref of
           None \<Rightarrow> Inl ErrInvalidCredential
         | Some n \<Rightarrow>
             (case kr_get kr keyring_service (keyring_status_account n) (fst s) of
                Inl e \<Rightarrow>
                  (if classify_keyring_error e = ErrCredentialNotFound
                   then Inr \<lparr>st_ref = n, st_configured = False, st_backend = ''keyring'', st_updated_at = zero_time\<rparr>
                   else Inl (classify_keyring_error e))
              | Inr _ \<Rightarrow>
                  Inr \<lparr>st_ref = n, st_configured = True, st_backend = ''keyring'',
                       st_updated_at = (case snd s (ref_identity n) of None \<Rightarrow> zero_time | Some t \<Rightarrow> t)\<rparr>)))"

definition keyring_ops :: "'k keyring \<Rightarrow> (string \<Rightarrow> bool) \<Rightarrow> bool \<Rightarrow> gtime \<Rightarrow> 'k keyring_state cred_ops" where
  "keyring_ops kr is_ipv6 cancelled now =
     \<lparr>co_set = keyring_set kr is_ipv6 cancelled now, co_get = keyring_get kr is_ipv6 cancelled,
      co_delete = keyring_delete kr is_ipv6 cancelled, co_status = keyring_status kr is_ipv6 cancelled\<rparr>"

section \<open>What is used of the library\<close>

text \<open>\<^verbatim>\<open>look k a\<close> is the password of the user \<^verbatim>\<open>a\<close> of the service. A call that fails may
  or may not have taken effect, but only on its own entry; a missing entry is reported as such.\<close>

definition keyring_laws :: "'k keyring \<Rightarrow> ('k \<Rightarrow> string \<Rightarrow> string option) \<Rightarrow> bool" where
  "keyring_laws kr look \<longleftrightarrow>
     (\<forall>a v k k'. kr_set kr keyring_service a v k = (Inr (), k') \<longrightarrow> look k' = (look k)(a \<mapsto> v))
     \<and> (\<forall>a v k e k'. kr_set kr keyring_service a v k = (Inl e, k') \<longrightarrow> look k' \<in> {look k, (look k)(a \<mapsto> v)})
     \<and> (\<forall>a k. kr_get kr keyring_service a k = Inl KrNotFound \<longrightarrow> look k a = None)
     \<and> (\<forall>a k v. kr_get kr keyring_service a k = Inr v \<longrightarrow> look k a = Some v)
     \<and> (\<forall>a k k'. kr_delete kr keyring_service a k = (Inr (), k') \<longrightarrow> look k' = (look k)(a := None))
     \<and> (\<forall>a k k'. kr_delete kr keyring_service a k = (Inl KrNotFound, k') \<longrightarrow> look k a = None \<and> look k' = look k)
     \<and> (\<forall>a k e k'. kr_delete kr keyring_service a k = (Inl e, k') \<longrightarrow> look k' \<in> {look k, (look k)(a := None)})"

section \<open>Accounts of different references differ\<close>

abbreviation bar :: char where
  "bar \<equiv> CHR ''|''"

lemma unescape_chars:
  "url_unescape mode s = Some t \<Longrightarrow> mode = EncodeHost \<or> mode = EncodeZone
   \<Longrightarrow> c \<in> set t \<Longrightarrow> host_char c \<or> 128 \<le> code c \<or> c = CHR ''%'' \<or> code c = 32"
proof (induction mode s arbitrary: t rule: url_unescape.induct)
  case (2 mode d s)
  show ?case
  proof (cases "d = CHR ''%''")
    case True
    then obtain a b rest x y where s: "s = a # b # rest" "hex_value a = Some x" "hex_value b = Some y"
      using "2.prems"(1) by (auto split: list.splits option.splits)
    have x: "x < 16" "y < 16" using s(2,3) by (auto simp: hex_value_def Let_def split: if_splits)
    obtain t' where t': "url_unescape mode rest = Some t'" "t = char_of (16 * x + y) # t'"
      using "2.prems"(1) True s by (auto simp: Let_def split: if_splits)
    have v: "host_char (char_of (16 * x + y)) \<or> 128 \<le> code (char_of (16 * x + y))
        \<or> (char_of (16 * x + y) :: char) = CHR ''%'' \<or> code (char_of (16 * x + y) :: char) = 32"
    proof (cases "a = CHR ''2'' \<and> b = CHR ''5''")
      case True
      then have "16 * x + y = 37" using s by (simp add: hex_value_def)
      moreover have "(char_of (37::nat) :: char) = CHR ''%''" by code_simp
      ultimately show ?thesis by simp
    next
      case False
      then show ?thesis using "2.prems"(1,2) \<open>d = CHR ''%''\<close> s x by (auto simp: Let_def split: if_splits)
    qed
    have ok: "\<not> (mode = EncodeHost \<and> x < 8 \<and> \<not> (a = CHR ''2'' \<and> b = CHR ''5''))"
      "\<not> (mode = EncodeZone \<and> \<not> (a = CHR ''2'' \<and> b = CHR ''5'') \<and> 16 * x + y \<noteq> 32 \<and> \<not> host_char (char_of (16 * x + y)))"
      using "2.prems"(1) True s by (auto simp: Let_def split: if_splits)
    have "c \<in> set t' \<Longrightarrow> host_char c \<or> 128 \<le> code c \<or> c = CHR ''%'' \<or> code c = 32"
      using "2.IH"(1) [OF True s(1) refl refl s(2,3) refl refl ok t'(1) "2.prems"(2)] by blast
    then show ?thesis using t'(2) v "2.prems"(3) by auto
  next
    case False
    then obtain t' where "url_unescape mode s = Some t'" "t = d # t'" "code d < 128 \<longrightarrow> host_char d"
      using "2.prems" by (auto split: if_splits)
    then show ?thesis using "2.IH"(2) False "2.prems" by auto
  qed
qed simp

lemma unescape_bar_free: "url_unescape mode s = Some t \<Longrightarrow> mode = EncodeHost \<or> mode = EncodeZone \<Longrightarrow> bar \<notin> set t"
  using unescape_chars [of mode s t bar] by (auto simp: host_char_def ascii_alnum_def Let_def)

lemma cut_first_set: "cut_first c s = Some (a, b) \<Longrightarrow> set a \<subseteq> set s \<and> set b \<subseteq> set s"
  by (auto simp: cut_first_def split: if_splits dest: set_takeWhileD in_set_dropD set_dropWhileD)

lemma cut_last_set: "cut_last c s = Some (a, b) \<Longrightarrow> set a \<subseteq> set s \<and> set b \<subseteq> set s"
  by (auto simp: cut_last_def dest!: cut_first_set)

lemma parse_host_bar_free:
  assumes "parse_host is_ipv6 h = Some x"
  shows "bar \<notin> set x"
proof -
  have "bar \<notin> set (''['' @ y @ '']'' @ port)" if "bar \<notin> set y" "valid_optional_port port" for y port
    using that by (auto simp: valid_optional_port_def list_all_iff ascii_digit_def split: list.splits)
  then show ?thesis
    using assms
    by (auto simp: parse_host_def parse_bracketed_def split: if_splits option.splits dest!: unescape_bar_free)
qed

lemma parse_host_of_url:
  assumes "url_parse is_ipv6 raw = Some u"
  shows "bar \<notin> set (u_host u)"
proof -
  have a: "bar \<notin> set h" if "parse_authority is_ipv6 x = Some (b, h)" for x b h
    using that parse_host_bar_free by (auto simp: parse_authority_def split: option.splits if_splits)
  have p: "bar \<notin> set (u_host v)" if "parse_hierarchy is_ipv6 False sc q r = Some v" for sc q r v
    using that by (auto simp: parse_hierarchy_def Let_def split: if_splits option.splits dest!: a)
  have r: "bar \<notin> set (u_host v)" if "url_parse_rest is_ipv6 False y = Some v" for y v
    using that by (auto simp: url_parse_rest_def split: if_splits option.splits prod.splits dest!: p)
  show ?thesis using assms by (auto simp: url_parse_def split: option.splits dest!: r)
qed

lemma ascii_lower_bar: "ascii_lower c = bar \<longleftrightarrow> c = bar"
proof (cases "65 \<le> code c \<and> code c \<le> 90")
  case True
  then have "code (char_of (code c + 32) :: char) = code c + 32" by simp
  then have "code (char_of (code c + 32) :: char) \<noteq> code bar" using True by simp
  then have "(char_of (code c + 32) :: char) \<noteq> bar" by metis
  then show ?thesis using True by (auto simp: ascii_lower_def)
qed (auto simp: ascii_lower_def)

lemma to_lower_bar: "bar \<in> set (to_lower s) \<Longrightarrow> bar \<in> set s"
  by (induction s rule: to_lower.induct) (auto simp: ascii_lower_bar ascii_lower_bar [unfolded eq_commute [of _ bar]] split: if_splits dest: in_set_dropD)

lemma set_inner: "set (butlast (tl a)) \<subseteq> set a"
  by (cases a) (auto dest: in_set_butlastD)

lemma split_host_port_set: "set (fst (split_host_port s)) \<subseteq> set s" "set (snd (split_host_port s)) \<subseteq> set s"
proof -
  obtain h p where hp: "(case cut_last (CHR '':'') s of None \<Rightarrow> (s, [])
      | Some (h, p) \<Rightarrow> if list_all ascii_digit p then (h, p) else (s, [])) = (h, p)"
    by (rule prod.exhaust)
  then have "set h \<subseteq> set s \<and> set p \<subseteq> set s"
    using cut_last_set [of "CHR '':''" s] by (auto split: option.splits if_splits prod.splits)
  then show "set (fst (split_host_port s)) \<subseteq> set s" "set (snd (split_host_port s)) \<subseteq> set s"
    using set_inner [of h] by (auto simp: split_host_port_def hp)
qed

lemma provider_bar_free: "provider_id p \<Longrightarrow> bar \<notin> set p \<and> CHR 0x00 \<notin> set p"
  by (auto simp: provider_id_def provider_char_def ascii_digit_def list_all_iff split: list.splits)

lemma normalized_bar_free:
  assumes "normalize_ref is_ipv6 r = Some n"
  shows "bar \<notin> set (cr_provider n)" and "bar \<notin> set (cr_host n)" and "CHR 0x00 \<notin> set (cr_provider n)"
proof -
  obtain u where u: "url_parse is_ipv6 (''//'' @ trim_space (cr_host r)) = Some u"
    and n: "provider_id (cr_provider n)"
      "cr_host n = (let h = to_lower (trim_suffix (url_hostname u) ''.''); port = url_port u in
         if port \<noteq> [] then join_host_port h port else if CHR '':'' \<in> set h then ''['' @ h @ '']'' else h)"
    using assms by (auto simp: normalize_ref_def Let_def split: if_splits option.splits)
  have b: "bar \<notin> set (u_host u)" using parse_host_of_url [OF u] .
  then have h: "bar \<notin> set (to_lower (trim_suffix (url_hostname u) ''.''))" and "bar \<notin> set (url_port u)"
    using split_host_port_set [of "u_host u"] to_lower_bar
    by (auto simp: url_hostname_def url_port_def trim_suffix_def split: if_splits dest: in_set_takeD)
  then show "bar \<notin> set (cr_host n)" unfolding n(2) by (auto simp: Let_def join_host_port_def)
  show "bar \<notin> set (cr_provider n)" "CHR 0x00 \<notin> set (cr_provider n)" using provider_bar_free [OF n(1)] by auto
qed

definition bar_free :: "cred_ref \<Rightarrow> bool" where
  "bar_free n \<longleftrightarrow> bar \<notin> set (cr_provider n) \<and> bar \<notin> set (cr_host n) \<and> CHR 0x00 \<notin> set (cr_provider n)"

lemma normalized_is_bar_free: "normalize_ref is_ipv6 r = Some n \<Longrightarrow> bar_free n"
  using normalized_bar_free by (simp add: bar_free_def)

lemma cut_first_inverse:
  "cut_first c s = Some (a, b) \<longleftrightarrow> s = a @ c # b \<and> c \<notin> set a"
proof
  assume l: "cut_first c s = Some (a, b)"
  then have "c \<in> set s" and a: "a = takeWhile (\<lambda>d. d \<noteq> c) s" and b: "b = drop 1 (dropWhile (\<lambda>d. d \<noteq> c) s)"
    by (auto simp: cut_first_def split: if_splits)
  then obtain xs ys where "s = xs @ c # ys" "c \<notin> set xs" by (meson split_list_first)
  moreover have "takeWhile (\<lambda>d. d \<noteq> c) (xs @ c # ys) = xs" "dropWhile (\<lambda>d. d \<noteq> c) (xs @ c # ys) = c # ys"
    using \<open>c \<notin> set xs\<close> by (induction xs) auto
  ultimately show "s = a @ c # b \<and> c \<notin> set a" using a b by simp
next
  assume r: "s = a @ c # b \<and> c \<notin> set a"
  then have "c \<notin> set a" by simp
  then have "takeWhile (\<lambda>d. d \<noteq> c) (a @ c # b) = a" "dropWhile (\<lambda>d. d \<noteq> c) (a @ c # b) = c # b"
    by (induction a) auto
  then show "cut_first c s = Some (a, b)" using r by (simp add: cut_first_def)
qed

lemma split_eq:
  assumes "(c :: char) \<notin> set a" and "c \<notin> set b"
  shows "a @ c # x = b @ c # y \<longleftrightarrow> a = b \<and> x = y"
proof
  assume l: "a @ c # x = b @ c # y"
  have "cut_first c (a @ c # x) = Some (a, x)" "cut_first c (b @ c # y) = Some (b, y)"
    using assms by (simp_all add: cut_first_inverse)
  then show "a = b \<and> x = y" unfolding l by simp
qed simp

lemma accounts_differ:
  assumes "bar_free m" and "bar_free n"
  shows "keyring_account m = keyring_account n \<longleftrightarrow> ref_identity m = ref_identity n"
    and "keyring_status_account m = keyring_status_account n \<longleftrightarrow> ref_identity m = ref_identity n"
    and "keyring_account m \<noteq> keyring_status_account n"
proof -
  have i: "ref_identity m = ref_identity n \<longleftrightarrow> cr_provider m = cr_provider n \<and> cr_host m = cr_host n"
    using assms split_eq [of "CHR 0x00" "cr_provider m" "cr_provider n"] by (simp add: ref_identity_def bar_free_def)
  have a: "cr_provider m @ bar # x = cr_provider n @ bar # y \<longleftrightarrow> cr_provider m = cr_provider n \<and> x = y" for x y
    using assms split_eq [of bar "cr_provider m" "cr_provider n"] by (simp add: bar_free_def)
  show "keyring_account m = keyring_account n \<longleftrightarrow> ref_identity m = ref_identity n"
    using a [of "cr_host m" "cr_host n"] assms i by (simp add: keyring_account_def bar_free_def)
  then show "keyring_status_account m = keyring_status_account n \<longleftrightarrow> ref_identity m = ref_identity n"
    by (simp add: keyring_status_account_def)
  have "cr_host m \<noteq> cr_host n @ bar # t" for t using assms by (auto simp: bar_free_def)
  then show "keyring_account m \<noteq> keyring_status_account n"
    using a [of "cr_host m" "cr_host n @ ''|status''"] assms
    by (simp add: keyring_account_def keyring_status_account_def bar_free_def)
qed

section \<open>The keyring store keeps the contract\<close>

definition identity_ref :: "string \<Rightarrow> cred_ref option" where
  "identity_ref i = (case cut_first (CHR 0x00) i of None \<Rightarrow> None
     | Some (p, h) \<Rightarrow> if bar \<in> set p \<or> bar \<in> set h then None else Some \<lparr>cr_provider = p, cr_host = h\<rparr>)"

definition keyring_content :: "('k \<Rightarrow> string \<Rightarrow> string option) \<Rightarrow> 'k keyring_state \<Rightarrow> string \<Rightarrow> string option" where
  "keyring_content look s i =
     (case identity_ref i of
        None \<Rightarrow> None
      | Some n \<Rightarrow>
          if look (fst s) (keyring_status_account n) = None then None
          else Some (case look (fst s) (keyring_account n) of None \<Rightarrow> [] | Some v \<Rightarrow> v))"

lemma identity_ref_of: "bar_free n \<Longrightarrow> identity_ref (ref_identity n) = Some n"
  using cut_first_inverse [of "CHR 0x00" "ref_identity n" "cr_provider n" "cr_host n"]
  by (simp add: identity_ref_def ref_identity_def bar_free_def)

lemma identity_ref_Some: "identity_ref i = Some n \<Longrightarrow> bar_free n \<and> ref_identity n = i"
  by (auto simp: identity_ref_def bar_free_def ref_identity_def cut_first_inverse split: option.splits if_splits)

lemma content_frame:
  assumes "bar_free n" and "\<And>a. a \<noteq> keyring_account n \<Longrightarrow> a \<noteq> keyring_status_account n \<Longrightarrow> look (fst s') a = look (fst s) a"
    and "i \<noteq> ref_identity n"
  shows "keyring_content look s' i = keyring_content look s i"
proof (cases "identity_ref i")
  case (Some m)
  then have m: "bar_free m" "ref_identity m = i" using identity_ref_Some by auto
  have "keyring_account m \<notin> {keyring_account n, keyring_status_account n}"
    "keyring_status_account m \<notin> {keyring_account n, keyring_status_account n}"
    using accounts_differ [OF m(1) assms(1)] accounts_differ(3) [OF assms(1) m(1)] m(2) assms(3) by auto
  then show ?thesis using assms(2) Some by (simp add: keyring_content_def)
qed (simp add: keyring_content_def)

lemma keyring_lawsD:
  assumes "keyring_laws kr look"
  shows "kr_set kr keyring_service a v k = (Inr (), k') \<Longrightarrow> look k' = (look k)(a \<mapsto> v)"
    and "kr_set kr keyring_service a v k = (Inl e, k') \<Longrightarrow> look k' = look k \<or> look k' = (look k)(a \<mapsto> v)"
    and "kr_get kr keyring_service a k = Inl KrNotFound \<Longrightarrow> look k a = None"
    and "kr_get kr keyring_service a k = Inr v \<Longrightarrow> look k a = Some v"
    and "kr_delete kr keyring_service a k = (Inr (), k') \<Longrightarrow> look k' = (look k)(a := None)"
    and "kr_delete kr keyring_service a k = (Inl KrNotFound, k') \<Longrightarrow> look k a = None \<and> look k' = look k"
    and "kr_delete kr keyring_service a k = (Inl e, k') \<Longrightarrow> look k' = look k \<or> look k' = (look k)(a := None)"
proof -
  note l = assms [unfolded keyring_laws_def]
  show "kr_set kr keyring_service a v k = (Inr (), k') \<Longrightarrow> look k' = (look k)(a \<mapsto> v)" using l by simp
  show "kr_set kr keyring_service a v k = (Inl e, k') \<Longrightarrow> look k' = look k \<or> look k' = (look k)(a \<mapsto> v)" using l by auto
  show "kr_get kr keyring_service a k = Inl KrNotFound \<Longrightarrow> look k a = None" using l by simp
  show "kr_get kr keyring_service a k = Inr v \<Longrightarrow> look k a = Some v" using l by simp
  show "kr_delete kr keyring_service a k = (Inr (), k') \<Longrightarrow> look k' = (look k)(a := None)" using l by simp
  show "kr_delete kr keyring_service a k = (Inl KrNotFound, k') \<Longrightarrow> look k a = None \<and> look k' = look k" using l by blast
  show "kr_delete kr keyring_service a k = (Inl e, k') \<Longrightarrow> look k' = look k \<or> look k' = (look k)(a := None)" using l by auto
qed

text \<open>An operation on a reference changes at most its two entries.\<close>

definition touches :: "('k \<Rightarrow> string \<Rightarrow> string option) \<Rightarrow> cred_ref \<Rightarrow> 'k \<Rightarrow> 'k \<Rightarrow> bool" where
  "touches look n k k' \<longleftrightarrow>
     (\<forall>a. a \<noteq> keyring_account n \<longrightarrow> a \<noteq> keyring_status_account n \<longrightarrow> look k' a = look k a)"

lemma touches_trans: "touches look n k k' \<Longrightarrow> touches look n k' k'' \<Longrightarrow> touches look n k k''"
  by (simp add: touches_def)

lemma touches_call:
  assumes "keyring_laws kr look" and "a \<in> {keyring_account n, keyring_status_account n}"
  shows "kr_set kr keyring_service a v k = (x, k') \<Longrightarrow> touches look n k k'"
    and "kr_delete kr keyring_service a k = (x, k') \<Longrightarrow> touches look n k k'"
  using assms(2) keyring_lawsD(1,2,5,7) [OF assms(1)] by (cases x; fastforce simp: touches_def)+

lemma touched_content:
  assumes "touches look n (fst s) (fst s')" and "bar_free n"
  shows "keyring_content look s' = (keyring_content look s)(ref_identity n := keyring_content look s' (ref_identity n))"
  using content_frame [OF assms(2), of look s' s] assms(1) by (auto simp: touches_def fun_eq_iff)

lemma content_at:
  "bar_free n \<Longrightarrow> keyring_content look s (ref_identity n)
    = (if look (fst s) (keyring_status_account n) = None then None
       else Some (case look (fst s) (keyring_account n) of None \<Rightarrow> [] | Some v \<Rightarrow> v))"
  by (simp add: keyring_content_def identity_ref_of)

lemma account_not_status: "keyring_account n \<noteq> keyring_status_account n"
  by (simp add: keyring_status_account_def)

lemmas touches_rules = touches_call(1) [where a = "keyring_account n" and n = n for n, OF _ insertI1]
  touches_call(1) [where a = "keyring_status_account n" and n = n for n, OF _ insertI2 [OF insertI1]]
  touches_call(2) [where a = "keyring_account n" and n = n for n, OF _ insertI1]
  touches_call(2) [where a = "keyring_status_account n" and n = n for n, OF _ insertI2 [OF insertI1]]

lemma touches_refl: "touches look n k k"
  by (simp add: touches_def)

lemma keyring_set_touches:
  assumes "keyring_laws kr look" and "keyring_set kr is_ipv6 c now r x s = (y, s')" and "normalize_ref is_ipv6 r = Some n"
  shows "touches look n (fst s) (fst s')"
  using assms(2,3)
  by (auto simp: keyring_set_def touches_refl split: if_splits prod.splits sum.splits
      dest!: touches_rules [OF assms(1)] intro: touches_trans)

lemma keyring_delete_touches:
  assumes "keyring_laws kr look" and "keyring_delete kr is_ipv6 c r s = (y, s')" and "normalize_ref is_ipv6 r = Some n"
  shows "touches look n (fst s) (fst s')"
  using assms(2,3)
  by (auto simp: keyring_delete_def touches_refl split: if_splits prod.splits sum.splits
      dest!: touches_rules [OF assms(1)] intro: touches_trans)

lemma keyring_set_done:
  assumes "keyring_laws kr look" and "keyring_set kr is_ipv6 c now r x s = (Inr (), s')"
  shows "\<exists>i. identity_of is_ipv6 r = Some i \<and> keyring_content look s' = (keyring_content look s)(i \<mapsto> x)"
proof -
  obtain n k where n: "normalize_ref is_ipv6 r = Some n"
    and k: "kr_set kr keyring_service (keyring_account n) x (fst s) = (Inr (), k)"
      "kr_set kr keyring_service (keyring_status_account n) ''configured'' k = (Inr (), fst s')"
    and t: "touches look n (fst s) (fst s')"
    using keyring_set_touches [OF assms] assms(2)
    by (fastforce simp: keyring_set_def split: if_splits option.splits prod.splits sum.splits)
  have "look (fst s') = (look (fst s))(keyring_account n \<mapsto> x, keyring_status_account n \<mapsto> ''configured'')"
    using keyring_lawsD(1) [OF assms(1) k(1)] keyring_lawsD(1) [OF assms(1) k(2)] by simp
  then have v: "keyring_content look s' (ref_identity n) = Some x"
    using content_at [OF normalized_is_bar_free [OF n], of look s'] account_not_status [of n] by simp
  show ?thesis
    unfolding identity_of_def n using touched_content [OF t normalized_is_bar_free [OF n], unfolded v] by simp
qed

lemma keyring_set_somehow:
  assumes "keyring_laws kr look" and "keyring_set kr is_ipv6 c now r x s = (y, s')"
  shows "keyring_content look s' = keyring_content look s
    \<or> (\<exists>i z. identity_of is_ipv6 r = Some i \<and> keyring_content look s' = (keyring_content look s)(i := z))"
proof (cases "normalize_ref is_ipv6 r")
  case None
  then show ?thesis using assms(2) by (auto simp: keyring_set_def split: if_splits)
next
  case (Some n)
  then show ?thesis
    using touched_content [OF keyring_set_touches [OF assms Some] normalized_is_bar_free [OF Some]]
    unfolding identity_of_def Some option.map by blast
qed

lemma keyring_get_done:
  assumes "keyring_laws kr look" and "keyring_get kr is_ipv6 c r s = Inr x"
  shows "\<exists>i. identity_of is_ipv6 r = Some i \<and> (keyring_content look s i \<noteq> None \<longrightarrow> keyring_content look s i = Some x)"
proof -
  obtain n where n: "normalize_ref is_ipv6 r = Some n" "look (fst s) (keyring_account n) = Some x"
    using keyring_lawsD(4) [OF assms(1)] assms(2) by (auto simp: keyring_get_def split: if_splits option.splits sum.splits)
  then show ?thesis
    using content_at [OF normalized_is_bar_free [OF n(1)], of look s] by (auto simp: identity_of_def split: if_splits)
qed

lemma keyring_delete_done:
  assumes "keyring_laws kr look" and "keyring_delete kr is_ipv6 c r s = (Inr (), s')"
  shows "\<exists>i. identity_of is_ipv6 r = Some i \<and> keyring_content look s' = (keyring_content look s)(i := None)"
proof -
  obtain n k e where n: "normalize_ref is_ipv6 r = Some n"
    and k: "kr_delete kr keyring_service (keyring_account n) (fst s) = (Inr (), k)"
      "kr_delete kr keyring_service (keyring_status_account n) k = (e, fst s')" "e = Inr () \<or> e = Inl KrNotFound"
    and t: "touches look n (fst s) (fst s')"
    using keyring_delete_touches [OF assms] assms(2)
    by (fastforce simp: keyring_delete_def split: if_splits option.splits prod.splits sum.splits)
  have "look (fst s') (keyring_status_account n) = None"
    using k(2,3) keyring_lawsD(5,6) [OF assms(1)] by (metis fun_upd_same)
  then have v: "keyring_content look s' (ref_identity n) = None"
    using content_at [OF normalized_is_bar_free [OF n], of look s'] by simp
  show ?thesis
    unfolding identity_of_def n using touched_content [OF t normalized_is_bar_free [OF n], unfolded v] by simp
qed

lemma keyring_delete_somehow:
  assumes "keyring_laws kr look" and "keyring_delete kr is_ipv6 c r s = (y, s')"
  shows "keyring_content look s' = keyring_content look s
    \<or> (\<exists>i z. identity_of is_ipv6 r = Some i \<and> keyring_content look s' = (keyring_content look s)(i := z))"
proof (cases "normalize_ref is_ipv6 r")
  case None
  then show ?thesis using assms(2) by (auto simp: keyring_delete_def split: if_splits)
next
  case (Some n)
  then show ?thesis
    using touched_content [OF keyring_delete_touches [OF assms Some] normalized_is_bar_free [OF Some]]
    unfolding identity_of_def Some option.map by blast
qed

lemma keyring_status_done:
  assumes "keyring_laws kr look" and "keyring_status kr is_ipv6 c r s = Inr st"
  shows "\<exists>i. identity_of is_ipv6 r = Some i \<and> (st_configured st \<longleftrightarrow> keyring_content look s i \<noteq> None)"
proof -
  have nf: "classify_keyring_error e = ErrCredentialNotFound \<Longrightarrow> e = KrNotFound" for e
    by (auto simp: classify_keyring_error_def classify_platform_keyring_error_def split: keyring_failure.splits if_splits)
  obtain n where n: "normalize_ref is_ipv6 r = Some n"
    and "st_configured st \<longleftrightarrow> look (fst s) (keyring_status_account n) \<noteq> None"
    using assms(2) keyring_lawsD(3,4) [OF assms(1)]
    by (fastforce simp: keyring_status_def split: if_splits option.splits sum.splits dest: nf)
  then show ?thesis
    using content_at [OF normalized_is_bar_free [OF n], of look s] by (simp add: identity_of_def)
qed

lemmas keyring_contract = keyring_set_done keyring_set_somehow keyring_get_done keyring_delete_done keyring_delete_somehow
  keyring_status_done

text \<open>C30. On a keyring that does what is used of it, whatever calls fail, the keyring store keeps the
  contract of a credential store, so the service above is a map over it: the secret and the marker
  of different references never share an entry.\<close>

theorem keyring_store_keeps_contract:
  assumes "keyring_laws kr look"
  shows "credential_backend (keyring_ops kr is_ipv6 cancelled now) (identity_of is_ipv6) (keyring_content look)"
  by (unfold_locales; unfold keyring_ops_def cred_ops.simps) (rule keyring_contract [OF assms]; assumption)+

text \<open>At a concrete input: a keyring that is a map.\<close>

definition map_keyring :: "(string \<Rightarrow> string option) keyring" where
  "map_keyring =
     \<lparr>kr_set = (\<lambda>svc a v k. (Inr (), k(a \<mapsto> v))),
      kr_get = (\<lambda>svc a k. case k a of None \<Rightarrow> Inl KrNotFound | Some v \<Rightarrow> Inr v),
      kr_delete = (\<lambda>svc a k. if k a = None then (Inl KrNotFound, k) else (Inr (), k(a := None)))\<rparr>"

lemma map_keyring_laws: "keyring_laws map_keyring (\<lambda>k. k)"
  by (auto simp: keyring_laws_def map_keyring_def split: option.splits if_splits)

theorem keyring_store_keeps_contract_witness:
  "credential_backend (keyring_ops map_keyring (\<lambda>_. False) False 1) (identity_of (\<lambda>_. False)) (keyring_content (\<lambda>k. k))"
  by (rule keyring_store_keeps_contract [OF map_keyring_laws])

section \<open>A half-deleted credential\<close>

text \<open>Deleting removes the secret, then the marker. When the second call fails, the marker stays: the
  status goes on saying that the credential is configured. Deleting again finds no secret, reports
  that there is no credential and never reaches the marker; so the service's \<^verbatim>\<open>Clear\<close> succeeds
  without changing anything, and adding the credential again is refused.\<close>

lemma half_deleted_stays:
  assumes "normalize_ref is_ipv6 r = Some n" and "kr_delete kr keyring_service (keyring_account n) k = (Inl KrNotFound, k)"
    and "kr_get kr keyring_service (keyring_status_account n) k = Inr v"
  shows "keyring_delete kr is_ipv6 False r (k, t) = (Inl ErrCredentialNotFound, k, t)"
    and "keyring_status kr is_ipv6 False r (k, t) = Inr \<lparr>st_ref = n, st_configured = True, st_backend = ''keyring'',
           st_updated_at = (case t (ref_identity n) of None \<Rightarrow> zero_time | Some u \<Rightarrow> u)\<rparr>"
  using assms by (simp_all add: keyring_delete_def keyring_status_def classify_keyring_error_def)

lemma clear_leaves_marker:
  assumes "normalize_ref is_ipv6 r = Some n" and "normalize_ref is_ipv6 n = Some n"
    and "kr_delete kr keyring_service (keyring_account n) k = (Inl KrNotFound, k)"
    and "kr_get kr keyring_service (keyring_status_account n) k = Inr v" and "valid_secret x"
  shows "service_clear is_ipv6 (Some (keyring_ops kr is_ipv6 False now)) (None :: unit cred_ops option) r ((k, t), ())
      = (Inr (), (k, t), ())"
    and "service_add is_ipv6 (Some (keyring_ops kr is_ipv6 False now)) (None :: unit cred_ops option) r x ((k, t), ())
      = (Inl ErrAlreadyConfigured, (k, t), ())"
  using assms half_deleted_stays [OF assms(2-4), of t]
  by (simp_all add: service_clear_def service_add_def inspect_store_def keyring_ops_def clear_one_def inspection_error_def Let_def)

end
