(* ===== verification/Agent_Bounds.thy ===== *)
theory Agent_Bounds
  imports Agent_Safety
begin

text \<open>
  The governance loop returns: how often it can call the provider and change files before it
  does, and what it can return.
\<close>

section \<open>Counting calls\<close>

definition decides :: "call list \<Rightarrow> nat" where
  "decides cs = length (filter (\<lambda>c. c = CallDecide) cs)"

definition changed_files :: "call \<Rightarrow> bool" where
  "changed_files c = (case c of CallExecute a ok \<Rightarrow> ok \<and> is_mutating a | _ \<Rightarrow> False)"

definition mutated :: "call list \<Rightarrow> nat" where
  "mutated cs = length (filter changed_files cs)"

lemma count_simps [simp]:
  "decides [] = 0" "decides (cs @ ds) = decides cs + decides ds" "decides (c # cs) = (if c = CallDecide then 1 else 0) + decides cs"
  "mutated [] = 0" "mutated (cs @ ds) = mutated cs + mutated ds" "mutated (c # cs) = (if changed_files c then 1 else 0) + mutated cs"
  "\<not> changed_files CallDecide" "\<not> changed_files (CallBaseline p)" "\<not> changed_files (CallCurrent p)"
  "\<not> changed_files (CallFinal p)" "changed_files (CallExecute a ok) \<longleftrightarrow> ok \<and> is_mutating a"
  by (simp_all add: decides_def mutated_def changed_files_def)

definition mutations_left :: "tracker \<Rightarrow> nat" where
  "mutations_left t = nat (max_mutations (limits_of t) - mutations (usage_of t))"

lemma record_mutations_left:
  "record_mutation t = (Inr u, t') \<Longrightarrow> Suc (mutations_left t') = mutations_left t"
  "mutations_left (snd (record_decision t)) = mutations_left t"
  "mutations_left (snd (record_protocol_repair t)) = mutations_left t"
  by (auto simp: mutations_left_def go_simps split: if_splits)

definition tally :: "('s, 'w \<times> call list) loop_state \<Rightarrow> nat \<times> nat \<times> tracker" where
  "tally s = (decides (trace_of s), mutated (trace_of s), ls_tracker s)"

interpretation tally: call_frame "traced env" tally for env :: "('s, 'w) agent_env"
  by unfold_locales (auto simp: tally_def trace_of_def)

text \<open>Files changed so far, and how often the budget still lets them change.\<close>

definition spending :: "('s, 'w \<times> call list) loop_state \<Rightarrow> nat" where
  "spending s = mutated (trace_of s) + mutations_left (ls_tracker s)"

definition spent_well :: "('s, 'w \<times> call list) loop_state \<Rightarrow> turn \<times> ('s, 'w \<times> call list) loop_state \<Rightarrow> bool" where
  "spent_well s tr \<longleftrightarrow> decides (trace_of (snd tr)) = decides (trace_of s) \<and>
     (case fst tr of
        Continue _ _ \<Rightarrow> spending (snd tr) \<le> spending s
      | Return _ \<Rightarrow> spending (snd tr) \<le> Suc (spending s))"

lemma spent_same:
  assumes "tally (snd tr) = tally s"
  shows "spent_well s tr"
  using assms by (simp add: spent_well_def tally_def spending_def split: turn.splits)

lemma attempt_spent:
  assumes "tally (snd c) = tally s" and "\<And>x s'. tally s' = tally s \<Longrightarrow> spent_well s (k x s')"
  shows "spent_well s (attempt c k)"
  using assms spent_same [of "(Return x, snd c)" s for x] by (cases c; cases "fst c") (auto simp: attempt_def)

lemma on_executed_spent:
  assumes "decides (trace_of s1) = decides (trace_of s)" and "ls_tracker s1 = ls_tracker s"
    and "mutated (trace_of s1) = mutated (trace_of s) + (if \<not> isl res \<and> is_mutating a then 1 else 0)"
  shows "spent_well s (on_executed (traced env) r prev a res s1)"
proof (cases "\<not> isl res \<and> is_mutating a")
  case False
  then have "tally s1 = tally s" using assms by (simp add: tally_def)
  then show ?thesis
    using False by (cases res) (auto simp: on_executed_def Let_def spent_same intro!: attempt_spent)
next
  case True
  then obtain v where v: "res = Inr v" by (cases res) auto
  obtain x t where x: "record_mutation (ls_tracker s) = (x, t)" by (rule prod.exhaust)
  have m: "tally (snd (on_mutation (traced env) r v s1)) = tally (s1\<lparr>ls_tracker := t\<rparr>)"
    using tally.on_mutation_records [of env r v s1] x assms(2) by simp
  have e: "on_executed (traced env) r prev a res s1 = on_mutation (traced env) r v s1"
    using True v by (simp add: on_executed_def)
  show ?thesis
  proof (cases x)
    case (Inl f)
    then have "t = ls_tracker s" and "\<exists>y. fst (on_mutation (traced env) r v s1) = Return y"
      using x assms(2) by (auto simp: on_mutation_def go_simps stopping_def split: if_splits prod.splits)
    then show ?thesis
      using m assms True unfolding e by (auto simp: spent_well_def tally_def spending_def trace_of_def)
  next
    case (Inr u)
    then have "Suc (mutations_left t) = mutations_left (ls_tracker s)" using record_mutations_left(1) x by blast
    then show ?thesis
      using m assms True unfolding e
      by (auto simp: spent_well_def tally_def spending_def trace_of_def split: turn.splits)
  qed
qed

lemma on_allowed_spent: "spent_well s (on_allowed (traced env) r prev a s)"
proof -
  have "spent_well s (let (res, s2) = in_world (e_execute (traced env) a) s1 in on_executed (traced env) r1 prev a res s2)"
    if "tally s1 = tally s" for r1 s1
    using that by (auto simp: in_world_eq Let_def tally_def trace_of_def intro!: on_executed_spent)
  moreover have "spent_well s (on_finish (traced env) r1 s1)" if "tally s1 = tally s" for r1 s1
    using that by (simp add: spent_same tally.on_finish_frame)
  ultimately show ?thesis
    by (auto simp: on_allowed_def intro!: attempt_spent)
qed

lemma on_decision_spent: "spent_well s (on_decision (traced env) r prev a s)"
  by (auto simp: on_decision_def Let_def on_allowed_spent tally.on_denied_frame tally.on_approval_frame
      intro: spent_same split: verdict.splits)

definition turn_spent :: "('s, 'w \<times> call list) loop_state \<Rightarrow> turn \<times> ('s, 'w \<times> call list) loop_state \<Rightarrow> bool" where
  "turn_spent s tr \<longleftrightarrow> decides (trace_of (snd tr)) \<le> Suc (decides (trace_of s)) \<and>
     (case fst tr of
        Continue _ _ \<Rightarrow> spending (snd tr) \<le> spending s
      | Return _ \<Rightarrow> spending (snd tr) \<le> Suc (spending s))"

lemma turn_spentI:
  assumes "spent_well s1 tr" and "decides (trace_of s1) \<le> Suc (decides (trace_of s))" and "spending s1 = spending s"
  shows "turn_spent s tr"
  using assms by (simp add: turn_spent_def spent_well_def split: turn.splits)

lemma stopping_spent: "spent_well s (stopping env c r s)"
proof (rule spent_same)
  show "tally (snd (stopping env c r s)) = tally s"
    using stop_frame [of env c r s]
    by (cases "stop_run env c r s") (auto simp: stopping_def tally_def trace_of_def)
qed

lemma on_protocol_error_spent:
  "\<exists>s1. spent_well s1 (on_protocol_error (traced env) r prev err s)
     \<and> decides (trace_of s1) = decides (trace_of s) \<and> spending s1 = spending s"
proof (cases "record_protocol_repair (ls_tracker s)")
  case (Pair x t)
  show ?thesis
  proof (cases x)
    case (Inl e)
    then show ?thesis using Pair stopping_spent [of s] by (intro exI [of _ s]) (simp add: on_protocol_error_def)
  next
    case (Inr u)
    let ?s = "s\<lparr>ls_tracker := t\<rparr>"
    have "spent_well ?s (attempt (log_event (traced env) r ''ProtocolError'' (PProtocolError err) ?s)
        (\<lambda>_ s. (Continue r prev, s)))"
      by (auto intro!: attempt_spent intro: spent_same)
    moreover have "spending ?s = spending s"
      using record_mutations_left(3) [of "ls_tracker s"] Pair by (simp add: spending_def trace_of_def)
    ultimately show ?thesis using Pair Inr by (auto simp: on_protocol_error_def trace_of_def intro!: exI [of _ ?s])
  qed
qed

lemma iterate_spent: "turn_spent s (iterate (traced env) r prev s)"
proof -
  obtain c s1 where c: "in_world (unseen (e_cancelled env)) s = (c, s1)" by (rule prod.exhaust)
  obtain n s2 where n: "in_world (unseen (e_now env)) s1 = (n, s2)" by (rule prod.exhaust)
  obtain d s3 where d: "in_world (seen (\<lambda>_. CallDecide) (e_decide env (task r) prev)) s2 = (d, s3)" by (rule prod.exhaust)
  have s1: "decides (trace_of s1) = decides (trace_of s)" "spending s1 = spending s"
    using c by (auto simp: in_world_eq spending_def trace_of_def)
  have s2: "decides (trace_of s2) = decides (trace_of s)" "spending s2 = spending s"
    using s1 n by (auto simp: in_world_eq spending_def trace_of_def)
  have s3: "decides (trace_of s3) = Suc (decides (trace_of s))" "spending s3 = spending s"
    using s2 d by (auto simp: in_world_eq spending_def trace_of_def)
  have stop: "turn_spent s (stopping env' code r st)" if "st \<in> {s1, s2, s3}" for env' code st
    using that turn_spentI [OF stopping_spent [of st]] s1 s2 s3 by auto
  have repair: "turn_spent s (on_protocol_error (traced env) r prev err s3)" for err
    using on_protocol_error_spent [of env r prev err s3] turn_spentI s3 by fastforce
  have decide: "turn_spent s (on_decision (traced env) r prev a (s3\<lparr>ls_tracker := t\<rparr>))"
    if "record_decision (ls_tracker s3) = (Inr u, t)" for a u t
  proof (rule turn_spentI [OF on_decision_spent])
    show "spending (s3\<lparr>ls_tracker := t\<rparr>) = spending s"
      using s3(2) record_mutations_left(2) [of "ls_tracker s3"] that by (simp add: spending_def trace_of_def)
  qed (use s3(1) in \<open>simp add: trace_of_def\<close>)
  show ?thesis
    unfolding iterate_def traced_fields c n d Let_def prod.case
    using stop repair decide by (auto split: sum.splits prod.splits)
qed

lemma loop_spent:
  "decides (trace_of (snd (agent_loop (traced env) r prev s))) \<le> Suc (decides (trace_of s) + left s)
   \<and> mutated (trace_of (snd (agent_loop (traced env) r prev s))) \<le> Suc (spending s)"
proof (induction "left s" arbitrary: r prev s rule: less_induct)
  case less
  obtain t s' where t: "iterate (traced env) r prev s = (t, s')" by (rule prod.exhaust)
  have sp: "turn_spent s (t, s')" using iterate_spent [of s env r prev] t by simp
  show ?case
  proof (cases t)
    case (Continue r' prev')
    then have l: "left s' < left s" using iterate_decreases t by blast
    show ?thesis
      using less.hyps [OF l, of r' prev'] sp l Continue t
      by (simp add: agent_loop.simps [of _ r] turn_spent_def)
  next
    case (Return x)
    then show ?thesis using sp t by (simp add: agent_loop.simps [of _ r] turn_spent_def spending_def)
  qed
qed

section \<open>What a run can return\<close>

definition outcome :: "loop_result \<Rightarrow> bool" where
  "outcome res \<longleftrightarrow>
     (lr_state res \<in> {StateSucceeded, StateReviewComplete} \<and> lr_stop_code res = [])
     \<or> (lr_state res = StateAwaitingApproval \<and> lr_stop_code res = ''APPROVAL_REQUIRED'')
     \<or> (lr_state res = StateStopped
        \<and> lr_stop_code res \<in> {''USER_CANCELLED'', ''NO_REPRODUCTION'', ''PROTOCOL_EXHAUSTED'', ''BUDGET_EXHAUSTED'', ''NO_PROGRESS''})"

definition good :: "turn \<times> ('s, 'w) loop_state \<Rightarrow> bool" where
  "good tr \<longleftrightarrow> (\<forall>res. fst tr = Return (Inr res) \<longrightarrow> outcome res)"

lemma good_simps [simp]:
  "good (Continue r p, s)" "good (Return (Inl e), s)" "good (Return (Inr res), s) \<longleftrightarrow> outcome res"
  by (simp_all add: good_def)

lemma attempt_good: "(\<And>x s. good (k x s)) \<Longrightarrow> good (attempt c k)"
  by (cases c; cases "fst c") (auto simp: attempt_def)

lemma attempt_log_good: "(\<And>s. good (k () s)) \<Longrightarrow> good (attempt (log_event env r t p s) k)"
  by (rule attempt_good) simp

lemma attempt_transition_good:
  assumes "\<And>s. good (k (r\<lparr>state := to\<rparr>) s)"
  shows "good (attempt (transition_to env to t r s) k)"
proof -
  have "fst (transition_to env to t r s) = Inr r' \<Longrightarrow> r' = r\<lparr>state := to\<rparr>" for r'
    by (auto simp: transition_to_def transition_payload_def simp del: transition_Inr split: sum.splits prod.splits)
  then show ?thesis
    using assms by (cases "transition_to env to t r s"; cases "fst (transition_to env to t r s)") (auto simp: attempt_def)
qed

lemma stopping_good:
  assumes "c \<in> {''USER_CANCELLED'', ''NO_REPRODUCTION'', ''PROTOCOL_EXHAUSTED'', ''BUDGET_EXHAUSTED'', ''NO_PROGRESS''}"
  shows "good (stopping env c r s)"
proof -
  have "fst (stop_run env c r s) = Inr res \<Longrightarrow> lr_state res = StateStopped \<and> lr_stop_code res = c" for res
    by (auto simp: stop_run_def simp del: transition_Inr split: if_splits sum.splits prod.splits)
  then show ?thesis
    using assms by (cases "stop_run env c r s"; cases "fst (stop_run env c r s)") (auto simp: stopping_def outcome_def)
qed

lemma on_approval_good: "good (on_approval env r a dec s)"
proof -
  let ?call = "transition_payload env StateAwaitingApproval ''ApprovalRequired''
    (PApproval (new_approval_required (e_sha env) (profile r) a dec (ls_baselines s) (ls_redactor s))) r
    (s\<lparr>ls_pending := (ls_pending s)
      (rid r := Some \<lparr>pa_run = r\<lparr>state := StateAwaitingApproval\<rparr>, pa_action = a, pa_digest = d_digest dec\<rparr>)\<rparr>)"
  have "fst ?call = Inr r' \<Longrightarrow> state r' = StateAwaitingApproval" for r'
    by (auto simp: transition_payload_def simp del: transition_Inr split: sum.splits prod.splits)
  then show ?thesis
    by (cases ?call; cases "fst ?call") (auto simp: on_approval_def Let_def outcome_def)
qed

lemma on_finish_good: "good (on_finish env r s)"
  by (auto simp: on_finish_def Let_def in_world_eq outcome_def intro!: attempt_transition_good attempt_log_good)

lemma on_mutation_good: "good (on_mutation env r res s)"
  by (cases "record_mutation (ls_tracker s)"; cases "fst (record_mutation (ls_tracker s))")
    (auto simp: on_mutation_def Let_def in_world_eq case_prod_beta intro!: attempt_good stopping_good)

lemma on_decision_good: "good (on_decision env r prev a s)"
proof -
  have "good (on_executed env r1 prev a res s1)" for r1 res s1
    by (cases res) (auto simp: on_executed_def Let_def intro!: attempt_good on_mutation_good)
  then have "good (on_allowed env r prev a s)"
    by (auto simp: on_allowed_def in_world_eq intro!: attempt_good on_finish_good)
  then show ?thesis
    by (auto simp: on_decision_def on_denied_def Let_def intro!: attempt_good on_approval_good split: verdict.splits)
qed

lemma on_protocol_error_good: "good (on_protocol_error env r prev err s)"
  by (cases "record_protocol_repair (ls_tracker s)"; cases "fst (record_protocol_repair (ls_tracker s))")
    (auto simp: on_protocol_error_def intro!: attempt_good stopping_good)

lemma iterate_good: "good (iterate env r prev s)"
  by (auto simp: iterate_def in_world_eq Let_def intro!: stopping_good on_protocol_error_good on_decision_good
      split: sum.splits prod.splits)

lemma loop_outcome: "fst (agent_loop env r prev s) = Inr res \<Longrightarrow> outcome res"
proof (induction "left s" arbitrary: r prev s rule: less_induct)
  case less
  obtain t s' where t: "iterate env r prev s = (t, s')" by (rule prod.exhaust)
  show ?case
  proof (cases t)
    case (Continue r' prev')
    then have "left s' < left s" using iterate_decreases t by blast
    then show ?thesis using less Continue t by (simp add: agent_loop.simps [of _ r])
  next
    case (Return x)
    then show ?thesis
      using less.prems t iterate_good [of env r prev s] by (simp add: agent_loop.simps [of _ r] good_def)
  qed
qed

lemma start_good: "good (start_run env r s)"
proof -
  have p: "good (proceed tr k)" if "good tr" and "\<And>r s. good (k r s)" for tr :: "turn \<times> ('a, 'b) loop_state" and k
    using that by (cases tr; cases "fst tr") (auto simp: proceed_def)
  have "good (enter_preflight env r s)" "good (enter_baseline env r s)" "good (enter_deciding env r s)" for r s
    by (auto simp: enter_preflight_def enter_baseline_def enter_deciding_def in_world_eq intro!: attempt_good stopping_good)
  then show ?thesis by (auto simp: start_run_def in_world_eq intro!: p stopping_good)
qed

section \<open>The bound\<close>

lemma start_calls:
  "decides (trace_of (snd (start_run (traced env) r s))) = decides (trace_of s)
   \<and> mutated (trace_of (snd (start_run (traced env) r s))) = mutated (trace_of s)
   \<and> ls_tracker (snd (start_run (traced env) r s)) = ls_tracker s"
proof -
  let ?f = "tally :: ('a, 'b \<times> call list) loop_state \<Rightarrow> _"
  have p: "?f (snd (proceed tr k)) = n" if "?f (snd tr) = n" and "\<And>r s. ?f s = n \<Longrightarrow> ?f (snd (k r s)) = n" for tr k n
    using that by (cases tr; cases "fst tr") (auto simp: proceed_def)
  have b: "?f (s1\<lparr>ls_world := snd (seen (\<lambda>v. CallBaseline (vr_passed v)) g (ls_world s1))\<rparr>) = ?f s1" for s1 g
    by (simp add: tally_def trace_of_def)
  have c: "?f (s1\<lparr>ls_world := snd (unseen g (ls_world s1))\<rparr>) = ?f s1" for s1 and g :: "'b \<Rightarrow> bool \<times> 'b"
    by (simp add: tally_def trace_of_def)
  have "?f (snd (enter_preflight (traced env) r s)) = ?f s" "?f (snd (enter_baseline (traced env) r s)) = ?f s"
    "?f (snd (enter_deciding (traced env) r s)) = ?f s" for r s
    by (auto simp: enter_preflight_def enter_baseline_def enter_deciding_def in_world_eq b intro!: tally.attempt_frame)
  then have "?f (snd (start_run (traced env) r s)) = ?f s"
    by (auto simp: start_run_def in_world_eq c intro!: p)
  then show ?thesis by (simp add: tally_def)
qed

text \<open>C7. Every run returns (the loop is a total function), with an error or with one of four
  outcomes, after a bounded amount of work: with a fresh tracker it asks the provider at most
  (decisions + 1) * (repairs + 1) times and changes files at most (mutations + 1) times, whatever
  its collaborators do.\<close>

theorem every_run_returns:
  assumes "ls_tracker s = new_tracker l t0"
  shows "let (out, s') = run_agent (traced env) r (with_trace [] s) in
     (\<forall>res. out = Inr res \<longrightarrow> outcome res)
     \<and> decides (trace_of s') \<le> Suc (nat (max_decisions l)) * Suc (nat (max_protocol_repairs l))
     \<and> mutated (trace_of s') \<le> Suc (nat (max_mutations l))"
proof -
  let ?s = "with_trace [] s"
  obtain t s1 where t: "start_run (traced env) r ?s = (t, s1)" by (rule prod.exhaust)
  have f: "decides (trace_of s1) = 0" "mutated (trace_of s1) = 0" "ls_tracker s1 = new_tracker l t0"
    using start_calls [of env r ?s] t assms by simp_all
  have l: "left s1 = nat (max_decisions l) * Suc (nat (max_protocol_repairs l)) + nat (max_protocol_repairs l)"
    and m: "spending s1 = nat (max_mutations l)"
    using f by (simp_all add: turns_left_def spending_def mutations_left_def new_tracker_def)
  have "decides (trace_of s') \<le> Suc (left s1) \<and> mutated (trace_of s') \<le> Suc (spending s1) \<and> (\<forall>res. out = Inr res \<longrightarrow> outcome res)"
    if "run_agent (traced env) r ?s = (out, s')" for out s'
  proof (cases t)
    case (Continue r' p)
    then have "agent_loop (traced env) r' None s1 = (out, s')"
      using that t by (simp add: run_agent_def run_with_def)
    then show ?thesis using loop_spent [of env r' None s1] loop_outcome [of "traced env" r' None s1] f by auto
  next
    case (Return x)
    then show ?thesis
      using that t f start_good [of "traced env" r ?s] by (simp add: run_agent_def run_with_def good_def)
  qed
  then show ?thesis unfolding l m by (auto split: prod.splits)
qed

theorem every_run_returns_witness:
  "decides (trace_of (snd (run_agent (traced sample_env) (fresh_run ProfileReview) (with_trace [] sample_state)))) \<le> 8"
proof -
  have "ls_tracker sample_state = new_tracker \<lparr>max_decisions = 3, max_mutations = 1,
        max_protocol_repairs = 1, wall_clock = 60\<rparr> 0"
    by (simp add: sample_state_def)
  from every_run_returns [OF this, of sample_env "fresh_run ProfileReview"] show ?thesis
    by (auto split: prod.splits)
qed

text \<open>The extra file change is real: a mutation is executed before the budget is asked, so a run whose
  mutation budget is used up changes files once more and stops without validating the change.\<close>

lemma mutation_beyond_budget:
  assumes "record_mutation (ls_tracker s) = (Inl e, t)"
  shows "on_executed env r prev a (Inr res) s
    = (if is_mutating a then stopping env ''BUDGET_EXHAUSTED'' r s
       else attempt (transition_to env StateDeciding ''ActionComplete'' r s) (\<lambda>r s. (Continue r prev, s)))"
  using assms by (simp add: on_executed_def on_mutation_def)

end
