(* ===== verification/Agent_Store.thy ===== *)
theory Agent_Store
  imports Agent_Safety Sqlite_Correct
begin

text \<open>
  The governance loop on the two stores. What the loop needs of a store is the contract of a run
  log twice, under the loop's own context and under the detached one that stopping a run uses;
  under it the stored run and its log agree with what the loop returns. The contract is
  interpreted on the in-memory store and on the SQLite store with failing driver calls.
\<close>

section \<open>The contract of the loop's store\<close>

definition agrees ::
    "('s \<Rightarrow> run_id \<Rightarrow> run option) \<Rightarrow> ('s \<Rightarrow> run_id \<Rightarrow> run_event list) \<Rightarrow> (run \<Rightarrow> run) \<Rightarrow> ('s \<Rightarrow> bool)
     \<Rightarrow> 's \<Rightarrow> run \<Rightarrow> run \<Rightarrow> 's \<Rightarrow> bool" where
  "agrees look logs kept ok s0 r0 r st \<longleftrightarrow>
     ok st \<and> (\<exists>x. r = r0\<lparr>state := x\<rparr>)
     \<and> (\<exists>c. look st (rid r0) = Some c \<and> state c = state r
          \<and> (look s0 (rid r0) = Some c \<or> c = kept r)
          \<and> (look s0 (rid r0) \<noteq> Some c \<longrightarrow> logs s0 (rid r0) \<noteq> logs st (rid r0)))
     \<and> prefix (logs s0 (rid r0)) (logs st (rid r0))
     \<and> (\<forall>i. i \<noteq> rid r0 \<longrightarrow> look st i = look s0 i \<and> logs st i = logs s0 i)"

locale loop_store =
  cancellable: run_log H lookup log kept update_if append inv
  + detached: run_log H lookup log kept update_detached append inv
  for H :: "string \<Rightarrow> digest"
    and lookup :: "'s \<Rightarrow> run_id \<Rightarrow> run option"
    and log :: "'s \<Rightarrow> run_id \<Rightarrow> run_event list"
    and kept :: "run \<Rightarrow> run"
    and update_if update_detached :: "run \<Rightarrow> run_state \<Rightarrow> string \<Rightarrow> string \<Rightarrow> 's \<Rightarrow> (store_error, run_event) result \<times> 's"
    and append :: "run_id \<Rightarrow> string \<Rightarrow> string \<Rightarrow> 's \<Rightarrow> (store_error, run_event) result \<times> 's"
    and inv :: "'s \<Rightarrow> bool"
begin

lemma agrees_update:
  assumes law: "run_log H lookup log kept update append inv"
    and ag: "agrees lookup log kept inv s0 r0 r st" and u: "update (r\<lparr>state := x\<rparr>) e t p st = (y, st')"
  shows "y = Inl f \<Longrightarrow> agrees lookup log kept inv s0 r0 r st'"
    and "y = Inr ev \<Longrightarrow> agrees lookup log kept inv s0 r0 (r\<lparr>state := x\<rparr>) st'"
proof -
  have i: "inv st'" using run_log.inv_update [OF law, of st "r\<lparr>state := x\<rparr>" e t p] ag u by (simp add: agrees_def)
  have st: "inv st" using ag by (simp add: agrees_def)
  show "agrees lookup log kept inv s0 r0 r st'" if "y = Inl f"
    using run_log.update_Inl [OF law st] u that ag i unfolding agrees_def by metis
  show "agrees lookup log kept inv s0 r0 (r\<lparr>state := x\<rparr>) st'" if "y = Inr ev"
  proof -
    have n: "lookup st' = (lookup st)(rid r \<mapsto> kept (r\<lparr>state := x\<rparr>))" "log st' = (log st)(rid r := log st (rid r) @ [ev])"
      using run_log.update_Inr [OF law st u [unfolded that]] by simp_all
    obtain z where r: "r = r0\<lparr>state := z\<rparr>" using ag by (auto simp: agrees_def)
    have pre: "prefix (log s0 (rid r0)) (log st (rid r0))" using ag by (simp add: agrees_def)
    then have "log s0 (rid r0) \<noteq> log st (rid r0) @ [ev]" by (auto simp: prefix_def)
    then show ?thesis
      using ag n i r pre run_log.kept_state [OF law, of "r0\<lparr>state := x\<rparr>"] by (auto simp: agrees_def)
  qed
qed

lemma agrees_append:
  assumes ag: "agrees lookup log kept inv s0 r0 r st" and u: "append (rid r) t p st = (y, st')"
  shows "agrees lookup log kept inv s0 r0 r st'"
proof -
  have i: "inv st'" and st: "inv st"
    using cancellable.inv_append [of st "rid r" t p] ag u by (simp_all add: agrees_def)
  show ?thesis
  proof (cases y)
    case (Inl e)
    then show ?thesis using cancellable.append_Inl [OF st] u ag i unfolding agrees_def by metis
  next
    case (Inr ev)
    have n: "lookup st' = lookup st" "log st' = (log st)(rid r := log st (rid r) @ [ev])"
      using cancellable.append_Inr [OF st u [unfolded Inr]] by simp_all
    obtain z where r: "r = r0\<lparr>state := z\<rparr>" using ag by (auto simp: agrees_def)
    have pre: "prefix (log s0 (rid r0)) (log st (rid r0))" using ag by (simp add: agrees_def)
    then have "log s0 (rid r0) \<noteq> log st (rid r0) @ [ev]" by (auto simp: prefix_def)
    then show ?thesis using ag n i r pre by (auto simp: agrees_def)
  qed
qed

lemma agrees_logic:
  fixes env :: "('s, 'w) agent_env"
  assumes "e_update_if env = update_if" and "e_update_detached env = update_detached" and "e_append env = append"
  shows "loop_logic env (\<lambda>r st w. agrees lookup log kept inv s0 r0 r st) b"
proof -
  note c = agrees_update [OF cancellable.run_log_axioms] and d = agrees_update [OF detached.run_log_axioms]
  show ?thesis
    using assms by unfold_locales (auto intro: c d agrees_append)
qed

text \<open>Whatever the collaborators do, the run as stored is the run the loop was given up to its state,
  which is the one the loop returns; its log has only grown, no stored state changed without an
  event, and no other run was touched.\<close>

lemma run_agrees:
  fixes env :: "('s, 'w) agent_env"
  assumes "e_update_if env = update_if" and "e_update_detached env = update_detached" and "e_append env = append"
    and "inv (ls_store s)" and "lookup (ls_store s) (rid r) = Some c" and "state c = state r"
    and "run_agent env r s = (out, s')"
  shows "\<exists>r'. agrees lookup log kept inv (ls_store s) r r' (ls_store s')
    \<and> (\<forall>res. out = Inr res \<longrightarrow> lr_state res = state r')"
proof -
  have "agrees lookup log kept inv (ls_store s) r r (ls_store s)"
    using assms(4-6) by (auto simp: agrees_def intro: exI [of _ "state r"])
  then have "holds_in (\<lambda>r1 st w. agrees lookup log kept inv (ls_store s) r r1 st) (\<lambda>_ _. True) (ls_baselines s) r s" by (simp add: holds_in_def)
  from loop_logic.run_ok [OF agrees_logic [OF assms(1-3)] this, of None] show ?thesis
    using assms(7) by (auto simp: result_ok_def holds_in_def run_agent_def)
qed

end

section \<open>The two stores keep it\<close>

definition memory_update_detached ::
    "(string \<Rightarrow> digest) \<Rightarrow> run \<Rightarrow> run_state \<Rightarrow> string \<Rightarrow> string \<Rightarrow> memory_world
     \<Rightarrow> (store_error, run_event) result \<times> memory_world" where
  "memory_update_detached H r expected t payload w =
     (let (x, s) = update_run_if_state H False (mw_clock w (mw_calls w)) r expected t payload (mw_store w)
      in (x, w\<lparr>mw_store := s, mw_calls := mw_calls w + 1\<rparr>))"

lemma memory_detached:
  "memory_update_detached H r expected t payload w =
     (let (x, w') = memory_update_if H r expected t payload (w\<lparr>mw_cancelled := \<lambda>_. False\<rparr>)
      in (x, w'\<lparr>mw_cancelled := mw_cancelled w\<rparr>))"
  by (simp add: memory_update_detached_def memory_update_if_def case_prod_beta Let_def)

interpretation memory_loop: loop_store H "\<lambda>w. map_of (ms_runs (mw_store w))" "\<lambda>w. ms_events (mw_store w)"
  "\<lambda>r. r" "memory_update_if H" "memory_update_detached H" "memory_append H" "\<lambda>w. store_ok H (mw_store w)"
  for H :: "string \<Rightarrow> digest"
proof (intro loop_store.intro memory_log.run_log_axioms, unfold_locales, goal_cases)
  case (1 s r expected t payload)
  then show ?case
    using memory_log.inv_update [of H "s\<lparr>mw_cancelled := \<lambda>_. False\<rparr>" r expected t payload]
    by (simp add: memory_detached case_prod_beta Let_def)
next
  case (2 s i t payload)
  then show ?case by (rule memory_log.inv_append)
next
  case (3 s i)
  then show ?case by (rule memory_log.inv_log)
next
  case (4 s r expected t payload e s')
  then show ?case
    using memory_log.update_Inl [of H "s\<lparr>mw_cancelled := \<lambda>_. False\<rparr>" r expected t payload e]
    by (auto simp: memory_detached split: prod.splits)
next
  case (5 s r expected t payload ev s')
  then show ?case
    using memory_log.update_Inr [of H "s\<lparr>mw_cancelled := \<lambda>_. False\<rparr>" r expected t payload ev]
    by (fastforce simp: memory_detached split: prod.splits)
next
  case (6 s i t payload e s')
  then show ?case by (rule memory_log.append_Inl)
next
  case (7 s i t payload ev s')
  then show ?case by (rule memory_log.append_Inr)
qed simp_all

definition sqlite_update_detached ::
    "(string \<Rightarrow> digest) \<Rightarrow> run \<Rightarrow> run_state \<Rightarrow> string \<Rightarrow> string \<Rightarrow> sqlite_world
     \<Rightarrow> (store_error, run_event) result \<times> sqlite_world" where
  "sqlite_update_detached H r expected t payload w =
     (let k = sw_calls w;
          (x, db) = sqlite_update_run_if_state H (sw_faults w k) False (sw_clock w k) r expected t payload (sw_db w)
      in (x, w\<lparr>sw_db := db, sw_calls := k + 1\<rparr>))"

lemma sqlite_detached:
  "sqlite_update_detached H r expected t payload w =
     (let (x, w') = sqlite_update_if H r expected t payload (w\<lparr>sw_cancelled := \<lambda>_. False\<rparr>)
      in (x, w'\<lparr>sw_cancelled := sw_cancelled w\<rparr>))"
  by (simp add: sqlite_update_detached_def sqlite_update_if_def case_prod_beta Let_def)

lemma sqlite_inv_cancelled [simp]: "sqlite_inv H (w\<lparr>sw_cancelled := c\<rparr>) = sqlite_inv H w"
  by (simp add: sqlite_inv_def)

interpretation sqlite_loop: loop_store H "\<lambda>w. find_run (sw_db w)" "\<lambda>w. events_of (sw_db w)"
  "\<lambda>r. load_run (store_run r)" "sqlite_update_if H" "sqlite_update_detached H" "sqlite_append H" "sqlite_inv H"
  for H :: "string \<Rightarrow> digest"
proof (intro loop_store.intro sqlite_log.run_log_axioms, unfold_locales, goal_cases)
  case (1 s r expected t payload)
  then show ?case
    using sqlite_log.inv_update [of H "s\<lparr>sw_cancelled := \<lambda>_. False\<rparr>" r expected t payload]
    by (simp add: sqlite_detached case_prod_beta Let_def)
next
  case (2 s i t payload)
  then show ?case by (rule sqlite_log.inv_append)
next
  case (3 s i)
  then show ?case by (rule sqlite_log.inv_log)
next
  case (4 s r expected t payload e s')
  then show ?case
    using sqlite_log.update_Inl [of H "s\<lparr>sw_cancelled := \<lambda>_. False\<rparr>" r expected t payload e]
    by (auto simp: sqlite_detached split: prod.splits)
next
  case (5 s r expected t payload ev s')
  then show ?case
    using sqlite_log.update_Inr [of H "s\<lparr>sw_cancelled := \<lambda>_. False\<rparr>" r expected t payload ev]
    by (fastforce simp: sqlite_detached split: prod.splits)
next
  case (6 s i t payload e s')
  then show ?case by (rule sqlite_log.append_Inl)
next
  case (7 s i t payload ev s')
  then show ?case by (rule sqlite_log.append_Inr)
qed (rule sqlite_log.kept_id sqlite_log.kept_state)+

section \<open>The stored run\<close>

definition on_sqlite :: "(string \<Rightarrow> digest) \<Rightarrow> (sqlite_world, 'w) agent_env \<Rightarrow> (sqlite_world, 'w) agent_env" where
  "on_sqlite H env =
     env\<lparr>e_update_if := sqlite_update_if H, e_update_detached := sqlite_update_detached H, e_append := sqlite_append H\<rparr>"

text \<open>C3. The store and the loop agree. On the SQLite store, whatever driver calls fail, whenever the
  context is cancelled and whatever the collaborators do: when the loop returns, with a result or
  an error, the stored run is the one it was given with at most its state changed, into the state
  the result names; its log is a valid hash chain that extends the old one, and strictly when the
  stored run changed; and every other run and log is as before.\<close>

theorem stored_run_agrees:
  assumes "sqlite_inv H (ls_store s)" and "find_run (sw_db (ls_store s)) (rid r) = Some c" and "state c = state r"
    and "run_agent (on_sqlite H env) r s = (out, s')"
  shows "\<exists>c'. find_run (sw_db (ls_store s')) (rid r) = Some c'
      \<and> (c' = c \<or> c' = load_run (store_run (r\<lparr>state := state c'\<rparr>)))
      \<and> (\<forall>res. out = Inr res \<longrightarrow> state c' = lr_state res)
      \<and> prefix (events_of (sw_db (ls_store s)) (rid r)) (events_of (sw_db (ls_store s')) (rid r))
      \<and> (c' \<noteq> c \<longrightarrow> events_of (sw_db (ls_store s')) (rid r) \<noteq> events_of (sw_db (ls_store s)) (rid r))
      \<and> (\<forall>i. valid_log H i (events_of (sw_db (ls_store s')) i))
      \<and> (\<forall>i. i \<noteq> rid r \<longrightarrow> find_run (sw_db (ls_store s')) i = find_run (sw_db (ls_store s)) i
           \<and> events_of (sw_db (ls_store s')) i = events_of (sw_db (ls_store s)) i)"
proof -
  obtain r' where ag: "agrees (\<lambda>w. find_run (sw_db w)) (\<lambda>w. events_of (sw_db w)) (\<lambda>r. load_run (store_run r))
      (sqlite_inv H) (ls_store s) r r' (ls_store s')" and out: "\<forall>res. out = Inr res \<longrightarrow> lr_state res = state r'"
    using sqlite_loop.run_agrees [of "on_sqlite H env" H s r c out s'] assms by (auto simp: on_sqlite_def)
  obtain x where x: "r' = r\<lparr>state := x\<rparr>" using ag by (auto simp: agrees_def)
  have v: "valid_log H i (events_of (sw_db (ls_store s')) i)" for i
    using sqlite_log.inv_log [of H "ls_store s'" i] ag by (simp add: agrees_def)
  show ?thesis
    using ag out v assms(2) x unfolding agrees_def by auto
qed

text \<open>A run stored in SQLite and collaborators for the witness: the context is already cancelled.\<close>

definition sample_db :: sqlite_db where
  "sample_db = snd (sqlite_step id no_fault (OpCreateRun False (sample_run StateCreated)) empty_db)"

lemma sample_db_ok: "wf_db id sample_db \<and> find_run sample_db ''r'' = Some (sample_run StateCreated)"
proof -
  have "op_storable (OpCreateRun False (sample_run StateCreated))"
    by (simp add: sample_run_def run_storable_def storable_def int64_time_def int64_bounds)
  from step_agrees [OF refines_empty this, of id]
  have "refines id sample_db (snd (memory_step id (OpCreateRun False (sample_run StateCreated)) new_memory))"
    by (simp add: sample_db_def case_prod_beta)
  moreover have "map_of (ms_runs (snd (memory_step id (OpCreateRun False (sample_run StateCreated)) new_memory))) ''r''
      = Some (sample_run StateCreated)"
    by (simp add: create_run_def validate_run_id_def check_context_def new_memory_def set_run_def normalize_run_def
        normalize_time_def sample_run_def)
  ultimately show ?thesis by (simp add: refines_def)
qed

definition cancelled_env :: "(sqlite_world, unit) agent_env" where
  "cancelled_env = on_sqlite id
     \<lparr>e_cancelled = Pair True, e_now = Pair 0, e_decide = (\<lambda>_ _. Pair (Inl ''none'')), e_execute = (\<lambda>_. Pair (Inl ''none'')),
      e_baseline = (\<lambda>_. Pair (verdict_of_stage False)), e_current = (\<lambda>_. Pair (verdict_of_stage False)),
      e_final = (\<lambda>_. Pair (verdict_of_stage False)), e_update_if = sqlite_update_if id,
      e_update_detached = sqlite_update_detached id, e_append = sqlite_append id, e_encode = (\<lambda>_. ''{}''),
      e_policy_hash = (\<lambda>_. []), e_sha = id, e_feedback = \<lparr>fp_max_evidence = 0, fp_max_summary = 0\<rparr>\<rparr>"

definition sqlite_sample :: "(sqlite_world, unit) loop_state" where
  "sqlite_sample =
     \<lparr>ls_store = \<lparr>sw_db = sample_db, sw_clock = (\<lambda>_. 7), sw_cancelled = (\<lambda>_. True), sw_faults = (\<lambda>_. no_fault), sw_calls = 0\<rparr>,
      ls_world = (), ls_tracker = ls_tracker sample_state, ls_detector = None, ls_grants = None,
      ls_pending = (\<lambda>_. None), ls_baselines = [], ls_redactor = []\<rparr>"

lemma sqlite_sample_ok:
  "sqlite_inv id (ls_store sqlite_sample) \<and> find_run (sw_db (ls_store sqlite_sample)) (rid (sample_run StateCreated)) = Some (sample_run StateCreated)"
  using sample_db_ok by (simp add: sqlite_sample_def sqlite_inv_def int64_time_def int64_bounds sample_run_def)

theorem stored_run_agrees_witness:
  "\<exists>c'. find_run (sw_db (ls_store (snd (run_agent cancelled_env (sample_run StateCreated) sqlite_sample)))) ''r'' = Some c'"
proof -
  obtain out s' where r: "run_agent cancelled_env (sample_run StateCreated) sqlite_sample = (out, s')" by (rule prod.exhaust)
  then have "run_agent (on_sqlite id cancelled_env) (sample_run StateCreated) sqlite_sample = (out, s')"
    by (simp add: cancelled_env_def on_sqlite_def)
  from stored_run_agrees [OF sqlite_sample_ok [THEN conjunct1] sqlite_sample_ok [THEN conjunct2] refl this]
  obtain c' where "find_run (sw_db (ls_store s')) (rid (sample_run StateCreated)) = Some c'" by blast
  then show ?thesis unfolding r by (simp add: sample_run_def)
qed

end
