(* ===== verification/Agent_Approvals.thy ===== *)
theory Agent_Approvals
  imports Agent_Store Policy_Approval
begin

text \<open>
  Pending approvals: what \<^verbatim>\<open>ResumeApproval\<close> executes, that a grant is used once, what a rejection
  does, and what happens when an approved action fails.
\<close>

section \<open>What the loop never changes\<close>

locale run_frame = decision_frame +
  assumes frame_any_tracker: "f (s\<lparr>ls_tracker := t\<rparr>) = f s"
    and frame_any_world: "f (s\<lparr>ls_world := w\<rparr>) = f s"
begin

lemma on_protocol_error_frame: "f (snd (on_protocol_error env r prev err s)) = f s"
  by (cases "record_protocol_repair (ls_tracker s)"; cases "fst (record_protocol_repair (ls_tracker s))")
    (auto simp: on_protocol_error_def frame_any_tracker intro!: attempt_frame)

lemma iterate_frame: "f (snd (iterate env r prev s)) = f s"
  by (auto simp: iterate_def in_world_eq Let_def on_protocol_error_frame on_decision_frame frame_any_tracker
      frame_any_world split: sum.splits prod.splits)

lemma loop_frame: "f (snd (agent_loop env r prev s)) = f s"
proof (induction "left s" arbitrary: r prev s rule: less_induct)
  case less
  obtain t s' where t: "iterate env r prev s = (t, s')" by (rule prod.exhaust)
  then have s': "f s' = f s" using iterate_frame [of r prev s] by simp
  show ?case
  proof (cases t)
    case (Continue r' prev')
    then have "left s' < left s" using iterate_decreases t by blast
    then show ?thesis using less [of s'] Continue t s' by (simp add: agent_loop.simps [of env r])
  next
    case (Return x)
    then show ?thesis using t s' by (simp add: agent_loop.simps [of env r])
  qed
qed

lemma start_frame: "f (snd (start_run env r s)) = f s"
proof -
  have p: "f (snd (proceed tr k)) = n" if "f (snd tr) = n" and "\<And>r s. f s = n \<Longrightarrow> f (snd (k r s)) = n" for tr k n
    using that by (cases tr; cases "fst tr") (auto simp: proceed_def)
  have "f (snd (enter_preflight env r s)) = f s" "f (snd (enter_baseline env r s)) = f s"
    "f (snd (enter_deciding env r s)) = f s" for r s
    by (auto simp: enter_preflight_def enter_baseline_def enter_deciding_def in_world_eq frame_any_world
        intro!: attempt_frame)
  then show ?thesis by (auto simp: start_run_def in_world_eq frame_any_world intro!: p)
qed

lemma run_frame: "f (snd (run_with env r prev s)) = f s"
  using start_frame [of r s] loop_frame
  by (cases "start_run env r s"; cases "fst (start_run env r s)") (auto simp: run_with_def)

lemma go_on_frame: "f (snd tr) = n \<Longrightarrow> f (snd (go_on env tr)) = n"
  using run_frame by (cases tr; cases "fst tr") (auto simp: go_on_def)

lemma resumed_mutation_frame: "f (snd (resumed_mutation env i d r s)) = f s"
  by (cases "record_mutation (ls_tracker s)"; cases "fst (record_mutation (ls_tracker s))")
    (auto simp: resumed_mutation_def in_world_eq Let_def frame_any_tracker intro!: attempt_frame)

end

interpretation grants: run_frame env ls_grants for env :: "('s, 'w) agent_env"
  by unfold_locales auto

section \<open>A grant is used once\<close>

definition approved :: "run_id \<Rightarrow> digest \<Rightarrow> ('s, 'w) loop_state \<Rightarrow> pending_approval option" where
  \<comment> \<open>the pending action that this call may execute\<close>
  "approved i d s =
     (case (ls_pending s i, ls_grants s) of
        (Some p, Some g) \<Rightarrow> if pa_digest p = d \<and> granted g d then Some p else None
      | _ \<Rightarrow> None)"

lemma resume_refused:
  assumes "approved i d s = None"
  shows "resume_approval env i d s = (Inl ErrApprovalNotGranted, s)"
  using assms by (auto simp: approved_def resume_approval_def consume_def granted_def split: option.splits if_splits)

lemma resume_spends:
  assumes "approved i d s = Some p"
  shows "\<exists>g. ls_grants s = Some g \<and> granted g d \<and> ls_grants (snd (resume_approval env i d s)) = Some (g - {d})"
proof -
  obtain g where g: "ls_pending s i = Some p" "ls_grants s = Some g" "pa_digest p = d" "granted g d"
    using assms by (auto simp: approved_def split: option.splits if_splits)
  let ?s = "s\<lparr>ls_grants := Some (g - {d})\<rparr>"
  have c: "consume d g = (True, g - {d})" using g(4) by (simp add: consume_def granted_def)
  have "ls_grants (snd (attempt (transition_to env StateExecuting ''ApprovalGranted'' (pa_run p) ?s)
      (\<lambda>r s. let (res, s) = in_world (e_execute env (pa_action p)) s in
        case res of
          Inl err \<Rightarrow> (Return (Inl (ErrAction err)), s)
        | Inr _ \<Rightarrow>
            if is_mutating (pa_action p) then resumed_mutation env i d r s
            else (Continue r None, s\<lparr>ls_pending := (ls_pending s)(i := None)\<rparr>)))) = Some (g - {d})"
    by (rule grants.attempt_frame)
      (auto simp: in_world_eq grants.resumed_mutation_frame split: sum.splits)
  from grants.go_on_frame [OF this] have "ls_grants (snd (resume_approval env i d s)) = Some (g - {d})"
    using g c by (simp add: resume_approval_def)
  then show ?thesis using g by blast
qed

lemma spent_not_approved:
  assumes "ls_grants s = Some (g - {d})"
  shows "approved i d s = None"
  using assms by (auto simp: approved_def granted_def split: option.splits)

lemma resume_within_policy:
  assumes "approved i d s = Some p"
  shows "set (executed (trace_of (snd (resume_approval (traced env) i d (with_trace [] s)))))
    \<subseteq> insert (pa_action p) (allowed_actions env (pa_run p) (ls_baselines s))"
proof -
  let ?s = "with_trace [] s" and ?I = "within_policy env (pa_run p) (ls_baselines s) {pa_action p}"
  have p: "ls_pending ?s i = Some p" using assms by (auto simp: approved_def split: option.splits if_splits)
  have h: "holds_in ?I (\<lambda>_ _. True) (ls_baselines s) (pa_run p) ?s" by (simp add: holds_in_def within_policy_def)
  have k: "?I r st w'" if "?I r st w" and "e_execute (traced env) (pa_action p) w = (x, w')" for r st w x w'
    using that by (cases w) (auto simp: within_policy_def seen_eqs)
  have "result_ok ?I (\<lambda>_ _. True) (ls_baselines s) (resume_approval (traced env) i d ?s)"
    by (rule policy_logic.resume_ok [OF p h k])
  then show ?thesis
    by (auto simp: result_ok_def holds_in_def within_policy_def trace_of_def)
qed

text \<open>C5. An approval is used once and for its own action: resuming executes something only when an
  action is pending for the run under exactly this digest and the digest is granted (otherwise it
  is refused and nothing changes); then the pending action and actions the policy allows outright
  are all that is executed, and from then on the same digest is refused for every run, unless it
  is granted anew.\<close>

theorem approval_is_used_once:
  assumes "resume_approval (traced env) i d (with_trace [] s) = (out, s')"
  shows "case approved i d s of
        None \<Rightarrow> out = Inl ErrApprovalNotGranted \<and> s' = with_trace [] s
      | Some p \<Rightarrow> set (executed (trace_of s')) \<subseteq> insert (pa_action p) (allowed_actions env (pa_run p) (ls_baselines s))
          \<and> (\<forall>env' j. resume_approval env' j d s' = (Inl ErrApprovalNotGranted, s'))"
proof -
  have same: "approved i d (with_trace [] s) = approved i d s" by (simp add: approved_def)
  show ?thesis
  proof (cases "approved i d s")
    case None
    then show ?thesis using resume_refused [of i d "with_trace [] s" "traced env"] same assms by simp
  next
    case (Some p)
    then have "approved i d (with_trace [] s) = Some p" using same by simp
    from resume_spends [OF this, of "traced env"] obtain g where "ls_grants s' = Some (g - {d})"
      using assms by auto
    from resume_refused [OF spent_not_approved [OF this]] show ?thesis
      using resume_within_policy [OF Some, of env] assms Some by simp
  qed
qed

definition pending_state :: "(unit, unit) loop_state" where
  "pending_state = sample_state\<lparr>ls_grants := Some {''d''},
     ls_pending := (\<lambda>_. Some \<lparr>pa_run = (fresh_run ProfileSupervised)\<lparr>state := StateAwaitingApproval\<rparr>,
       pa_action = \<lparr>kind = ''create_file'', args = Some (JObj [])\<rparr>, pa_digest = ''d''\<rparr>)\<rparr>"

theorem approval_is_used_once_witness:
  "resume_approval sample_env ''x'' ''d'' (erase (snd (resume_approval (traced sample_env) ''r'' ''d'' (with_trace [] pending_state))))
   = (Inl ErrApprovalNotGranted, erase (snd (resume_approval (traced sample_env) ''r'' ''d'' (with_trace [] pending_state))))"
proof -
  obtain out s' where r: "resume_approval (traced sample_env) ''r'' ''d'' (with_trace [] pending_state) = (out, s')"
    by (rule prod.exhaust)
  have "approved ''r'' ''d'' pending_state \<noteq> None" by (simp add: approved_def pending_state_def granted_def)
  then have "resume_approval (traced sample_env) ''x'' ''d'' s' = (Inl ErrApprovalNotGranted, s')"
    using approval_is_used_once [OF r] by (auto split: option.splits)
  then show ?thesis using forget_resume [of sample_env "''x''" "''d''" s'] by (simp add: r)
qed

section \<open>When an approved action fails\<close>

text \<open>An action that fails inside the loop is fed back to the provider; an approved one is not: the call
  returns the error with the run left in \<^verbatim>\<open>EXECUTING\<close>, the grant spent and the entry still pending.\<close>

lemma failed_approval_strands_run:
  assumes "approved i d s = Some p"
    and "transition_to env StateExecuting ''ApprovalGranted'' (pa_run p) (s\<lparr>ls_grants := Some (the (ls_grants s) - {d})\<rparr>) = (Inr r, s1)"
    and "e_execute env (pa_action p) (ls_world s1) = (Inl err, w)"
  shows "resume_approval env i d s = (Inl (ErrAction err), s1\<lparr>ls_world := w\<rparr>)
    \<and> state r = StateExecuting \<and> ls_pending s1 i = Some p"
proof -
  obtain g where g: "ls_pending s i = Some p" "ls_grants s = Some g" "pa_digest p = d" "granted g d"
    using assms(1) by (auto simp: approved_def split: option.splits if_splits)
  have c: "consume d g = (True, g - {d})" using g(4) by (simp add: consume_def granted_def)
  obtain st where s1: "s1 = s\<lparr>ls_grants := Some (g - {d}), ls_store := st\<rparr>"
    using assms(2) g(2) transition_frame [of env StateExecuting "''ApprovalGranted''" PEmpty "pa_run p"]
    by (fastforce simp: transition_to_def)
  have "state r = StateExecuting"
    using assms(2) by (auto simp: transition_to_def transition_payload_def simp del: transition_Inr split: sum.splits prod.splits)
  then show ?thesis
    using assms(2,3) g c s1 by (simp add: resume_approval_def attempt_def in_world_eq go_on_def)
qed

end
