(* ===== verification/Preflight.thy ===== *)
theory Preflight
  imports Workspace Config Credential_Store Go_Json Store_Log
begin

text \<open>
  Package \<^verbatim>\<open>internal/app\<close>, \<^verbatim>\<open>preflight.go\<close>: what is checked before a run is created,
  and the captured baseline of the repository. The system is a record of functions: which
  executables are found, the output of the Git program, links and files of the repository, the
  credential service and the writability of the data directory; further parameters are the TOML
  decoder and the duration parser of \<^verbatim>\<open>Config\<close> and SHA-256 in hexadecimal. Paths are those of
  the slash-separated platforms.
\<close>

section \<open>Reports\<close>

datatype severity = SeverityInfo | SeverityWarning | SeverityError

record finding =
  fd_code :: string
  fd_severity :: severity
  fd_message :: string

record preflight_report =
  pf_ok :: bool
  pf_findings :: "finding list"
  pf_repo_root :: string
  pf_baseline_commit :: string
  pf_baseline_diff_hash :: string

text \<open>The codes.\<close>

definition code_git_missing :: string where "code_git_missing = ''GIT_MISSING''"
definition code_not_git_repository :: string where "code_not_git_repository = ''NOT_GIT_REPOSITORY''"
definition code_baseline_unavailable :: string where "code_baseline_unavailable = ''BASELINE_UNAVAILABLE''"
definition code_baseline_too_large :: string where "code_baseline_too_large = ''BASELINE_TOO_LARGE''"
definition code_invalid_config :: string where "code_invalid_config = ''INVALID_CONFIG''"
definition code_executable_missing :: string where "code_executable_missing = ''EXECUTABLE_MISSING''"
definition code_invalid_endpoint :: string where "code_invalid_endpoint = ''INVALID_ENDPOINT''"
definition code_endpoint_confirmation :: string where "code_endpoint_confirmation = ''CUSTOM_ENDPOINT_CONFIRMATION_REQUIRED''"
definition code_credential_missing :: string where "code_credential_missing = ''CREDENTIAL_NOT_CONFIGURED''"
definition code_credential_store :: string where "code_credential_store = ''CREDENTIAL_STORE_UNAVAILABLE''"
definition code_credential_mismatch :: string where "code_credential_mismatch = ''CREDENTIAL_ENDPOINT_MISMATCH''"
definition code_invalid_profile :: string where "code_invalid_profile = ''INVALID_PROFILE''"
definition code_dirty_worktree :: string where "code_dirty_worktree = ''DIRTY_WORKTREE''"
definition code_dirty_approval :: string where "code_dirty_approval = ''DIRTY_WORKTREE_APPROVAL_REQUIRED''"
definition code_dirty_read_only :: string where "code_dirty_read_only = ''DIRTY_WORKTREE_READ_ONLY''"
definition code_data_directory :: string where "code_data_directory = ''DATA_DIRECTORY_UNAVAILABLE''"

record create_run_request =
  rq_repo_root :: string
  rq_task :: string
  rq_provider :: string
  rq_model :: string
  rq_endpoint :: string
  rq_confirm_custom_endpoint :: bool
  rq_profile :: permission_profile
  rq_config_path :: string

section \<open>The system\<close>

text \<open>One run of Git: whether it starts, the bytes read from it (as much as is asked for), and
  whether reading or waiting fails.\<close>

record git_process =
  gp_starts :: bool
  gp_output :: string
  gp_read_fails :: bool
  gp_wait_fails :: bool

text \<open>An untracked path: not a readable regular file that stays the same file, or its contents.\<close>

datatype untracked_file = UntrackedError | UntrackedContent string bool \<comment> \<open>whether copying or closing fails\<close>

record system =
  sy_found :: "string \<Rightarrow> bool" \<comment> \<open>\<^verbatim>\<open>exec.LookPath\<close>\<close>
  sy_resolve_root :: "string \<Rightarrow> string option" \<comment> \<open>\<^verbatim>\<open>workspace.ResolveRoot\<close>\<close>
  sy_git :: "string \<Rightarrow> string list \<Rightarrow> git_process" \<comment> \<open>directory and arguments\<close>
  sy_links :: "apath \<Rightarrow> apath option" \<comment> \<open>\<^verbatim>\<open>EvalSymlinks\<close>\<close>
  sy_untracked :: "apath \<Rightarrow> untracked_file"
  sy_read :: "apath \<Rightarrow> string option"
  sy_goos :: string
  sy_sha :: "string \<Rightarrow> string"
  sy_decode :: "harness_config \<Rightarrow> string \<Rightarrow> (harness_config \<times> string list) option"
  sy_duration :: "string \<Rightarrow> duration option"
  sy_is_ipv6 :: "string \<Rightarrow> bool"
  sy_loopback :: "string \<Rightarrow> bool" \<comment> \<open>whether the text is a loopback IP address\<close>
  sy_status :: "(cred_ref \<Rightarrow> (cred_error, cred_status) result) option" \<comment> \<open>the credential service, if there is one\<close>
  sy_writable :: "string \<Rightarrow> bool" \<comment> \<open>a file can be created and removed there\<close>
  sy_data_dir :: string
  sy_max_baseline :: int

section \<open>Git\<close>

datatype baseline_error = ErrBaselineTooLarge | ErrBaseline

definition git_command :: "system \<Rightarrow> string \<Rightarrow> string list \<Rightarrow> string option" where
  "git_command sy root as =
     (let p = sy_git sy root as in
      if \<not> gp_starts p \<or> gp_read_fails p \<or> gp_wait_fails p then None else Some (trim_space (gp_output p)))"

definition git_command_limited :: "system \<Rightarrow> string \<Rightarrow> int \<Rightarrow> string list \<Rightarrow> (baseline_error, string) result" where
  "git_command_limited sy root limit as =
     (let p = sy_git sy root as;
          output = (if limit = max_int64 then [] else gp_output p) \<comment> \<open>there \<^verbatim>\<open>maxBytes+1\<close> wraps around: nothing is read\<close>
      in
      if limit < 0 then Inl ErrBaselineTooLarge
      else if \<not> gp_starts p then Inl ErrBaseline
      else if limit < int (length output) then Inl ErrBaselineTooLarge
      else if gp_read_fails p \<or> gp_wait_fails p then Inl ErrBaseline
      else Inr output)"

definition canonical_git_root :: "system \<Rightarrow> string \<Rightarrow> string option" where
  "canonical_git_root sy requested =
     (if trim_space requested = [] then None
      else
        (case sy_resolve_root sy requested of
           None \<Rightarrow> None
         | Some resolved \<Rightarrow>
             (case git_command sy resolved [''rev-parse'', ''--show-toplevel''] of
                None \<Rightarrow> None
              | Some output \<Rightarrow>
                  if output = [] then None
                  else map_option path_clean (sy_resolve_root sy (path_clean output)))))"

definition nul :: char where
  "nul = CHR 0x00"

text \<open>The loop over the untracked paths: the bytes that go into the hash, within the rest of the
  limit.\<close>

fun snapshot_untracked :: "system \<Rightarrow> string \<Rightarrow> int \<Rightarrow> string list \<Rightarrow> (baseline_error, string) result" where
  "snapshot_untracked sy root remaining [] = Inr []"
| "snapshot_untracked sy root remaining (path # paths) =
     (if path = [] then snapshot_untracked sy root remaining paths
      else
        (case resolve (sy_links sy) (path_elems root) (path_clean path) of
           Inl e \<Rightarrow> Inl ErrBaseline
         | Inr candidate \<Rightarrow>
             (case sy_untracked sy candidate of
                UntrackedError \<Rightarrow> Inl ErrBaseline
              | UntrackedContent content fails \<Rightarrow>
                  if fails then Inl ErrBaseline
                  else if remaining < int (length content) then Inl ErrBaselineTooLarge
                  else
                    (case snapshot_untracked sy root (remaining - int (length content)) paths of
                       Inl e \<Rightarrow> Inl e
                     | Inr rest \<Rightarrow> Inr (path @ [nul] @ content @ [nul] @ rest)))))"

definition status_args :: "string list" where
  "status_args = [''status'', ''--porcelain=v1'', ''--untracked-files=all'']"

definition diff_args :: "string list" where
  "diff_args = [''diff'', ''--no-ext-diff'', ''--binary'', ''HEAD'', ''--'']"

definition untracked_args :: "string list" where
  "untracked_args = [''ls-files'', ''--others'', ''--exclude-standard'', ''-z'']"

definition git_baseline :: "system \<Rightarrow> string \<Rightarrow> int \<Rightarrow> (baseline_error, string \<times> string \<times> string) result" where
  "git_baseline sy root max_bytes =
     (if max_bytes \<le> 0 then Inl ErrBaselineTooLarge
      else
        (case git_command sy root [''rev-parse'', ''HEAD''] of
           None \<Rightarrow> Inl ErrBaseline
         | Some commit \<Rightarrow>
             (case git_command_limited sy root max_bytes status_args of
                Inl e \<Rightarrow> Inl e
              | Inr status \<Rightarrow>
                  (let left1 = max_bytes - int (length status) in
                   case git_command_limited sy root left1 diff_args of
                     Inl e \<Rightarrow> Inl e
                   | Inr diff \<Rightarrow>
                       (let left2 = left1 - int (length diff) in
                        case git_command_limited sy root left2 untracked_args of
                          Inl e \<Rightarrow> Inl e
                        | Inr paths \<Rightarrow>
                            (case snapshot_untracked sy root (left2 - int (length paths)) (split_on nul paths) of
                               Inl e \<Rightarrow> Inl e
                             | Inr files \<Rightarrow>
                                 Inr (commit, trim_space status, sy_sha sy (status @ [nul] @ diff @ [nul] @ files))))))))"

section \<open>Configuration, endpoint and data directory\<close>

definition load_project_config :: "system \<Rightarrow> string \<Rightarrow> string \<Rightarrow> harness_config option" where
  "load_project_config sy config_path root =
     (let path =
        (if config_path = [] then Some (path_elems root @ [''.ai4se-harness.toml''])
         else if has_prefix config_path ''/'' then None
         else (case resolve (sy_links sy) (path_elems root) config_path of Inl e \<Rightarrow> None | Inr p \<Rightarrow> Some p))
      in case Option.bind path (sy_read sy) of
           None \<Rightarrow> None
         | Some content \<Rightarrow> (case load_config (sy_decode sy) (sy_duration sy) content of Inl e \<Rightarrow> None | Inr cfg \<Rightarrow> Some cfg))"

definition safe_credential_endpoint :: "system \<Rightarrow> url \<Rightarrow> bool" where
  "safe_credential_endpoint sy u \<longleftrightarrow> u_scheme u = ''https'' \<or> (u_scheme u = ''http'' \<and> sy_loopback sy (url_hostname u))"

definition credential_ref :: "system \<Rightarrow> string \<Rightarrow> string \<Rightarrow> cred_ref option" where
  "credential_ref sy provider endpoint =
     (case parse_request_uri (sy_is_ipv6 sy) endpoint of
        None \<Rightarrow> None
      | Some u \<Rightarrow>
          if \<not> safe_credential_endpoint sy u \<or> u_host u = [] \<or> u_user u \<or> u_fragment u \<noteq> [] \<or> u_raw_query u \<noteq> [] then None
          else Some \<lparr>cr_provider = to_lower (trim_space provider), cr_host = to_lower (trim_suffix (u_host u) ''.'')\<rparr>)"

definition known_credential_endpoint :: "string \<Rightarrow> string \<Rightarrow> bool" where
  "known_credential_endpoint provider host \<longleftrightarrow>
     (let p = to_lower (trim_space provider); h = to_lower (trim_suffix host ''.'') in
      (p = ''openai'' \<and> h = ''api.openai.com'') \<or> (p = ''anthropic'' \<and> h = ''api.anthropic.com''))"

definition same_credential_ref :: "cred_ref \<Rightarrow> cred_ref \<Rightarrow> bool" where
  "same_credential_ref a b \<longleftrightarrow> fold_key (cr_provider a) = fold_key (cr_provider b)
     \<and> fold_key (trim_suffix (cr_host a) ''.'') = fold_key (trim_suffix (cr_host b) ''.'')"

definition probe_writable :: "system \<Rightarrow> string \<Rightarrow> bool" where
  "probe_writable sy path \<longleftrightarrow> trim_space path \<noteq> [] \<and> sy_writable sy path"

section \<open>The check\<close>

definition err :: "string \<Rightarrow> string \<Rightarrow> finding" where
  "err c message = \<lparr>fd_code = c, fd_severity = SeverityError, fd_message = message\<rparr>"

definition valid_profile :: "permission_profile \<Rightarrow> bool" where
  "valid_profile p \<longleftrightarrow> p = ProfileReview \<or> p = ProfileSupervised \<or> p = ProfileWorkspaceAuto"

definition check_worktree :: "permission_profile \<Rightarrow> string \<Rightarrow> finding list" where
  "check_worktree p status =
     (if status = [] then []
      else
        (case p of
           ProfileWorkspaceAuto \<Rightarrow> [err code_dirty_worktree ''workspace-auto requires a clean worktree'']
         | ProfileSupervised \<Rightarrow>
             [\<lparr>fd_code = code_dirty_approval, fd_severity = SeverityWarning,
               fd_message = ''dirty supervised workspace requires explicit approval''\<rparr>]
         | ProfileReview \<Rightarrow>
             [\<lparr>fd_code = code_dirty_read_only, fd_severity = SeverityInfo,
               fd_message = ''dirty workspace will be reviewed without mutation''\<rparr>]
         | ProfileOther s \<Rightarrow> []))"

definition check_stage :: "system \<Rightarrow> string \<Rightarrow> validation_stage \<Rightarrow> finding list" where
  "check_stage sy root st =
     (case resolve_stage (sy_duration sy) st (sy_goos sy) of
        None \<Rightarrow> [err code_invalid_config ''validation stage cannot be resolved'']
      | Some c \<Rightarrow>
          (case resolve (sy_links sy) (path_elems root) (cs_working_directory c) of
             Inl e \<Rightarrow> [err code_invalid_config ''validation working directory is outside the repository'']
           | Inr p \<Rightarrow>
               if \<not> sy_found sy (cs_executable c) \<and> cs_required c
               then [err code_executable_missing ''required validation executable is not available''] else []))"

definition check_config :: "system \<Rightarrow> string \<Rightarrow> string \<Rightarrow> finding list \<times> harness_config option" where
  "check_config sy config_path root =
     (case load_project_config sy config_path root of
        None \<Rightarrow> ([err code_invalid_config ''project configuration is invalid''], None)
      | Some cfg \<Rightarrow> (concat (map (check_stage sy root) (cfg_validation cfg)), Some cfg))"

definition check_baseline :: "system \<Rightarrow> permission_profile \<Rightarrow> string \<Rightarrow> finding list \<times> string \<times> string" where
  "check_baseline sy p root =
     (case git_baseline sy root (sy_max_baseline sy) of
        Inl ErrBaselineTooLarge \<Rightarrow>
          ([err code_baseline_too_large ''repository baseline exceeds the configured capture limit''], [], [])
      | Inl ErrBaseline \<Rightarrow>
          ([err code_baseline_unavailable ''repository baseline could not be captured''], [], [])
      | Inr (commit, status, hash) \<Rightarrow> (check_worktree p status, commit, hash))"

definition check_credential :: "system \<Rightarrow> create_run_request \<Rightarrow> finding list" where
  "check_credential sy rq =
     (case credential_ref sy (rq_provider rq) (rq_endpoint rq) of
        None \<Rightarrow> [err code_invalid_endpoint ''provider endpoint is invalid'']
      | Some ref \<Rightarrow>
          if \<not> known_credential_endpoint (rq_provider rq) (cr_host ref) \<and> \<not> rq_confirm_custom_endpoint rq
          then [err code_endpoint_confirmation ''custom provider endpoint requires explicit confirmation'']
          else
            (case sy_status sy of
               None \<Rightarrow> [err code_credential_store ''credential storage is unavailable'']
             | Some status \<Rightarrow>
                 (case status ref of
                    Inl e \<Rightarrow> [err code_credential_store ''credential storage is unavailable'']
                  | Inr st \<Rightarrow>
                      if \<not> st_configured st
                      then [err code_credential_missing ''credential is not configured for this provider endpoint'']
                      else if \<not> same_credential_ref (st_ref st) ref
                      then [err code_credential_mismatch ''credential is bound to a different provider endpoint''] else [])))"

definition check_repository ::
    "system \<Rightarrow> create_run_request \<Rightarrow> finding list \<times> string \<times> string \<times> string \<times> harness_config option" where
  "check_repository sy rq =
     (if \<not> sy_found sy ''git'' then ([err code_git_missing ''Git executable is not available''], [], [], [], None)
      else
        (case canonical_git_root sy (rq_repo_root rq) of
           None \<Rightarrow> ([err code_not_git_repository ''path is not a Git worktree''], [], [], [], None)
         | Some root \<Rightarrow>
             (let (f1, commit, hash) = check_baseline sy (rq_profile rq) root;
                  (f2, cfg) = check_config sy (rq_config_path rq) root
              in (f1 @ f2, root, commit, hash, cfg))))"

text \<open>The result has the configuration too; without one it is the zero value.\<close>

definition preflight :: "system \<Rightarrow> create_run_request \<Rightarrow> preflight_report \<times> harness_config option" where
  "preflight sy rq =
     (let f0 = (if \<not> valid_profile (rq_profile rq) then [err code_invalid_profile ''permission profile is not recognized''] else []);
          (f1, root, commit, hash, cfg) = check_repository sy rq;
          f2 = check_credential sy rq;
          f3 = (if \<not> probe_writable sy (sy_data_dir sy)
                then [err code_data_directory ''application data directory is not writable''] else []);
          findings = f0 @ f1 @ f2 @ f3
      in (\<lparr>pf_ok = (\<forall>f \<in> set findings. fd_severity f \<noteq> SeverityError), pf_findings = findings, pf_repo_root = root,
           pf_baseline_commit = commit, pf_baseline_diff_hash = hash\<rparr>, cfg))"

definition has_finding :: "preflight_report \<Rightarrow> string \<Rightarrow> bool" where
  "has_finding report c \<longleftrightarrow> (\<exists>f \<in> set (pf_findings report). fd_code f = c)"

section \<open>When a request is accepted\<close>

abbreviation no_error :: "finding list \<Rightarrow> bool" where
  "no_error fs \<equiv> \<forall>f \<in> set fs. fd_severity f \<noteq> SeverityError"

lemma err_severity [simp]: "fd_severity (err c m) = SeverityError" "fd_code (err c m) = c"
  by (simp_all add: err_def)

lemma worktree_no_error: "no_error (check_worktree p status) \<longleftrightarrow> status = [] \<or> p \<noteq> ProfileWorkspaceAuto"
  by (cases p) (auto simp: check_worktree_def)

definition stage_runnable :: "system \<Rightarrow> string \<Rightarrow> validation_stage \<Rightarrow> bool" where
  "stage_runnable sy root st \<longleftrightarrow>
     (\<exists>c p. resolve_stage (sy_duration sy) st (sy_goos sy) = Some c
        \<and> resolve (sy_links sy) (path_elems root) (cs_working_directory c) = Inr p
        \<and> (sy_found sy (cs_executable c) \<or> \<not> cs_required c))"

lemma stage_no_error: "no_error (check_stage sy root st) \<longleftrightarrow> stage_runnable sy root st"
  by (auto simp: check_stage_def stage_runnable_def split: option.splits sum.splits)

lemma config_no_error:
  "no_error (fst (check_config sy path root)) \<longleftrightarrow>
     (\<exists>cfg. load_project_config sy path root = Some cfg \<and> list_all (stage_runnable sy root) (cfg_validation cfg))"
  by (auto simp: check_config_def list_all_iff stage_no_error [symmetric] split: option.splits)

lemma baseline_no_error:
  "no_error (fst (check_baseline sy p root)) \<longleftrightarrow>
     (\<exists>commit status hash. git_baseline sy root (sy_max_baseline sy) = Inr (commit, status, hash)
        \<and> (status = [] \<or> p \<noteq> ProfileWorkspaceAuto))"
  by (auto simp: check_baseline_def worktree_no_error split: sum.splits baseline_error.splits)

definition credential_ready :: "system \<Rightarrow> create_run_request \<Rightarrow> bool" where
  "credential_ready sy rq \<longleftrightarrow>
     (\<exists>ref status st. credential_ref sy (rq_provider rq) (rq_endpoint rq) = Some ref
        \<and> (known_credential_endpoint (rq_provider rq) (cr_host ref) \<or> rq_confirm_custom_endpoint rq)
        \<and> sy_status sy = Some status \<and> status ref = Inr st \<and> st_configured st \<and> same_credential_ref (st_ref st) ref)"

lemma credential_no_error: "no_error (check_credential sy rq) \<longleftrightarrow> credential_ready sy rq"
  by (auto simp: check_credential_def credential_ready_def split: option.splits sum.splits)

lemma repository_no_error:
  "no_error (fst (check_repository sy rq)) \<longleftrightarrow>
     sy_found sy ''git'' \<and> (\<exists>root. canonical_git_root sy (rq_repo_root rq) = Some root
       \<and> no_error (fst (check_baseline sy (rq_profile rq) root)) \<and> no_error (fst (check_config sy (rq_config_path rq) root)))"
  by (auto simp: check_repository_def Let_def ball_Un split: option.splits prod.splits)

text \<open>C22. Preflight accepts a request exactly when the profile is one of the three; Git is found and the
  path lies in a worktree whose baseline could be captured, clean if changes are made without
  approval; the configuration loads and each stage resolves to a working directory inside the
  repository and, if required, to an executable that is found; the endpoint is well formed, secure,
  known or confirmed, and a credential for that very provider and host is configured; and the data
  directory is writable.\<close>

theorem preflight_accepts:
  "pf_ok (fst (preflight sy rq)) \<longleftrightarrow>
     rq_profile rq \<in> {ProfileReview, ProfileSupervised, ProfileWorkspaceAuto} \<and> sy_found sy ''git''
     \<and> (\<exists>root commit status hash cfg. canonical_git_root sy (rq_repo_root rq) = Some root
         \<and> git_baseline sy root (sy_max_baseline sy) = Inr (commit, status, hash)
         \<and> (status = [] \<or> rq_profile rq \<noteq> ProfileWorkspaceAuto)
         \<and> load_project_config sy (rq_config_path rq) root = Some cfg
         \<and> list_all (stage_runnable sy root) (cfg_validation cfg))
     \<and> credential_ready sy rq \<and> probe_writable sy (sy_data_dir sy)"
proof -
  obtain f1 root commit hash cfg where r: "check_repository sy rq = (f1, root, commit, hash, cfg)"
    by (metis prod.exhaust)
  have "pf_ok (fst (preflight sy rq)) \<longleftrightarrow> valid_profile (rq_profile rq) \<and> no_error f1 \<and> no_error (check_credential sy rq)
      \<and> probe_writable sy (sy_data_dir sy)"
    by (cases "valid_profile (rq_profile rq)"; cases "probe_writable sy (sy_data_dir sy)")
      (simp_all add: preflight_def r Let_def ball_Un)
  also have "no_error f1 \<longleftrightarrow> no_error (fst (check_repository sy rq))" by (simp add: r)
  finally show ?thesis
    unfolding repository_no_error credential_no_error baseline_no_error config_no_error valid_profile_def by blast
qed

text \<open>A sample: a repository whose worktree is clean or not, with a configuration of no stages.\<close>

definition sample_git :: "string \<Rightarrow> string \<Rightarrow> string list \<Rightarrow> git_process" where
  "sample_git status root as =
     \<lparr>gp_starts = True,
      gp_output = (if as = [''rev-parse'', ''--show-toplevel''] then ''/repo'' else if as = [''rev-parse'', ''HEAD''] then ''c0''
                   else if as = status_args then status else []),
      gp_read_fails = False, gp_wait_fails = False\<rparr>"

definition sample_system :: "string \<Rightarrow> system" where
  "sample_system status =
     \<lparr>sy_found = (\<lambda>_. True), sy_resolve_root = Some, sy_git = sample_git status, sy_links = Some,
      sy_untracked = (\<lambda>_. UntrackedError), sy_read = (\<lambda>_. Some []), sy_goos = ''linux'', sy_sha = id,
      sy_decode = (\<lambda>_ _. Some (default_config\<lparr>cfg_version := 1, cfg_default_profile := ''review''\<rparr>, [])),
      sy_duration = (\<lambda>_. Some 1), sy_is_ipv6 = (\<lambda>_. False), sy_loopback = (\<lambda>_. False),
      sy_status = Some (\<lambda>ref. Inr \<lparr>st_ref = ref, st_configured = True, st_backend = [], st_updated_at = 0\<rparr>),
      sy_writable = (\<lambda>_. True), sy_data_dir = ''/data'', sy_max_baseline = 1000\<rparr>"

definition sample_request :: "permission_profile \<Rightarrow> create_run_request" where
  "sample_request p =
     \<lparr>rq_repo_root = ''/repo'', rq_task = ''t'', rq_provider = ''openai'', rq_model = ''m'',
      rq_endpoint = ''https://api.openai.com'', rq_confirm_custom_endpoint = False, rq_profile = p, rq_config_path = []\<rparr>"

definition sample_config :: harness_config where
  "sample_config = default_config\<lparr>cfg_version := 1, cfg_default_profile := ''review''\<rparr>"

definition sample_report :: preflight_report where
  "sample_report = \<lparr>pf_ok = True, pf_findings = [], pf_repo_root = ''/repo'', pf_baseline_commit = ''c0'',
     pf_baseline_diff_hash = [nul, nul]\<rparr>"

lemma sample_preflight:
  "preflight (sample_system []) (sample_request ProfileReview) = (sample_report, Some sample_config)"
  by code_simp

theorem preflight_accepts_witness:
  "credential_ready (sample_system []) (sample_request ProfileReview)
   \<and> git_baseline (sample_system []) ''/repo'' 1000 = Inr (''c0'', [], [nul, nul])"
proof -
  have root: "git_baseline (sample_system []) ''/repo'' 1000 = Inr (''c0'', [], [nul, nul])" by code_simp
  have "pf_ok (fst (preflight (sample_system []) (sample_request ProfileReview)))"
    by (simp add: sample_preflight sample_report_def)
  then show ?thesis using preflight_accepts [of "sample_system []" "sample_request ProfileReview"] root by blast
qed

section \<open>What the baseline hash leaves open\<close>

text \<open>The contents of the untracked files are hashed with a zero byte after each path and each content
  and no lengths. Files may contain zero bytes, so two different pairs of contents under the same
  two paths (and the same status, diff and list of paths) are hashed alike.\<close>

lemma untracked_contents_collide:
  assumes "resolve (sy_links sy) (path_elems root) ''a'' = Inr p" and "resolve (sy_links sy) (path_elems root) ''b'' = Inr q" and "p \<noteq> q"
    and "sy_untracked sy p = UntrackedContent ''x'' False"
    and "sy_untracked sy q = UntrackedContent (''y'' @ [nul] @ ''b'' @ [nul] @ ''z'') False"
    and "7 \<le> n"
  shows "snapshot_untracked sy root n [''a'', ''b'']
    = snapshot_untracked (sy\<lparr>sy_untracked := (sy_untracked sy)
        (p := UntrackedContent (''x'' @ [nul] @ ''b'' @ [nul] @ ''y'') False, q := UntrackedContent ''z'' False)\<rparr>) root n [''a'', ''b'']"
proof -
  have c: "path_clean ''a'' = ''a''" "path_clean ''b'' = ''b''" by code_simp+
  show ?thesis using assms by (simp add: c)
qed

end
