(* ===== verification/App_Service.thy ===== *)
theory App_Service
  imports Preflight Repo_Lock Agent_Loop "HOL-Library.State_Monad"
begin

text \<open>
  Package \<^verbatim>\<open>internal/app\<close>, \<^verbatim>\<open>service.go\<close>: the application service, which creates runs, starts
  their loops in the background, answers approvals, cancels, and recovers at start-up. Its state is
  shared by concurrent calls; a call is a sequence of sections, each of which is one store
  operation, one loop call or one access to the maps under their mutex. Before a section runs,
  whatever else happens meanwhile is taken from a schedule: a list of state changes. (The second
  mutex, \<^verbatim>\<open>lifecycleMu\<close>, only excludes some of the interleavings that the schedule allows.)
  Parameters are the store, the loop controller, the system of \<^verbatim>\<open>Preflight\<close>, the environment of
  the leases and their faults, the clock, and how payloads and the digest are encoded.
\<close>

section \<open>State\<close>

record run_input =
  in_request :: create_run_request
  in_report :: preflight_report
  in_config :: "harness_config option" \<comment> \<open>\<^const>\<open>None\<close> is the zero value\<close>

record preflight_approval =
  pv_digest :: digest
  pv_input :: run_input

record run_setup =
  su_run :: run
  su_input :: run_input

text \<open>The store (with its world), the loop sessions, the leases, the maps, and the contexts of the
  background runs by number: which are cancelled, and which calls of \<^verbatim>\<open>start\<close> are yet to run.\<close>

record ('s, 'l) app =
  ap_store :: 's
  ap_loops :: 'l
  ap_leases :: "repo_locks \<times> lock_dir"
  ap_inputs :: "run_id \<Rightarrow> run_input option"
  ap_pending :: "run_id \<Rightarrow> preflight_approval option"
  ap_stopping :: "run_id \<Rightarrow> bool"
  ap_cancels :: "run_id \<Rightarrow> nat option"
  ap_contexts :: nat
  ap_cancelled :: "nat list"
  ap_background :: "(nat \<times> run) list"

datatype control_error =
    ErrLoopSessionNotFound | ErrLoopSessionBusy | ErrContextCanceled
  | ErrController string
  | ErrLoop loop_error

datatype app_error =
    ErrPreflight preflight_report
  | ErrRunTerminal | ErrApprovalStale
  | ErrLease lock_error
  | ErrAppStore store_error
  | ErrAppTransition domain_error
  | ErrControl control_error
  | ErrJoined "app_error list" \<comment> \<open>\<^verbatim>\<open>errors.Join\<close> of at least two\<close>
  | ErrAttempts \<comment> \<open>the retry loop has not come to an end; \<^verbatim>\<open>App_Correct\<close> shows that it always does\<close>

text \<open>Payloads of the events.\<close>

datatype app_payload =
    APEmpty
  | APCreated string string string string string string
      \<comment> \<open>provider, model, endpoint, configuration path, baseline commit and diff hash\<close>
  | APApproval digest string string
  | APStopped string

section \<open>Sections and what happens between them\<close>

type_synonym ('w, 'a) activity = "(('w \<Rightarrow> 'w) list \<times> 'w, 'a) state"

definition meanwhile :: "('w \<Rightarrow> 'w) list \<Rightarrow> 'w \<Rightarrow> 'w" where
  "meanwhile others w = (case others of [] \<Rightarrow> w | change # _ \<Rightarrow> change w)"

definition atomically :: "('w \<Rightarrow> 'a \<times> 'w) \<Rightarrow> ('w, 'a) activity" where
  "atomically f = State (\<lambda>(others, w). let (x, w') = f (meanwhile others w) in (x, tl others, w'))"

definition inspect :: "('w \<Rightarrow> 'a) \<Rightarrow> ('w, 'a) activity" where
  "inspect f = atomically (\<lambda>w. (f w, w))"

definition modify :: "('w \<Rightarrow> 'w) \<Rightarrow> ('w, unit) activity" where
  "modify f = atomically (\<lambda>w. ((), f w))"

text \<open>A call that may fail, and an early return.\<close>

definition if_ok ::
    "('w, ('e, 'a) result) activity \<Rightarrow> ('a \<Rightarrow> ('w, ('e, 'b) result) activity) \<Rightarrow> ('w, ('e, 'b) result) activity" where
  "if_ok m k = do { x \<leftarrow> m; case x of Inl e \<Rightarrow> State_Monad.return (Inl e) | Inr y \<Rightarrow> k y }"

abbreviation fail :: "'e \<Rightarrow> ('w, ('e, 'a) result) activity" where
  "fail e \<equiv> State_Monad.return (Inl e)"

abbreviation ok :: "'a \<Rightarrow> ('w, ('e, 'a) result) activity" where
  "ok x \<equiv> State_Monad.return (Inr x)"

section \<open>Collaborators\<close>

text \<open>The operations of the store port that the service uses; the flag says that the context is
  detached from the caller's cancellation.\<close>

record 's service_store =
  so_get :: "bool \<Rightarrow> run_id \<Rightarrow> 's \<Rightarrow> (store_error, run) result \<times> 's"
  so_list :: "bool \<Rightarrow> 's \<Rightarrow> (store_error, run list) result \<times> 's"
  so_create :: "run \<Rightarrow> string \<Rightarrow> string \<Rightarrow> 's \<Rightarrow> (store_error, run_event) result \<times> 's"
  so_update_if :: "bool \<Rightarrow> run \<Rightarrow> run_state \<Rightarrow> string \<Rightarrow> string \<Rightarrow> 's \<Rightarrow> (store_error, run_event) result \<times> 's"

text \<open>\<^verbatim>\<open>LoopController\<close>; starting takes the number of its context.\<close>

record ('s, 'l) loop_controller =
  lo_start :: "nat \<Rightarrow> run_setup \<Rightarrow> (('s, 'l) app, (control_error, unit) result) activity"
  lo_approve :: "run_id \<Rightarrow> digest \<Rightarrow> (('s, 'l) app, (control_error, unit) result) activity"
  lo_reject :: "run_id \<Rightarrow> digest \<Rightarrow> bool \<Rightarrow> (('s, 'l) app, (control_error, unit) result) activity"
  lo_cancel :: "run_id \<Rightarrow> (('s, 'l) app, (control_error, unit) result) activity"

record ('s, 'l) app_env =
  ae_store :: "'s service_store"
  ae_loops :: "('s, 'l) loop_controller"
  ae_system :: "('s, 'l) app \<Rightarrow> system"
  ae_locks :: lock_env
  ae_acquire_fault :: "('s, 'l) app \<Rightarrow> acquire_fault"
  ae_release_fault :: "('s, 'l) app \<Rightarrow> release_fault"
  ae_now :: "('s, 'l) app \<Rightarrow> gtime"
  ae_hash :: "json \<Rightarrow> digest" \<comment> \<open>SHA-256 of the JSON text\<close>
  ae_encode :: "app_payload \<Rightarrow> string"
  ae_action_cancelled :: "string \<Rightarrow> bool" \<comment> \<open>whether an action's error is \<^verbatim>\<open>context.Canceled\<close>\<close>

definition on_store ::
    "('s \<Rightarrow> (store_error, 'a) result \<times> 's) \<Rightarrow> ('s, 'l) app \<Rightarrow> (app_error, 'a) result \<times> ('s, 'l) app" where
  "on_store f w =
     (case f (ap_store w) of
        (Inl e, s) \<Rightarrow> (Inl (ErrAppStore e), w\<lparr>ap_store := s\<rparr>)
      | (Inr x, s) \<Rightarrow> (Inr x, w\<lparr>ap_store := s\<rparr>))"

definition acquire_lease :: "('s, 'l) app_env \<Rightarrow> string \<Rightarrow> run_id \<Rightarrow> ('s, 'l) app \<Rightarrow> (app_error, unit) result \<times> ('s, 'l) app" where
  "acquire_lease env root i w =
     (case acquire (ae_locks env) (ae_acquire_fault env w) (ae_now env w) root i (ap_leases w) of
        (Inl e, s) \<Rightarrow> (Inl (ErrLease e), w\<lparr>ap_leases := s\<rparr>)
      | (Inr u, s) \<Rightarrow> (Inr u, w\<lparr>ap_leases := s\<rparr>))"

definition release_leases :: "('s, 'l) app_env \<Rightarrow> run_id \<Rightarrow> ('s, 'l) app \<Rightarrow> ('s, 'l) app" where
  "release_leases env i w = w\<lparr>ap_leases := release_run (ae_release_fault env w) i (ap_leases w)\<rparr>"

section \<open>Digests and transitions\<close>

definition profile_json :: "permission_profile \<Rightarrow> json" where
  "profile_json p = JStr (profile_string p)"

definition preflight_digest :: "('s, 'l) app_env \<Rightarrow> run \<Rightarrow> preflight_report \<Rightarrow> digest" where
  "preflight_digest env r report = ae_hash env
     (JObj [(''run_id'', JStr (rid r)), (''profile'', profile_json (profile r)), (''repo_root'', JStr (repo_root r)),
            (''baseline_commit'', JStr (pf_baseline_commit report)),
            (''baseline_diff_hash'', JStr (pf_baseline_diff_hash report))])"

definition move_run ::
    "('s, 'l) app_env \<Rightarrow> bool \<Rightarrow> run \<Rightarrow> run_state \<Rightarrow> string \<Rightarrow> app_payload \<Rightarrow> ('s, 'l) app
     \<Rightarrow> (app_error, run) result \<times> ('s, 'l) app" where
  \<comment> \<open>the store call with which the service changes a state\<close>
  "move_run env detached r next t payload w =
     (let r' = r\<lparr>state := next, updated_at := ae_now env w\<rparr> in
      case on_store (so_update_if (ae_store env) detached r' (state r) t (ae_encode env payload)) w of
        (Inl e, w') \<Rightarrow> (Inl e, w')
      | (Inr _, w') \<Rightarrow> (Inr r', w'))"

definition transition_state ::
    "('s, 'l) app_env \<Rightarrow> run \<Rightarrow> run_state \<Rightarrow> string \<Rightarrow> app_payload \<Rightarrow> (('s, 'l) app, (app_error, run) result) activity" where
  "transition_state env r next t payload =
     (case transition (state r) next of
        Inl e \<Rightarrow> fail (ErrAppTransition e)
      | Inr _ \<Rightarrow> atomically (move_run env False r next t payload))"

section \<open>Stopping and releasing\<close>

text \<open>\<^verbatim>\<open>stopIfActive\<close> retries as long as the state changes under it; an attempt is repeated only after
  something happened meanwhile, so one attempt more than the schedule has changes is enough.\<close>

fun stop_attempts ::
    "nat \<Rightarrow> ('s, 'l) app_env \<Rightarrow> bool \<Rightarrow> run_id \<Rightarrow> string \<Rightarrow> (('s, 'l) app, (app_error, unit) result) activity" where
  "stop_attempts 0 env detached i reason = fail ErrAttempts"
| "stop_attempts (Suc n) env detached i reason =
     if_ok (atomically (on_store (so_get (ae_store env) detached i))) (\<lambda>r.
       if terminal (state r) then ok ()
       else
         (case transition (state r) StateStopped of
            Inl e \<Rightarrow> fail (ErrAppTransition e)
          | Inr _ \<Rightarrow> do {
              x \<leftarrow> atomically (move_run env detached r StateStopped ''RunStopped'' (APStopped reason));
              case x of
                Inl e \<Rightarrow> if e = ErrAppStore ErrRunStateChanged then stop_attempts n env detached i reason else fail e
              | Inr _ \<Rightarrow> ok ()
            }))"

definition stop_if_active ::
    "('s, 'l) app_env \<Rightarrow> bool \<Rightarrow> run_id \<Rightarrow> string \<Rightarrow> (('s, 'l) app, (app_error, unit) result) activity" where
  "stop_if_active env detached i reason =
     State (\<lambda>s. run_state (stop_attempts (Suc (length (fst s))) env detached i reason) s)"

definition cancel_context :: "nat option \<Rightarrow> ('s, 'l) app \<Rightarrow> ('s, 'l) app" where
  "cancel_context c w = (case c of None \<Rightarrow> w | Some n \<Rightarrow> w\<lparr>ap_cancelled := n # ap_cancelled w\<rparr>)"

definition forget_run :: "run_id \<Rightarrow> ('s, 'l) app \<Rightarrow> ('s, 'l) app" where
  "forget_run i w = (cancel_context (ap_cancels w i) w)
     \<lparr>ap_cancels := (ap_cancels w)(i := None), ap_pending := (ap_pending w)(i := None),
      ap_inputs := (ap_inputs w)(i := None), ap_stopping := (ap_stopping w)(i := False)\<rparr>"

definition release_if_terminal ::
    "('s, 'l) app_env \<Rightarrow> bool \<Rightarrow> run \<Rightarrow> (('s, 'l) app, (app_error, unit) result) activity" where
  "release_if_terminal env detached known =
     if_ok (atomically (on_store (so_get (ae_store env) detached (rid known)))) (\<lambda>current.
       if \<not> terminal (state current) then ok ()
       else do {
         modify (release_leases env (rid current));
         modify (forget_run (rid current));
         ok ()
       })"

section \<open>Joined errors\<close>

fun join_errors :: "app_error list \<Rightarrow> app_error" where
  "join_errors [e] = e"
| "join_errors es = ErrJoined es"

definition error_list :: "(app_error, unit) result \<Rightarrow> app_error list" where
  "error_list x = (case x of Inl e \<Rightarrow> [e] | Inr _ \<Rightarrow> [])"

definition cleanup_create_failure ::
    "('s, 'l) app_env \<Rightarrow> run \<Rightarrow> app_error \<Rightarrow> (('s, 'l) app, app_error) activity" where
  "cleanup_create_failure env r cause = do {
     x \<leftarrow> if_ok (stop_if_active env True (rid r) ''RUN_SETUP_FAILED'') (\<lambda>_. release_if_terminal env True r);
     State_Monad.return (join_errors (cause # error_list x))
   }"

section \<open>Creating and starting\<close>

definition start_background :: "run \<Rightarrow> ('s, 'l) app \<Rightarrow> ('s, 'l) app" where
  \<comment> \<open>\<^verbatim>\<open>startRun\<close>\<close>
  "start_background r w = w\<lparr>ap_contexts := ap_contexts w + 1,
     ap_cancels := (ap_cancels w)(rid r \<mapsto> ap_contexts w),
     ap_background := ap_background w @ [(ap_contexts w, r)]\<rparr>"

definition new_run :: "create_run_request \<Rightarrow> preflight_report \<Rightarrow> run_id \<Rightarrow> gtime \<Rightarrow> run" where
  "new_run rq report i now =
     \<lparr>rid = i, state = StateCreated, profile = rq_profile rq, task = rq_task rq, repo_root = pf_repo_root report,
      current_stage = [], created_at = now, updated_at = now\<rparr>"

text \<open>The end of \<^verbatim>\<open>CreateRun\<close> for a dirty worktree under supervision.\<close>

definition await_preflight_approval ::
    "('s, 'l) app_env \<Rightarrow> run \<Rightarrow> run_input \<Rightarrow> (('s, 'l) app, (app_error, run) result) activity" where
  "await_preflight_approval env r input =
     (let digest = preflight_digest env r (in_report input) in do {
        x \<leftarrow> if_ok (transition_state env r StatePreflight ''PreflightStarted'' APEmpty) (\<lambda>r.
               transition_state env r StateAwaitingApproval ''PreflightApprovalRequired''
                 (APApproval digest (pf_baseline_commit (in_report input)) (pf_baseline_diff_hash (in_report input))));
        case x of
          Inl e \<Rightarrow> do { joined \<leftarrow> cleanup_create_failure env r e; fail joined }
        | Inr r' \<Rightarrow> do {
            modify (\<lambda>w. w\<lparr>ap_pending := (ap_pending w)(rid r' \<mapsto> \<lparr>pv_digest = digest, pv_input = input\<rparr>)\<rparr>);
            ok r'
          }
      })"

text \<open>\<^verbatim>\<open>CreateRun\<close>, with the identifier \<^verbatim>\<open>newID\<close> draws: first the part that follows once the lease is
  held.\<close>

definition launch_run ::
    "('s, 'l) app_env \<Rightarrow> run \<Rightarrow> run_input \<Rightarrow> (('s, 'l) app, (app_error, run) result) activity" where
  "launch_run env r input = do {
     modify (\<lambda>w. w\<lparr>ap_inputs := (ap_inputs w)(rid r \<mapsto> input)\<rparr>);
     if has_finding (in_report input) code_dirty_approval then await_preflight_approval env r input
     else do { modify (start_background r); ok r }
   }"

definition store_new_run ::
    "('s, 'l) app_env \<Rightarrow> run \<Rightarrow> run_input \<Rightarrow> (('s, 'l) app, (app_error, run) result) activity" where
  "store_new_run env r input =
     (let rq = in_request input;
          payload = APCreated (rq_provider rq) (rq_model rq) (rq_endpoint rq) (rq_config_path rq)
            (pf_baseline_commit (in_report input)) (pf_baseline_diff_hash (in_report input))
      in do {
        stored \<leftarrow> atomically (on_store (so_create (ae_store env) r ''RunCreated'' (ae_encode env payload)));
        case stored of
          Inl e \<Rightarrow> do { modify (release_leases env (rid r)); fail e }
        | Inr _ \<Rightarrow> launch_run env r input
      })"

definition create_run_service ::
    "('s, 'l) app_env \<Rightarrow> run_id \<Rightarrow> create_run_request \<Rightarrow> (('s, 'l) app, (app_error, run) result) activity" where
  "create_run_service env i rq = do {
     (report, cfg) \<leftarrow> inspect (\<lambda>w. preflight (ae_system env w) rq);
     if \<not> pf_ok report then fail (ErrPreflight report)
     else do {
       r \<leftarrow> inspect (\<lambda>w. new_run rq report i (ae_now env w));
       if_ok (atomically (acquire_lease env (repo_root r) i)) (\<lambda>_.
         store_new_run env r \<lparr>in_request = rq, in_report = report, in_config = cfg\<rparr>)
     }
   }"

text \<open>\<^verbatim>\<open>start\<close>, the body of the background call with the number of its context.\<close>

definition loop_cancelled :: "('s, 'l) app_env \<Rightarrow> control_error \<Rightarrow> bool" where
  "loop_cancelled env e =
     (case e of
        ErrContextCanceled \<Rightarrow> True
      | ErrLoop (ErrStore ErrStoreContext) \<Rightarrow> True
      | ErrLoop (ErrAction s) \<Rightarrow> ae_action_cancelled env s
      | _ \<Rightarrow> False)"

definition start_service :: "('s, 'l) app_env \<Rightarrow> nat \<Rightarrow> run \<Rightarrow> (('s, 'l) app, unit) activity" where
  "start_service env ctx r = do {
     input \<leftarrow> inspect (\<lambda>w. ap_inputs w (rid r));
     case input of
       None \<Rightarrow> do {
         _ \<leftarrow> stop_if_active env True (rid r) ''LOOP_SETUP_MISSING'';
         _ \<leftarrow> release_if_terminal env True r;
         State_Monad.return ()
       }
     | Some input \<Rightarrow> do {
         x \<leftarrow> lo_start (ae_loops env) ctx \<lparr>su_run = r, su_input = input\<rparr>;
         _ \<leftarrow> (case x of
                 Inr _ \<Rightarrow> ok ()
               | Inl e \<Rightarrow> stop_if_active env True (rid r)
                   (if loop_cancelled env e then ''USER_CANCELLED'' else ''LOOP_FAILED''));
         _ \<leftarrow> release_if_terminal env True r;
         State_Monad.return ()
       }
   }"

section \<open>Approving, rejecting and cancelling\<close>

definition active_run :: "('s, 'l) app_env \<Rightarrow> run_id \<Rightarrow> (('s, 'l) app, (app_error, run) result) activity" where
  "active_run env i =
     if_ok (atomically (on_store (so_get (ae_store env) False i))) (\<lambda>r.
       if terminal (state r) then fail ErrRunTerminal else ok r)"

definition fail_active_control ::
    "('s, 'l) app_env \<Rightarrow> run \<Rightarrow> string \<Rightarrow> control_error \<Rightarrow> (('s, 'l) app, app_error) activity" where
  "fail_active_control env r reason cause = do {
     cancelled \<leftarrow> lo_cancel (ae_loops env) (rid r);
     stopped \<leftarrow> stop_if_active env True (rid r) reason;
     released \<leftarrow> (case stopped of Inl _ \<Rightarrow> ok () | Inr _ \<Rightarrow> release_if_terminal env True r);
     State_Monad.return (join_errors
       (ErrControl cause # (case cancelled of Inl e \<Rightarrow> [ErrControl e] | Inr _ \<Rightarrow> []) @ error_list stopped @ error_list released))
   }"

definition same_baseline :: "preflight_report \<Rightarrow> preflight_report \<Rightarrow> bool" where
  "same_baseline a b \<longleftrightarrow> pf_baseline_commit a = pf_baseline_commit b \<and> pf_baseline_diff_hash a = pf_baseline_diff_hash b"

text \<open>The second half of approving a dirty baseline: unless the run is being stopped it goes back to
  PREFLIGHT and its loop starts, with what preflight now says.\<close>

definition grant_preflight ::
    "('s, 'l) app_env \<Rightarrow> run \<Rightarrow> run_input \<Rightarrow> (('s, 'l) app, (app_error, unit) result) activity" where
  "grant_preflight env r input = do {
     stopping \<leftarrow> inspect (\<lambda>w. ap_stopping w (rid r));
     if stopping then fail ErrRunTerminal
     else
       if_ok (transition_state env r StatePreflight ''PreflightApprovalGranted'' APEmpty) (\<lambda>r'. do {
         modify (\<lambda>w. w\<lparr>ap_pending := (ap_pending w)(rid r := None), ap_inputs := (ap_inputs w)(rid r \<mapsto> input)\<rparr>);
         modify (start_background r');
         ok ()
       })
   }"

definition approve_preflight ::
    "('s, 'l) app_env \<Rightarrow> run \<Rightarrow> preflight_approval \<Rightarrow> digest \<Rightarrow> (('s, 'l) app, (app_error, unit) result) activity" where
  "approve_preflight env r p digest =
     (if digest \<noteq> pv_digest p then fail ErrApprovalStale
      else do {
        (report, cfg) \<leftarrow> inspect (\<lambda>w. preflight (ae_system env w) (in_request (pv_input p)));
        if \<not> pf_ok report \<or> \<not> same_baseline report (in_report (pv_input p)) \<or> preflight_digest env r report \<noteq> digest
        then fail ErrApprovalStale
        else grant_preflight env r \<lparr>in_request = in_request (pv_input p), in_report = report, in_config = cfg\<rparr>
      })"

definition approve_service ::
    "('s, 'l) app_env \<Rightarrow> run_id \<Rightarrow> digest \<Rightarrow> (('s, 'l) app, (app_error, unit) result) activity" where
  "approve_service env i digest =
     if_ok (active_run env i) (\<lambda>r. do {
       (pending, stopping) \<leftarrow> inspect (\<lambda>w. (ap_pending w i, ap_stopping w i));
       if stopping then fail ErrRunTerminal
       else
         (case pending of
            Some p \<Rightarrow> approve_preflight env r p digest
          | None \<Rightarrow> do {
              x \<leftarrow> lo_approve (ae_loops env) i digest;
              case x of
                Inr _ \<Rightarrow> release_if_terminal env False r
              | Inl e \<Rightarrow>
                  if e = ErrLoop ErrApprovalNotGranted \<or> e = ErrLoopSessionBusy then fail (ErrControl e)
                  else do { joined \<leftarrow> fail_active_control env r ''LOOP_APPROVAL_FAILED'' e; fail joined }
            })
     })"

definition reject_service ::
    "('s, 'l) app_env \<Rightarrow> run_id \<Rightarrow> digest \<Rightarrow> bool \<Rightarrow> (('s, 'l) app, (app_error, unit) result) activity" where
  "reject_service env i digest terminate =
     if_ok (active_run env i) (\<lambda>r. do {
       (pending, stopping) \<leftarrow> inspect (\<lambda>w. (ap_pending w i, ap_stopping w i));
       if stopping then fail ErrRunTerminal
       else
         (case pending of
            Some p \<Rightarrow>
              if digest \<noteq> pv_digest p then fail ErrApprovalStale
              else if terminate
              then if_ok (stop_if_active env False i ''APPROVAL_REJECTED'') (\<lambda>_. release_if_terminal env False r)
              else ok ()
          | None \<Rightarrow> do {
              x \<leftarrow> lo_reject (ae_loops env) i digest terminate;
              case x of
                Inl e \<Rightarrow>
                  if e = ErrLoop ErrApprovalRejectionMismatch \<or> e = ErrLoopSessionBusy then fail (ErrControl e)
                  else do { joined \<leftarrow> fail_active_control env r ''LOOP_REJECTION_FAILED'' e; fail joined }
              | Inr _ \<Rightarrow>
                  if_ok (if terminate then stop_if_active env False i ''APPROVAL_REJECTED'' else ok ())
                    (\<lambda>_. release_if_terminal env False r)
            })
     })"

text \<open>\<^verbatim>\<open>CancelRun\<close>: the run is marked before its context is cancelled.\<close>

definition mark_stopping :: "run_id \<Rightarrow> ('s, 'l) app \<Rightarrow> (app_error, nat option) result \<times> ('s, 'l) app" where
  "mark_stopping i w =
     (if ap_stopping w i then (Inl ErrRunTerminal, w)
      else (Inr (ap_cancels w i), w\<lparr>ap_stopping := (ap_stopping w)(i := True)\<rparr>))"

definition cancel_service :: "('s, 'l) app_env \<Rightarrow> run_id \<Rightarrow> (('s, 'l) app, (app_error, unit) result) activity" where
  "cancel_service env i =
     if_ok (active_run env i) (\<lambda>r.
     if_ok (atomically (mark_stopping i)) (\<lambda>c. do {
       modify (cancel_context c);
       x \<leftarrow> lo_cancel (ae_loops env) i;
       case x of
         Inl e \<Rightarrow> do {
           modify (\<lambda>w. w\<lparr>ap_stopping := (ap_stopping w)(i := False)\<rparr>);
           fail (ErrControl e)
         }
       | Inr _ \<Rightarrow>
           if_ok (stop_if_active env True i ''USER_CANCELLED'') (\<lambda>_. release_if_terminal env True r)
     }))"

section \<open>Start-up and shutdown\<close>

fun recover_each :: "('s, 'l) app_env \<Rightarrow> run list \<Rightarrow> (('s, 'l) app, (app_error, unit) result) activity" where
  "recover_each env [] = ok ()"
| "recover_each env (r # rs) =
     (if terminal (state r) then do { modify (release_leases env (rid r)); recover_each env rs }
      else
        (case transition (state r) StateStopped of
           Inl e \<Rightarrow> fail (ErrAppTransition e)
         | Inr _ \<Rightarrow>
             if_ok (atomically (move_run env False r StateStopped ''RunRecovered'' (APStopped ''STARTUP_RECOVERY''))) (\<lambda>_. do {
               modify (release_leases env (rid r));
               recover_each env rs
             })))"

definition recover_runs :: "('s, 'l) app_env \<Rightarrow> (('s, 'l) app, (app_error, unit) result) activity" where
  "recover_runs env = if_ok (atomically (on_store (so_list (ae_store env) False))) (recover_each env)"

text \<open>\<^verbatim>\<open>NewService\<close>: the maps are empty, then the runs are recovered.\<close>

definition new_service :: "'s \<Rightarrow> 'l \<Rightarrow> repo_locks \<times> lock_dir \<Rightarrow> ('s, 'l) app" where
  "new_service st l leases =
     \<lparr>ap_store = st, ap_loops = l, ap_leases = leases, ap_inputs = (\<lambda>_. None), ap_pending = (\<lambda>_. None),
      ap_stopping = (\<lambda>_. False), ap_cancels = (\<lambda>_. None), ap_contexts = 0, ap_cancelled = [], ap_background = []\<rparr>"

definition open_service ::
    "('s, 'l) app_env \<Rightarrow> 's \<Rightarrow> 'l \<Rightarrow> repo_locks \<times> lock_dir \<Rightarrow> (('s, 'l) app \<Rightarrow> ('s, 'l) app) list
     \<Rightarrow> (app_error, ('s, 'l) app) result" where
  "open_service env st l leases others =
     (case run_state (recover_runs env) (others, new_service st l leases) of
        (Inl e, _) \<Rightarrow> Inl e
      | (Inr _, _, w) \<Rightarrow> Inr w)"

definition preflight_service :: "('s, 'l) app_env \<Rightarrow> create_run_request \<Rightarrow> (('s, 'l) app, preflight_report) activity" where
  "preflight_service env rq = inspect (\<lambda>w. fst (preflight (ae_system env w) rq))"

definition get_run_service :: "('s, 'l) app_env \<Rightarrow> run_id \<Rightarrow> (('s, 'l) app, (app_error, run) result) activity" where
  "get_run_service env i = atomically (on_store (so_get (ae_store env) False i))"

definition list_runs_service :: "('s, 'l) app_env \<Rightarrow> (('s, 'l) app, (app_error, run list) result) activity" where
  "list_runs_service env = atomically (on_store (so_list (ae_store env) False))"

fun close_each :: "('s, 'l) app_env \<Rightarrow> run list \<Rightarrow> (('s, 'l) app, app_error list) activity" where
  "close_each env [] = State_Monad.return []"
| "close_each env (r # rs) =
     (if terminal (state r) then close_each env rs
      else do {
        x \<leftarrow> cancel_service env (rid r);
        es \<leftarrow> close_each env rs;
        State_Monad.return (error_list x @ es)
      })"

definition close_service :: "('s, 'l) app_env \<Rightarrow> (('s, 'l) app, (app_error, unit) result) activity" where
  "close_service env =
     if_ok (atomically (on_store (so_list (ae_store env) True))) (\<lambda>rs. do {
       es \<leftarrow> close_each env rs;
       if es = [] then ok () else fail (join_errors es)
     })"

end
