(* ===== verification/Http_Router.thy ===== *)
theory Http_Router
  imports App_Service Credential_Service Redact
begin

text \<open>
  Package \<^verbatim>\<open>internal/httpapi\<close>: the HTTP interface of the harness. The local router guards every
  request (Host, session, Origin, CSRF token) before it dispatches it to a handler; the demo router
  has no secrets and only shows fixed runs. The application, the store and the credential service
  are records of operations on a world. Parameters are the random bytes, the reads of the JSON
  decoder, the encoding of JSON values and, for event streams, what \<^verbatim>\<open>select\<close> chooses. A request
  comes parsed, as \<^verbatim>\<open>net/http\<close> hands it over.
\<close>

section \<open>Requests and responses\<close>

text \<open>Two reads of the JSON decoder on the limited body: a value, the end, or an error.\<close>

datatype json_read = ReadValue json | ReadEnd | ReadTooLarge | ReadInvalid

record http_request =
  hr_method :: string
  hr_host :: string
  hr_path :: string
  hr_query :: "(string \<times> string list) list" \<comment> \<open>\<^verbatim>\<open>url.Values\<close>: distinct keys, no empty list\<close>
  hr_header :: "string \<Rightarrow> string"
  hr_cookie :: "string option" \<comment> \<open>the value of the cookie \<^verbatim>\<open>ai4se_session\<close>\<close>
  hr_body :: string
  hr_flushes :: bool \<comment> \<open>whether the response writer is a \<^verbatim>\<open>Flusher\<close>\<close>

record http_response =
  rs_status :: nat
  rs_headers :: "(string \<times> string) list"
  rs_body :: string

text \<open>What is encoded as JSON, apart from errors.\<close>

datatype api_value =
    ValHealth
  | ValRun run
  | ValPage "run list" int int bool \<comment> \<open>with offset, limit and whether there is more\<close>
  | ValReport preflight_report
  | ValArtifact artifact
  | ValCredential cred_status

section \<open>Collaborators\<close>

datatype api_error = ApiApp app_error | ApiStore store_error | ApiCred cred_error

record 'w api_calls =
  ac_create :: "create_run_request \<Rightarrow> 'w \<Rightarrow> (api_error, run) result \<times> 'w"
  ac_get :: "run_id \<Rightarrow> 'w \<Rightarrow> (api_error, run) result \<times> 'w"
  ac_cancel :: "run_id \<Rightarrow> 'w \<Rightarrow> (api_error, unit) result \<times> 'w"
  ac_approve :: "run_id \<Rightarrow> digest \<Rightarrow> 'w \<Rightarrow> (api_error, unit) result \<times> 'w"
  ac_reject :: "run_id \<Rightarrow> digest \<Rightarrow> bool \<Rightarrow> 'w \<Rightarrow> (api_error, unit) result \<times> 'w"
  ac_preflight :: "create_run_request \<Rightarrow> 'w \<Rightarrow> preflight_report \<times> 'w"
  ac_list_runs :: "run_list_query \<Rightarrow> 'w \<Rightarrow> (api_error, run_page) result \<times> 'w"
  ac_list_events :: "run_id \<Rightarrow> nat \<Rightarrow> 'w \<Rightarrow> (api_error, run_event list) result \<times> 'w"
  ac_get_artifact :: "run_id \<Rightarrow> string \<Rightarrow> 'w \<Rightarrow> (api_error, artifact) result \<times> 'w"

record 'w credential_calls =
  cc_add :: "cred_ref \<Rightarrow> string \<Rightarrow> 'w \<Rightarrow> (api_error, unit) result \<times> 'w"
  cc_update :: "cred_ref \<Rightarrow> string \<Rightarrow> 'w \<Rightarrow> (api_error, unit) result \<times> 'w"
  cc_status :: "cred_ref \<Rightarrow> 'w \<Rightarrow> (api_error, cred_status) result \<times> 'w"
  cc_clear :: "cred_ref \<Rightarrow> 'w \<Rightarrow> (api_error, unit) result \<times> 'w"

text \<open>What \<^verbatim>\<open>select\<close> takes in the loop of an event stream, after other things happened to the world.\<close>

datatype 'w tick = TickHeartbeat "'w \<Rightarrow> 'w" | TickPoll "'w \<Rightarrow> 'w"

record 'w http_env =
  he_calls :: "'w api_calls"
  he_credentials :: "'w credential_calls option"
  he_random :: "nat \<Rightarrow> nat list option" \<comment> \<open>the 32 bytes of the n-th read, or its failure\<close>
  he_reads :: "int \<Rightarrow> string \<Rightarrow> json_read \<times> json_read" \<comment> \<open>limit and body\<close>
  he_json :: "api_value \<Rightarrow> string option"
  he_error_json :: "string \<Rightarrow> string \<Rightarrow> string \<Rightarrow> string" \<comment> \<open>code, message and request number\<close>
  he_json_valid :: "string \<Rightarrow> bool"
  he_event_json :: "gtime \<Rightarrow> string \<Rightarrow> string option"
  he_is_ipv6 :: "string \<Rightarrow> bool"
  he_action_cancelled :: "string \<Rightarrow> bool"
  he_ticks :: "http_request \<Rightarrow> 'w tick list" \<comment> \<open>until the request's context ends\<close>
  he_writes :: "http_request \<Rightarrow> nat" \<comment> \<open>how many writes to the stream succeed\<close>

section \<open>The router\<close>

record capabilities =
  cp_create_runs :: bool
  cp_list_runs :: bool
  cp_read_runs :: bool
  cp_cancel_runs :: bool
  cp_approvals :: bool
  cp_events :: bool
  cp_artifacts :: bool
  cp_config_validation :: bool
  cp_credentials :: bool
  cp_fixed_runs :: "run_id list option" \<comment> \<open>a set, in the order in which its map is iterated\<close>

definition local_capabilities :: capabilities where
  "local_capabilities =
     \<lparr>cp_create_runs = True, cp_list_runs = True, cp_read_runs = True, cp_cancel_runs = True, cp_approvals = True,
      cp_events = True, cp_artifacts = True, cp_config_validation = True, cp_credentials = True, cp_fixed_runs = None\<rparr>"

definition demo_capabilities :: "run_id list \<Rightarrow> capabilities" where
  "demo_capabilities fixed =
     \<lparr>cp_create_runs = False, cp_list_runs = True, cp_read_runs = True, cp_cancel_runs = False, cp_approvals = False,
      cp_events = True, cp_artifacts = False, cp_config_validation = False, cp_credentials = False,
      cp_fixed_runs = Some (filter (\<lambda>i. i \<noteq> []) fixed)\<rparr>"

text \<open>The pages besides the API: the embedded build, with the handler of its files, or another handler.\<close>

datatype shell = Embedded string "http_request \<Rightarrow> http_response" | OtherShell "http_request \<Rightarrow> http_response"

record router =
  ro_capabilities :: capabilities
  ro_local :: bool
  ro_host :: string
  ro_max_body :: int
  ro_shell :: "shell option"
  ro_bootstrap :: string
  ro_session :: string
  ro_csrf :: string

text \<open>What changes: the random bytes read, the secrets of the redactor, and the use of the bootstrap token.\<close>

record router_state =
  st_reads :: nat
  st_redactor :: "string list"
  st_bootstrap_used :: bool

type_synonym ('w, 'a) http = "(router_state \<times> 'w, 'a) state"

definition call_world :: "('w \<Rightarrow> 'a \<times> 'w) \<Rightarrow> ('w, 'a) http" where
  "call_world f = State (\<lambda>(st, w). let (x, w') = f w in (x, st, w'))"

section \<open>Tokens (security.go)\<close>

definition base64url_char :: "nat \<Rightarrow> char" where
  "base64url_char n =
     (if n < 26 then char_of (65 + n) else if n < 52 then char_of (71 + n)
      else if n < 62 then char_of (n - 4) else if n = 62 then CHR ''-'' else CHR ''_'')"

text \<open>\<^verbatim>\<open>base64.RawURLEncoding\<close>, without padding.\<close>

fun base64url :: "nat list \<Rightarrow> string" where
  "base64url (a # b # c # bs) =
     [base64url_char (a div 4), base64url_char (a mod 4 * 16 + b div 16), base64url_char (b mod 16 * 4 + c div 64),
      base64url_char (c mod 64)] @ base64url bs"
| "base64url [a, b] = [base64url_char (a div 4), base64url_char (a mod 4 * 16 + b div 16), base64url_char (b mod 16 * 4)]"
| "base64url [a] = [base64url_char (a div 4), base64url_char (a mod 4 * 16)]"
| "base64url [] = []"

definition random_token :: "'w http_env \<Rightarrow> ('w, string option) http" where
  "random_token env = State (\<lambda>(st, w).
     (map_option base64url (he_random env (st_reads st)), st\<lparr>st_reads := st_reads st + 1\<rparr>, w))"

definition request_id :: "'w http_env \<Rightarrow> ('w, string) http" where
  "request_id env = do {
     token \<leftarrow> random_token env;
     State_Monad.return (case token of None \<Rightarrow> ''req-unavailable'' | Some t \<Rightarrow> ''req-'' @ take 16 t)
   }"

definition equal_fold :: "string \<Rightarrow> string \<Rightarrow> bool" where
  \<comment> \<open>\<^verbatim>\<open>strings.EqualFold\<close> where one side is ASCII\<close>
  "equal_fold a b \<longleftrightarrow> fold_key a = fold_key b"

definition secure_equal :: "string \<Rightarrow> string \<Rightarrow> bool" where
  "secure_equal a b \<longleftrightarrow> (if length a \<noteq> length b then False else a = b)"

definition valid_host :: "router \<Rightarrow> string \<Rightarrow> bool" where
  "valid_host ro host \<longleftrightarrow> equal_fold (trim_space host) (ro_host ro)"

definition valid_origin :: "'w http_env \<Rightarrow> router \<Rightarrow> string \<Rightarrow> bool" where
  "valid_origin env ro raw \<longleftrightarrow>
     (case url_parse (he_is_ipv6 env) raw of
        None \<Rightarrow> False
      | Some u \<Rightarrow>
          if u_scheme u \<noteq> ''http'' \<or> u_user u \<or> u_path u \<noteq> [] \<or> u_raw_query u \<noteq> [] \<or> u_fragment u \<noteq> [] then False
          else equal_fold (u_host u) (ro_host ro))"

definition valid_session :: "router \<Rightarrow> http_request \<Rightarrow> bool" where
  "valid_session ro rq \<longleftrightarrow> (case hr_cookie rq of None \<Rightarrow> False | Some v \<Rightarrow> secure_equal v (ro_session ro))"

section \<open>Writing responses\<close>

definition base_headers :: "(string \<times> string) list" where
  "base_headers = [(''X-Content-Type-Options'', ''nosniff''), (''Cache-Control'', ''no-store'')]"

definition newline :: char where
  "newline = CHR 0x0A"

definition write_text :: "nat \<Rightarrow> string \<Rightarrow> ('w, http_response) http" where
  \<comment> \<open>the end of \<^verbatim>\<open>writeJSON\<close>, once the value is encoded\<close>
  "write_text status encoded = do {
     (st, _) \<leftarrow> State_Monad.get;
     State_Monad.return \<lparr>rs_status = status, rs_headers = base_headers @ [(''Content-Type'', ''application/json'')],
       rs_body = redact (st_redactor st) encoded @ [newline]\<rparr>
   }"

definition max_error_message :: nat where
  "max_error_message = 512"

definition write_error :: "'w http_env \<Rightarrow> nat \<Rightarrow> string \<Rightarrow> string \<Rightarrow> string \<Rightarrow> ('w, http_response) http" where
  "write_error env status c message req = do {
     (st, _) \<leftarrow> State_Monad.get;
     write_text status (he_error_json env c (take max_error_message (redact (st_redactor st) message)) req)
   }"

definition write_json :: "'w http_env \<Rightarrow> nat \<Rightarrow> api_value \<Rightarrow> ('w, http_response) http" where
  "write_json env status v =
     (case he_json env v of
        Some encoded \<Rightarrow> write_text status encoded
      | None \<Rightarrow> do {
          req \<leftarrow> request_id env;
          write_error env 500 ''INTERNAL_ERROR'' ''request could not be completed'' req
        })"

definition write_no_content :: "('w, http_response) http" where
  "write_no_content = State_Monad.return \<lparr>rs_status = 204, rs_headers = base_headers, rs_body = []\<rparr>"

definition write_not_found :: "'w http_env \<Rightarrow> string \<Rightarrow> ('w, http_response) http" where
  "write_not_found env = write_error env 404 ''NOT_FOUND'' ''route was not found''"

definition write_method_not_allowed :: "'w http_env \<Rightarrow> string \<Rightarrow> ('w, http_response) http" where
  "write_method_not_allowed env = write_error env 405 ''METHOD_NOT_ALLOWED'' ''method is not allowed''"

definition register_secret :: "string \<Rightarrow> ('w, unit) http" where
  "register_secret s = State (\<lambda>(st, w). ((), if s = [] then st else st\<lparr>st_redactor := register s (st_redactor st)\<rparr>, w))"

section \<open>Errors of the application\<close>

text \<open>\<^verbatim>\<open>errors.Is\<close> looks into joined errors; the context's errors come from several places.\<close>

fun app_error_has :: "(app_error \<Rightarrow> bool) \<Rightarrow> app_error \<Rightarrow> bool" where
  "app_error_has p (ErrJoined es) \<longleftrightarrow> list_ex (app_error_has p) es"
| "app_error_has p e \<longleftrightarrow> p e"

definition is_store_error :: "store_error \<Rightarrow> api_error \<Rightarrow> bool" where
  "is_store_error t e \<longleftrightarrow>
     (case e of
        ApiStore s \<Rightarrow> s = t
      | ApiApp a \<Rightarrow> app_error_has (\<lambda>x. x = ErrAppStore t \<or> x = ErrControl (ErrLoop (ErrStore t))) a
      | ApiCred c \<Rightarrow> False)"

definition is_credential_error :: "cred_error \<Rightarrow> api_error \<Rightarrow> bool" where
  "is_credential_error t e \<longleftrightarrow> (case e of ApiCred c \<Rightarrow> is_cred_error t c | _ \<Rightarrow> False)"

definition is_app_error :: "(app_error \<Rightarrow> bool) \<Rightarrow> api_error \<Rightarrow> bool" where
  "is_app_error p e \<longleftrightarrow> (case e of ApiApp a \<Rightarrow> app_error_has p a | _ \<Rightarrow> False)"

fun preflight_failed :: "app_error \<Rightarrow> bool" where
  "preflight_failed (ErrPreflight report) \<longleftrightarrow> True"
| "preflight_failed _ \<longleftrightarrow> False"

fun app_cancelled :: "(string \<Rightarrow> bool) \<Rightarrow> app_error \<Rightarrow> bool" where
  "app_cancelled action (ErrControl ErrContextCanceled) \<longleftrightarrow> True"
| "app_cancelled action (ErrControl (ErrLoop (ErrAction s))) \<longleftrightarrow> action s"
| "app_cancelled action _ \<longleftrightarrow> False"

definition map_error :: "'w http_env \<Rightarrow> api_error \<Rightarrow> string \<Rightarrow> ('w, http_response) http" where
  "map_error env e =
     (if is_store_error ErrRunNotFound e then write_error env 404 ''RUN_NOT_FOUND'' ''run was not found''
      else if is_store_error ErrArtifactNotFound e then write_error env 404 ''ARTIFACT_NOT_FOUND'' ''artifact was not found''
      else if is_credential_error ErrCredentialNotFound e
      then write_error env 404 ''CREDENTIAL_NOT_FOUND'' ''credential was not found''
      else if is_credential_error ErrInvalidCredential e
      then write_error env 400 ''INVALID_CREDENTIAL'' ''credential reference or value is invalid''
      else if is_credential_error ErrAlreadyConfigured e
      then write_error env 409 ''CREDENTIAL_CONFLICT'' ''credential is already configured''
      else if is_credential_error ErrUnavailable e \<or> is_credential_error ErrLocked e
      then write_error env 503 ''CREDENTIAL_STORE_UNAVAILABLE'' ''credential store is unavailable''
      else if is_app_error preflight_failed e then write_error env 422 ''PREFLIGHT_FAILED'' ''run preflight failed''
      else if is_app_error (\<lambda>x. x = ErrLease ErrRepoBusy \<or> x = ErrRunTerminal \<or> x = ErrApprovalStale) e
      then write_error env 409 ''CONFLICT'' ''request conflicts with current run state''
      else if is_store_error ErrStoreContext e \<or> is_credential_error ErrCredContext e
        \<or> is_app_error (app_cancelled (he_action_cancelled env)) e
      then write_error env 408 ''REQUEST_CANCELLED'' ''request was cancelled''
      else write_error env 500 ''INTERNAL_ERROR'' ''request could not be completed'')"

section \<open>Decoding bodies\<close>

definition write_decode_error :: "'w http_env \<Rightarrow> json_read \<Rightarrow> string \<Rightarrow> ('w, http_response) http" where
  "write_decode_error env e =
     (if e = ReadTooLarge then write_error env 413 ''REQUEST_TOO_LARGE'' ''request body exceeds the size limit''
      else write_error env 400 ''INVALID_JSON'' ''request body is not valid JSON'')"

text \<open>One value, into the target, and nothing after it; the flag says whether no value at all is fine and
  leaves the target as it is.\<close>

definition decode_body :: "'w http_env \<Rightarrow> router \<Rightarrow> bool \<Rightarrow> 'a \<Rightarrow> (json \<Rightarrow> 'a option) \<Rightarrow> http_request \<Rightarrow> (json_read, 'a) result" where
  "decode_body env ro optional zero decode rq =
     (case he_reads env (ro_max_body ro) (hr_body rq) of (first, second) \<Rightarrow>
       (case first of
          ReadValue j \<Rightarrow>
            (case decode j of
               None \<Rightarrow> Inl ReadInvalid
             | Some x \<Rightarrow>
                 (case second of ReadEnd \<Rightarrow> Inr x | ReadValue _ \<Rightarrow> Inl ReadInvalid | e \<Rightarrow> Inl e))
        | ReadEnd \<Rightarrow> if optional then Inr zero else Inl ReadEnd
        | e \<Rightarrow> Inl e))"

text \<open>Structs with \<^verbatim>\<open>DisallowUnknownFields\<close>: each member must be a field, and of its type.\<close>

fun decode_flag :: "string \<Rightarrow> (string \<times> json) list \<Rightarrow> bool \<times> bool \<Rightarrow> bool \<times> bool" where
  "decode_flag name [] acc = acc"
| "decode_flag name ((k, v) # kvs) (cur, fine) =
     (if key_matches name k then
        (case v of
           JBool b \<Rightarrow> decode_flag name kvs (b, fine)
         | JNull \<Rightarrow> decode_flag name kvs (cur, fine)
         | _ \<Rightarrow> decode_flag name kvs (cur, False))
      else decode_flag name kvs (cur, fine))"

definition known_fields :: "string list \<Rightarrow> (string \<times> json) list \<Rightarrow> bool" where
  "known_fields names kvs \<longleftrightarrow> list_all (\<lambda>(k, _). list_ex (\<lambda>n. key_matches n k) names) kvs"

fun decode_empty :: "json \<Rightarrow> unit option" where
  "decode_empty (JObj kvs) = (if kvs = [] then Some () else None)"
| "decode_empty JNull = Some ()"
| "decode_empty _ = None"

fun decode_terminate :: "json \<Rightarrow> bool option" where
  "decode_terminate (JObj kvs) =
     (case decode_flag ''terminate'' kvs (False, True) of (b, fine) \<Rightarrow>
        if fine \<and> known_fields [''terminate''] kvs then Some b else None)"
| "decode_terminate JNull = Some False"
| "decode_terminate _ = None"

fun decode_secret :: "json \<Rightarrow> string option" where
  "decode_secret (JObj kvs) =
     (case decode_member ''secret'' kvs ([], True) of (s, fine) \<Rightarrow>
        if fine \<and> known_fields [''secret''] kvs then Some s else None)"
| "decode_secret JNull = Some []"
| "decode_secret _ = None"

definition parse_profile :: "string \<Rightarrow> permission_profile" where
  "parse_profile s =
     (if s = ''review'' then ProfileReview else if s = ''supervised'' then ProfileSupervised
      else if s = ''workspace-auto'' then ProfileWorkspaceAuto else ProfileOther s)"

definition request_fields :: "string list" where
  "request_fields = [''repo_root'', ''task'', ''provider'', ''model'', ''endpoint'', ''confirm_custom_endpoint'', ''profile'',
     ''config_path'']"

definition empty_create_request :: create_run_request where
  "empty_create_request =
     \<lparr>rq_repo_root = [], rq_task = [], rq_provider = [], rq_model = [], rq_endpoint = [], rq_confirm_custom_endpoint = False,
      rq_profile = parse_profile [], rq_config_path = []\<rparr>"

fun decode_create_request :: "json \<Rightarrow> create_run_request option" where
  "decode_create_request (JObj kvs) =
     (let field = (\<lambda>name. decode_member name kvs ([], True));
          (confirm, fine) = decode_flag ''confirm_custom_endpoint'' kvs (False, True)
      in if fine \<and> known_fields request_fields kvs
           \<and> list_all (\<lambda>name. name = ''confirm_custom_endpoint'' \<or> snd (field name)) request_fields
         then Some \<lparr>rq_repo_root = fst (field ''repo_root''), rq_task = fst (field ''task''),
           rq_provider = fst (field ''provider''), rq_model = fst (field ''model''), rq_endpoint = fst (field ''endpoint''),
           rq_confirm_custom_endpoint = confirm, rq_profile = parse_profile (fst (field ''profile'')),
           rq_config_path = fst (field ''config_path'')\<rparr>
         else None)"
| "decode_create_request JNull = Some empty_create_request"
| "decode_create_request _ = None"

section \<open>Numbers\<close>

text \<open>\<^verbatim>\<open>strconv.ParseUint(s, 10, 64)\<close> and \<^verbatim>\<open>strconv.Atoi\<close>.\<close>

definition parse_uint64 :: "string \<Rightarrow> nat option" where
  "parse_uint64 s =
     (if s \<noteq> [] \<and> list_all ascii_digit s \<and> decimal_value s < 2 ^ 64 then Some (nat (decimal_value s)) else None)"

definition parse_atoi :: "string \<Rightarrow> int option" where
  "parse_atoi s =
     (let negative = has_prefix s ''-''; digits = (if negative \<or> has_prefix s ''+'' then tl s else s); v = decimal_value digits
      in if digits = [] \<or> \<not> list_all ascii_digit digits then None
         else if negative then if v \<le> 2 ^ 63 then Some (- v) else None
         else if v < 2 ^ 63 then Some v else None)"

definition default_run_page_limit :: int where
  "default_run_page_limit = 50"

definition max_run_page_limit :: int where
  "max_run_page_limit = 100"

definition max_run_page_offset :: int where
  "max_run_page_offset = 1000000"

definition parse_bounded :: "(string \<times> string list) list \<Rightarrow> string \<Rightarrow> int \<Rightarrow> int \<Rightarrow> int \<Rightarrow> int option" where
  "parse_bounded values name low high initial =
     (case map_of values name of
        None \<Rightarrow> Some initial
      | Some raw \<Rightarrow> (case parse_atoi (hd raw) of None \<Rightarrow> None | Some v \<Rightarrow> if v < low \<or> high < v then None else Some v))"

definition parse_run_pagination :: "(string \<times> string list) list \<Rightarrow> (int \<times> int) option" where
  "parse_run_pagination values =
     (if list_ex (\<lambda>(key, entries). (key \<noteq> ''offset'' \<and> key \<noteq> ''limit'') \<or> length entries \<noteq> 1) values then None
      else
        (case parse_bounded values ''offset'' 0 max_run_page_offset 0 of
           None \<Rightarrow> None
         | Some offset \<Rightarrow> map_option (Pair offset) (parse_bounded values ''limit'' 1 max_run_page_limit default_run_page_limit)))"

definition last_event_sequence :: "string \<Rightarrow> nat option" where
  "last_event_sequence value =
     (if trim_space value = [] then Some 1
      else (case parse_uint64 value of None \<Rightarrow> None | Some n \<Rightarrow> if n = 2 ^ 64 - 1 then None else Some (n + 1)))"

end
