(* ===== verification/Http_Handlers.thy ===== *)
theory Http_Handlers
  imports Http_Router
begin

text \<open>
  The handlers of the HTTP interface (\<^verbatim>\<open>runs.go\<close>, \<^verbatim>\<open>approvals.go\<close>, \<^verbatim>\<open>credentials.go\<close>,
  \<^verbatim>\<open>events.go\<close>), the dispatch and the guards in front of it (\<^verbatim>\<open>router.go\<close>,
  \<^verbatim>\<open>security.go\<close>), the embedded pages (\<^verbatim>\<open>web.go\<close>) and the two ways to make a router.
\<close>

section \<open>Runs (runs.go, approvals.go)\<close>

definition list_runs_http :: "'w http_env \<Rightarrow> router \<Rightarrow> http_request \<Rightarrow> string \<Rightarrow> ('w, http_response) http" where
  "list_runs_http env ro rq req =
     (case parse_run_pagination (hr_query rq) of
        None \<Rightarrow> write_error env 400 ''INVALID_PAGINATION'' ''run pagination is invalid'' req
      | Some (offset, limit) \<Rightarrow> do {
          x \<leftarrow> call_world (ac_list_runs (he_calls env)
                 \<lparr>q_limit = limit, q_offset = offset, q_ids = cp_fixed_runs (ro_capabilities ro)\<rparr>);
          case x of
            Inl e \<Rightarrow> map_error env e req
          | Inr page \<Rightarrow> write_json env 200 (ValPage (page_runs page) offset limit (has_more page))
        })"

definition create_run_http :: "'w http_env \<Rightarrow> router \<Rightarrow> http_request \<Rightarrow> string \<Rightarrow> ('w, http_response) http" where
  "create_run_http env ro rq req =
     (case decode_body env ro False empty_create_request decode_create_request rq of
        Inl e \<Rightarrow> write_decode_error env e req
      | Inr input \<Rightarrow> do {
          x \<leftarrow> call_world (ac_create (he_calls env) input);
          case x of Inl e \<Rightarrow> map_error env e req | Inr r \<Rightarrow> write_json env 201 (ValRun r)
        })"

definition get_run_http :: "'w http_env \<Rightarrow> string \<Rightarrow> run_id \<Rightarrow> ('w, http_response) http" where
  "get_run_http env req i = do {
     x \<leftarrow> call_world (ac_get (he_calls env) i);
     case x of Inl e \<Rightarrow> map_error env e req | Inr r \<Rightarrow> write_json env 200 (ValRun r)
   }"

definition cancel_run_http :: "'w http_env \<Rightarrow> router \<Rightarrow> http_request \<Rightarrow> string \<Rightarrow> run_id \<Rightarrow> ('w, http_response) http" where
  "cancel_run_http env ro rq req i =
     (case decode_body env ro True () decode_empty rq of
        Inl e \<Rightarrow> write_decode_error env e req
      | Inr _ \<Rightarrow> do {
          x \<leftarrow> call_world (ac_cancel (he_calls env) i);
          case x of Inl e \<Rightarrow> map_error env e req | Inr _ \<Rightarrow> write_no_content
        })"

definition approval_http ::
    "'w http_env \<Rightarrow> router \<Rightarrow> http_request \<Rightarrow> string \<Rightarrow> run_id \<Rightarrow> digest \<Rightarrow> string \<Rightarrow> ('w, http_response) http" where
  "approval_http env ro rq req i d decision =
     (if d = [] then write_error env 400 ''INVALID_APPROVAL'' ''approval digest is required'' req
      else if decision = ''approve'' then
        (case decode_body env ro True () decode_empty rq of
           Inl e \<Rightarrow> write_decode_error env e req
         | Inr _ \<Rightarrow> do {
             x \<leftarrow> call_world (ac_approve (he_calls env) i d);
             case x of Inl e \<Rightarrow> map_error env e req | Inr _ \<Rightarrow> write_no_content
           })
      else
        (case decode_body env ro True False decode_terminate rq of
           Inl e \<Rightarrow> write_decode_error env e req
         | Inr terminate \<Rightarrow> do {
             x \<leftarrow> call_world (ac_reject (he_calls env) i d terminate);
             case x of Inl e \<Rightarrow> map_error env e req | Inr _ \<Rightarrow> write_no_content
           }))"

definition validate_config_http :: "'w http_env \<Rightarrow> router \<Rightarrow> http_request \<Rightarrow> string \<Rightarrow> ('w, http_response) http" where
  "validate_config_http env ro rq req =
     (case decode_body env ro False empty_create_request decode_create_request rq of
        Inl e \<Rightarrow> write_decode_error env e req
      | Inr input \<Rightarrow> do {
          report \<leftarrow> call_world (ac_preflight (he_calls env) input);
          write_json env 200 (ValReport report)
        })"

text \<open>The content of an artifact is redacted once more, before it is encoded.\<close>

definition artifact_http :: "'w http_env \<Rightarrow> string \<Rightarrow> run_id \<Rightarrow> string \<Rightarrow> ('w, http_response) http" where
  "artifact_http env req i a = do {
     x \<leftarrow> call_world (ac_get_artifact (he_calls env) i a);
     case x of
       Inl e \<Rightarrow> map_error env e req
     | Inr art \<Rightarrow> do {
         (st, _) \<leftarrow> State_Monad.get;
         write_json env 200 (ValArtifact (art\<lparr>art_content := redact (st_redactor st) (art_content art)\<rparr>))
       }
   }"

section \<open>Credentials (credentials.go)\<close>

definition store_credential :: "'w credential_calls \<Rightarrow> cred_ref \<Rightarrow> string \<Rightarrow> ('w, (api_error, unit) result) http" where
  "store_credential cc ref secret = do {
     found \<leftarrow> call_world (cc_status cc ref);
     case found of
       Inr status \<Rightarrow>
         if st_configured status then call_world (cc_update cc ref secret) else call_world (cc_add cc ref secret)
     | Inl e \<Rightarrow>
         if is_credential_error ErrCredentialNotFound e then call_world (cc_add cc ref secret)
         else State_Monad.return (Inl e)
   }"

definition credential_http ::
    "'w http_env \<Rightarrow> 'w credential_calls \<Rightarrow> router \<Rightarrow> http_request \<Rightarrow> string \<Rightarrow> string \<Rightarrow> string \<Rightarrow> ('w, http_response) http" where
  "credential_http env cc ro rq req provider host =
     (let ref = \<lparr>cr_provider = provider, cr_host = host\<rparr> in
      if hr_method rq = ''GET'' then do {
        x \<leftarrow> call_world (cc_status cc ref);
        case x of Inl e \<Rightarrow> map_error env e req | Inr status \<Rightarrow> write_json env 200 (ValCredential status)
      }
      else if hr_method rq = ''PUT'' then
        (case decode_body env ro False [] decode_secret rq of
           Inl e \<Rightarrow> write_decode_error env e req
         | Inr secret \<Rightarrow> do {
             register_secret secret;
             x \<leftarrow> store_credential cc ref secret;
             case x of Inl e \<Rightarrow> map_error env e req | Inr _ \<Rightarrow> write_no_content
           })
      else if hr_method rq = ''DELETE'' then do {
        x \<leftarrow> call_world (cc_clear cc ref);
        case x of Inl e \<Rightarrow> map_error env e req | Inr _ \<Rightarrow> write_no_content
      }
      else write_method_not_allowed env req)"

section \<open>Event streams (events.go)\<close>

text \<open>\<^verbatim>\<open>strings.Map\<close> drops control characters; a byte that begins no rune becomes U+FFFD.\<close>

function safe_runes :: "string \<Rightarrow> string" where
  "safe_runes [] = []"
| "safe_runes (c # s) =
     (let n = rune_len (c # s) in
      if n = 0 then [CHR 0xEF, CHR 0xBF, CHR 0xBD] @ safe_runes s
      else if code c < 32 \<or> code c = 127 then safe_runes s
      else take n (c # s) @ safe_runes (drop n (c # s)))"
  by pat_completeness auto
termination by (relation "measure length") auto

definition safe_event_type :: "string \<Rightarrow> string" where
  "safe_event_type value = (if safe_runes value = [] then ''RunEvent'' else safe_runes value)"

definition invalid_payload :: string where
  "invalid_payload = ''{\"code\":\"INVALID_EVENT_PAYLOAD\"}''"

definition event_data :: "'w http_env \<Rightarrow> run_event \<Rightarrow> string" where
  "event_data env e =
     (let payload = (if he_json_valid env (ev_payload e) then ev_payload e else invalid_payload) in
      case he_event_json env (ev_at e) payload of
        Some data \<Rightarrow> data
      | None \<Rightarrow> ''{\"at\":\"0001-01-01T00:00:00Z\",\"payload\":'' @ invalid_payload @ ''}'')"

definition event_frame :: "'w http_env \<Rightarrow> string list \<Rightarrow> run_event \<Rightarrow> string" where
  "event_frame env secrets e =
     (let redacted = redact secrets (event_data env e);
          data = (if he_json_valid env redacted then redacted else ''{\"code\":\"REDACTED_EVENT\"}'')
      in ''id: '' @ nat_string (ev_seq e) @ [newline] @ ''event: '' @ safe_event_type (redact secrets (ev_type e)) @ [newline]
         @ ''data: '' @ data @ [newline, newline])"

definition max_uint64 :: nat where
  "max_uint64 = 2 ^ 64 - 1"

text \<open>The stream: the text written, how many more writes succeed, the next sequence number, and whether it
  goes on.\<close>

record stream =
  sm_text :: string
  sm_room :: nat
  sm_next :: nat
  sm_open :: bool

fun write_events :: "'w http_env \<Rightarrow> string list \<Rightarrow> run_event list \<Rightarrow> stream \<Rightarrow> stream" where
  "write_events env secrets [] s = s"
| "write_events env secrets (e # es) s =
     (if sm_room s = 0 then s\<lparr>sm_open := False\<rparr>
      else
        (let s' = s\<lparr>sm_text := sm_text s @ event_frame env secrets e, sm_room := sm_room s - 1\<rparr> in
         if ev_seq e = max_uint64 then s'\<lparr>sm_open := False\<rparr>
         else write_events env secrets es (s'\<lparr>sm_next := ev_seq e + 1\<rparr>)))"

definition heartbeat :: string where
  "heartbeat = '': heartbeat'' @ [newline, newline]"

fun follow_events :: "'w http_env \<Rightarrow> run_id \<Rightarrow> 'w tick list \<Rightarrow> stream \<Rightarrow> ('w, stream) http" where
  "follow_events env i [] s = State_Monad.return s"
| "follow_events env i (TickHeartbeat change # ticks) s = do {
     call_world (\<lambda>w. ((), change w));
     if sm_room s = 0 then State_Monad.return (s\<lparr>sm_open := False\<rparr>)
     else follow_events env i ticks (s\<lparr>sm_text := sm_text s @ heartbeat, sm_room := sm_room s - 1\<rparr>)
   }"
| "follow_events env i (TickPoll change # ticks) s = do {
     call_world (\<lambda>w. ((), change w));
     x \<leftarrow> call_world (ac_list_events (he_calls env) i (sm_next s));
     case x of
       Inl e \<Rightarrow> State_Monad.return (s\<lparr>sm_open := False\<rparr>)
     | Inr es \<Rightarrow> do {
         (st, _) \<leftarrow> State_Monad.get;
         let s' = write_events env (st_redactor st) es s in
         if sm_open s' then follow_events env i ticks s' else State_Monad.return s'
       }
   }"

definition event_headers :: "(string \<times> string) list" where
  "event_headers = [(''X-Content-Type-Options'', ''nosniff''), (''Cache-Control'', ''no-cache''),
     (''Content-Type'', ''text/event-stream''), (''Connection'', ''keep-alive'')]"

text \<open>The stream itself, from a sequence number on, after the first listing.\<close>

definition stream_events :: "'w http_env \<Rightarrow> http_request \<Rightarrow> run_id \<Rightarrow> nat \<Rightarrow> run_event list \<Rightarrow> ('w, stream) http" where
  "stream_events env rq i from initial = do {
     (st, _) \<leftarrow> State_Monad.get;
     let s = write_events env (st_redactor st) initial
       \<lparr>sm_text = [], sm_room = he_writes env rq, sm_next = from, sm_open = True\<rparr> in
     if sm_open s then follow_events env i (he_ticks env rq) s else State_Monad.return s
   }"

definition events_http :: "'w http_env \<Rightarrow> http_request \<Rightarrow> string \<Rightarrow> run_id \<Rightarrow> ('w, http_response) http" where
  "events_http env rq req i =
     (case last_event_sequence (hr_header rq ''Last-Event-ID'') of
        None \<Rightarrow> write_error env 400 ''INVALID_LAST_EVENT_ID'' ''Last-Event-ID is not a valid sequence'' req
      | Some from \<Rightarrow>
          if \<not> hr_flushes rq then write_error env 500 ''SSE_UNSUPPORTED'' ''streaming is unavailable'' req
          else do {
            x \<leftarrow> call_world (ac_list_events (he_calls env) i from);
            case x of
              Inl e \<Rightarrow> map_error env e req
            | Inr initial \<Rightarrow> do {
                s \<leftarrow> stream_events env rq i from initial;
                State_Monad.return \<lparr>rs_status = 200, rs_headers = event_headers, rs_body = sm_text s\<rparr>
              }
          })"

section \<open>Dispatch (router.go)\<close>

fun trim_slashes :: "string \<Rightarrow> string" where
  "trim_slashes [] = []"
| "trim_slashes (c # s) = (if c = CHR ''/'' then trim_slashes s else c # s)"

definition split_path :: "string \<Rightarrow> string list" where
  "split_path path =
     (let trimmed = rev (trim_slashes (rev (trim_slashes path))) in
      if trimmed = [] then []
      else (let parts = split_on (CHR ''/'') trimmed in if [] \<in> set parts then [] else parts))"

definition allowed_run :: "router \<Rightarrow> run_id \<Rightarrow> bool" where
  "allowed_run ro i \<longleftrightarrow>
     (if i = [] then False
      else (case cp_fixed_runs (ro_capabilities ro) of None \<Rightarrow> True | Some fixed \<Rightarrow> i \<in> set fixed))"

definition mutation_method :: "string \<Rightarrow> bool" where
  "mutation_method m \<longleftrightarrow> m = ''POST'' \<or> m = ''PUT'' \<or> m = ''PATCH'' \<or> m = ''DELETE''"

text \<open>The body of most cases: a capability, a method, and the handler.\<close>

definition routed :: "'w http_env \<Rightarrow> http_request \<Rightarrow> string \<Rightarrow> bool \<Rightarrow> string \<Rightarrow> ('w, http_response) http \<Rightarrow> ('w, http_response) http" where
  "routed env rq req capable m handler =
     (if \<not> capable then write_not_found env req
      else if hr_method rq \<noteq> m then write_method_not_allowed env req
      else handler)"

definition dispatch_run ::
    "'w http_env \<Rightarrow> router \<Rightarrow> http_request \<Rightarrow> string \<Rightarrow> run_id \<Rightarrow> string list \<Rightarrow> ('w, http_response) http" where
  \<comment> \<open>the cases below \<^verbatim>\<open>/api/v1/runs/{id}\<close>\<close>
  "dispatch_run env ro rq req i rest =
     (let cp = ro_capabilities ro; allowed = allowed_run ro i in
      case rest of
        [] \<Rightarrow> routed env rq req (cp_read_runs cp \<and> allowed) ''GET'' (get_run_http env req i)
      | [a] \<Rightarrow>
          if a = ''cancel'' then routed env rq req (cp_cancel_runs cp \<and> allowed) ''POST'' (cancel_run_http env ro rq req i)
          else if a = ''events'' then routed env rq req (cp_events cp \<and> allowed) ''GET'' (events_http env rq req i)
          else write_not_found env req
      | [a, b] \<Rightarrow>
          if a = ''artifacts'' then routed env rq req (cp_artifacts cp \<and> allowed) ''GET'' (artifact_http env req i b)
          else write_not_found env req
      | [a, b, c] \<Rightarrow>
          if a = ''approvals'' \<and> (c = ''approve'' \<or> c = ''reject'')
          then routed env rq req (cp_approvals cp \<and> allowed) ''POST'' (approval_http env ro rq req i b c)
          else write_not_found env req
      | _ \<Rightarrow> write_not_found env req)"

definition dispatch_runs :: "'w http_env \<Rightarrow> router \<Rightarrow> http_request \<Rightarrow> string \<Rightarrow> ('w, http_response) http" where
  "dispatch_runs env ro rq req =
     (if hr_method rq = ''GET'' then
        (if cp_list_runs (ro_capabilities ro) then list_runs_http env ro rq req else write_not_found env req)
      else if hr_method rq = ''POST'' then
        (if cp_create_runs (ro_capabilities ro) then create_run_http env ro rq req else write_not_found env req)
      else write_method_not_allowed env req)"

definition dispatch_credentials ::
    "'w http_env \<Rightarrow> router \<Rightarrow> http_request \<Rightarrow> string \<Rightarrow> string \<Rightarrow> string \<Rightarrow> ('w, http_response) http" where
  \<comment> \<open>the capability comes with a service, see \<^verbatim>\<open>new_router\<close>\<close>
  "dispatch_credentials env ro rq req provider host =
     (case (cp_credentials (ro_capabilities ro), he_credentials env) of
        (True, Some cc) \<Rightarrow> credential_http env cc ro rq req provider host
      | _ \<Rightarrow> write_not_found env req)"

definition dispatch :: "'w http_env \<Rightarrow> router \<Rightarrow> http_request \<Rightarrow> string \<Rightarrow> ('w, http_response) http" where
  "dispatch env ro rq req =
     (case split_path (hr_path rq) of
        api # v1 # what # rest \<Rightarrow>
          if api \<noteq> ''api'' \<or> v1 \<noteq> ''v1'' then write_not_found env req
          else if what = ''runs'' then
            (case rest of [] \<Rightarrow> dispatch_runs env ro rq req | i # below \<Rightarrow> dispatch_run env ro rq req i below)
          else if what = ''config'' \<and> rest = [''validate'']
          then routed env rq req (cp_config_validation (ro_capabilities ro)) ''POST'' (validate_config_http env ro rq req)
          else
            (case rest of
               [provider, host] \<Rightarrow>
                 if what = ''credentials'' then dispatch_credentials env ro rq req provider host else write_not_found env req
             | _ \<Rightarrow> write_not_found env req)
      | _ \<Rightarrow> write_not_found env req)"

section \<open>The guards\<close>

definition session_cookie_name :: string where
  "session_cookie_name = ''ai4se_session''"

definition session_cookie :: "router \<Rightarrow> string \<times> string" where
  "session_cookie ro = (''Set-Cookie'', session_cookie_name @ ''='' @ ro_session ro @ ''; Path=/; HttpOnly; SameSite=Strict'')"

definition has_query :: "http_request \<Rightarrow> string \<Rightarrow> bool" where
  "has_query rq name \<longleftrightarrow> map_of (hr_query rq) name \<noteq> None"

definition get_query :: "http_request \<Rightarrow> string \<Rightarrow> string" where
  "get_query rq name = (case map_of (hr_query rq) name of Some (v # vs) \<Rightarrow> v | _ \<Rightarrow> [])"

definition take_bootstrap :: "router \<Rightarrow> string \<Rightarrow> ('w, bool) http" where
  \<comment> \<open>the section under \<^verbatim>\<open>bootstrapMu\<close>\<close>
  "take_bootstrap ro token = State (\<lambda>(st, w).
     let valid = (\<not> st_bootstrap_used st \<and> secure_equal token (ro_bootstrap ro)) in
     (valid, if valid then st\<lparr>st_bootstrap_used := True\<rparr> else st, w))"

definition bootstrap_http :: "'w http_env \<Rightarrow> router \<Rightarrow> http_request \<Rightarrow> string \<Rightarrow> ('w, http_response) http" where
  "bootstrap_http env ro rq req =
     (if hr_method rq \<noteq> ''GET'' then write_method_not_allowed env req
      else do {
        valid \<leftarrow> take_bootstrap ro (get_query rq ''bootstrap'');
        if valid
        then State_Monad.return
          \<lparr>rs_status = 303,
           rs_headers = base_headers @ [session_cookie ro, (''Content-Type'', ''text/html; charset=utf-8''), (''Location'', ''/'')],
           rs_body = ''<a href=\"/\">See Other</a>.'' @ [newline, newline]\<rparr>
        else write_error env 401 ''INVALID_BOOTSTRAP'' ''bootstrap token is invalid or already used'' req
      })"

definition csrf_header :: string where
  "csrf_header = ''X-CSRF-Token''"

text \<open>What the local router refuses before dispatching, with the code of the error.\<close>

definition guard_error :: "'w http_env \<Rightarrow> router \<Rightarrow> http_request \<Rightarrow> (string \<times> string) option" where
  "guard_error env ro rq =
     (let origin = hr_header rq ''Origin'' in
      if \<not> ro_local ro then None
      else if \<not> valid_session ro rq then Some (''SESSION_REQUIRED'', ''a valid local session is required'')
      else if origin \<noteq> [] \<and> \<not> valid_origin env ro origin then Some (''INVALID_ORIGIN'', ''request Origin is not allowed'')
      else if mutation_method (hr_method rq) then
        (if origin = [] then Some (''INVALID_ORIGIN'', ''request Origin is not allowed'')
         else if \<not> secure_equal (hr_header rq csrf_header) (ro_csrf ro)
         then Some (''CSRF_REQUIRED'', ''a valid CSRF token is required'')
         else None)
      else None)"

section \<open>The embedded pages (web.go)\<close>

fun asset_extension_from :: "string \<Rightarrow> bool" where
  \<comment> \<open>the path from its end\<close>
  "asset_extension_from [] = False"
| "asset_extension_from (c # s) = (if c = CHR ''/'' then False else if c = CHR ''.'' then True else asset_extension_from s)"

definition has_asset_extension :: "string \<Rightarrow> bool" where
  "has_asset_extension path = asset_extension_from (rev path)"

definition embedded_page :: "string \<Rightarrow> (http_request \<Rightarrow> http_response) \<Rightarrow> http_request \<Rightarrow> http_response" where
  "embedded_page index files rq =
     (if hr_method rq = ''GET'' \<and> \<not> has_asset_extension (hr_path rq)
      then \<lparr>rs_status = 200, rs_headers = base_headers @ [(''Content-Type'', ''text/html; charset=utf-8'')], rs_body = index\<rparr>
      else files rq)"

definition serve_shell :: "shell \<Rightarrow> http_request \<Rightarrow> http_response" where
  "serve_shell sh rq = (case sh of Embedded index files \<Rightarrow> embedded_page index files rq | OtherShell f \<Rightarrow> f rq)"

text \<open>\<^verbatim>\<open>bytes.LastIndex\<close>, and the script that gives the page the CSRF token.\<close>

fun last_index :: "string \<Rightarrow> string \<Rightarrow> nat option" where
  "last_index p [] = (if p = [] then Some 0 else None)"
| "last_index p (c # s) =
     (case last_index p s of Some n \<Rightarrow> Some (n + 1) | None \<Rightarrow> if has_prefix (c # s) p then Some 0 else None)"

definition runtime_script :: "string \<Rightarrow> string" where
  "runtime_script config = ''<script>window.__AI4SE_RUNTIME__='' @ config @ '';</script>''"

definition inject_script :: "string \<Rightarrow> string \<Rightarrow> string" where
  "inject_script config index =
     (let n = (case last_index ''</head>'' index of None \<Rightarrow> length index | Some n \<Rightarrow> n) in
      take n index @ runtime_script config @ drop n index)"

definition local_runtime_shell :: "(string \<Rightarrow> capabilities \<Rightarrow> string) \<Rightarrow> string \<Rightarrow> capabilities \<Rightarrow> shell \<Rightarrow> shell" where
  "local_runtime_shell config_json csrf cp sh =
     (case sh of
        Embedded index files \<Rightarrow>
          Embedded (inject_script
            (config_json csrf (cp\<lparr>cp_fixed_runs := map_option (sort_key id) (cp_fixed_runs cp)\<rparr>)) index) files
      | OtherShell f \<Rightarrow> OtherShell f)"

section \<open>One request\<close>

definition serve_http :: "'w http_env \<Rightarrow> router \<Rightarrow> http_request \<Rightarrow> ('w, http_response) http" where
  "serve_http env ro rq = do {
     req \<leftarrow> request_id env;
     if ro_local ro \<and> \<not> valid_host ro (hr_host rq)
     then write_error env 403 ''INVALID_HOST'' ''request Host is not allowed'' req
     else if hr_path rq = ''/healthz'' then
       (if hr_method rq \<noteq> ''GET'' then write_method_not_allowed env req else write_json env 200 ValHealth)
     else if ro_local ro \<and> hr_path rq = ''/'' \<and> has_query rq ''bootstrap'' then bootstrap_http env ro rq req
     else
       (case guard_error env ro rq of
          Some (c, message) \<Rightarrow> write_error env 403 c message req
        | None \<Rightarrow>
            (case ro_shell ro of
               Some sh \<Rightarrow>
                 if hr_method rq = ''GET'' \<and> \<not> has_prefix (hr_path rq) ''/api/''
                 then State_Monad.return (serve_shell sh rq)
                 else dispatch env ro rq req
             | None \<Rightarrow> dispatch env ro rq req))
   }"

text \<open>Requests one after the other.\<close>

fun serve_all :: "'w http_env \<Rightarrow> router \<Rightarrow> http_request list \<Rightarrow> ('w, http_response list) http" where
  "serve_all env ro [] = State_Monad.return []"
| "serve_all env ro (rq # rqs) = do {
     rs \<leftarrow> serve_http env ro rq;
     rss \<leftarrow> serve_all env ro rqs;
     State_Monad.return (rs # rss)
   }"

section \<open>Making a router\<close>

text \<open>\<^verbatim>\<open>net.SplitHostPort\<close>.\<close>

definition net_split_host_port :: "string \<Rightarrow> (string \<times> string) option" where
  "net_split_host_port hp =
     (case cut_last (CHR '':'') hp of
        None \<Rightarrow> None
      | Some (before, port) \<Rightarrow>
          if has_prefix hp ''['' then
            (case cut_first (CHR '']'') hp of
               None \<Rightarrow> None
             | Some (host, rest) \<Rightarrow>
                 if rest \<noteq> CHR '':'' # port \<or> CHR ''['' \<in> set (tl host) \<or> CHR ''['' \<in> set rest \<or> CHR '']'' \<in> set rest then None
                 else Some (tl host, port))
          else if CHR '':'' \<in> set before \<or> CHR ''['' \<in> set hp \<or> CHR '']'' \<in> set hp then None
          else Some (before, port))"

fun trim_brackets :: "string \<Rightarrow> string" where
  "trim_brackets [] = []"
| "trim_brackets (c # s) = (if c = CHR ''['' \<or> c = CHR '']'' then trim_brackets s else c # s)"

definition loopback_host :: "string \<Rightarrow> bool" where
  "loopback_host host \<longleftrightarrow>
     (let name = (case net_split_host_port host of Some (h, _) \<Rightarrow> h | None \<Rightarrow> host) in
      rev (trim_brackets (rev (trim_brackets name))) = ''127.0.0.1'')"

record router_options =
  op_capabilities :: capabilities
  op_host :: string
  op_max_body :: int
  op_secrets :: "string list"
  op_redactor :: "string list option" \<comment> \<open>the strings of a redactor handed over\<close>
  op_shell :: "shell option"

definition default_body_limit :: int where
  "default_body_limit = 1048576"

definition new_router :: "'w http_env \<Rightarrow> router_options \<Rightarrow> bool \<Rightarrow> (string, router \<times> router_state) result" where
  "new_router env op local =
     (if cp_credentials (op_capabilities op) \<and> he_credentials env = None
      then Inl ''httpapi: credential capability requires a credential service''
      else
        Inr (\<lparr>ro_capabilities = op_capabilities op, ro_local = local, ro_host = to_lower (op_host op),
              ro_max_body = (if op_max_body op \<le> 0 then default_body_limit else op_max_body op), ro_shell = op_shell op,
              ro_bootstrap = [], ro_session = [], ro_csrf = []\<rparr>,
             \<lparr>st_reads = 0,
              st_redactor = (case op_redactor op of
                 None \<Rightarrow> new_redactor (op_secrets op)
               | Some secrets \<Rightarrow> foldl (\<lambda>r s. register s r) secrets (op_secrets op)),
              st_bootstrap_used = False\<rparr>))"

definition new_local_router ::
    "(string \<Rightarrow> capabilities \<Rightarrow> string) \<Rightarrow> 'w http_env \<Rightarrow> router_options \<Rightarrow> (string, router \<times> router_state) result" where
  "new_local_router config_json env op =
     (if op_host op = [] \<or> \<not> loopback_host (op_host op)
      then Inl ''httpapi: local host must be a literal loopback address''
      else
        (case new_router env op True of
           Inl e \<Rightarrow> Inl e
         | Inr (ro, st) \<Rightarrow>
             (case (he_random env 0, he_random env 1, he_random env 2) of
                (Some b, Some s, Some c) \<Rightarrow>
                  let bootstrap = base64url b; session = base64url s; csrf = base64url c in
                  if secure_equal bootstrap session \<or> secure_equal bootstrap csrf \<or> secure_equal session csrf
                  then Inl ''httpapi: random security tokens collided''
                  else
                    Inr (ro\<lparr>ro_bootstrap := bootstrap, ro_session := session, ro_csrf := csrf,
                           ro_shell := map_option (local_runtime_shell config_json csrf (ro_capabilities ro)) (ro_shell ro)\<rparr>,
                         st\<lparr>st_reads := 3,
                           st_redactor := register csrf (register session (register bootstrap (st_redactor st)))\<rparr>)
              | _ \<Rightarrow> Inl ''httpapi: random bytes are unavailable'')))"

definition new_demo_router :: "'w http_env \<Rightarrow> router_options \<Rightarrow> (string, router \<times> router_state) result" where
  "new_demo_router env op =
     new_router (env\<lparr>he_credentials := None\<rparr>)
       (op\<lparr>op_capabilities := demo_capabilities (case cp_fixed_runs (op_capabilities op) of None \<Rightarrow> [] | Some fixed \<Rightarrow> fixed)\<rparr>) False"

end
