(* ===== verification/Http_Safe.thy ===== *)
theory Http_Safe
  imports Http_Handlers
begin

text \<open>
  What the HTTP interface guarantees: nothing but a request that passes the guards reaches the
  application, the bootstrap token opens one session, API responses hide the registered secrets,
  and the demo router only reads its fixed runs.
\<close>

section \<open>A calculus of handlers\<close>

text \<open>A handler that keeps an invariant of the router's state and whose result satisfies \<^verbatim>\<open>Q\<close>.\<close>

definition keeping :: "(router_state \<Rightarrow> bool) \<Rightarrow> ('w, 'a) http \<Rightarrow> ('a \<Rightarrow> bool) \<Rightarrow> bool" where
  "keeping I m Q \<longleftrightarrow> (\<forall>st w x st' w'. I st \<longrightarrow> run_state m (st, w) = (x, st', w') \<longrightarrow> I st' \<and> Q x)"

lemma keepingD: "keeping I m Q \<Longrightarrow> I st \<Longrightarrow> run_state m (st, w) = (x, st', w') \<Longrightarrow> I st' \<and> Q x"
  unfolding keeping_def by blast

lemma keeping_return: "Q x \<Longrightarrow> keeping I (State_Monad.return x) Q"
  by (simp add: keeping_def)

lemma keeping_bind:
  assumes "keeping I m (\<lambda>_. True)" and "\<And>x. keeping I (k x) Q"
  shows "keeping I (State_Monad.bind m k) Q"
  unfolding keeping_def
proof (intro allI impI)
  fix st w y st' w'
  assume i: "I st" and run: "run_state (State_Monad.bind m k) (st, w) = (y, st', w')"
  obtain x st1 w1 where x: "run_state m (st, w) = (x, st1, w1)" by (metis prod.exhaust)
  have "I st1" using keepingD [OF assms(1) i x] by blast
  moreover have "run_state (k x) (st1, w1) = (y, st', w')" using run x by simp
  ultimately show "I st' \<and> Q y" using keepingD [OF assms(2)] by blast
qed

lemma keeping_call: "keeping I (call_world f) (\<lambda>_. True)"
  by (auto simp: keeping_def call_world_def split: prod.splits)

definition json_headers :: "(string \<times> string) list" where
  "json_headers = base_headers @ [(''Content-Type'', ''application/json'')]"

text \<open>An invariant that no handler breaks, and what holds of every response they give.\<close>

locale response_rule =
  fixes I :: "router_state \<Rightarrow> bool" and Q :: "http_response \<Rightarrow> bool"
  assumes reads: "I st \<Longrightarrow> I (st\<lparr>st_reads := n\<rparr>)"
    and registers: "I st \<Longrightarrow> I (st\<lparr>st_redactor := register s (st_redactor st)\<rparr>)"
    and json: "I st \<Longrightarrow> Q \<lparr>rs_status = status, rs_headers = json_headers, rs_body = redact (st_redactor st) encoded @ [newline]\<rparr>"
    and empty: "Q \<lparr>rs_status = 204, rs_headers = base_headers, rs_body = []\<rparr>"
    and streamed: "Q \<lparr>rs_status = 200, rs_headers = event_headers, rs_body = body\<rparr>"
begin

lemma keeping_request_id: "keeping I (request_id env) (\<lambda>_. True)"
  unfolding request_id_def
  by (rule keeping_bind [OF _ keeping_return]) (auto simp: keeping_def random_token_def reads)

lemma keeping_write_text: "keeping I (write_text status encoded) Q"
  using json by (simp add: keeping_def write_text_def json_headers_def)

lemma keeping_write_error: "keeping I (write_error env status c message req) Q"
  using keeping_write_text unfolding keeping_def write_error_def by fastforce

lemma keeping_write_json: "keeping I (write_json env status v) Q"
  unfolding write_json_def
  by (auto intro: keeping_write_text keeping_bind [OF keeping_request_id keeping_write_error] split: option.splits)

lemma keeping_no_content: "keeping I write_no_content Q"
  unfolding write_no_content_def by (rule keeping_return) (rule empty)

lemma keeping_map_error: "keeping I (map_error env e req) Q"
  unfolding map_error_def by (simp add: keeping_write_error)

lemma keeping_decode_error: "keeping I (write_decode_error env e req) Q"
  unfolding write_decode_error_def by (simp add: keeping_write_error)

lemma keeping_refusals: "keeping I (write_not_found env req) Q" "keeping I (write_method_not_allowed env req) Q"
  unfolding write_not_found_def write_method_not_allowed_def by (rule keeping_write_error)+

lemma keeping_register: "keeping I (register_secret s) (\<lambda>_. True)"
  by (auto simp: keeping_def register_secret_def registers)

lemmas writes = keeping_write_error keeping_write_json keeping_no_content keeping_map_error keeping_decode_error keeping_refusals

lemma keeping_run_handlers:
  "keeping I (list_runs_http env ro rq req) Q" "keeping I (create_run_http env ro rq req) Q"
  "keeping I (get_run_http env req i) Q" "keeping I (cancel_run_http env ro rq req i) Q"
  "keeping I (approval_http env ro rq req i d decision) Q" "keeping I (validate_config_http env ro rq req) Q"
  unfolding list_runs_http_def create_run_http_def get_run_http_def cancel_run_http_def approval_http_def validate_config_http_def
  by (auto intro!: writes keeping_bind [OF keeping_call] split: option.splits sum.splits prod.splits)

lemma keeping_artifact: "keeping I (artifact_http env req i a) Q"
  unfolding artifact_http_def
proof (rule keeping_bind [OF keeping_call])
  fix x :: "(api_error, artifact) result"
  have "keeping I (do { (st, _) \<leftarrow> State_Monad.get; write_json env 200 (v st) }) Q" for v :: "router_state \<Rightarrow> api_value"
    using keeping_write_json unfolding keeping_def by fastforce
  then show "keeping I (case x of Inl e \<Rightarrow> map_error env e req
      | Inr art \<Rightarrow> do {
          (st, _) \<leftarrow> State_Monad.get;
          write_json env 200 (ValArtifact (art\<lparr>art_content := redact (st_redactor st) (art_content art)\<rparr>)) }) Q"
    by (cases x) (auto intro: keeping_map_error)
qed

lemma keeping_store_credential: "keeping I (store_credential cc ref secret) (\<lambda>_. True)"
  unfolding store_credential_def
  by (auto intro!: keeping_bind [OF keeping_call] keeping_call keeping_return split: sum.splits)

lemma keeping_credential: "keeping I (credential_http env cc ro rq req provider host) Q"
proof -
  have "keeping I (do { register_secret secret; x \<leftarrow> store_credential cc ref secret;
      case x of Inl e \<Rightarrow> map_error env e req | Inr _ \<Rightarrow> write_no_content }) Q" for secret ref
    by (rule keeping_bind [OF keeping_register keeping_bind [OF keeping_store_credential]]) (auto intro: writes split: sum.splits)
  then show ?thesis
    unfolding credential_http_def Let_def
    by (auto intro!: writes keeping_bind [OF keeping_call] split: sum.splits)
qed

lemma keeping_follow: "keeping I (follow_events env i ticks s) (\<lambda>_. True)"
proof (induction ticks arbitrary: s)
  case (Cons tick ticks)
  show ?case
  proof (cases tick)
    case (TickHeartbeat change)
    then show ?thesis using Cons by (auto intro!: keeping_bind [OF keeping_call] keeping_return)
  next
    case (TickPoll change)
    have "keeping I (do { (st, _) \<leftarrow> State_Monad.get;
        let s' = write_events env (st_redactor st) es s in
        if sm_open s' then follow_events env i ticks s' else State_Monad.return s' }) (\<lambda>_. True)" for es
      using Cons unfolding keeping_def by (auto simp: Let_def split: if_splits)
    then show ?thesis using TickPoll by (auto intro!: keeping_bind [OF keeping_call] keeping_return split: sum.splits)
  qed
qed (auto intro: keeping_return)

lemma keeping_stream: "keeping I (stream_events env rq i from initial) (\<lambda>_. True)"
  unfolding stream_events_def keeping_def
  using keeping_follow [of env i "he_ticks env rq"] by (auto simp: keeping_def Let_def split: if_splits)

lemma keeping_events: "keeping I (events_http env rq req i) Q"
proof -
  have "keeping I (do { s \<leftarrow> stream_events env rq i from initial;
      State_Monad.return \<lparr>rs_status = 200, rs_headers = event_headers, rs_body = sm_text s\<rparr> }) Q" for "from" initial
    by (rule keeping_bind [OF keeping_stream], rule keeping_return, rule streamed)
  then show ?thesis
    unfolding events_http_def
    by (auto intro!: writes keeping_bind [OF keeping_call] split: option.splits sum.splits)
qed

lemma keeping_routed: "keeping I handler Q \<Longrightarrow> keeping I (routed env rq req capable m handler) Q"
  unfolding routed_def by (simp add: writes)

lemma keeping_dispatch_run: "keeping I (dispatch_run env ro rq req i rest) Q"
proof -
  note handlers = keeping_routed [OF keeping_run_handlers(3)] keeping_routed [OF keeping_run_handlers(4)]
    keeping_routed [OF keeping_run_handlers(5)] keeping_routed [OF keeping_artifact] keeping_routed [OF keeping_events]
  show ?thesis
    by (cases rest rule: remdups_adj.cases; cases "tl (tl rest)"; cases "tl (tl (tl rest))")
      (simp_all add: dispatch_run_def Let_def handlers writes)
qed

lemma keeping_dispatch: "keeping I (dispatch env ro rq req) Q"
proof (cases "split_path (hr_path rq)")
  case (Cons api parts)
  have c: "keeping I (dispatch_credentials env ro rq req p h) Q" for p h
    by (cases "cp_credentials (ro_capabilities ro)"; cases "he_credentials env")
      (simp_all add: dispatch_credentials_def keeping_credential writes)
  have r: "keeping I (dispatch_runs env ro rq req) Q"
    unfolding dispatch_runs_def by (simp add: keeping_run_handlers writes)
  show ?thesis
  proof (cases parts)
    case Nil
    then show ?thesis by (simp add: dispatch_def Cons writes)
  next
    case (Cons v1 parts')
    note parts = this
    show ?thesis
    proof (cases parts')
      case Nil
      then show ?thesis by (simp add: dispatch_def \<open>split_path (hr_path rq) = api # parts\<close> parts writes)
    next
      case (Cons what rest)
      have "keeping I (case rest of [p, h] \<Rightarrow>
          if what = ''credentials'' then dispatch_credentials env ro rq req p h else write_not_found env req
          | _ \<Rightarrow> write_not_found env req) Q"
        by (cases rest rule: remdups_adj.cases; cases "tl (tl rest)") (simp_all add: c writes)
      moreover have "keeping I (case rest of [] \<Rightarrow> dispatch_runs env ro rq req | i # below \<Rightarrow> dispatch_run env ro rq req i below) Q"
        by (cases rest) (simp_all add: r keeping_dispatch_run)
      ultimately show ?thesis
        by (simp add: dispatch_def \<open>split_path (hr_path rq) = api # parts\<close> parts Cons writes
            keeping_routed [OF keeping_run_handlers(6)])
    qed
  qed
qed (simp add: dispatch_def writes)

text \<open>The whole request, where pages and the bootstrap are taken care of.\<close>

lemma keeping_serve:
  assumes "\<And>sh. ro_shell ro = Some sh \<Longrightarrow> \<not> has_prefix (hr_path rq) ''/api/'' \<Longrightarrow> Q (serve_shell sh rq)"
    and "\<And>req. ro_local ro \<Longrightarrow> hr_path rq = ''/'' \<Longrightarrow> has_query rq ''bootstrap'' \<Longrightarrow> keeping I (bootstrap_http env ro rq req) Q"
  shows "keeping I (serve_http env ro rq) Q"
  unfolding serve_http_def
proof (rule keeping_bind [OF keeping_request_id])
  fix req
  have page: "keeping I (State_Monad.return (serve_shell sh rq)) Q"
    if "ro_shell ro = Some sh" "\<not> has_prefix (hr_path rq) ''/api/''" for sh
    by (rule keeping_return) (rule assms(1) [OF that])
  have "keeping I (case guard_error env ro rq of
      Some (c, message) \<Rightarrow> write_error env 403 c message req
    | None \<Rightarrow> (case ro_shell ro of
        Some sh \<Rightarrow> if hr_method rq = ''GET'' \<and> \<not> has_prefix (hr_path rq) ''/api/''
          then State_Monad.return (serve_shell sh rq) else dispatch env ro rq req
      | None \<Rightarrow> dispatch env ro rq req)) Q"
    by (cases "guard_error env ro rq"; cases "ro_shell ro") (auto simp: keeping_dispatch writes page)
  then show "keeping I (if ro_local ro \<and> \<not> valid_host ro (hr_host rq)
      then write_error env 403 ''INVALID_HOST'' ''request Host is not allowed'' req
      else if hr_path rq = ''/healthz'' then
        (if hr_method rq \<noteq> ''GET'' then write_method_not_allowed env req else write_json env 200 ValHealth)
      else if ro_local ro \<and> hr_path rq = ''/'' \<and> has_query rq ''bootstrap'' then bootstrap_http env ro rq req
      else (case guard_error env ro rq of
          Some (c, message) \<Rightarrow> write_error env 403 c message req
        | None \<Rightarrow> (case ro_shell ro of
            Some sh \<Rightarrow> if hr_method rq = ''GET'' \<and> \<not> has_prefix (hr_path rq) ''/api/''
              then State_Monad.return (serve_shell sh rq) else dispatch env ro rq req
          | None \<Rightarrow> dispatch env ro rq req))) Q"
    using assms(2) by (auto simp: writes)
qed

end

section \<open>Secrets\<close>

definition knows :: "string set \<Rightarrow> router_state \<Rightarrow> bool" where
  "knows secrets st \<longleftrightarrow> (\<exists>ss. st_redactor st = new_redactor ss \<and> secrets \<subseteq> set ss)"

definition hides :: "string set \<Rightarrow> http_response \<Rightarrow> bool" where
  "hides secrets rs \<longleftrightarrow>
     (rs_headers rs = json_headers \<longrightarrow> (\<forall>s \<in> secrets. apart s \<longrightarrow> newline \<notin> set s \<longrightarrow> \<not> contains (rs_body rs) s))"

lemma register_new: "register s (new_redactor ss) = new_redactor (ss @ [s])"
  by (simp add: new_redactor_def)

lemma knows_register: "knows secrets st \<Longrightarrow> knows (insert s secrets) (st\<lparr>st_redactor := register s (st_redactor st)\<rparr>)"
proof -
  assume "knows secrets st"
  then obtain ss where "st_redactor st = new_redactor ss" "secrets \<subseteq> set ss" by (auto simp: knows_def)
  then show ?thesis unfolding knows_def by (intro exI [of _ "ss @ [s]"]) (auto simp: register_new)
qed

lemma contains_newline: "newline \<notin> set s \<Longrightarrow> contains (t @ [newline]) s \<Longrightarrow> contains t s"
  by (cases s rule: rev_cases) (auto simp: sublist_append prefix_Cons sublist_Cons_right)

lemma other_headers [simp]: "event_headers \<noteq> json_headers" "base_headers \<noteq> json_headers"
  by (simp_all add: event_headers_def json_headers_def base_headers_def)

interpretation hiding: response_rule "knows secrets" "hides secrets" for secrets
proof (unfold_locales, goal_cases)
  case (2 st s)
  then show ?case using knows_register [of secrets st s] by (auto simp: knows_def)
next
  case (3 st status encoded)
  then show ?case
    by (auto simp: hides_def knows_def dest!: contains_newline registered_secret_is_redacted_in [rotated])
qed (auto simp: knows_def hides_def)

interpretation knowing: response_rule "knows secrets" "\<lambda>_. True" for secrets
proof (unfold_locales, goal_cases)
  case (2 st s)
  then show ?case using knows_register [of secrets st s] by (auto simp: knows_def)
qed (auto simp: knows_def)

lemma knows_after: "knows secrets st \<Longrightarrow> run_state (serve_http env ro rq) (st, w) = (rs, st', w') \<Longrightarrow> knows secrets st'"
proof -
  have "keeping (knows secrets) (take_bootstrap ro token) (\<lambda>_. True)" for token
    by (auto simp: keeping_def take_bootstrap_def knows_def Let_def)
  then have "keeping (knows secrets) (bootstrap_http env ro rq req) (\<lambda>_. True)" for req
    unfolding bootstrap_http_def
    by (auto intro!: knowing.writes keeping_bind keeping_return)
  then have "keeping (knows secrets) (serve_http env ro rq) (\<lambda>_. True)"
    by (intro knowing.keeping_serve) auto
  then show "knows secrets st \<Longrightarrow> run_state (serve_http env ro rq) (st, w) = (rs, st', w') \<Longrightarrow> knows secrets st'"
    by (auto dest: keepingD)
qed

lemma api_hides:
  assumes "has_prefix (hr_path rq) ''/api/''"
  shows "keeping (knows secrets) (serve_http env ro rq) (hides secrets)"
  by (rule hiding.keeping_serve) (use assms in auto)

lemma all_hide:
  assumes "knows secrets st" and "run_state (serve_all env ro rqs) (st, w) = (rss, st', w')"
  shows "list_all2 (\<lambda>rq rs. has_prefix (hr_path rq) ''/api/'' \<longrightarrow> hides secrets rs) rqs rss"
  using assms
proof (induction rqs arbitrary: st w rss)
  case (Cons rq rqs)
  obtain rs st1 w1 where one: "run_state (serve_http env ro rq) (st, w) = (rs, st1, w1)" by (metis prod.exhaust)
  obtain rss' where rest: "run_state (serve_all env ro rqs) (st1, w1) = (rss', st', w')" "rss = rs # rss'"
    using Cons.prems(2) one by (auto split: prod.splits)
  have "has_prefix (hr_path rq) ''/api/'' \<Longrightarrow> hides secrets rs"
    using keepingD [OF api_hides Cons.prems(1) one] by blast
  then show ?case using Cons.IH [OF knows_after [OF Cons.prems(1) one] rest(1)] rest(2) by simp
qed simp

section \<open>Tokens\<close>

lemma base64url_length: "length (base64url bs) = (length bs * 4 + 2) div 3"
  by (induction bs rule: base64url.induct) auto

lemma base64url_char_plain: "n < 64 \<Longrightarrow> base64url_char n \<notin> {CHR ''['', CHR '']'', newline}"
proof -
  assume "n < 64"
  then have "n \<in> set [0..<64]" by simp
  moreover have "list_all (\<lambda>n. base64url_char n \<notin> {CHR ''['', CHR '']'', newline}) [0..<64]" by code_simp
  ultimately show ?thesis unfolding list_all_iff by blast
qed

lemma base64url_plain:
  "list_all (\<lambda>b. b < 256) bs \<Longrightarrow> set (base64url bs) \<inter> {CHR ''['', CHR '']'', newline} = {}"
proof (induction bs rule: base64url.induct)
  case (1 a b c bs)
  have "a div 4 < 64" "a mod 4 * 16 + b div 16 < 64" "b mod 16 * 4 + c div 64 < 64" "c mod 64 < 64" using 1 by auto
  then have "set [base64url_char (a div 4), base64url_char (a mod 4 * 16 + b div 16), base64url_char (b mod 16 * 4 + c div 64),
      base64url_char (c mod 64)] \<inter> {CHR ''['', CHR '']'', newline} = {}"
    using base64url_char_plain by simp
  then show ?case using 1 by auto
next
  case (2 a b)
  have "a div 4 < 64" "a mod 4 * 16 + b div 16 < 64" "b mod 16 * 4 < 64" using 2 by auto
  then show ?case using base64url_char_plain by simp
next
  case (3 a)
  have "a div 4 < 64" "a mod 4 * 16 < 64" using 3 by auto
  then show ?case using base64url_char_plain by simp
qed simp

lemma token_apart:
  assumes "length bs = 32" and "list_all (\<lambda>b. b < 256) bs"
  shows "apart (base64url bs) \<and> newline \<notin> set (base64url bs)"
proof -
  have l: "length (base64url bs) = 43" using assms(1) by (simp add: base64url_length)
  then have "\<not> contains ''REDACTED'' (base64url bs)" by (auto dest: sublist_length_le)
  moreover have "base64url bs \<noteq> []" using l by auto
  ultimately show ?thesis using base64url_plain [OF assms(2)] by (auto simp: apart_def)
qed

text \<open>The random source gives 32 bytes or fails.\<close>

definition random_ok :: "'w http_env \<Rightarrow> bool" where
  "random_ok env \<longleftrightarrow> (\<forall>n bs. he_random env n = Some bs \<longrightarrow> length bs = 32 \<and> list_all (\<lambda>b. b < 256) bs)"

lemma local_router_made:
  assumes "new_local_router config_json env op = Inr (ro, st)"
  obtains b t c where "he_random env 0 = Some b" "he_random env 1 = Some t" "he_random env 2 = Some c"
    "ro_bootstrap ro = base64url b" "ro_session ro = base64url t" "ro_csrf ro = base64url c" "ro_local ro"
    "st_redactor st = register (base64url c) (register (base64url t) (register (base64url b)
       (case op_redactor op of None \<Rightarrow> new_redactor (op_secrets op)
        | Some secrets \<Rightarrow> foldl (\<lambda>r s. register s r) secrets (op_secrets op))))"
proof -
  obtain ro0 st0 where n: "new_router env op True = Inr (ro0, st0)"
    using assms by (cases "new_router env op True") (auto simp: new_local_router_def split: if_splits)
  then have l: "ro_local ro0" "st_redactor st0 = (case op_redactor op of None \<Rightarrow> new_redactor (op_secrets op)
        | Some secrets \<Rightarrow> foldl (\<lambda>r s. register s r) secrets (op_secrets op))"
    by (auto simp: new_router_def split: if_splits)
  obtain b t c where r: "he_random env 0 = Some b" "he_random env 1 = Some t" "he_random env 2 = Some c"
    using assms n by (auto simp: new_local_router_def split: if_splits option.splits)
  have "ro = ro0\<lparr>ro_bootstrap := base64url b, ro_session := base64url t, ro_csrf := base64url c,
      ro_shell := map_option (local_runtime_shell config_json (base64url c) (ro_capabilities ro0)) (ro_shell ro0)\<rparr>"
    "st = st0\<lparr>st_reads := 3,
      st_redactor := register (base64url c) (register (base64url t) (register (base64url b) (st_redactor st0)))\<rparr>"
    using assms n r by (simp_all add: new_local_router_def Let_def split: if_split_asm)
  then show thesis by (intro that [OF r]) (simp_all add: l)
qed

lemma new_local_knows:
  assumes "new_local_router config_json env op = Inr (ro, st)" and "random_ok env"
    and "op_redactor op = map_option new_redactor given"
  shows "knows ({ro_bootstrap ro, ro_session ro, ro_csrf ro} \<union> set (op_secrets op)) st"
    and "ro_local ro" and "s \<in> {ro_bootstrap ro, ro_session ro, ro_csrf ro} \<Longrightarrow> apart s \<and> newline \<notin> set s"
proof -
  let ?ss = "(case given of None \<Rightarrow> [] | Some l \<Rightarrow> l) @ op_secrets op"
  have red: "(case op_redactor op of None \<Rightarrow> new_redactor (op_secrets op)
      | Some secrets \<Rightarrow> foldl (\<lambda>r s. register s r) secrets (op_secrets op)) = new_redactor ?ss"
    using assms(3) by (cases given) (simp_all add: new_redactor_def)
  obtain b t c where t: "he_random env 0 = Some b" "he_random env 1 = Some t" "he_random env 2 = Some c"
      "ro_bootstrap ro = base64url b" "ro_session ro = base64url t" "ro_csrf ro = base64url c" "ro_local ro"
      "st_redactor st = register (base64url c) (register (base64url t) (register (base64url b) (new_redactor ?ss)))"
    using local_router_made [OF assms(1)] unfolding red by blast
  then show "ro_local ro" by simp
  show "knows ({ro_bootstrap ro, ro_session ro, ro_csrf ro} \<union> set (op_secrets op)) st"
    unfolding knows_def using t by (intro exI [of _ "?ss @ [base64url b, base64url t, base64url c]"]) (auto simp: register_new)
  show "s \<in> {ro_bootstrap ro, ro_session ro, ro_csrf ro} \<Longrightarrow> apart s \<and> newline \<notin> set s"
    using t assms(2) token_apart unfolding random_ok_def by auto
qed

section \<open>A sample router\<close>

text \<open>A router of an installation without runs.\<close>

definition no_runs :: "unit api_calls" where
  "no_runs =
     \<lparr>ac_create = (\<lambda>_. Pair (Inl (ApiApp ErrRunTerminal))), ac_get = (\<lambda>_. Pair (Inl (ApiStore ErrRunNotFound))),
      ac_cancel = (\<lambda>_. Pair (Inl (ApiStore ErrRunNotFound))), ac_approve = (\<lambda>_ _. Pair (Inl (ApiStore ErrRunNotFound))),
      ac_reject = (\<lambda>_ _ _. Pair (Inl (ApiStore ErrRunNotFound))),
      ac_preflight = (\<lambda>_. Pair \<lparr>pf_ok = False, pf_findings = [], pf_repo_root = [], pf_baseline_commit = [], pf_baseline_diff_hash = []\<rparr>),
      ac_list_runs = (\<lambda>_. Pair (Inr \<lparr>page_runs = [], has_more = False\<rparr>)),
      ac_list_events = (\<lambda>_ _. Pair (Inl (ApiStore ErrRunNotFound))),
      ac_get_artifact = (\<lambda>_ _. Pair (Inl (ApiStore ErrRunNotFound)))\<rparr>"

definition sample_http :: "unit http_env" where
  "sample_http =
     \<lparr>he_calls = no_runs, he_credentials = None, he_random = (\<lambda>n. Some (replicate 32 (n mod 256))),
      he_reads = (\<lambda>_ _. (ReadEnd, ReadEnd)), he_json = (\<lambda>_. Some ''{}''), he_error_json = (\<lambda>c _ _. c),
      he_json_valid = (\<lambda>_. True), he_event_json = (\<lambda>_ _. Some ''{}''), he_is_ipv6 = (\<lambda>_. False),
      he_action_cancelled = (\<lambda>_. False), he_ticks = (\<lambda>_. []), he_writes = (\<lambda>_. 10)\<rparr>"

definition sample_options :: "capabilities \<Rightarrow> router_options" where
  "sample_options cp =
     \<lparr>op_capabilities = cp\<lparr>cp_credentials := False\<rparr>, op_host = ''127.0.0.1:8080'', op_max_body = 0, op_secrets = [],
      op_redactor = None, op_shell = None\<rparr>"

definition sample_made :: "router \<times> router_state" where
  "sample_made = projr (new_local_router (\<lambda>_ _. []) sample_http (sample_options local_capabilities))"

definition sample_get :: "string \<Rightarrow> http_request" where
  "sample_get path =
     \<lparr>hr_method = ''GET'', hr_host = ''127.0.0.1:8080'', hr_path = path, hr_query = [], hr_header = (\<lambda>_. []), hr_cookie = None,
      hr_body = [], hr_flushes = True\<rparr>"

lemma sample_makes:
  "new_local_router (\<lambda>_ _. []) sample_http (sample_options local_capabilities) = Inr (fst sample_made, snd sample_made)"
proof -
  have "loopback_host ''127.0.0.1:8080''" by code_simp
  moreover have "\<not> secure_equal (base64url (replicate 32 0)) (base64url (replicate 32 1))"
    "\<not> secure_equal (base64url (replicate 32 0)) (base64url (replicate 32 2))"
    "\<not> secure_equal (base64url (replicate 32 1)) (base64url (replicate 32 2))" by code_simp+
  ultimately have "\<exists>x. new_local_router (\<lambda>_ _. []) sample_http (sample_options local_capabilities) = Inr x"
    by (simp add: new_local_router_def new_router_def sample_options_def sample_http_def Let_def)
  then show ?thesis by (auto simp: sample_made_def)
qed

lemma sample_random: "random_ok sample_http"
  by (simp add: random_ok_def sample_http_def list_all_iff)

text \<open>C16. No JSON response of the API to any sequence of requests contains the session token, the CSRF
  token or the bootstrap token of the local router, nor a secret the router was made with, whatever
  the application, the store and the credential service answer.\<close>

theorem api_responses_hide_secrets:
  assumes "new_local_router config_json env op = Inr (ro, st)" and "random_ok env"
    and "op_redactor op = map_option new_redactor given"
    and "run_state (serve_all env ro rqs) (st, w) = (rss, st', w')"
    and "s \<in> {ro_bootstrap ro, ro_session ro, ro_csrf ro} \<or> s \<in> set (op_secrets op) \<and> apart s \<and> newline \<notin> set s"
  shows "list_all2 (\<lambda>rq rs. has_prefix (hr_path rq) ''/api/'' \<and> rs_headers rs = json_headers \<longrightarrow> \<not> contains (rs_body rs) s) rqs rss"
proof -
  note all = all_hide [OF new_local_knows(1) [OF assms(1-3)] assms(4)]
  have "apart s \<and> newline \<notin> set s" using assms(5) new_local_knows(3) [OF assms(1-3)] by blast
  then show ?thesis using assms(5) by (intro list_all2_mono [OF all]) (auto simp: hides_def)
qed

lemma sample_refused:
  "\<exists>rs. fst (run_state (serve_all sample_http (fst sample_made) [sample_get ''/api/v1/runs'']) (snd sample_made, ())) = [rs]
    \<and> rs_headers rs = json_headers"
proof -
  have "guard_error sample_http (fst sample_made) (sample_get ''/api/v1/runs'') \<noteq> None" if "ro_local (fst sample_made)"
    using that by (simp add: guard_error_def valid_session_def sample_get_def)
  moreover have "ro_local (fst sample_made)"
    by (rule new_local_knows(2) [OF sample_makes sample_random, of None]) (simp add: sample_options_def)
  ultimately obtain c m where g: "guard_error sample_http (fst sample_made) (sample_get ''/api/v1/runs'') = Some (c, m)" by auto
  have p: "hr_path (sample_get ''/api/v1/runs'') = ''/api/v1/runs''" by (simp add: sample_get_def)
  obtain req st1 where req: "run_state (request_id sample_http) (snd sample_made, ()) = (req, st1, ())"
    by (metis prod.exhaust unit.exhaust)
  show ?thesis
    by (simp add: serve_http_def req p g write_error_def write_text_def json_headers_def split: prod.split)
qed

theorem api_responses_hide_secrets_witness:
  "let rss = fst (run_state (serve_all sample_http (fst sample_made) [sample_get ''/api/v1/runs'']) (snd sample_made, ()))
   in list_all (\<lambda>rs. \<not> contains (rs_body rs) (ro_session (fst sample_made))) rss \<and> length rss = 1"
proof -
  let ?run = "run_state (serve_all sample_http (fst sample_made) [sample_get ''/api/v1/runs'']) (snd sample_made, ())"
  obtain rs where rs: "fst ?run = [rs]" "rs_headers rs = json_headers"
    using sample_refused by blast
  have "?run = (fst ?run, fst (snd ?run), snd (snd ?run))" by (simp only: prod.collapse)
  from api_responses_hide_secrets [OF sample_makes sample_random _ this, of None "ro_session (fst sample_made)"]
  have "list_all2 (\<lambda>rq rs. has_prefix (hr_path rq) ''/api/'' \<and> rs_headers rs = json_headers
      \<longrightarrow> \<not> contains (rs_body rs) (ro_session (fst sample_made))) [sample_get ''/api/v1/runs''] [rs]"
    unfolding rs(1) by (simp add: sample_options_def)
  then show ?thesis using rs by (simp add: sample_get_def)
qed

section \<open>The guards\<close>

definition passes :: "'w http_env \<Rightarrow> router \<Rightarrow> http_request \<Rightarrow> bool" where
  "passes env ro rq \<longleftrightarrow> valid_host ro (hr_host rq) \<and> hr_cookie rq = Some (ro_session ro)
     \<and> (hr_header rq ''Origin'' = [] \<or> valid_origin env ro (hr_header rq ''Origin''))
     \<and> (mutation_method (hr_method rq) \<longrightarrow>
          hr_header rq ''Origin'' \<noteq> [] \<and> hr_header rq ''X-CSRF-Token'' = ro_csrf ro)"

lemma guard_passes:
  "ro_local ro \<Longrightarrow> valid_host ro (hr_host rq) \<Longrightarrow> guard_error env ro rq = None \<longleftrightarrow> passes env ro rq"
  by (auto simp: guard_error_def passes_def valid_session_def secure_equal_def csrf_header_def Let_def split: option.splits)

lemma write_error_world:
  "run_state (write_error env status c message req) (st, w) = (rs, st', w') \<Longrightarrow> st' = st \<and> w' = w \<and> rs_status rs = status"
  by (auto simp: write_error_def write_text_def)

lemma request_id_world: "run_state (request_id env) (st, w) = (x, st', w') \<Longrightarrow> st' = st\<lparr>st_reads := st_reads st + 1\<rparr> \<and> w' = w"
  by (auto simp: request_id_def random_token_def)

lemma health_world:
  assumes "run_state (write_json env 200 ValHealth) (st, w) = (rs, st', w')"
  shows "w' = w \<and> st_bootstrap_used st' = st_bootstrap_used st \<and> st_redactor st' = st_redactor st \<and> rs_status rs \<in> {200, 500}"
proof (cases "he_json env ValHealth")
  case None
  obtain x st1 w1 where x: "run_state (request_id env) (st, w) = (x, st1, w1)" by (metis prod.exhaust)
  then show ?thesis
    using assms None request_id_world [OF x] by (auto simp: write_json_def dest: write_error_world)
qed (use assms in \<open>auto simp: write_json_def write_text_def\<close>)

lemma bootstrap_world:
  assumes "run_state (bootstrap_http env ro rq req) (st, w) = (rs, st', w')"
  shows "w' = w \<and> st_redactor st' = st_redactor st \<and> rs_status rs \<in> {303, 401, 405}
    \<and> (rs_status rs = 303 \<longleftrightarrow> hr_method rq = ''GET'' \<and> \<not> st_bootstrap_used st \<and> get_query rq ''bootstrap'' = ro_bootstrap ro)
    \<and> st_bootstrap_used st' = (st_bootstrap_used st \<or> rs_status rs = 303)"
  using assms
  by (auto simp: bootstrap_http_def take_bootstrap_def write_method_not_allowed_def secure_equal_def Let_def
      split: if_splits dest: write_error_world)

text \<open>C15. The local router lets nothing through without the valid Host, the session cookie, no foreign
  Origin and, if the method may change something, an Origin and the CSRF token: any other request
  leaves the application, the store and the credentials as they are and is answered with 403, unless
  it asks for the health of the server or opens the session with the bootstrap token.\<close>

theorem unguarded_request_changes_nothing:
  assumes "ro_local ro" and "\<not> passes env ro rq" and "run_state (serve_http env ro rq) (st, w) = (rs, st', w')"
  shows "w' = w \<and> st_redactor st' = st_redactor st
    \<and> (rs_status rs = 403
       \<or> valid_host ro (hr_host rq) \<and> hr_path rq = ''/healthz'' \<and> rs_status rs \<in> {200, 405, 500}
       \<or> valid_host ro (hr_host rq) \<and> hr_path rq = ''/'' \<and> has_query rq ''bootstrap'' \<and> rs_status rs \<in> {303, 401, 405})
    \<and> (st_bootstrap_used st' \<noteq> st_bootstrap_used st \<longrightarrow> rs_status rs = 303)"
proof -
  obtain req st1 w1 where req: "run_state (request_id env) (st, w) = (req, st1, w1)" by (metis prod.exhaust)
  note r = request_id_world [OF req]
  have serve: "run_state (serve_http env ro rq) (st, w) = run_state
      (if \<not> valid_host ro (hr_host rq) then write_error env 403 ''INVALID_HOST'' ''request Host is not allowed'' req
       else if hr_path rq = ''/healthz'' then
         (if hr_method rq \<noteq> ''GET'' then write_method_not_allowed env req else write_json env 200 ValHealth)
       else if hr_path rq = ''/'' \<and> has_query rq ''bootstrap'' then bootstrap_http env ro rq req
       else (case guard_error env ro rq of Some (c, message) \<Rightarrow> write_error env 403 c message req
         | None \<Rightarrow> State_Monad.return undefined)) (st1, w1)"
    if "valid_host ro (hr_host rq) \<Longrightarrow> guard_error env ro rq \<noteq> None"
    using assms(1) req that by (auto simp: serve_http_def)
  have g: "valid_host ro (hr_host rq) \<Longrightarrow> \<exists>c message. guard_error env ro rq = Some (c, message)"
    using guard_passes [OF assms(1), of rq env] assms(2) by (cases "guard_error env ro rq") auto
  consider (host) "\<not> valid_host ro (hr_host rq)" | (health) "valid_host ro (hr_host rq)" "hr_path rq = ''/healthz''"
    | (boot) "valid_host ro (hr_host rq)" "hr_path rq = ''/''" "has_query rq ''bootstrap''"
    | (other) c message where "valid_host ro (hr_host rq)" "hr_path rq \<noteq> ''/healthz''"
        "\<not> (hr_path rq = ''/'' \<and> has_query rq ''bootstrap'')" "guard_error env ro rq = Some (c, message)"
    using g by blast
  then show ?thesis
  proof cases
    case host
    then have "run_state (write_error env 403 ''INVALID_HOST'' ''request Host is not allowed'' req) (st1, w1) = (rs, st', w')"
      using serve assms(3) by simp
    from write_error_world [OF this] show ?thesis using r by simp
  next
    case health
    have "run_state (if hr_method rq \<noteq> ''GET'' then write_method_not_allowed env req else write_json env 200 ValHealth) (st1, w1)
        = (rs, st', w')"
      using serve assms(3) health g by simp
    then show ?thesis
      using health r by (auto simp: write_method_not_allowed_def split: if_splits dest!: write_error_world health_world)
  next
    case boot
    then have "run_state (bootstrap_http env ro rq req) (st1, w1) = (rs, st', w')" using serve assms(3) g by simp
    from bootstrap_world [OF this] show ?thesis using boot r by auto
  next
    case (other c message)
    then have "run_state (write_error env 403 c message req) (st1, w1) = (rs, st', w')"
      using serve assms(3) by auto
    from write_error_world [OF this] show ?thesis using r by simp
  qed
qed

theorem unguarded_request_changes_nothing_witness:
  "rs_status (fst (run_state (serve_http sample_http (fst sample_made) (sample_get ''/api/v1/runs'')) (snd sample_made, ()))) = 403"
proof -
  let ?run = "run_state (serve_http sample_http (fst sample_made) (sample_get ''/api/v1/runs'')) (snd sample_made, ())"
  have "?run = (fst ?run, fst (snd ?run), snd (snd ?run))" by (simp only: prod.collapse)
  moreover have "\<not> passes sample_http (fst sample_made) (sample_get ''/api/v1/runs'')" by (simp add: passes_def sample_get_def)
  ultimately show ?thesis
    using unguarded_request_changes_nothing [OF new_local_knows(2) [OF sample_makes sample_random, of None]]
    by (fastforce simp: sample_options_def sample_get_def)
qed

section \<open>The bootstrap token\<close>

definition opens_session :: "router \<Rightarrow> http_response \<Rightarrow> bool" where
  "opens_session ro rs \<longleftrightarrow> session_cookie ro \<in> set (rs_headers rs)"

lemma no_cookie [simp]: "session_cookie ro \<notin> set json_headers" "session_cookie ro \<notin> set event_headers" "session_cookie ro \<notin> set base_headers"
  by (simp_all add: session_cookie_def json_headers_def base_headers_def event_headers_def)

interpretation cookies: response_rule "\<lambda>st. st_bootstrap_used st = used" "\<lambda>rs. \<not> opens_session ro rs" for used ro
  by unfold_locales (auto simp: opens_session_def)

text \<open>The pages set no such cookie.\<close>

definition plain_pages :: "router \<Rightarrow> bool" where
  "plain_pages ro \<longleftrightarrow> (\<forall>sh rq. ro_shell ro = Some sh \<longrightarrow> \<not> opens_session ro (serve_shell sh rq))"

lemma opening_request:
  assumes "plain_pages ro" and "run_state (serve_http env ro rq) (st, w) = (rs, st', w')"
  shows "if opens_session ro rs
    then ro_local ro \<and> valid_host ro (hr_host rq) \<and> hr_path rq = ''/'' \<and> get_query rq ''bootstrap'' = ro_bootstrap ro
      \<and> \<not> st_bootstrap_used st \<and> st_bootstrap_used st'
    else st_bootstrap_used st \<longrightarrow> st_bootstrap_used st'"
proof (cases "ro_local ro \<and> valid_host ro (hr_host rq) \<and> hr_path rq = ''/'' \<and> has_query rq ''bootstrap''")
  case True
  obtain req st1 w1 where req: "run_state (request_id env) (st, w) = (req, st1, w1)" by (metis prod.exhaust)
  have boot: "run_state (bootstrap_http env ro rq req) (st1, w1) = (rs, st', w')"
    using assms(2) True req by (simp add: serve_http_def)
  have "opens_session ro rs \<Longrightarrow> rs_status rs = 303"
    using boot by (auto simp: bootstrap_http_def take_bootstrap_def write_method_not_allowed_def write_error_def write_text_def
        Let_def json_headers_def [symmetric] opens_session_def split: if_splits)
  then show ?thesis using bootstrap_world [OF boot] request_id_world [OF req] True by auto
next
  case False
  have "keeping (\<lambda>st'. st_bootstrap_used st' = st_bootstrap_used st) (serve_http env ro rq) (\<lambda>rs. \<not> opens_session ro rs)"
  proof (cases "ro_local ro \<and> \<not> valid_host ro (hr_host rq)")
    case True
    then have "serve_http env ro rq = do {
        req \<leftarrow> request_id env; write_error env 403 ''INVALID_HOST'' ''request Host is not allowed'' req }"
      by (simp add: serve_http_def)
    then show ?thesis by (simp add: keeping_bind [OF cookies.keeping_request_id cookies.keeping_write_error])
  next
    case host: False
    show ?thesis
      by (rule cookies.keeping_serve) (use assms(1) False host in \<open>auto simp: plain_pages_def\<close>)
  qed
  then show ?thesis using assms(2) by (auto dest: keepingD)
qed

lemma used_stays_used:
  assumes "plain_pages ro" and "st_bootstrap_used st" and "run_state (serve_all env ro rqs) (st, w) = (rss, st', w')"
  shows "\<forall>rs \<in> set rss. \<not> opens_session ro rs"
  using assms(2,3)
proof (induction rqs arbitrary: st w rss)
  case (Cons rq rqs)
  obtain rs st1 w1 where one: "run_state (serve_http env ro rq) (st, w) = (rs, st1, w1)" by (metis prod.exhaust)
  obtain rss' where rest: "run_state (serve_all env ro rqs) (st1, w1) = (rss', st', w')" "rss = rs # rss'"
    using Cons.prems(2) one by (auto split: prod.splits)
  have "\<not> opens_session ro rs \<and> st_bootstrap_used st1"
    using opening_request [OF assms(1) one] Cons.prems(1) by (simp split: if_splits)
  then show ?case using Cons.IH [OF _ rest(1)] rest(2) by simp
qed simp

text \<open>C18. The session cookie of the local router is handed out at most once, whatever requests come, and
  only to a request for the start page with the right Host and the bootstrap token.\<close>

theorem bootstrap_opens_one_session:
  assumes "plain_pages ro" and "run_state (serve_all env ro rqs) (st, w) = (rss, st', w')"
  shows "length (filter (opens_session ro) rss) \<le> 1
    \<and> list_all2 (\<lambda>rq rs. opens_session ro rs \<longrightarrow> ro_local ro \<and> valid_host ro (hr_host rq) \<and> hr_path rq = ''/''
        \<and> get_query rq ''bootstrap'' = ro_bootstrap ro) rqs rss"
  using assms(2)
proof (induction rqs arbitrary: st w rss)
  case (Cons rq rqs)
  obtain rs st1 w1 where one: "run_state (serve_http env ro rq) (st, w) = (rs, st1, w1)" by (metis prod.exhaust)
  obtain rss' where rest: "run_state (serve_all env ro rqs) (st1, w1) = (rss', st', w')" "rss = rs # rss'"
    using Cons.prems one by (auto split: prod.splits)
  note o = opening_request [OF assms(1) one]
  show ?case
  proof (cases "opens_session ro rs")
    case True
    then have opened: "ro_local ro \<and> valid_host ro (hr_host rq) \<and> hr_path rq = ''/'' \<and> get_query rq ''bootstrap'' = ro_bootstrap ro"
      and used: "st_bootstrap_used st1" using o by simp_all
    have "filter (opens_session ro) rss' = []"
      using used_stays_used [OF assms(1) used rest(1)] by (simp only: filter_empty_conv)
    then show ?thesis using Cons.IH [OF rest(1)] rest(2) opened True by simp
  next
    case False
    then show ?thesis using Cons.IH [OF rest(1)] rest(2) by simp
  qed
qed simp

lemma made_shell:
  "new_local_router config_json env op = Inr (ro, st) \<Longrightarrow> op_shell op = None \<Longrightarrow> ro_shell ro = None"
  by (auto simp: new_local_router_def new_router_def Let_def split: if_splits option.splits)

lemma sample_plain: "plain_pages (fst sample_made)"
  using made_shell [of "\<lambda>_ _. []" sample_http "sample_options local_capabilities" "fst sample_made" "snd sample_made"] sample_makes
  by (simp add: plain_pages_def sample_options_def)

theorem bootstrap_opens_one_session_witness:
  "let rq = (sample_get ''/'')\<lparr>hr_query := [(''bootstrap'', [ro_bootstrap (fst sample_made)])]\<rparr>
   in length (filter (opens_session (fst sample_made))
        (fst (run_state (serve_all sample_http (fst sample_made) [rq, rq]) (snd sample_made, ())))) \<le> 1"
proof -
  let ?rq = "(sample_get ''/'')\<lparr>hr_query := [(''bootstrap'', [ro_bootstrap (fst sample_made)])]\<rparr>"
  let ?run = "run_state (serve_all sample_http (fst sample_made) [?rq, ?rq]) (snd sample_made, ())"
  have "?run = (fst ?run, fst (snd ?run), snd (snd ?run))" by (simp only: prod.collapse)
  from bootstrap_opens_one_session [OF sample_plain this] show ?thesis unfolding Let_def by blast
qed

end
