(* ===== verification/App_Steps.thy ===== *)
theory App_Steps
  imports App_Service
begin

text \<open>
  What the application service may do to its shared state, as a step relation: the protocol between
  stored runs and the leases of their repositories. Its invariant is that every active run holds
  the lease of its repository, so no repository has two. The second half is a small calculus for
  the interleaved calls of \<^verbatim>\<open>App_Service\<close>, whose schedules are made of such steps.
\<close>

section \<open>Interleaving\<close>

text \<open>A call that starts where \<^verbatim>\<open>P\<close> holds, while all that happens meanwhile is in \<^verbatim>\<open>R\<close>, has an effect
  in \<^verbatim>\<open>T\<close>, which contains \<^verbatim>\<open>R\<close>, and ends where \<^verbatim>\<open>Q\<close> holds of its result.\<close>

definition guided ::
    "('w \<Rightarrow> 'w \<Rightarrow> bool) \<Rightarrow> ('w \<Rightarrow> 'w \<Rightarrow> bool) \<Rightarrow> ('w \<Rightarrow> bool) \<Rightarrow> ('w, 'a) activity \<Rightarrow> ('a \<Rightarrow> 'w \<Rightarrow> bool) \<Rightarrow> bool" where
  "guided R T P m Q \<longleftrightarrow>
     (\<forall>others w x rest w'. run_state m (others, w) = (x, rest, w') \<longrightarrow> (\<forall>change \<in> set others. \<forall>v. R v (change v)) \<longrightarrow> P w
        \<longrightarrow> set rest \<subseteq> set others \<and> T w w' \<and> Q x w')"

definition stable :: "('w \<Rightarrow> 'w \<Rightarrow> bool) \<Rightarrow> ('w \<Rightarrow> bool) \<Rightarrow> bool" where
  "stable R P \<longleftrightarrow> (\<forall>v v'. P v \<longrightarrow> R v v' \<longrightarrow> P v')"

named_theorems guided_intros

locale interleaving =
  fixes R T :: "'w \<Rightarrow> 'w \<Rightarrow> bool"
  assumes others_allowed: "R v v' \<Longrightarrow> T v v'"
    and allowed_refl: "T v v"
    and allowed_trans: "T u v \<Longrightarrow> T v w \<Longrightarrow> T u w"
begin

lemma guided_return: "(\<And>w. P w \<Longrightarrow> Q x w) \<Longrightarrow> guided R T P (State_Monad.return x) Q"
  unfolding guided_def using allowed_refl by simp

lemma guided_bind:
  assumes "guided R T P m M" and "\<And>x. guided R T (M x) (k x) Q"
  shows "guided R T P (State_Monad.bind m k) Q"
  unfolding guided_def
proof (intro allI impI)
  fix others w y rest w'
  assume run: "run_state (State_Monad.bind m k) (others, w) = (y, rest, w')"
    and o: "\<forall>change \<in> set others. \<forall>v. R v (change v)" and p: "P w"
  obtain x mid v where x: "run_state m (others, w) = (x, mid, v)" by (metis prod.exhaust)
  have one: "set mid \<subseteq> set others \<and> T w v \<and> M x v" using assms(1) x o p by (auto simp: guided_def)
  moreover have "set rest \<subseteq> set mid \<and> T v w' \<and> Q y w'"
  proof -
    have "run_state (k x) (mid, v) = (y, rest, w')" using run x by simp
    moreover have "\<forall>change \<in> set mid. \<forall>v. R v (change v)" and "M x v" using o one by blast+
    ultimately show ?thesis using assms(2) [of x, unfolded guided_def] by blast
  qed
  ultimately show "set rest \<subseteq> set others \<and> T w w' \<and> Q y w'" using allowed_trans by blast
qed

lemma guided_weaken:
  assumes "guided R T P m Q" and "\<And>w. P' w \<Longrightarrow> P w" and "\<And>x w. Q x w \<Longrightarrow> Q' x w"
  shows "guided R T P' m Q'"
  using assms unfolding guided_def by blast

lemma guided_pre: "guided R T P m Q \<Longrightarrow> (\<And>w. P' w \<Longrightarrow> P w) \<Longrightarrow> guided R T P' m Q"
  by (rule guided_weaken)

lemma guided_pure: "(\<phi> \<Longrightarrow> guided R T P m Q) \<Longrightarrow> guided R T (\<lambda>w. \<phi> \<and> P w) m Q"
  unfolding guided_def by blast

lemma guided_atomically:
  assumes "stable R P" and "\<And>v. P v \<Longrightarrow> T v (snd (f v)) \<and> Q (fst (f v)) (snd (f v))"
  shows "guided R T P (atomically f) Q"
  unfolding guided_def
proof (intro allI impI)
  fix others w x rest w'
  assume run: "run_state (atomically f) (others, w) = (x, rest, w')"
    and o: "\<forall>change \<in> set others. \<forall>v. R v (change v)" and p: "P w"
  let ?v = "meanwhile others w"
  have "T w ?v \<and> P ?v"
    using o p assms(1) by (cases others) (auto simp: meanwhile_def allowed_refl others_allowed stable_def)
  moreover have "f ?v = (x, w')" and "rest = tl others"
    using run by (auto simp: atomically_def Let_def split: prod.splits)
  ultimately show "set rest \<subseteq> set others \<and> T w w' \<and> Q x w'"
    using assms(2) [of ?v] allowed_trans by (auto dest: list.set_sel(2) [rotated] intro: list.set_sel(2))
qed

lemma guided_inspect:
  assumes "stable R P" and "\<And>v. P v \<Longrightarrow> Q (f v) v"
  shows "guided R T P (inspect f) Q"
  unfolding inspect_def using assms by (intro guided_atomically) (auto simp: allowed_refl)

lemma guided_modify:
  assumes "stable R P" and "\<And>v. P v \<Longrightarrow> T v (f v) \<and> Q (f v)"
  shows "guided R T P (modify f) (\<lambda>_. Q)"
  unfolding modify_def using assms by (intro guided_atomically) auto

lemma guided_if_ok:
  assumes "guided R T P m (\<lambda>x w. case x of Inl e \<Rightarrow> Q (Inl e) w | Inr y \<Rightarrow> M y w)"
    and "\<And>y. guided R T (M y) (k y) Q"
  shows "guided R T P (if_ok m k) Q"
  unfolding if_ok_def
proof (rule guided_bind [OF assms(1)])
  fix x
  show "guided R T ((\<lambda>x w. case x of Inl e \<Rightarrow> Q (Inl e) w | Inr y \<Rightarrow> M y w) x)
      (case x of Inl e \<Rightarrow> State_Monad.return (Inl e) | Inr y \<Rightarrow> k y) Q"
    using assms(2) by (cases x) (auto intro: guided_return)
qed

lemma guided_attempts:
  assumes "\<And>n. guided R T P (m n) Q"
  shows "guided R T P (State (\<lambda>s. run_state (m (Suc (length (fst s)))) s)) Q"
  using assms unfolding guided_def by fastforce

end

section \<open>Steps of the service\<close>

text \<open>What is seen of the store and of the loops, and what is known of them.\<close>

record ('s, 'l) app_view =
  av_lookup :: "'s \<Rightarrow> run_id \<Rightarrow> run option"
  av_store_ok :: "'s \<Rightarrow> bool"
  av_loops_ok :: "'s \<Rightarrow> 'l \<Rightarrow> bool"
  av_locks :: lock_env

definition stored :: "('s, 'l) app_view \<Rightarrow> ('s, 'l) app \<Rightarrow> run_id \<Rightarrow> run option" where
  "stored av w = av_lookup av (ap_store w)"

definition known :: "('s, 'l) app_view \<Rightarrow> run \<Rightarrow> ('s, 'l) app \<Rightarrow> bool" where
  "known av r w \<longleftrightarrow> (\<exists>c. stored av w (rid r) = Some c \<and> repo_root c = repo_root r)"

definition app_ok :: "('s, 'l) app_view \<Rightarrow> ('s, 'l) app \<Rightarrow> bool" where
  "app_ok av w \<longleftrightarrow> av_store_ok av (ap_store w) \<and> av_loops_ok av (ap_store w) (ap_loops w)
     \<and> (\<forall>(n, r) \<in> set (ap_background w). known av r w)"

text \<open>A run holds the lease of a repository when the lease file of the repository names it.\<close>

definition holds_lease :: "lock_env \<Rightarrow> lock_dir \<Rightarrow> run_id \<Rightarrow> string \<Rightarrow> bool" where
  "holds_lease lenv d i root \<longleftrightarrow>
     (\<exists>key r. repository_lock_key lenv root = Some key \<and> held_by d (le_path lenv key) r \<and> lease_run r = i)"

abbreviation lease_dir :: "('s, 'l) app \<Rightarrow> lock_dir" where
  "lease_dir w \<equiv> snd (ap_leases w)"

text \<open>The steps. The label names the run that a call is about to create; leases may also be acquired
  and released by other processes, so the ownership maps are left open.\<close>

inductive app_step :: "('s, 'l) app_view \<Rightarrow> run_id option \<Rightarrow> ('s, 'l) app \<Rightarrow> ('s, 'l) app \<Rightarrow> bool" for av where
  tick: "\<lbrakk>stored av w' = stored av w; lease_dir w' = lease_dir w; app_ok av w'\<rbrakk> \<Longrightarrow> app_step av None w w'"
| moved: "\<lbrakk>stored av w i = Some c; may_step (state c) (state c'); rid c' = i; repo_root c' = repo_root c;
    stored av w' = (stored av w)(i \<mapsto> c'); lease_dir w' = lease_dir w; app_ok av w'\<rbrakk> \<Longrightarrow> app_step av None w w'"
| released: "\<lbrakk>stored av w i = Some c; terminal (state c); stored av w' = stored av w;
    lease_dir w' = snd (release_run fault i (l, lease_dir w)); app_ok av w'\<rbrakk> \<Longrightarrow> app_step av None w w'"
| claimed: "\<lbrakk>stored av w i = None; stored av w' = stored av w;
    acquire (av_locks av) fault now root i (l, lease_dir w) = (x, l', lease_dir w'); app_ok av w'\<rbrakk>
    \<Longrightarrow> app_step av (Some i) w w'"
| created: "\<lbrakk>stored av w i = None; holds_lease (av_locks av) (lease_dir w) i (repo_root c); rid c = i;
    stored av w' = (stored av w)(i \<mapsto> c); lease_dir w' = lease_dir w; app_ok av w'\<rbrakk> \<Longrightarrow> app_step av (Some i) w w'"
| dropped: "\<lbrakk>stored av w i = None; stored av w' = stored av w;
    lease_dir w' = snd (release_run fault i (l, lease_dir w)); app_ok av w'\<rbrakk> \<Longrightarrow> app_step av (Some i) w w'"

inductive_cases app_step_cases: "app_step av label w w'"

definition app_steps :: "('s, 'l) app_view \<Rightarrow> run_id set \<Rightarrow> ('s, 'l) app \<Rightarrow> ('s, 'l) app \<Rightarrow> bool" where
  \<comment> \<open>any number of steps, none about to create one of the given runs\<close>
  "app_steps av own = (\<lambda>w w'. \<exists>label. label \<notin> Some ` own \<and> app_step av label w w')\<^sup>*\<^sup>*"

lemma app_steps_refl [simp, intro]: "app_steps av own w w"
  by (simp add: app_steps_def)

lemma app_steps_trans: "app_steps av own u v \<Longrightarrow> app_steps av own v w \<Longrightarrow> app_steps av own u w"
  unfolding app_steps_def by (rule rtranclp_trans)

lemma app_steps_single: "app_step av label w w' \<Longrightarrow> label \<notin> Some ` own \<Longrightarrow> app_steps av own w w'"
  unfolding app_steps_def by blast

lemma app_steps_mono: "app_steps av own w w' \<Longrightarrow> own' \<subseteq> own \<Longrightarrow> app_steps av own' w w'"
  unfolding app_steps_def by (erule rtranclp_mono [THEN predicate2D, rotated]) blast

interpretation steps: interleaving "app_steps av own" "app_steps av {}"
  for av :: "('s, 'l) app_view" and own
  by unfold_locales (auto intro: app_steps_trans app_steps_mono)

text \<open>A call while everything but the given runs' creators takes steps.\<close>

abbreviation under ::
    "('s, 'l) app_view \<Rightarrow> run_id set \<Rightarrow> (('s, 'l) app \<Rightarrow> bool) \<Rightarrow> (('s, 'l) app, 'a) activity
     \<Rightarrow> ('a \<Rightarrow> ('s, 'l) app \<Rightarrow> bool) \<Rightarrow> bool" where
  "under av own \<equiv> guided (app_steps av own) (app_steps av {})"

lemma stable_steps:
  assumes "\<And>label w w'. P w \<Longrightarrow> label \<notin> Some ` own \<Longrightarrow> app_step av label w w' \<Longrightarrow> P w'"
  shows "stable (app_steps av own) P"
proof -
  have "P w'" if "app_steps av own w w'" and "P w" for w w'
    using that unfolding app_steps_def by (induction rule: rtranclp_induct) (auto intro: assms)
  then show ?thesis by (auto simp: stable_def)
qed

section \<open>What every step keeps\<close>

lemma step_ok: "app_step av label w w' \<Longrightarrow> app_ok av w'"
  by (erule app_step_cases)

definition ended :: "('s, 'l) app_view \<Rightarrow> run_id \<Rightarrow> ('s, 'l) app \<Rightarrow> bool" where
  "ended av i w \<longleftrightarrow> app_ok av w \<and> (\<exists>c. stored av w i = Some c \<and> terminal (state c))"

definition tracked :: "('s, 'l) app_view \<Rightarrow> run \<Rightarrow> ('s, 'l) app \<Rightarrow> bool" where
  "tracked av r w \<longleftrightarrow> app_ok av w \<and> known av r w"

definition reserved :: "('s, 'l) app_view \<Rightarrow> run_id \<Rightarrow> string \<Rightarrow> ('s, 'l) app \<Rightarrow> bool" where
  "reserved av i root w \<longleftrightarrow> app_ok av w \<and> stored av w i = None \<and> holds_lease (av_locks av) (lease_dir w) i root"

definition unused :: "('s, 'l) app_view \<Rightarrow> run_id \<Rightarrow> ('s, 'l) app \<Rightarrow> bool" where
  "unused av i w \<longleftrightarrow> app_ok av w \<and> stored av w i = None"

lemma step_keeps_run:
  assumes "app_step av label w w'" and "stored av w i = Some c"
  shows "\<exists>c'. stored av w' i = Some c' \<and> repo_root c' = repo_root c \<and> (terminal (state c) \<longrightarrow> c' = c)"
  using assms by (elim app_step_cases) (auto simp: terminal_iff_no_step)

lemma step_keeps_lease:
  assumes "app_step av label w w'" and "holds_lease (av_locks av) (lease_dir w) i root"
    and "label \<noteq> Some i \<or> stored av w i \<noteq> None" and "\<And>c. stored av w i = Some c \<Longrightarrow> \<not> terminal (state c)"
  shows "holds_lease (av_locks av) (lease_dir w') i root"
proof -
  obtain key r where r: "repository_lock_key (av_locks av) root = Some key"
      "held_by (lease_dir w) (le_path (av_locks av) key) r" "lease_run r = i"
    using assms(2) by (auto simp: holds_lease_def)
  have "held_by (lease_dir w') (le_path (av_locks av) key) r"
    using assms(1)
  proof (cases rule: app_step.cases)
    case (released j c fault l)
    then have "j \<noteq> i" using assms(4) by blast
    then show ?thesis using held_releases(1) [OF r(2), of j] r(3) released by auto
  next
    case (claimed j fault now root l x l')
    then show ?thesis using held_acquire(1) [OF r(2)] by blast
  next
    case (dropped j fault l)
    then have "j \<noteq> i" using assms(3) by auto
    then show ?thesis using held_releases(1) [OF r(2), of j] r(3) dropped by auto
  qed (use r in auto)
  then show ?thesis using r by (auto simp: holds_lease_def)
qed

lemma step_keeps_unused:
  assumes "app_step av label w w'" and "stored av w i = None" and "label \<noteq> Some i"
  shows "stored av w' i = None"
  using assms by (elim app_step_cases) auto

lemma stable_conj: "stable R P \<Longrightarrow> stable R Q \<Longrightarrow> stable R (\<lambda>w. P w \<and> Q w)"
  unfolding stable_def by blast

lemma stable_ball: "(\<And>x. stable R (P x)) \<Longrightarrow> stable R (\<lambda>w. \<forall>x \<in> A. P x w)"
  unfolding stable_def by blast

lemma stable_imp: "(b \<Longrightarrow> stable R P) \<Longrightarrow> stable R (\<lambda>w. b \<longrightarrow> P w)"
  unfolding stable_def by blast

lemma stable_ok [guided_intros]: "stable (app_steps av own) (app_ok av)"
  by (rule stable_steps) (rule step_ok)

lemma stable_ended [guided_intros]: "stable (app_steps av own) (ended av i)"
  by (rule stable_steps) (auto simp: ended_def step_ok dest: step_keeps_run)

lemma stable_tracked [guided_intros]: "stable (app_steps av own) (tracked av r)"
  by (rule stable_steps) (auto simp: tracked_def known_def step_ok dest!: step_keeps_run)

lemma stable_reserved [guided_intros]: "stable (app_steps av {i}) (reserved av i root)"
  by (rule stable_steps)
    (auto simp: reserved_def step_ok intro: step_keeps_unused step_keeps_lease)

lemma stable_unused [guided_intros]: "stable (app_steps av {i}) (unused av i)"
  by (rule stable_steps) (auto simp: unused_def step_ok intro: step_keeps_unused)

section \<open>The invariant\<close>

text \<open>Every active run holds the lease of its repository, but for given exceptions.\<close>

definition leased_except :: "('s, 'l) app_view \<Rightarrow> run_id set \<Rightarrow> ('s, 'l) app \<Rightarrow> bool" where
  "leased_except av S w \<longleftrightarrow>
     (\<forall>i c. stored av w i = Some c \<longrightarrow> \<not> terminal (state c) \<longrightarrow> i \<notin> S
        \<longrightarrow> holds_lease (av_locks av) (lease_dir w) i (repo_root c))"

abbreviation leased :: "('s, 'l) app_view \<Rightarrow> ('s, 'l) app \<Rightarrow> bool" where
  "leased av \<equiv> leased_except av {}"

lemma step_leased:
  assumes "leased_except av S w" and "app_step av label w w'"
  shows "leased_except av S w'"
  unfolding leased_except_def
proof (intro allI impI)
  fix i c'
  assume c': "stored av w' i = Some c'" and active: "\<not> terminal (state c')" and i: "i \<notin> S"
  show "holds_lease (av_locks av) (lease_dir w') i (repo_root c')"
  proof (cases "stored av w i")
    case None
    with assms(2) c' show ?thesis by (elim app_step_cases) (auto split: if_splits)
  next
    case (Some c)
    then have "repo_root c' = repo_root c \<and> \<not> terminal (state c)"
      using step_keeps_run [OF assms(2) Some] c' active by auto
    then show ?thesis
      using step_keeps_lease [OF assms(2), of i "repo_root c"] Some assms(1) i by (auto simp: leased_except_def)
  qed
qed

lemma stable_leased [guided_intros]: "stable (app_steps av own) (leased_except av S)"
  by (rule stable_steps) (rule step_leased)

lemma steps_leased: "leased_except av S w \<Longrightarrow> app_steps av own w w' \<Longrightarrow> leased_except av S w'"
  using stable_leased unfolding stable_def by blast

lemma leased_ended: "leased_except av (insert i S) w \<Longrightarrow> ended av i w \<Longrightarrow> leased_except av S w"
  unfolding leased_except_def ended_def by (metis insert_iff option.inject)

lemma leased_unique:
  assumes "leased av w" and "stored av w i = Some a" and "stored av w j = Some b"
    and "\<not> terminal (state a)" and "\<not> terminal (state b)"
    and "repository_lock_key (av_locks av) (repo_root a) = repository_lock_key (av_locks av) (repo_root b)"
  shows "i = j"
proof -
  have "holds_lease (av_locks av) (lease_dir w) i (repo_root a)" "holds_lease (av_locks av) (lease_dir w) j (repo_root b)"
    using assms by (auto simp: leased_except_def)
  then show ?thesis using assms(6) by (auto simp: holds_lease_def held_by_def)
qed

end
