(* ===== verification/App_Correct.thy ===== *)
theory App_Correct
  imports App_Steps
begin

text \<open>
  Every call of the application service, under every interleaving with steps of the service, is a
  sequence of such steps. What the service relies on is stated as two contracts: of its store and
  of its loop controller.
\<close>

section \<open>The contract of the store\<close>

locale service_store_laws =
  fixes so :: "'s service_store"
    and lookup :: "'s \<Rightarrow> run_id \<Rightarrow> run option"
    and kept :: "run \<Rightarrow> run"
    and good :: "'s \<Rightarrow> bool"
  assumes get_keeps: "good s \<Longrightarrow> so_get so d i s = (x, s') \<Longrightarrow> good s' \<and> lookup s' = lookup s"
    and get_found: "good s \<Longrightarrow> so_get so d i s = (Inr r, s') \<Longrightarrow> lookup s i = Some r"
    and list_keeps: "good s \<Longrightarrow> so_list so d s = (y, s') \<Longrightarrow> good s' \<and> lookup s' = lookup s"
    and list_found: "good s \<Longrightarrow> so_list so d s = (Inr rs, s') \<Longrightarrow> set rs = ran (lookup s)"
    and create_keeps: "good s \<Longrightarrow> so_create so r t p s = (z, s') \<Longrightarrow> good s'"
    and create_fails: "good s \<Longrightarrow> so_create so r t p s = (Inl e, s') \<Longrightarrow> lookup s' = lookup s"
    and create_done: "good s \<Longrightarrow> so_create so r t p s = (Inr ev, s')
      \<Longrightarrow> lookup s (rid r) = None \<and> lookup s' = (lookup s)(rid r \<mapsto> kept r)"
    and update_keeps: "good s \<Longrightarrow> so_update_if so d r expected t p s = (z, s') \<Longrightarrow> good s'"
    and update_fails: "good s \<Longrightarrow> so_update_if so d r expected t p s = (Inl e, s') \<Longrightarrow> lookup s' = lookup s"
    and update_changed: "good s \<Longrightarrow> so_update_if so d r expected t p s = (Inl ErrRunStateChanged, s')
      \<Longrightarrow> \<exists>c. lookup s (rid r) = Some c \<and> state c \<noteq> expected"
    and update_done: "good s \<Longrightarrow> so_update_if so d r expected t p s = (Inr ev, s')
      \<Longrightarrow> (\<exists>c. lookup s (rid r) = Some c \<and> state c = expected) \<and> lookup s' = (lookup s)(rid r \<mapsto> kept r)"
    and lookup_id: "good s \<Longrightarrow> lookup s i = Some r \<Longrightarrow> rid r = i"
    and kept_id: "rid (kept r) = rid r"
    and kept_state: "state (kept r) = state r"
    and kept_root: "repo_root (kept r) = repo_root r"

section \<open>The contract of the service\<close>

text \<open>What is seen of the store and of the loops: the loops keep what is known of them while runs only
  change states.\<close>

locale app_view_laws =
  service_store_laws "ae_store env" "av_lookup av" kept "av_store_ok av"
  for env :: "('s, 'l) app_env" and av :: "('s, 'l) app_view" and kept +
  assumes same_locks: "av_locks av = ae_locks env"
    and loops_stay: "av_loops_ok av s l
      \<Longrightarrow> (\<And>i c. av_lookup av s i = Some c \<Longrightarrow> \<exists>c'. av_lookup av s' i = Some c' \<and> repo_root c' = repo_root c)
      \<Longrightarrow> av_loops_ok av s' l"
begin

lemma ok_store: "app_ok av w \<Longrightarrow> av_store_ok av (ap_store w)"
  by (simp add: app_ok_def)

lemma ok_same_lookup:
  assumes "app_ok av w" and "av_store_ok av s" and "av_lookup av s = av_lookup av (ap_store w)"
  shows "app_ok av (w\<lparr>ap_store := s\<rparr>)"
  using assms loops_stay [of "ap_store w" "ap_loops w" s] by (auto simp: app_ok_def known_def stored_def)

lemma ok_updated:
  assumes "app_ok av w" and "av_store_ok av s" and "av_lookup av s = (av_lookup av (ap_store w))(i \<mapsto> c')"
    and "\<And>c. stored av w i = Some c \<Longrightarrow> repo_root c' = repo_root c"
  shows "app_ok av (w\<lparr>ap_store := s\<rparr>)"
proof -
  have "\<exists>c'. av_lookup av s j = Some c' \<and> repo_root c' = repo_root c" if "av_lookup av (ap_store w) j = Some c" for j c
    using that assms(3,4) by (cases "j = i") (auto simp: stored_def)
  then show ?thesis
    using assms(1,2) loops_stay [of "ap_store w" "ap_loops w" s]
    unfolding app_ok_def known_def stored_def by fastforce
qed

text \<open>Changes of the maps alone.\<close>

lemma bookkeeping:
  assumes "app_ok av w" and "ap_store w' = ap_store w" and "ap_loops w' = ap_loops w" and "ap_leases w' = ap_leases w"
    and "\<forall>(n, r) \<in> set (ap_background w'). known av r w"
  shows "app_ok av w' \<and> app_steps av own w w'"
proof -
  have "app_ok av w'" using assms by (auto simp: app_ok_def known_def stored_def)
  moreover from this have "app_step av None w w'" using assms by (intro tick) (auto simp: stored_def)
  ultimately show ?thesis by (auto intro: app_steps_single)
qed

lemma guided_bookkeeping:
  assumes "\<And>w. ap_store (f w) = ap_store w" and "\<And>w. ap_loops (f w) = ap_loops w" and "\<And>w. ap_leases (f w) = ap_leases w"
    and "\<And>w. ap_background (f w) = ap_background w"
    and "stable (app_steps av own) P" and "\<And>w. P w \<Longrightarrow> app_ok av w"
  shows "under av own P (modify f) (\<lambda>_. P)"
proof (rule steps.guided_modify [OF assms(5)])
  fix w assume p: "P w"
  have "app_ok av (f w) \<and> app_steps av own' w (f w)" for own'
    using assms(6) [OF p] assms(1-4) by (intro bookkeeping) (auto simp: app_ok_def)
  then show "app_steps av {} w (f w) \<and> P (f w)" using assms(5) p unfolding stable_def by blast
qed

end

text \<open>And the calls of the loop controller are made of steps themselves.\<close>

locale app_contract = app_view_laws env av kept
  for env :: "('s, 'l) app_env" and av :: "('s, 'l) app_view" and kept +
  assumes start_steps: "under av {} (tracked av (su_run setup)) (lo_start (ae_loops env) ctx setup) (\<lambda>_. app_ok av)"
    and approve_steps: "under av {} (app_ok av) (lo_approve (ae_loops env) i digest) (\<lambda>_. app_ok av)"
    and reject_steps: "under av {} (app_ok av) (lo_reject (ae_loops env) i digest terminate) (\<lambda>_. app_ok av)"
    and cancel_steps: "under av {} (app_ok av) (lo_cancel (ae_loops env) i) (\<lambda>_. app_ok av)"
begin

section \<open>Reading and moving a run\<close>

lemma get_tick:
  assumes "app_ok av w" and "on_store (so_get (ae_store env) d i) w = (x, w')"
  shows "app_steps av own w w' \<and> app_ok av w' \<and> (\<forall>r. x = Inr r \<longrightarrow> stored av w' i = Some r)"
proof -
  obtain y s where y: "so_get (ae_store env) d i (ap_store w) = (y, s)" by (rule prod.exhaust)
  have k: "av_store_ok av s" "av_lookup av s = av_lookup av (ap_store w)"
    using get_keeps [OF ok_store [OF assms(1)] y] by simp_all
  have w': "w' = w\<lparr>ap_store := s\<rparr>" using assms(2) y by (auto simp: on_store_def split: sum.splits)
  then have "app_ok av w'" using ok_same_lookup [OF assms(1) k] by simp
  moreover from this have "app_step av None w w'" using w' k by (intro tick) (auto simp: stored_def)
  moreover have "stored av w' i = Some r" if "x = Inr r" for r
    using assms(2) y that w' k(2) get_found [OF ok_store [OF assms(1)], of d i r s]
    by (auto simp: on_store_def stored_def split: sum.splits)
  ultimately show ?thesis by (auto intro: app_steps_single)
qed

lemma guided_get:
  assumes "stable (app_steps av own) P" and "\<And>w. P w \<Longrightarrow> app_ok av w"
  shows "under av own P (atomically (on_store (so_get (ae_store env) d i)))
    (\<lambda>x w. P w \<and> (\<forall>r. x = Inr r \<longrightarrow> stored av w i = Some r))"
proof (rule steps.guided_atomically [OF assms(1)])
  fix w assume p: "P w"
  obtain x w' where x: "on_store (so_get (ae_store env) d i) w = (x, w')" by (rule prod.exhaust)
  from get_tick [OF assms(2) [OF p] x] have "app_steps av own' w w' \<and> (\<forall>r. x = Inr r \<longrightarrow> stored av w' i = Some r)" for own'
    by blast
  then show "app_steps av {} w (snd (on_store (so_get (ae_store env) d i) w))
      \<and> P (snd (on_store (so_get (ae_store env) d i) w))
      \<and> (\<forall>r. fst (on_store (so_get (ae_store env) d i) w) = Inr r
        \<longrightarrow> stored av (snd (on_store (so_get (ae_store env) d i) w)) i = Some r)"
    using assms(1) p unfolding x stable_def by auto
qed

lemma tracked_stored: "app_ok av w \<Longrightarrow> stored av w i = Some r \<Longrightarrow> tracked av r w \<and> rid r = i"
  using lookup_id [OF ok_store] by (auto simp: tracked_def known_def stored_def)

text \<open>The store call that changes a state is a step, or leaves the stored runs as they are.\<close>

lemma move_steps:
  assumes "tracked av r w" and "may_step (state r) next" and "move_run env d r next t payload w = (x, w')"
  shows "app_steps av own w w' \<and> tracked av r w'
    \<and> (\<forall>r'. x = Inr r' \<longrightarrow> rid r' = rid r \<and> repo_root r' = repo_root r \<and> state r' = next
          \<and> (\<exists>c. stored av w' (rid r) = Some c \<and> state c = next))
    \<and> (x = Inl (ErrAppStore ErrRunStateChanged) \<longrightarrow> (\<exists>c. stored av w (rid r) = Some c \<and> state c \<noteq> state r))"
proof -
  let ?r = "r\<lparr>state := next, updated_at := ae_now env w\<rparr>"
  obtain c where ok: "app_ok av w" and c: "stored av w (rid r) = Some c" "repo_root c = repo_root r"
    using assms(1) by (auto simp: tracked_def known_def)
  note good = ok_store [OF ok]
  obtain y s where y: "so_update_if (ae_store env) d ?r (state r) t (ae_encode env payload) (ap_store w) = (y, s)"
    by (rule prod.exhaust)
  have w': "w' = w\<lparr>ap_store := s\<rparr>" using assms(3) y by (auto simp: move_run_def on_store_def Let_def split: sum.splits)
  show ?thesis
  proof (cases y)
    case (Inl e)
    have same: "av_store_ok av s" "av_lookup av s = av_lookup av (ap_store w)"
      using update_keeps [OF good y] update_fails [OF good y [unfolded Inl]] by simp_all
    then have "app_ok av w'" using ok_same_lookup [OF ok] w' by simp
    moreover from this have "app_step av None w w'" using w' same by (intro tick) (auto simp: stored_def)
    moreover have "x = Inl (ErrAppStore e)" using assms(3) y Inl by (auto simp: move_run_def on_store_def)
    moreover have "\<exists>c. stored av w (rid r) = Some c \<and> state c \<noteq> state r" if "e = ErrRunStateChanged"
      using update_changed [OF good y [unfolded Inl that]] by (simp add: stored_def)
    ultimately show ?thesis using c w' same by (auto simp: tracked_def known_def stored_def intro: app_steps_single)
  next
    case (Inr ev)
    obtain c0 where c0: "stored av w (rid r) = Some c0" "state c0 = state r"
        and s: "av_lookup av s = (av_lookup av (ap_store w))(rid r \<mapsto> kept ?r)"
      using update_done [OF good y [unfolded Inr]] by (auto simp: stored_def)
    have "app_ok av w'"
      unfolding w' using ok_updated [OF ok update_keeps [OF good y] s] c c0 by (simp add: kept_root)
    moreover from this have "app_step av None w w'"
      using c c0 s w' assms(2) by (intro moved [where c = c0 and c' = "kept ?r" and i = "rid r"])
        (auto simp: stored_def kept_id kept_state kept_root)
    moreover have "x = Inr ?r" using assms(3) y Inr by (auto simp: move_run_def on_store_def)
    ultimately show ?thesis
      using c s w' by (auto simp: tracked_def known_def stored_def kept_root kept_state intro: app_steps_single)
  qed
qed

lemma guided_move:
  assumes "may_step (state r) next"
  shows "under av own (tracked av r) (atomically (move_run env d r next t payload))
    (\<lambda>x w. tracked av r w \<and> (\<forall>r'. x = Inr r' \<longrightarrow> tracked av r' w \<and> rid r' = rid r \<and> state r' = next
       \<and> (\<exists>c. stored av w (rid r) = Some c \<and> state c = next)))"
proof (rule steps.guided_atomically [OF stable_tracked])
  fix w assume t: "tracked av r w"
  obtain x w' where x: "move_run env d r next t payload w = (x, w')" by (rule prod.exhaust)
  have "tracked av r' w'" if "tracked av r w'" "rid r' = rid r" "repo_root r' = repo_root r" for r'
    using that by (simp add: tracked_def known_def)
  then show "app_steps av {} w (snd (move_run env d r next t payload w))
      \<and> tracked av r (snd (move_run env d r next t payload w))
      \<and> (\<forall>r'. fst (move_run env d r next t payload w) = Inr r'
           \<longrightarrow> tracked av r' (snd (move_run env d r next t payload w)) \<and> rid r' = rid r \<and> state r' = next
             \<and> (\<exists>c. stored av (snd (move_run env d r next t payload w)) (rid r) = Some c \<and> state c = next))"
    using move_steps [OF t assms x] unfolding x fst_conv snd_conv by blast
qed

lemma guided_transition:
  "under av own (tracked av r) (transition_state env r next t payload)
    (\<lambda>x w. tracked av r w \<and> (\<forall>r'. x = Inr r' \<longrightarrow> tracked av r' w \<and> rid r' = rid r \<and> state r' = next))"
proof (cases "may_step (state r) next")
  case True
  show ?thesis
    unfolding transition_state_def transition_ok [OF True] sum.case
    by (rule steps.guided_weaken [OF guided_move [OF True]]) blast+
next
  case False
  then have "transition (state r) next = Inl ErrInvalidTransition" using transition_cases by blast
  then have e: "transition_state env r next t payload = fail (ErrAppTransition ErrInvalidTransition)"
    by (simp add: transition_state_def)
  show ?thesis unfolding e by (rule steps.guided_return) simp
qed

section \<open>Stopping and releasing\<close>

lemma ended_stored: "app_ok av w \<Longrightarrow> stored av w i = Some c \<Longrightarrow> terminal (state c) \<Longrightarrow> ended av i w"
  by (auto simp: ended_def)

text \<open>One attempt, once the run was read.\<close>

lemma guided_stop_attempt:
  assumes i: "rid r = i"
    and again: "under av own (app_ok av) again (\<lambda>x w. app_ok av w \<and> (x = Inr () \<longrightarrow> ended av i w))"
  shows "under av own (\<lambda>w. tracked av r w \<and> (terminal (state r) \<longrightarrow> ended av i w))
    (if terminal (state r) then ok ()
     else (case transition (state r) StateStopped of Inl e \<Rightarrow> fail (ErrAppTransition e)
           | Inr _ \<Rightarrow> do {
               x \<leftarrow> atomically (move_run env d r StateStopped t payload);
               case x of Inl e \<Rightarrow> if e = ErrAppStore ErrRunStateChanged then again else fail e | Inr _ \<Rightarrow> ok () }))
    (\<lambda>x w. app_ok av w \<and> (x = Inr () \<longrightarrow> ended av i w))"
proof (cases "terminal (state r)")
  case True
  show ?thesis unfolding if_P [OF True] by (rule steps.guided_return) (use True in \<open>simp add: tracked_def\<close>)
next
  case False
  note step = active_may_stop [OF False]
  show ?thesis
    unfolding transition_ok [OF step] sum.case if_not_P [OF False]
  proof (rule steps.guided_bind)
    show "under av own (\<lambda>w. tracked av r w \<and> (terminal (state r) \<longrightarrow> ended av i w))
      (atomically (move_run env d r StateStopped t payload))
      (\<lambda>x w. app_ok av w \<and> (\<forall>r'. x = Inr r' \<longrightarrow> ended av i w))"
    proof (rule steps.guided_weaken [OF guided_move [OF step]])
      fix x w
      assume "tracked av r w \<and> (\<forall>r'. x = Inr r' \<longrightarrow> tracked av r' w \<and> rid r' = rid r \<and> state r' = StateStopped
        \<and> (\<exists>c. stored av w (rid r) = Some c \<and> state c = StateStopped))"
      then show "app_ok av w \<and> (\<forall>r'. x = Inr r' \<longrightarrow> ended av i w)"
        unfolding tracked_def ended_def terminal_def i by metis
    qed simp
  next
    fix x
    show "under av own (\<lambda>w. app_ok av w \<and> (\<forall>r'. x = Inr r' \<longrightarrow> ended av i w))
      (case x of Inl e \<Rightarrow> if e = ErrAppStore ErrRunStateChanged then again else fail e | Inr _ \<Rightarrow> ok ())
      (\<lambda>x w. app_ok av w \<and> (x = Inr () \<longrightarrow> ended av i w))"
    proof (cases x)
      case (Inl e)
      have "under av own (app_ok av) (fail e) (\<lambda>x w. app_ok av w \<and> (x = Inr () \<longrightarrow> ended av i w))"
        by (rule steps.guided_return) simp
      then show ?thesis using again Inl by simp
    next
      case (Inr r')
      show ?thesis unfolding Inr sum.case by (rule steps.guided_return) simp
    qed
  qed
qed

lemma guided_stop_attempts:
  "under av own (app_ok av) (stop_attempts n env d i reason)
     (\<lambda>x w. app_ok av w \<and> (x = Inr () \<longrightarrow> ended av i w))"
proof (induction n)
  case 0
  show ?case unfolding stop_attempts.simps by (rule steps.guided_return) simp
next
  case (Suc n)
  show ?case
    unfolding stop_attempts.simps
  proof (rule steps.guided_if_ok)
    show "under av own (app_ok av) (atomically (on_store (so_get (ae_store env) d i)))
      (\<lambda>x w. case x of Inl e \<Rightarrow> app_ok av w \<and> (Inl e = (Inr () :: (app_error, unit) result) \<longrightarrow> ended av i w)
         | Inr r \<Rightarrow> rid r = i \<and> tracked av r w \<and> (terminal (state r) \<longrightarrow> ended av i w))"
      by (rule steps.guided_weaken [OF guided_get [OF stable_ok]])
        (auto split: sum.splits dest: tracked_stored ended_stored)
  qed (rule steps.guided_pure, rule guided_stop_attempt [OF _ Suc])
qed

lemma guided_stop:
  "under av own (app_ok av) (stop_if_active env d i reason)
     (\<lambda>x w. app_ok av w \<and> (x = Inr () \<longrightarrow> ended av i w))"
  unfolding stop_if_active_def by (rule steps.guided_attempts) (rule guided_stop_attempts)

lemma release_step:
  assumes "ended av i w"
  shows "app_steps av own w (release_leases env i w) \<and> ended av i (release_leases env i w)"
proof -
  obtain c where c: "app_ok av w" "stored av w i = Some c" "terminal (state c)" using assms by (auto simp: ended_def)
  let ?w = "release_leases env i w"
  have same: "ap_store ?w = ap_store w" "ap_loops ?w = ap_loops w" "ap_background ?w = ap_background w"
    by (simp_all add: release_leases_def)
  then have ok: "app_ok av ?w" using c(1) by (simp add: app_ok_def known_def stored_def)
  have "app_step av None w ?w"
    by (rule released [OF c(2,3), where fault = "ae_release_fault env w" and l = "fst (ap_leases w)"])
      (use same ok in \<open>simp_all add: stored_def release_leases_def\<close>)
  then show ?thesis using c ok same by (auto simp: ended_def stored_def intro: app_steps_single)
qed

lemma forget_frame [simp]:
  "ap_store (forget_run i w) = ap_store w" "ap_loops (forget_run i w) = ap_loops w"
  "ap_leases (forget_run i w) = ap_leases w" "ap_background (forget_run i w) = ap_background w"
  by (auto simp: forget_run_def cancel_context_def split: option.splits)

lemma cancel_frame [simp]:
  "ap_store (cancel_context c w) = ap_store w" "ap_loops (cancel_context c w) = ap_loops w"
  "ap_leases (cancel_context c w) = ap_leases w" "ap_background (cancel_context c w) = ap_background w"
  by (auto simp: cancel_context_def split: option.splits)

lemma guided_release:
  "under av own (app_ok av) (release_if_terminal env d r) (\<lambda>_. app_ok av)"
  unfolding release_if_terminal_def
proof (rule steps.guided_if_ok)
  show "under av own (app_ok av) (atomically (on_store (so_get (ae_store env) d (rid r))))
    (\<lambda>x w. case x of Inl e \<Rightarrow> app_ok av w | Inr c \<Rightarrow> app_ok av w \<and> (terminal (state c) \<longrightarrow> ended av (rid c) w))"
    by (rule steps.guided_weaken [OF guided_get [OF stable_ok]])
      (auto split: sum.splits, metis tracked_stored ended_stored)
next
  fix c
  show "under av own (\<lambda>w. app_ok av w \<and> (terminal (state c) \<longrightarrow> ended av (rid c) w))
    (if \<not> terminal (state c) then ok ()
     else do { modify (release_leases env (rid c)); modify (forget_run (rid c)); ok () }) (\<lambda>_. app_ok av)"
  proof (cases "terminal (state c)")
    case True
    have "under av own (ended av (rid c))
      (do { modify (release_leases env (rid c)); modify (forget_run (rid c)); ok () }) (\<lambda>_. app_ok av)"
    proof (rule steps.guided_bind [OF steps.guided_modify [OF stable_ended release_step]])
      show "under av own (ended av (rid c)) (do { modify (forget_run (rid c)); ok () }) (\<lambda>_. app_ok av)"
        by (rule steps.guided_bind [OF guided_bookkeeping [OF _ _ _ _ stable_ended]])
          (auto simp: ended_def intro: steps.guided_return)
    qed
    then show ?thesis using True by (auto elim: steps.guided_pre)
  next
    case False
    show ?thesis unfolding if_P [OF False] by (rule steps.guided_return) simp
  qed
qed

text \<open>Stopping and then releasing, as several calls do.\<close>

lemma guided_stop_release:
  "under av own (app_ok av)
     (if_ok (stop_if_active env d i reason) (\<lambda>_. release_if_terminal env d' r)) (\<lambda>_. app_ok av)"
  by (rule steps.guided_if_ok [OF steps.guided_weaken [OF guided_stop] guided_release]) (auto split: sum.splits)

lemma guided_cleanup:
  "under av own (app_ok av) (cleanup_create_failure env r cause) (\<lambda>_. app_ok av)"
  unfolding cleanup_create_failure_def
  by (rule steps.guided_bind [OF guided_stop_release steps.guided_return])

lemma guided_fail_control:
  "under av {} (app_ok av) (fail_active_control env r reason cause) (\<lambda>_. app_ok av)"
  unfolding fail_active_control_def
proof (rule steps.guided_bind [OF cancel_steps])
  fix cancelled :: "(control_error, unit) result"
  show "under av {} (app_ok av)
    (do { stopped \<leftarrow> stop_if_active env True (rid r) reason;
          released \<leftarrow> (case stopped of Inl _ \<Rightarrow> ok () | Inr _ \<Rightarrow> release_if_terminal env True r);
          State_Monad.return (join_errors (ErrControl cause
            # (case cancelled of Inl e \<Rightarrow> [ErrControl e] | Inr _ \<Rightarrow> []) @ error_list stopped @ error_list released)) })
    (\<lambda>_. app_ok av)"
  proof (rule steps.guided_bind)
    show "under av {} (app_ok av) (stop_if_active env True (rid r) reason) (\<lambda>_. app_ok av)"
      by (rule steps.guided_weaken [OF guided_stop]) auto
  next
    fix stopped :: "(app_error, unit) result"
    have "under av {} (app_ok av)
      (case stopped of Inl _ \<Rightarrow> ok () | Inr _ \<Rightarrow> release_if_terminal env True r) (\<lambda>_. app_ok av)"
      by (cases stopped) (auto intro: guided_release steps.guided_return)
    then show "under av {} (app_ok av)
      (do { released \<leftarrow> (case stopped of Inl _ \<Rightarrow> ok () | Inr _ \<Rightarrow> release_if_terminal env True r);
            State_Monad.return (join_errors (ErrControl cause
              # (case cancelled of Inl e \<Rightarrow> [ErrControl e] | Inr _ \<Rightarrow> []) @ error_list stopped @ error_list released)) })
      (\<lambda>_. app_ok av)"
      by (rule steps.guided_bind [OF _ steps.guided_return])
  qed
qed

section \<open>Starting and creating\<close>

lemma guided_background:
  "under av own (tracked av r) (modify (start_background r)) (\<lambda>_. app_ok av)"
proof (rule steps.guided_modify [OF stable_tracked])
  fix w assume t: "tracked av r w"
  have "app_ok av (start_background r w) \<and> app_steps av {} w (start_background r w)"
    by (rule bookkeeping) (use t in \<open>auto simp: start_background_def tracked_def app_ok_def known_def stored_def\<close>)
  then show "app_steps av {} w (start_background r w) \<and> app_ok av (start_background r w)" by blast
qed

lemma guided_await:
  "under av own (tracked av r) (await_preflight_approval env r input) (\<lambda>_. app_ok av)"
  unfolding await_preflight_approval_def Let_def
proof (rule steps.guided_bind)
  let ?digest = "preflight_digest env r (in_report input)"
  let ?payload = "APApproval ?digest (pf_baseline_commit (in_report input)) (pf_baseline_diff_hash (in_report input))"
  show "under av own (tracked av r)
    (if_ok (transition_state env r StatePreflight ''PreflightStarted'' APEmpty) (\<lambda>r.
       transition_state env r StateAwaitingApproval ''PreflightApprovalRequired'' ?payload)) (\<lambda>_. app_ok av)"
    by (rule steps.guided_if_ok [where M = "tracked av"];
        rule steps.guided_weaken [OF guided_transition]) (auto simp: tracked_def split: sum.splits)
next
  fix x :: "(app_error, run) result"
  let ?digest = "preflight_digest env r (in_report input)"
  have "under av own (app_ok av)
      (do { joined \<leftarrow> cleanup_create_failure env r e; fail joined }) (\<lambda>_. app_ok av)" for e
    by (rule steps.guided_bind [OF guided_cleanup steps.guided_return])
  moreover have "under av own (app_ok av)
      (do { modify (\<lambda>w. w\<lparr>ap_pending := (ap_pending w)(rid r' \<mapsto> \<lparr>pv_digest = ?digest, pv_input = input\<rparr>)\<rparr>); ok r' })
      (\<lambda>_. app_ok av)" for r'
    by (rule steps.guided_bind [OF guided_bookkeeping [OF _ _ _ _ stable_ok] steps.guided_return]) auto
  ultimately show "under av own (app_ok av)
      (case x of Inl e \<Rightarrow> do { joined \<leftarrow> cleanup_create_failure env r e; fail joined }
       | Inr r' \<Rightarrow> do {
           modify (\<lambda>w. w\<lparr>ap_pending := (ap_pending w)(rid r' \<mapsto> \<lparr>pv_digest = ?digest, pv_input = input\<rparr>)\<rparr>); ok r' })
      (\<lambda>_. app_ok av)"
    by (cases x) auto
qed

text \<open>Claiming the lease of a run that is not stored yet, and what can come of it.\<close>

lemma acquire_holds:
  assumes "acquire lenv fault now root i (l, d) = (Inr u, l', d')"
  shows "holds_lease lenv d' i root"
  using assms by (cases rule: acquire_cases [of lenv fault now root i l d]) (auto simp: holds_lease_def held_by_def)

lemma guided_acquire:
  "under av {i} (unused av i) (atomically (acquire_lease env root i))
     (\<lambda>x w. case x of Inl e \<Rightarrow> app_ok av w | Inr _ \<Rightarrow> reserved av i root w)"
proof (rule steps.guided_atomically [OF stable_unused])
  fix w assume u: "unused av i w"
  let ?x = "acquire_lease env root i w"
  obtain y l' d' where y: "acquire (ae_locks env) (ae_acquire_fault env w) (ae_now env w) root i (ap_leases w) = (y, l', d')"
    by (metis prod.exhaust)
  have w': "snd ?x = w\<lparr>ap_leases := (l', d')\<rparr>" using y by (auto simp: acquire_lease_def split: sum.splits)
  have ok: "app_ok av (snd ?x)" using u w' by (simp add: unused_def app_ok_def known_def stored_def)
  have "app_step av (Some i) w (snd ?x)"
    by (rule claimed [where l = "fst (ap_leases w)" and l' = l']) (use u w' y ok same_locks in \<open>simp_all add: unused_def stored_def\<close>)
  moreover have "reserved av i root (snd ?x)" if v: "fst ?x = Inr v" for v
  proof -
    obtain z where "y = Inr z" using v y by (cases y) (auto simp: acquire_lease_def)
    then have "holds_lease (av_locks av) d' i root"
      using y same_locks acquire_holds [of _ _ _ _ _ "fst (ap_leases w)" "snd (ap_leases w)"] by simp
    then show ?thesis using ok u w' by (simp add: reserved_def unused_def stored_def)
  qed
  ultimately show "app_steps av {} w (snd ?x) \<and> (case fst ?x of Inl e \<Rightarrow> app_ok av (snd ?x) | Inr _ \<Rightarrow> reserved av i root (snd ?x))"
    using ok by (auto intro: app_steps_single split: sum.splits)
qed

lemma guided_create:
  assumes "rid r = i" and "repo_root r = root"
  shows "under av {i} (reserved av i root) (atomically (on_store (so_create (ae_store env) r t p)))
     (\<lambda>x w. case x of Inl e \<Rightarrow> unused av i w | Inr _ \<Rightarrow> tracked av r w)"
proof (rule steps.guided_atomically [OF stable_reserved])
  fix w assume u: "reserved av i root w"
  let ?x = "on_store (so_create (ae_store env) r t p) w"
  have ok: "app_ok av w" "stored av w i = None" using u by (simp_all add: reserved_def)
  note good = ok_store [OF ok(1)]
  obtain y s where y: "so_create (ae_store env) r t p (ap_store w) = (y, s)" by (rule prod.exhaust)
  have w': "snd ?x = w\<lparr>ap_store := s\<rparr>" using y by (auto simp: on_store_def split: sum.splits)
  have good': "av_store_ok av s" using create_keeps [OF good y] .
  show "app_steps av {} w (snd ?x) \<and> (case fst ?x of Inl e \<Rightarrow> unused av i (snd ?x) | Inr _ \<Rightarrow> tracked av r (snd ?x))"
  proof (cases y)
    case (Inl e)
    have same: "av_lookup av s = av_lookup av (ap_store w)" using create_fails [OF good y [unfolded Inl]] .
    have ok': "app_ok av (snd ?x)" using ok_same_lookup [OF ok(1) good' same] w' by simp
    then have "app_step av None w (snd ?x)" using same w' by (intro tick) (auto simp: stored_def)
    then show ?thesis
      using ok' w' same ok y Inl by (auto simp: unused_def stored_def on_store_def intro: app_steps_single)
  next
    case (Inr ev)
    have new: "av_lookup av s = (av_lookup av (ap_store w))(i \<mapsto> kept r)"
      using create_done [OF good y [unfolded Inr]] assms(1) by simp
    have ok': "app_ok av (snd ?x)" unfolding w' by (rule ok_updated [OF ok(1) good' new]) (use ok in simp)
    then have "app_step av (Some i) w (snd ?x)"
      using u w' new assms by (intro created [where c = "kept r"]) (auto simp: reserved_def stored_def kept_id kept_root)
    then show ?thesis
      using ok' w' new y Inr assms by (auto simp: tracked_def known_def stored_def on_store_def kept_root intro: app_steps_single)
  qed
qed

lemma guided_drop: "under av {i} (unused av i) (modify (release_leases env i)) (\<lambda>_. app_ok av)"
proof (rule steps.guided_modify [OF stable_unused])
  fix w assume u: "unused av i w"
  let ?w = "release_leases env i w"
  have ok: "app_ok av ?w" using u by (simp add: unused_def app_ok_def known_def stored_def release_leases_def)
  have "app_step av (Some i) w ?w"
    by (rule dropped [where fault = "ae_release_fault env w" and l = "fst (ap_leases w)"])
      (use u ok in \<open>simp_all add: unused_def stored_def release_leases_def\<close>)
  then show "app_steps av {} w ?w \<and> app_ok av ?w" using ok by (auto intro: app_steps_single)
qed

lemma guided_launch:
  "under av own (tracked av r) (launch_run env r input) (\<lambda>_. app_ok av)"
  unfolding launch_run_def
proof (rule steps.guided_bind [OF guided_bookkeeping [OF _ _ _ _ stable_tracked]])
  have "under av own (tracked av r)
      (do { modify (start_background r); ok r } :: (('s, 'l) app, (app_error, run) result) activity) (\<lambda>_. app_ok av)"
    by (rule steps.guided_bind [OF guided_background steps.guided_return])
  then show "under av own (tracked av r)
    (if has_finding (in_report input) code_dirty_approval then await_preflight_approval env r input
     else do { modify (start_background r); ok r }) (\<lambda>_. app_ok av)"
    using guided_await by simp
qed (auto simp: tracked_def)

lemma guided_keeping:
  assumes "under av own P m Q" and "stable (app_steps av {}) I"
  shows "under av own (\<lambda>w. P w \<and> I w) m (\<lambda>x w. Q x w \<and> I w)"
  using assms unfolding guided_def stable_def by blast

text \<open>What is known when a run was created: it is stored.\<close>

abbreviation present :: "run_id \<Rightarrow> ('s, 'l) app \<Rightarrow> bool" where
  "present i w \<equiv> stored av w i \<noteq> None"

abbreviation made :: "run_id \<Rightarrow> (app_error, run) result \<Rightarrow> ('s, 'l) app \<Rightarrow> bool" where
  "made i x w \<equiv> app_ok av w \<and> (\<forall>r. x = Inr r \<longrightarrow> present i w)"

lemma stable_present: "stable (app_steps av own) (present i)"
  by (rule stable_steps) (auto dest: step_keeps_run)

lemma guided_launch_made: "under av own (tracked av r) (launch_run env r input) (made (rid r))"
  by (rule steps.guided_weaken [OF guided_keeping [OF guided_launch stable_present [of "{}" "rid r"]]])
    (auto simp: tracked_def known_def)

lemma guided_store_new:
  "under av {rid r} (reserved av (rid r) (repo_root r)) (store_new_run env r input) (made (rid r))"
  unfolding store_new_run_def Let_def
proof (rule steps.guided_bind [OF guided_create [OF refl refl]])
  fix x :: "(app_error, run_event) result"
  have "under av {rid r} (unused av (rid r)) (do { modify (release_leases env (rid r)); fail e }) (made (rid r))" for e
    by (rule steps.guided_bind [OF guided_drop steps.guided_return]) simp
  then show "under av {rid r} (\<lambda>w. case x of Inl e \<Rightarrow> unused av (rid r) w | Inr _ \<Rightarrow> tracked av r w)
    (case x of Inl e \<Rightarrow> do { modify (release_leases env (rid r)); fail e } | Inr _ \<Rightarrow> launch_run env r input) (made (rid r))"
    using guided_launch_made by (cases x) simp_all
qed

lemma guided_claim:
  "under av {i} (\<lambda>w. rid r = i \<and> unused av i w)
     (if_ok (atomically (acquire_lease env (repo_root r) i)) (\<lambda>_. store_new_run env r input)) (made i)"
proof (rule steps.guided_pure)
  assume "rid r = i"
  then have own: "under av {i} (reserved av i (repo_root r)) (store_new_run env r input) (made i)"
    using guided_store_new [of r] by simp
  show "under av {i} (unused av i)
     (if_ok (atomically (acquire_lease env (repo_root r) i)) (\<lambda>_. store_new_run env r input)) (made i)"
    by (rule steps.guided_if_ok [OF steps.guided_weaken [OF guided_acquire] own]) (auto split: sum.splits)
qed

lemma guided_create_made: "under av {i} (unused av i) (create_run_service env i rq) (made i)"
  unfolding create_run_service_def
proof (rule steps.guided_bind [OF steps.guided_inspect [where Q = "\<lambda>_. unused av i", OF stable_unused]])
  fix res :: "preflight_report \<times> harness_config option"
  obtain report cfg where res: "res = (report, cfg)" by (rule prod.exhaust)
  have early: "under av {i} (unused av i) (fail e :: (('s, 'l) app, (app_error, run) result) activity) (made i)" for e
    by (rule steps.guided_return) (simp add: unused_def)
  have new: "under av {i} (unused av i) (inspect (\<lambda>w. new_run rq report i (ae_now env w))) (\<lambda>r w. rid r = i \<and> unused av i w)"
    by (rule steps.guided_inspect [OF stable_unused]) (simp add: new_run_def)
  show "under av {i} (unused av i)
      (case res of (report, cfg) \<Rightarrow>
        if \<not> pf_ok report then fail (ErrPreflight report)
        else do {
          r \<leftarrow> inspect (\<lambda>w. new_run rq report i (ae_now env w));
          if_ok (atomically (acquire_lease env (repo_root r) i)) (\<lambda>_.
            store_new_run env r \<lparr>in_request = rq, in_report = report, in_config = cfg\<rparr>)
        }) (made i)"
    unfolding res prod.case 
    using early steps.guided_bind [OF new guided_claim [where input = "\<lparr>in_request = rq, in_report = report, in_config = cfg\<rparr>"]]
    by simp
qed simp

lemma guided_create_run: "under av {i} (unused av i) (create_run_service env i rq) (\<lambda>_. app_ok av)"
  by (rule steps.guided_weaken [OF guided_create_made]) auto

lemma guided_start: "under av {} (tracked av r) (start_service env n r) (\<lambda>_. app_ok av)"
  unfolding start_service_def
proof (rule steps.guided_bind [OF steps.guided_inspect [where Q = "\<lambda>_. tracked av r", OF stable_tracked]])
  fix input
  have stop: "under av {} (app_ok av) (do { _ \<leftarrow> m; _ \<leftarrow> release_if_terminal env True r; State_Monad.return () }) (\<lambda>_. app_ok av)"
    if "under av {} (app_ok av) m (\<lambda>_. app_ok av)" for m :: "(('s, 'l) app, (app_error, unit) result) activity"
    by (rule steps.guided_bind [OF that steps.guided_bind [OF guided_release steps.guided_return]])
  have stopping: "under av {} (app_ok av) (stop_if_active env True (rid r) reason) (\<lambda>_. app_ok av)" for reason
    by (rule steps.guided_weaken [OF guided_stop]) auto
  have ran: "under av {} (app_ok av) (case x of Inr _ \<Rightarrow> ok ()
      | Inl e \<Rightarrow> stop_if_active env True (rid r) (if loop_cancelled env e then ''USER_CANCELLED'' else ''LOOP_FAILED''))
      (\<lambda>_. app_ok av)" for x :: "(control_error, unit) result"
    using stopping by (cases x) (auto intro: steps.guided_return)
  show "under av {} (tracked av r)
    (case input of
       None \<Rightarrow> do {
         _ \<leftarrow> stop_if_active env True (rid r) ''LOOP_SETUP_MISSING''; _ \<leftarrow> release_if_terminal env True r;
         State_Monad.return () }
     | Some input \<Rightarrow> do {
         x \<leftarrow> lo_start (ae_loops env) n \<lparr>su_run = r, su_input = input\<rparr>;
         _ \<leftarrow> (case x of Inr _ \<Rightarrow> ok ()
               | Inl e \<Rightarrow> stop_if_active env True (rid r) (if loop_cancelled env e then ''USER_CANCELLED'' else ''LOOP_FAILED''));
         _ \<leftarrow> release_if_terminal env True r;
         State_Monad.return () }) (\<lambda>_. app_ok av)"
  proof (cases input)
    case None
    show ?thesis
      unfolding None option.case by (rule steps.guided_pre [OF stop [OF stopping]]) (simp add: tracked_def)
  next
    case (Some y)
    have s: "under av {} (tracked av r) (lo_start (ae_loops env) n \<lparr>su_run = r, su_input = y\<rparr>) (\<lambda>_. app_ok av)"
      using start_steps [of "\<lparr>su_run = r, su_input = y\<rparr>"] by simp
    show ?thesis unfolding Some option.case by (rule steps.guided_bind [OF s stop [OF ran]])
  qed
qed simp

section \<open>Approving, rejecting and cancelling\<close>

lemma guided_active_run:
  "under av own (app_ok av) (active_run env i)
     (\<lambda>x w. app_ok av w \<and> (\<forall>r. x = Inr r \<longrightarrow> rid r = i \<and> tracked av r w))"
  unfolding active_run_def
proof (rule steps.guided_if_ok)
  show "under av own (app_ok av) (atomically (on_store (so_get (ae_store env) False i)))
    (\<lambda>x w. case x of Inl e \<Rightarrow> app_ok av w \<and> (\<forall>r. Inl e = (Inr r :: (app_error, run) result) \<longrightarrow> rid r = i \<and> tracked av r w)
       | Inr r \<Rightarrow> rid r = i \<and> tracked av r w)"
    by (rule steps.guided_weaken [OF guided_get [OF stable_ok]]) (auto split: sum.splits dest: tracked_stored)
next
  fix r
  show "under av own (\<lambda>w. rid r = i \<and> tracked av r w) (if terminal (state r) then fail ErrRunTerminal else ok r)
    (\<lambda>x w. app_ok av w \<and> (\<forall>r. x = Inr r \<longrightarrow> rid r = i \<and> tracked av r w))"
    by (cases "terminal (state r)"; simp only: if_True if_False; rule steps.guided_return) (auto simp: tracked_def)
qed

lemma early_return [simp]:
  "under av own (app_ok av) (State_Monad.return x) (\<lambda>_. app_ok av)"
  "under av own (tracked av r) (State_Monad.return x) (\<lambda>_. app_ok av)"
  by (rule steps.guided_return, simp add: tracked_def)+

lemma guided_grant:
  "under av own (tracked av r) (grant_preflight env r input) (\<lambda>_. app_ok av)"
  unfolding grant_preflight_def
proof (rule steps.guided_bind [OF steps.guided_inspect [where Q = "\<lambda>_. tracked av r", OF stable_tracked]])
  fix stopping
  let ?go = "\<lambda>r'. do {
      modify (\<lambda>w. w\<lparr>ap_pending := (ap_pending w)(rid r := None), ap_inputs := (ap_inputs w)(rid r \<mapsto> input)\<rparr>);
      modify (start_background r');
      (ok () :: (('s, 'l) app, (app_error, unit) result) activity)
    }"
  have go: "under av own (tracked av r') (?go r') (\<lambda>_. app_ok av)" for r'
    by (rule steps.guided_bind [OF guided_bookkeeping [OF _ _ _ _ stable_tracked]
          steps.guided_bind [OF guided_background steps.guided_return]]) (auto simp: tracked_def)
  have "under av own (tracked av r)
      (if_ok (transition_state env r StatePreflight ''PreflightApprovalGranted'' APEmpty) ?go) (\<lambda>_. app_ok av)"
    by (rule steps.guided_if_ok [OF steps.guided_weaken [OF guided_transition] go]) (auto simp: tracked_def split: sum.splits)
  then show "under av own (tracked av r)
      (if stopping then fail ErrRunTerminal
       else if_ok (transition_state env r StatePreflight ''PreflightApprovalGranted'' APEmpty) ?go) (\<lambda>_. app_ok av)"
    by simp
qed simp

lemma guided_approve_preflight:
  "under av own (tracked av r) (approve_preflight env r p digest) (\<lambda>_. app_ok av)"
proof (cases "digest = pv_digest p")
  case True
  have look: "under av own (tracked av r) (inspect (\<lambda>w. preflight (ae_system env w) (in_request (pv_input p)))) (\<lambda>_. tracked av r)"
    by (rule steps.guided_inspect [OF stable_tracked])
  show ?thesis
    unfolding approve_preflight_def using True
    by (simp, intro steps.guided_bind [OF look]) (simp add: guided_grant split: prod.splits)
qed (simp add: approve_preflight_def)

lemma guided_after_loop:
  fixes refused :: "control_error \<Rightarrow> bool" and after :: "(('s, 'l) app, (app_error, unit) result) activity"
  assumes "under av {} (app_ok av) after (\<lambda>_. app_ok av)"
  shows "under av {} (app_ok av)
    (case x of
       Inr _ \<Rightarrow> after
     | Inl e \<Rightarrow> if refused e then fail (ErrControl e)
         else do { joined \<leftarrow> fail_active_control env r reason e; fail joined }) (\<lambda>_. app_ok av)"
proof (cases x)
  case (Inl e)
  have "under av {} (app_ok av)
      (do { joined \<leftarrow> fail_active_control env r reason e; fail joined } :: (('s, 'l) app, (app_error, unit) result) activity) (\<lambda>_. app_ok av)"
    by (rule steps.guided_bind [OF guided_fail_control early_return(1)])
  then show ?thesis using Inl by simp
qed (use assms in simp)

text \<open>Both answers look into the maps first.\<close>

lemma guided_look:
  fixes f :: "preflight_approval \<Rightarrow> (('s, 'l) app, (app_error, unit) result) activity"
  assumes "\<And>p. under av {} (tracked av r) (f p) (\<lambda>_. app_ok av)" and "under av {} (tracked av r) g (\<lambda>_. app_ok av)"
  shows "under av {} (tracked av r)
    (do {
       (pending, stopping) \<leftarrow> inspect (\<lambda>w. (ap_pending w i, ap_stopping w i));
       if stopping then fail ErrRunTerminal else (case pending of Some p \<Rightarrow> f p | None \<Rightarrow> g)
     }) (\<lambda>_. app_ok av)"
proof (rule steps.guided_bind [OF steps.guided_inspect [where Q = "\<lambda>_. tracked av r", OF stable_tracked]])
  fix x :: "preflight_approval option \<times> bool"
  obtain pending stopping where x: "x = (pending, stopping)" by (rule prod.exhaust)
  show "under av {} (tracked av r)
    (case x of (pending, stopping) \<Rightarrow>
       if stopping then fail ErrRunTerminal else (case pending of Some p \<Rightarrow> f p | None \<Rightarrow> g)) (\<lambda>_. app_ok av)"
    unfolding x using assms by (cases stopping; cases pending) simp_all
qed simp

lemma guided_approve: "under av {} (app_ok av) (approve_service env i digest) (\<lambda>_. app_ok av)"
  unfolding approve_service_def
proof (rule steps.guided_if_ok [where M = "tracked av"])
  show "under av {} (app_ok av) (active_run env i) (\<lambda>x w. case x of Inl e \<Rightarrow> app_ok av w | Inr r \<Rightarrow> tracked av r w)"
    by (rule steps.guided_weaken [OF guided_active_run]) (auto split: sum.splits)
next
  fix r
  let ?loop = "do {
      x \<leftarrow> lo_approve (ae_loops env) i digest;
      case x of
        Inr _ \<Rightarrow> release_if_terminal env False r
      | Inl e \<Rightarrow>
          if e = ErrLoop ErrApprovalNotGranted \<or> e = ErrLoopSessionBusy then fail (ErrControl e)
          else do { joined \<leftarrow> fail_active_control env r ''LOOP_APPROVAL_FAILED'' e; fail joined }
    }"
  have loop: "under av {} (tracked av r) ?loop (\<lambda>_. app_ok av)"
    by (rule steps.guided_pre [OF steps.guided_bind [OF approve_steps guided_after_loop [OF guided_release]]])
      (simp add: tracked_def)
  show "under av {} (tracked av r)
    (do {
       (pending, stopping) \<leftarrow> inspect (\<lambda>w. (ap_pending w i, ap_stopping w i));
       if stopping then fail ErrRunTerminal
       else (case pending of Some p \<Rightarrow> approve_preflight env r p digest | None \<Rightarrow> ?loop)
     }) (\<lambda>_. app_ok av)"
    by (rule guided_look [OF guided_approve_preflight loop])
qed

lemma guided_reject: "under av {} (app_ok av) (reject_service env i digest terminate) (\<lambda>_. app_ok av)"
  unfolding reject_service_def
proof (rule steps.guided_if_ok [where M = "tracked av"])
  show "under av {} (app_ok av) (active_run env i) (\<lambda>x w. case x of Inl e \<Rightarrow> app_ok av w | Inr r \<Rightarrow> tracked av r w)"
    by (rule steps.guided_weaken [OF guided_active_run]) (auto split: sum.splits)
next
  fix r
  let ?over = "if_ok (if terminate then stop_if_active env False i ''APPROVAL_REJECTED'' else ok ())
      (\<lambda>_. release_if_terminal env False r)"
  let ?loop = "do {
      x \<leftarrow> lo_reject (ae_loops env) i digest terminate;
      case x of
        Inl e \<Rightarrow>
          if e = ErrLoop ErrApprovalRejectionMismatch \<or> e = ErrLoopSessionBusy then fail (ErrControl e)
          else do { joined \<leftarrow> fail_active_control env r ''LOOP_REJECTION_FAILED'' e; fail joined }
      | Inr _ \<Rightarrow> ?over
    }"
  let ?preflight = "\<lambda>p. if digest \<noteq> pv_digest p then fail ErrApprovalStale
      else if terminate
      then if_ok (stop_if_active env False i ''APPROVAL_REJECTED'') (\<lambda>_. release_if_terminal env False r)
      else ok ()"
  have stop: "under av {} (app_ok av) ?over (\<lambda>_. app_ok av)"
    using guided_stop_release guided_release by (cases terminate) (simp_all add: if_ok_def)
  have loop: "under av {} (tracked av r) ?loop (\<lambda>_. app_ok av)"
    by (rule steps.guided_pre [OF steps.guided_bind [OF reject_steps guided_after_loop [OF stop]]]) (simp add: tracked_def)
  have "under av {} (app_ok av) (?preflight p) (\<lambda>_. app_ok av)" for p
    using guided_stop_release by simp
  then have preflight: "under av {} (tracked av r) (?preflight p) (\<lambda>_. app_ok av)" for p
    by (rule steps.guided_pre) (simp add: tracked_def)
  show "under av {} (tracked av r)
    (do {
       (pending, stopping) \<leftarrow> inspect (\<lambda>w. (ap_pending w i, ap_stopping w i));
       if stopping then fail ErrRunTerminal
       else (case pending of Some p \<Rightarrow> ?preflight p | None \<Rightarrow> ?loop)
     }) (\<lambda>_. app_ok av)"
    by (rule guided_look [OF preflight loop])
qed

lemma guided_mark_stopping:
  "under av own (app_ok av) (atomically (mark_stopping i)) (\<lambda>_. app_ok av)"
proof (rule steps.guided_atomically [OF stable_ok])
  fix w assume ok: "app_ok av w"
  have "app_ok av (snd (mark_stopping i w)) \<and> app_steps av {} w (snd (mark_stopping i w))"
    by (rule bookkeeping) (use ok in \<open>auto simp: mark_stopping_def app_ok_def known_def stored_def\<close>)
  then show "app_steps av {} w (snd (mark_stopping i w)) \<and> app_ok av (snd (mark_stopping i w))" by blast
qed

text \<open>A run whose cancellation succeeded has ended.\<close>

abbreviation over :: "run_id \<Rightarrow> (app_error, unit) result \<Rightarrow> ('s, 'l) app \<Rightarrow> bool" where
  "over i x w \<equiv> app_ok av w \<and> (x = Inr () \<longrightarrow> ended av i w)"

lemma guided_stop_over:
  "under av own (app_ok av) (if_ok (stop_if_active env d i reason) (\<lambda>_. release_if_terminal env d' r)) (over i)"
proof (rule steps.guided_if_ok [OF steps.guided_weaken [OF guided_stop]])
  show "under av own (\<lambda>w. app_ok av w \<and> ended av i w) (release_if_terminal env d' r) (over i)"
    by (rule steps.guided_weaken [OF guided_keeping [OF guided_release stable_ended]]) auto
qed (auto split: sum.splits)

lemma guided_cancel_over: "under av {} (app_ok av) (cancel_service env i) (over i)"
  unfolding cancel_service_def
proof (rule steps.guided_if_ok [where M = "\<lambda>_. app_ok av"])
  show "under av {} (app_ok av) (active_run env i) (\<lambda>x w. case x of Inl e \<Rightarrow> over i (Inl e) w | Inr r \<Rightarrow> app_ok av w)"
    by (rule steps.guided_weaken [OF guided_active_run]) (auto split: sum.splits)
next
  fix r
  let ?after = "\<lambda>x. case x of
      Inl e \<Rightarrow> do { modify (\<lambda>w. w\<lparr>ap_stopping := (ap_stopping w)(i := False)\<rparr>); fail (ErrControl e) }
    | Inr _ \<Rightarrow> if_ok (stop_if_active env True i ''USER_CANCELLED'') (\<lambda>_. release_if_terminal env True r)"
  have after: "under av {} (app_ok av) (?after x) (over i)" for x :: "(control_error, unit) result"
  proof (cases x)
    case (Inl e)
    have failed: "under av {} (app_ok av) (fail (ErrControl e)) (over i)" by (rule steps.guided_return) simp
    show ?thesis
      unfolding Inl sum.case by (rule steps.guided_bind [OF guided_bookkeeping [OF _ _ _ _ stable_ok] failed]) auto
  qed (use guided_stop_over in simp)
  have each: "under av {} (app_ok av) (do { modify (cancel_context c); x \<leftarrow> lo_cancel (ae_loops env) i; ?after x }) (over i)" for c
    by (rule steps.guided_bind [OF guided_bookkeeping [OF _ _ _ _ stable_ok] steps.guided_bind [OF cancel_steps after]]) auto
  show "under av {} (app_ok av)
    (if_ok (atomically (mark_stopping i)) (\<lambda>c. do { modify (cancel_context c); x \<leftarrow> lo_cancel (ae_loops env) i; ?after x }))
    (over i)"
    by (rule steps.guided_if_ok [OF steps.guided_weaken [OF guided_mark_stopping] each]) (auto split: sum.splits)
qed

lemma guided_cancel: "under av {} (app_ok av) (cancel_service env i) (\<lambda>_. app_ok av)"
  by (rule steps.guided_weaken [OF guided_cancel_over]) auto

section \<open>Start-up and shutdown\<close>

lemma guided_list:
  "under av own (app_ok av) (atomically (on_store (so_list (ae_store env) d)))
     (\<lambda>x w. app_ok av w \<and> (\<forall>rs. x = Inr rs \<longrightarrow> (\<forall>r \<in> set rs. stored av w (rid r) = Some r) \<and> (\<forall>i c. stored av w i = Some c \<longrightarrow> c \<in> set rs)))"
proof (rule steps.guided_atomically [OF stable_ok])
  fix w assume ok: "app_ok av w"
  let ?x = "on_store (so_list (ae_store env) d) w"
  obtain y s where y: "so_list (ae_store env) d (ap_store w) = (y, s)" by (rule prod.exhaust)
  have k: "av_store_ok av s" "av_lookup av s = av_lookup av (ap_store w)" using list_keeps [OF ok_store [OF ok] y] by simp_all
  have w': "snd ?x = w\<lparr>ap_store := s\<rparr>" using y by (auto simp: on_store_def split: sum.splits)
  have ok': "app_ok av (snd ?x)" using ok_same_lookup [OF ok k] w' by simp
  then have "app_step av None w (snd ?x)" using w' k by (intro tick) (auto simp: stored_def)
  moreover have "(\<forall>r \<in> set rs. stored av (snd ?x) (rid r) = Some r) \<and> (\<forall>i c. stored av (snd ?x) i = Some c \<longrightarrow> c \<in> set rs)"
    if "fst ?x = Inr rs" for rs
  proof -
    have "y = Inr rs" using that y by (cases y) (auto simp: on_store_def)
    then have "set rs = ran (av_lookup av s)" using list_found [OF ok_store [OF ok]] y k(2) by simp
    then show ?thesis using w' lookup_id [OF k(1)] by (auto simp: stored_def ran_def)
  qed
  ultimately show "app_steps av {} w (snd ?x) \<and> app_ok av (snd ?x)
      \<and> (\<forall>rs. fst ?x = Inr rs \<longrightarrow> (\<forall>r \<in> set rs. stored av (snd ?x) (rid r) = Some r)
           \<and> (\<forall>i c. stored av (snd ?x) i = Some c \<longrightarrow> c \<in> set rs))"
    using ok' by (blast intro: app_steps_single)
qed

text \<open>While the listed runs are being recovered, every other active run holds its lease.\<close>

definition recovering :: "run_id set \<Rightarrow> run list \<Rightarrow> ('s, 'l) app \<Rightarrow> bool" where
  "recovering E rs w \<longleftrightarrow>
     leased_except av (rid ` set rs) w \<and> (\<forall>i \<in> E. ended av i w)
     \<and> (\<forall>r \<in> set rs. tracked av r w \<and> (terminal (state r) \<longrightarrow> ended av (rid r) w)) \<and> app_ok av w"

lemma stable_recovering: "stable (app_steps av own) (recovering E rs)"
  unfolding recovering_def
  by (intro stable_conj stable_ball stable_imp stable_leased stable_ended stable_tracked stable_ok)

lemma recovering_next:
  "recovering E (r # rs) w \<Longrightarrow> ended av (rid r) w \<Longrightarrow> recovering (insert (rid r) E) rs w"
  by (auto simp: recovering_def intro: leased_ended)

lemma guided_recover_release:
  assumes "under av own (recovering (insert (rid r) E) rs) m Q"
  shows "under av own (\<lambda>w. recovering E (r # rs) w \<and> ended av (rid r) w)
    (do { modify (release_leases env (rid r)); m }) Q"
proof (rule steps.guided_bind)
  show "under av own (\<lambda>w. recovering E (r # rs) w \<and> ended av (rid r) w) (modify (release_leases env (rid r)))
      (\<lambda>_ w. ended av (rid r) w \<and> recovering E (r # rs) w)"
    by (rule steps.guided_pre [OF guided_keeping [OF steps.guided_modify [OF stable_ended release_step] stable_recovering]]) auto
  fix u
  show "under av own (\<lambda>w. ended av (rid r) w \<and> recovering E (r # rs) w) m Q"
    using assms by (rule steps.guided_pre) (auto intro: recovering_next)
qed

lemma guided_recover_each:
  "under av own (recovering E rs) (recover_each env rs)
     (\<lambda>x w. app_ok av w \<and> (x = Inr () \<longrightarrow> leased av w \<and> (\<forall>i \<in> E \<union> rid ` set rs. ended av i w)))"
proof (induction rs arbitrary: E)
  case Nil
  show ?case unfolding recover_each.simps by (rule steps.guided_return) (auto simp: recovering_def)
next
  case (Cons r rs)
  let ?Q = "\<lambda>x w. app_ok av w \<and> (x = Inr () \<longrightarrow> leased av w \<and> (\<forall>i \<in> E \<union> rid ` set (r # rs). ended av i w))"
  have Q: "insert (rid r) E \<union> rid ` set rs = E \<union> rid ` set (r # rs)" by auto
  have release: "under av own (\<lambda>w. recovering E (r # rs) w \<and> ended av (rid r) w)
      (do { modify (release_leases env (rid r)); recover_each env rs }) ?Q"
    by (rule guided_recover_release) (use Cons [of "insert (rid r) E"] Q in simp)
  show ?case
  proof (cases "terminal (state r)")
    case True
    then show ?thesis using release by (simp add: recovering_def) (erule steps.guided_pre, simp)
  next
    case False
    let ?move = "move_run env False r StateStopped ''RunRecovered'' (APStopped ''STARTUP_RECOVERY'')"
    have moved: "under av own (recovering E (r # rs)) (atomically ?move)
        (\<lambda>x w. case x of Inl e \<Rightarrow> ?Q (Inl e) w | Inr _ \<Rightarrow> recovering E (r # rs) w \<and> ended av (rid r) w)"
    proof (rule steps.guided_weaken [OF guided_keeping [OF guided_move [OF active_may_stop [OF False]] stable_recovering [of "{}"]]])
      fix x :: "(app_error, run) result" and w
      assume "(tracked av r w \<and> (\<forall>r'. x = Inr r' \<longrightarrow> tracked av r' w \<and> rid r' = rid r \<and> state r' = StateStopped
          \<and> (\<exists>c. stored av w (rid r) = Some c \<and> state c = StateStopped))) \<and> recovering E (r # rs) w"
      then show "case x of Inl e \<Rightarrow> ?Q (Inl e) w | Inr _ \<Rightarrow> recovering E (r # rs) w \<and> ended av (rid r) w"
        by (cases x) (auto simp: recovering_def ended_def terminal_def)
    qed (auto simp: recovering_def)
    show ?thesis
      unfolding recover_each.simps if_not_P [OF False] transition_ok [OF active_may_stop [OF False]] sum.case
      by (rule steps.guided_if_ok [OF moved release])
  qed
qed

lemma guided_recover:
  "under av own (\<lambda>w. app_ok av w \<and> (\<forall>i \<in> D. stored av w i \<noteq> None)) (recover_runs env)
     (\<lambda>x w. app_ok av w \<and> (x = Inr () \<longrightarrow> leased av w \<and> (\<forall>i \<in> D. ended av i w)))"
  unfolding recover_runs_def
proof (rule steps.guided_if_ok)
  have D: "stable (app_steps av {}) (\<lambda>w. \<forall>i \<in> D. stored av w i \<noteq> None)"
    by (rule stable_ball, rule stable_steps) (auto dest!: step_keeps_run)
  show "under av own (\<lambda>w. app_ok av w \<and> (\<forall>i \<in> D. stored av w i \<noteq> None)) (atomically (on_store (so_list (ae_store env) False)))
    (\<lambda>x w. case x of
        Inl e \<Rightarrow> app_ok av w \<and> (Inl e = (Inr () :: (app_error, unit) result) \<longrightarrow> leased av w \<and> (\<forall>i \<in> D. ended av i w))
      | Inr rs \<Rightarrow> D \<subseteq> rid ` set rs \<and> recovering {} rs w)"
  proof (rule steps.guided_weaken [OF guided_keeping [OF guided_list D]])
    fix x :: "(app_error, run list) result" and w
    assume a: "(app_ok av w \<and> (\<forall>rs. x = Inr rs \<longrightarrow> (\<forall>r \<in> set rs. stored av w (rid r) = Some r)
        \<and> (\<forall>i c. stored av w i = Some c \<longrightarrow> c \<in> set rs))) \<and> (\<forall>i \<in> D. stored av w i \<noteq> None)"
    have id: "rid c = i" if "stored av w i = Some c" for i c using that a tracked_stored by blast
    show "case x of
        Inl e \<Rightarrow> app_ok av w \<and> (Inl e = (Inr () :: (app_error, unit) result) \<longrightarrow> leased av w \<and> (\<forall>i \<in> D. ended av i w))
      | Inr rs \<Rightarrow> D \<subseteq> rid ` set rs \<and> recovering {} rs w"
    proof (cases x)
      case (Inr rs)
      then have all: "\<forall>r \<in> set rs. stored av w (rid r) = Some r" "\<forall>i c. stored av w i = Some c \<longrightarrow> c \<in> set rs" using a by auto
      have "D \<subseteq> rid ` set rs" using a all(2) id by fastforce
      moreover have "leased_except av (rid ` set rs) w" using all(2) id by (fastforce simp: leased_except_def)
      ultimately show ?thesis
        using a all Inr by (auto simp: recovering_def tracked_def known_def intro: ended_stored)
    qed (use a in simp)
  qed blast
next
  fix rs
  show "under av own (\<lambda>w. D \<subseteq> rid ` set rs \<and> recovering {} rs w) (recover_each env rs)
    (\<lambda>x w. app_ok av w \<and> (x = Inr () \<longrightarrow> leased av w \<and> (\<forall>i \<in> D. ended av i w)))"
    by (rule steps.guided_pure, rule steps.guided_weaken [OF guided_recover_each]) auto
qed

lemma guided_close_each: "under av {} (app_ok av) (close_each env rs) (\<lambda>_. app_ok av)"
proof (induction rs)
  case (Cons r rs)
  have "under av {} (app_ok av) (do { x \<leftarrow> cancel_service env (rid r); es \<leftarrow> close_each env rs; State_Monad.return (error_list x @ es) })
      (\<lambda>_. app_ok av)"
    by (rule steps.guided_bind [OF guided_cancel steps.guided_bind [OF Cons early_return(1)]])
  then show ?case using Cons by simp
qed simp

lemma guided_close: "under av {} (app_ok av) (close_service env) (\<lambda>_. app_ok av)"
  unfolding close_service_def
proof (rule steps.guided_if_ok [where M = "\<lambda>_. app_ok av"])
  show "under av {} (app_ok av) (atomically (on_store (so_list (ae_store env) True)))
      (\<lambda>x w. case x of Inl e \<Rightarrow> app_ok av w | Inr rs \<Rightarrow> app_ok av w)"
    by (rule steps.guided_weaken [OF guided_list]) (auto split: sum.splits)
  fix rs
  show "under av {} (app_ok av) (do { es \<leftarrow> close_each env rs; if es = [] then ok () else fail (join_errors es) }) (\<lambda>_. app_ok av)"
    by (rule steps.guided_bind [OF guided_close_each]) simp
qed

section \<open>The retry loop ends\<close>

lemma meanwhile_ok:
  assumes "app_ok av w" and "\<forall>change \<in> set others. \<forall>v. app_steps av own v (change v)"
  shows "app_ok av (meanwhile others w)"
proof (cases others)
  case (Cons change rest)
  then have "app_steps av own w (change w)" using assms(2) by simp
  then show ?thesis using assms(1) stable_ok Cons unfolding stable_def meanwhile_def by auto
qed (use assms(1) in \<open>simp add: meanwhile_def\<close>)

lemma on_store_error: "on_store f w = (Inl e, w') \<Longrightarrow> e \<noteq> ErrAttempts"
  by (auto simp: on_store_def split: sum.splits prod.splits)

lemma move_error: "move_run env d r next t payload w = (Inl e, w') \<Longrightarrow> e \<noteq> ErrAttempts"
  by (auto simp: move_run_def Let_def split: sum.splits prod.splits dest: on_store_error)

lemma stop_attempts_end:
  assumes "length others < n" and "app_ok av w" and "\<forall>change \<in> set others. \<forall>v. app_steps av own v (change v)"
  shows "fst (run_state (stop_attempts n env d i reason) (others, w)) \<noteq> Inl ErrAttempts"
  using assms
proof (induction n arbitrary: others w)
  case (Suc n)
  let ?v = "meanwhile others w"
  have v: "app_ok av ?v" using meanwhile_ok Suc.prems(2,3) .
  obtain x1 w1 where x1: "on_store (so_get (ae_store env) d i) ?v = (x1, w1)" by (rule prod.exhaust)
  have w1: "app_ok av w1" "\<And>r. x1 = Inr r \<Longrightarrow> stored av w1 i = Some r" using get_tick [OF v x1] by blast+
  have get: "run_state (atomically (on_store (so_get (ae_store env) d i))) (others, w) = (x1, tl others, w1)"
    by (simp add: atomically_def x1)
  show ?case
  proof (cases x1)
    case (Inl e)
    then show ?thesis using get on_store_error [of "so_get (ae_store env) d i" ?v e w1] x1 by (simp add: if_ok_def)
  next
    case (Inr r)
    then have r: "stored av w1 i = Some r" "rid r = i" "tracked av r w1"
      using w1 tracked_stored [OF w1(1), of i r] by simp_all
    show ?thesis
    proof (cases "terminal (state r)")
      case True
      then show ?thesis using get Inr by (simp add: if_ok_def)
    next
      case False
      note step = active_may_stop [OF False]
      have o: "\<forall>change \<in> set (tl others). \<forall>v. app_steps av own v (change v)"
        using Suc.prems(3) by (cases others) auto
      let ?u = "meanwhile (tl others) w1"
      obtain x2 w2 where x2: "move_run env d r StateStopped ''RunStopped'' (APStopped reason) ?u = (x2, w2)" by (rule prod.exhaust)
      have u: "tracked av r ?u"
      proof (cases "tl others")
        case (Cons change rest)
        then have "app_steps av own w1 (change w1)" using o by simp
        then have "tracked av r (change w1)" using r(3) stable_tracked unfolding stable_def by blast
        then show ?thesis by (simp add: Cons meanwhile_def)
      qed (use r(3) in \<open>simp add: meanwhile_def\<close>)
      note moved = move_steps [OF u step x2, of own]
      have run: "run_state (stop_attempts (Suc n) env d i reason) (others, w)
        = (case x2 of Inl e \<Rightarrow> if e = ErrAppStore ErrRunStateChanged
             then run_state (stop_attempts n env d i reason) (tl (tl others), w2) else (Inl e, tl (tl others), w2)
           | Inr _ \<Rightarrow> (Inr (), tl (tl others), w2))"
        using get Inr False step by (simp add: if_ok_def transition_ok atomically_def x2 split: sum.splits)
      show ?thesis
      proof (cases "x2 = Inl (ErrAppStore ErrRunStateChanged)")
        case True
        then obtain c where c: "stored av ?u (rid r) = Some c" "state c \<noteq> state r" using moved by blast
        have "tl others \<noteq> []" using c r by (auto simp: meanwhile_def)
        then have "length (tl (tl others)) < n" using Suc.prems(1) by (cases others; cases "tl others") auto
        moreover have "app_ok av w2" using moved by (simp add: tracked_def)
        moreover have "\<forall>change \<in> set (tl (tl others)). \<forall>v. app_steps av own v (change v)" using o by (cases "tl others") auto
        ultimately show ?thesis using Suc.IH run True by simp
      next
        case no: False
        have "x2 \<noteq> Inl ErrAttempts" using move_error x2 by blast
        then show ?thesis unfolding run using no by (cases x2) auto
      qed
    qed
  qed
qed simp

lemma stop_ends:
  assumes "app_ok av w" and "\<forall>change \<in> set others. \<forall>v. app_steps av own v (change v)"
  shows "fst (run_state (stop_if_active env d i reason) (others, w)) \<noteq> Inl ErrAttempts"
proof -
  have "fst (run_state (stop_attempts (Suc (length others)) env d i reason) (others, w)) \<noteq> Inl ErrAttempts"
    by (rule stop_attempts_end [OF lessI assms])
  then show ?thesis by (simp only: stop_if_active_def state.sel fst_conv simp_thms)
qed

end

end
