(* ===== verification/App_Store.thy ===== *)
theory App_Store
  imports App_Correct Agent_Store
begin

text \<open>
  The two stores as the application service uses them, and that both keep the contract
  \<^verbatim>\<open>service_store_laws\<close>, the SQLite store with failing driver calls.
\<close>

section \<open>The service's operations on the stores\<close>

text \<open>\<^verbatim>\<open>ListRuns\<close> is called with the empty query.\<close>

definition all_runs_query :: run_list_query where
  "all_runs_query = \<lparr>q_limit = 0, q_offset = 0, q_ids = None\<rparr>"

definition memory_call :: "(memory_store \<Rightarrow> 'a) \<Rightarrow> memory_world \<Rightarrow> 'a \<times> memory_world" where
  "memory_call f w = (f (mw_store w), w\<lparr>mw_calls := mw_calls w + 1\<rparr>)"

definition memory_create ::
    "(string \<Rightarrow> digest) \<Rightarrow> run \<Rightarrow> string \<Rightarrow> string \<Rightarrow> memory_world \<Rightarrow> (store_error, run_event) result \<times> memory_world" where
  "memory_create H r t payload w =
     (let (x, s) = create_run_with_event H (mw_cancelled w (mw_calls w)) (mw_clock w (mw_calls w)) r t payload (mw_store w)
      in (x, w\<lparr>mw_store := s, mw_calls := mw_calls w + 1\<rparr>))"

definition memory_service :: "(string \<Rightarrow> digest) \<Rightarrow> memory_world service_store" where
  "memory_service H =
     \<lparr>so_get = (\<lambda>d i w. memory_call (get_run (\<not> d \<and> mw_cancelled w (mw_calls w)) i) w),
      so_list = (\<lambda>d w. memory_call
        (\<lambda>s. map_sum id page_runs (list_runs (\<not> d \<and> mw_cancelled w (mw_calls w)) all_runs_query s)) w),
      so_create = memory_create H,
      so_update_if = (\<lambda>d. if d then memory_update_detached H else memory_update_if H)\<rparr>"

definition sqlite_call :: "(faults \<Rightarrow> sqlite_db \<Rightarrow> 'a) \<Rightarrow> sqlite_world \<Rightarrow> 'a \<times> sqlite_world" where
  "sqlite_call f w = (f (sw_faults w (sw_calls w)) (sw_db w), w\<lparr>sw_calls := sw_calls w + 1\<rparr>)"

definition sqlite_create ::
    "(string \<Rightarrow> digest) \<Rightarrow> run \<Rightarrow> string \<Rightarrow> string \<Rightarrow> sqlite_world \<Rightarrow> (store_error, run_event) result \<times> sqlite_world" where
  "sqlite_create H r t payload w =
     (let k = sw_calls w;
          (x, db) = sqlite_create_run_with_event H (sw_faults w k) (sw_cancelled w k) (sw_clock w k) r t payload (sw_db w)
      in (x, w\<lparr>sw_db := db, sw_calls := k + 1\<rparr>))"

definition sqlite_service :: "(string \<Rightarrow> digest) \<Rightarrow> sqlite_world service_store" where
  "sqlite_service H =
     \<lparr>so_get = (\<lambda>d i w. sqlite_call (\<lambda>f. sqlite_get_run f (\<not> d \<and> sw_cancelled w (sw_calls w)) i) w),
      so_list = (\<lambda>d w. sqlite_call
        (\<lambda>f db. map_sum id page_runs (sqlite_list_runs f (\<not> d \<and> sw_cancelled w (sw_calls w)) all_runs_query db)) w),
      so_create = sqlite_create H,
      so_update_if = (\<lambda>d. if d then sqlite_update_detached H else sqlite_update_if H)\<rparr>"

section \<open>The in-memory store\<close>

lemma memory_create_cases:
  assumes "create_run_with_event H c now r t p s = (x, s')"
  shows "(\<exists>e. x = Inl e \<and> s' = s)
    \<or> (\<exists>ev. x = Inr ev \<and> map_of (ms_runs s) (rid r) = None \<and> map_of (ms_runs s') = (map_of (ms_runs s))(rid r \<mapsto> r))"
proof -
  obtain e s1 where a: "append_locked H now (rid r) t p (set_run r s) = (e, s1)" by (rule prod.exhaust)
  show ?thesis
    using assms a append_locked_simps(1) [OF a]
    by (auto simp: create_run_with_event_def validate_cases split: if_splits)
qed

lemma memory_update_changed:
  "update_run_if_state H c now r ex t p s = (Inl ErrRunStateChanged, s')
     \<Longrightarrow> \<exists>cur. map_of (ms_runs s) (rid r) = Some cur \<and> state cur \<noteq> ex"
  by (auto simp: update_run_if_state_def validate_event_def validate_run_id_def check_context_def
      split: if_splits option.splits prod.splits)

lemma memory_listed:
  assumes "store_ok H s" and "list_runs c all_runs_query s = Inr p"
  shows "set (page_runs p) = ran (map_of (ms_runs s))"
proof -
  have "page_runs p = sort_key run_order (map snd (ms_runs s))"
    using assms(2) by (auto simp: list_runs_def all_runs_query_def page_of_def query_allows_def check_context_def split: if_splits)
  then have "set (page_runs p) = snd ` set (ms_runs s)" by simp
  moreover have "ran (map_of (ms_runs s)) = snd ` set (ms_runs s)"
    using assms(1) by (simp add: store_ok_def ran_distinct)
  ultimately show ?thesis by simp
qed

interpretation memory_laws: service_store_laws "memory_service H" "\<lambda>w. map_of (ms_runs (mw_store w))" "\<lambda>r. r"
  "\<lambda>w. store_ok H (mw_store w)"
  for H :: "string \<Rightarrow> digest"
proof (unfold_locales, goal_cases)
  case (1 s d i x s')
  then show ?case by (auto simp: memory_service_def memory_call_def)
next
  case (2 s d i r s')
  then show ?case
    by (auto simp: memory_service_def memory_call_def get_run_def validate_run_id_def check_context_def split: if_splits option.splits)
next
  case (3 s d y s')
  then show ?case by (auto simp: memory_service_def memory_call_def)
next
  case (4 s d rs s')
  then obtain p where "list_runs (\<not> d \<and> mw_cancelled s (mw_calls s)) all_runs_query (mw_store s) = Inr p" "rs = page_runs p"
    by (auto simp: memory_service_def memory_call_def map_sum_def split: sum.splits)
  then show ?case using memory_listed 4(1) by simp
next
  case (5 s r t p z s')
  then show ?case
    using memory_step_ok [of H "mw_store s" "OpCreateRunWithEvent (mw_cancelled s (mw_calls s)) (mw_clock s (mw_calls s)) r t p"]
    by (auto simp: memory_service_def memory_create_def case_prod_beta Let_def)
next
  case (6 s r t p e s')
  then show ?case
    using memory_create_cases by (fastforce simp: memory_service_def memory_create_def Let_def split: prod.splits)
next
  case (7 s r t p ev s')
  then show ?case
    using memory_create_cases by (fastforce simp: memory_service_def memory_create_def Let_def split: prod.splits)
next
  case (8 s d r expected t p z s')
  then show ?case
    using memory_log.inv_update [of H s r expected t p] memory_loop.detached.inv_update [of H s r expected t p]
    by (auto simp: memory_service_def split: if_splits)
next
  case (9 s d r expected t p e s')
  then show ?case
    using memory_log.update_Inl [of H s r expected t p e s'] memory_loop.detached.update_Inl [of H s r expected t p e s']
    by (auto simp: memory_service_def split: if_splits)
next
  case (10 s d r expected t p s')
  then show ?case
    using memory_update_changed
    by (fastforce simp: memory_service_def memory_update_if_def memory_update_detached_def Let_def split: if_splits prod.splits)
next
  case (11 s d r expected t p ev s')
  then show ?case
    using memory_log.update_Inr [of H s r expected t p ev s'] memory_loop.detached.update_Inr [of H s r expected t p ev s']
    by (auto simp: memory_service_def split: if_splits)
next
  case (12 s i r)
  then show ?case by (auto simp: store_ok_def dest: map_of_SomeD)
qed simp_all

section \<open>The SQLite store\<close>

lemma sqlite_create_cases:
  assumes "sqlite_create_run_with_event H f c now r t p db = (x, db')" and "wf_db H db"
  shows "wf_db H db' \<and> ((\<exists>e. x = Inl e \<and> db' = db)
    \<or> (\<exists>ev. x = Inr ev \<and> find_run db (rid r) = None \<and> find_run db' = (find_run db)(rid r \<mapsto> load_run (store_run r))))"
proof (cases "\<exists>e. x = Inl e \<and> db' = db")
  case False
  then have nf: "sqlite_create_run_with_event H no_fault c now r t p db = (x, db')"
    using create_with_event_atomic [OF assms(1)] by blast
  let ?row = "store_run r" and ?db1 = "db\<lparr>runs_table := runs_table db @ [store_run r]\<rparr>"
  have none: "find_run db (rid ?row) = None"
    using nf False insert_run_row_effect [of ?row db]
    by (auto simp: sqlite_create_run_with_event_def validate_cases in_tx_def split: if_splits)
  have ins: "insert_run_row ?row db = (1, ?db1)" using none by (simp add: insert_run_row_effect)
  have wf1: "wf_db H ?db1" using wf_insert_run [OF assms(2) none row_in_range] .
  have f1: "find_run ?db1 = (find_run db)(rid r \<mapsto> load_run ?row)" using find_run_insert [OF none] by simp
  have ex: "run_exists (rid r) ?db1" by (simp add: run_exists_find f1)
  let ?ev = "new_event H (rid r) (length (events_of ?db1 (rid r)) + 1) t p (last_hash (events_of ?db1 (rid r))) now"
  obtain db2 where tx: "append_event_tx H no_fault now (rid r) t p ?db1 = (Inr ?ev, db2)"
    and e: "runs_table db2 = runs_table ?db1" "wf_db H db2"
    by (rule append_event_tx_effect [OF wf1 ex, of no_fault now t p]) simp_all
  have "x = Inr ?ev \<and> db' = db2"
    using nf tx ins False by (auto simp: sqlite_create_run_with_event_def validate_cases in_tx_def split: if_splits)
  then show ?thesis using e none f1 find_run_table [OF e(1)] by simp
qed (use assms(2) in auto)

lemma sqlite_update_changed:
  assumes "wf_db H db" and "sqlite_update_run_if_state H f c now r ex t p db = (Inl ErrRunStateChanged, db')"
  shows "\<exists>cur. find_run db (rid r) = Some cur \<and> state cur \<noteq> ex"
proof -
  obtain db1 n where u: "update_run_rows (\<lambda>old. state old = ex) (store_run r) db = (n, db1)"
      "n = 0 \<longleftrightarrow> (case find_run db (rid (store_run r)) of None \<Rightarrow> True | Some current \<Rightarrow> state current \<noteq> ex)"
      "n = 0 \<Longrightarrow> db1 = db"
    using update_run_rows_effect [OF assms(1), of "\<lambda>st. st = ex" "store_run r"] by blast
  have "append_event_tx H f now (rid r) t p db1 \<noteq> (Inl ErrRunStateChanged, z)" for z
    by (auto simp: append_event_tx_def Let_def split: option.splits prod.splits if_splits)
  then have "n = 0 \<and> run_exists (rid r) db1"
    using assms(2) u(1)
    by (auto simp: sqlite_update_run_if_state_def validate_event_def validate_run_id_def check_context_def in_tx_def
        split: if_splits prod.splits sum.splits)
  then show ?thesis using u(2,3) by (auto simp: run_exists_find split: option.splits)
qed

lemma find_run_id: "find_run db i = Some r \<Longrightarrow> rid r = i"
  by (auto simp: find_run_def dest!: map_of_SomeD)

lemma sqlite_listed:
  assumes "wf_db H db" and "sqlite_list_runs f c all_runs_query db = Inr p"
  shows "set (page_runs p) = ran (find_run db)"
proof -
  have "page_runs p = map load_run (sort_key run_order (runs_table db))"
    using assms(2)
    by (auto simp: sqlite_list_runs_def all_runs_query_def select_runs_def query_allows_def check_context_def Let_def
        split: if_splits)
  then have "set (page_runs p) = load_run ` set (runs_table db)" by simp
  moreover have "distinct (map fst (row_table (runs_table db)))" using assms(1) by (simp add: wf_db_def comp_def)
  then have "ran (find_run db) = snd ` set (row_table (runs_table db))" unfolding find_run_def by (rule ran_distinct)
  ultimately show ?thesis by (simp add: image_image)
qed

lemma kept_run_root: "repo_root (load_run (store_run r)) = repo_root r"
  by (simp add: load_run_def store_run_def)

interpretation sqlite_laws: service_store_laws "sqlite_service H" "\<lambda>w. find_run (sw_db w)" "\<lambda>r. load_run (store_run r)"
  "sqlite_inv H"
  for H :: "string \<Rightarrow> digest"
proof (unfold_locales, goal_cases)
  case (1 s d i x s')
  then show ?case by (auto simp: sqlite_service_def sqlite_call_def sqlite_inv_def)
next
  case (2 s d i r s')
  then show ?case
    by (auto simp: sqlite_service_def sqlite_call_def sqlite_get_run_def validate_run_id_def check_context_def
        split: if_splits option.splits)
next
  case (3 s d y s')
  then show ?case by (auto simp: sqlite_service_def sqlite_call_def sqlite_inv_def)
next
  case (4 s d rs s')
  then obtain p where p: "sqlite_list_runs (sw_faults s (sw_calls s)) (\<not> d \<and> sw_cancelled s (sw_calls s)) all_runs_query (sw_db s) = Inr p"
      "rs = page_runs p"
    by (auto simp: sqlite_service_def sqlite_call_def map_sum_def split: sum.splits)
  have "wf_db H (sw_db s)" using 4(1) by (simp add: sqlite_inv_def)
  from sqlite_listed [OF this p(1)] show ?case using p(2) by simp
next
  case (5 s r t p z s')
  then show ?case
    using sqlite_create_cases by (fastforce simp: sqlite_service_def sqlite_create_def sqlite_inv_def Let_def split: prod.splits)
next
  case (6 s r t p e s')
  then show ?case
    using sqlite_create_cases by (fastforce simp: sqlite_service_def sqlite_create_def sqlite_inv_def Let_def split: prod.splits)
next
  case (7 s r t p ev s')
  then show ?case
    using sqlite_create_cases by (fastforce simp: sqlite_service_def sqlite_create_def sqlite_inv_def Let_def split: prod.splits)
next
  case (8 s d r expected t p z s')
  then show ?case
    using sqlite_log.inv_update [of H s r expected t p] sqlite_loop.detached.inv_update [of H s r expected t p]
    by (auto simp: sqlite_service_def split: if_splits)
next
  case (9 s d r expected t p e s')
  then show ?case
    using sqlite_log.update_Inl [of H s r expected t p e s'] sqlite_loop.detached.update_Inl [of H s r expected t p e s']
    by (auto simp: sqlite_service_def split: if_splits)
next
  case (10 s d r expected t p s')
  then show ?case
    using sqlite_update_changed
    by (fastforce simp: sqlite_service_def sqlite_update_if_def sqlite_update_detached_def sqlite_inv_def Let_def
        split: if_splits prod.splits)
next
  case (11 s d r expected t p ev s')
  then show ?case
    using sqlite_log.update_Inr [of H s r expected t p ev s'] sqlite_loop.detached.update_Inr [of H s r expected t p ev s']
    by (auto simp: sqlite_service_def split: if_splits)
next
  case (12 s i r)
  then show ?case by (simp add: find_run_id)
qed (simp_all add: kept_run_root)

end
