(* ===== verification/Loop_Controller.thy ===== *)
theory Loop_Controller
  imports App_Service
begin

text \<open>
  Package \<^verbatim>\<open>internal/app\<close>, \<^verbatim>\<open>composition_local.go\<close>: the loop controller, which keeps one session of
  the governance loop per run and lets one call at a time into it. Sessions are objects with
  numbers, since a session that was taken out of the table may still be running. Parameters are
  the factory that builds a loop for a run, and the strings of the redactor.
\<close>

section \<open>State\<close>

text \<open>A session has its loop with the collaborators it was built with; the store inside the loop's
  state is the shared one and is put in for every call. Its context is cancelled when it or the
  context it was started in is.\<close>

record ('s, 'w) session =
  se_env :: "('s, 'w) agent_env"
  se_loop :: "('s, 'w) loop_state"
  se_parent :: nat
  se_cancelled :: bool
  se_active :: bool

record ('s, 'w) sessions =
  ss_objects :: "nat \<Rightarrow> ('s, 'w) session option"
  ss_next :: nat
  ss_table :: "run_id \<Rightarrow> nat option"

type_synonym ('s, 'w) local_app = "('s, ('s, 'w) sessions) app"

text \<open>What the factory makes: a loop whose approval store is the one it returns beside it; \<^const>\<open>None\<close>
  if either is missing.\<close>

record ('s, 'w) controller_env =
  ce_factory :: "(run_setup \<Rightarrow> ('s, 'w) local_app \<Rightarrow> (string, (('s, 'w) agent_env \<times> ('s, 'w) loop_state) option) result) option"
  ce_redactor :: "string list"

definition session_cancelled :: "('s, 'w) local_app \<Rightarrow> ('s, 'w) session \<Rightarrow> bool" where
  "session_cancelled w se \<longleftrightarrow> se_cancelled se \<or> se_parent se \<in> set (ap_cancelled w)"

definition update_session ::
    "nat \<Rightarrow> (('s, 'w) session \<Rightarrow> ('s, 'w) session) \<Rightarrow> ('s, 'w) local_app \<Rightarrow> ('s, 'w) local_app" where
  "update_session n f w =
     w\<lparr>ap_loops := (ap_loops w)\<lparr>ss_objects := (ss_objects (ap_loops w))(n := map_option f (ss_objects (ap_loops w) n))\<rparr>\<rparr>"

section \<open>One call at a time\<close>

text \<open>\<^verbatim>\<open>invoke\<close>: entering, the call itself on the shared store, and leaving. The loop sees the
  session's context.\<close>

definition under_context :: "bool \<Rightarrow> ('s, 'w) agent_env \<Rightarrow> ('s, 'w) agent_env" where
  "under_context cancelled env = env\<lparr>e_cancelled := (\<lambda>w. let (c, w') = e_cancelled env w in (c \<or> cancelled, w'))\<rparr>"

type_synonym ('s, 'w) loop_call =
  "('s, 'w) agent_env \<Rightarrow> ('s, 'w) loop_state \<Rightarrow> (loop_error, loop_result) result \<times> ('s, 'w) loop_state"

definition enter_session :: "nat \<Rightarrow> ('s, 'w) local_app \<Rightarrow> (control_error, unit) result \<times> ('s, 'w) local_app" where
  "enter_session n w =
     (case ss_objects (ap_loops w) n of
        None \<Rightarrow> (Inl ErrLoopSessionNotFound, w)
      | Some se \<Rightarrow>
          if session_cancelled w se then (Inl ErrContextCanceled, w)
          else if se_active se then (Inl ErrLoopSessionBusy, w)
          else (Inr (), update_session n (\<lambda>se. se\<lparr>se_active := True\<rparr>) w))"

definition call_session ::
    "nat \<Rightarrow> ('s, 'w) loop_call \<Rightarrow> ('s, 'w) local_app \<Rightarrow> (control_error, loop_result) result \<times> ('s, 'w) local_app" where
  "call_session n f w =
     (case ss_objects (ap_loops w) n of
        None \<Rightarrow> (Inl ErrLoopSessionNotFound, w)
      | Some se \<Rightarrow>
          (case f (under_context (session_cancelled w se) (se_env se)) ((se_loop se)\<lparr>ls_store := ap_store w\<rparr>) of
             (x, s) \<Rightarrow>
               (case x of Inl e \<Rightarrow> Inl (ErrLoop e) | Inr res \<Rightarrow> Inr res,
                update_session n (\<lambda>se. se\<lparr>se_loop := s\<rparr>) (w\<lparr>ap_store := ls_store s\<rparr>))))"

definition leave_session :: "nat \<Rightarrow> ('s, 'w) local_app \<Rightarrow> ('s, 'w) local_app" where
  "leave_session n = update_session n (\<lambda>se. se\<lparr>se_active := False\<rparr>)"

definition invoke :: "nat \<Rightarrow> ('s, 'w) loop_call \<Rightarrow> (('s, 'w) local_app, (control_error, loop_result) result) activity" where
  "invoke n f =
     if_ok (atomically (enter_session n)) (\<lambda>_. do {
       x \<leftarrow> atomically (call_session n f);
       modify (leave_session n);
       State_Monad.return x
     })"

section \<open>The table of sessions\<close>

definition delete_session :: "run_id \<Rightarrow> nat \<Rightarrow> ('s, 'w) local_app \<Rightarrow> ('s, 'w) local_app" where
  "delete_session i n w =
     (let w' = (if ss_table (ap_loops w) i = Some n
                then w\<lparr>ap_loops := (ap_loops w)\<lparr>ss_table := (ss_table (ap_loops w))(i := None)\<rparr>\<rparr> else w)
      in update_session n (\<lambda>se. se\<lparr>se_cancelled := True\<rparr>) w')"

text \<open>After a call the session goes when the run is over, or when the call failed otherwise than by
  being refused.\<close>

definition finish_call ::
    "run_id \<Rightarrow> nat \<Rightarrow> (control_error \<Rightarrow> bool) \<Rightarrow> (control_error, loop_result) result
     \<Rightarrow> (('s, 'w) local_app, (control_error, unit) result) activity" where
  "finish_call i n refused x = do {
     _ \<leftarrow> (if (case x of Inl e \<Rightarrow> \<not> refused e | Inr res \<Rightarrow> terminal (lr_state res))
           then modify (delete_session i n) else State_Monad.return ());
     case x of Inl e \<Rightarrow> fail e | Inr _ \<Rightarrow> ok ()
   }"

definition find_session :: "run_id \<Rightarrow> (('s, 'w) local_app, (control_error, nat) result) activity" where
  "find_session i =
     inspect (\<lambda>w. case ss_table (ap_loops w) i of None \<Rightarrow> Inl ErrLoopSessionNotFound | Some n \<Rightarrow> Inr n)"

section \<open>Starting\<close>

definition new_session ::
    "('s, 'w) agent_env \<Rightarrow> ('s, 'w) loop_state \<Rightarrow> string list \<Rightarrow> run_setup \<Rightarrow> nat \<Rightarrow> ('s, 'w) session" where
  "new_session env s red setup ctx =
     \<lparr>se_env = env,
      se_loop = bind_baselines
        [(''baseline_commit'', pf_baseline_commit (in_report (su_input setup))),
         (''baseline_diff_hash'', pf_baseline_diff_hash (in_report (su_input setup)))]
        (bind_approval_redactor red s),
      se_parent = ctx, se_cancelled = False, se_active = False\<rparr>"

definition add_session ::
    "run_id \<Rightarrow> ('s, 'w) session \<Rightarrow> ('s, 'w) local_app \<Rightarrow> (control_error, nat) result \<times> ('s, 'w) local_app" where
  "add_session i se w =
     (let l = ap_loops w in
      if ss_table l i \<noteq> None then (Inl (ErrController ''app: run loop session already exists''), w)
      else (Inr (ss_next l),
            w\<lparr>ap_loops := l\<lparr>ss_objects := (ss_objects l)(ss_next l \<mapsto> se), ss_next := ss_next l + 1,
              ss_table := (ss_table l)(i \<mapsto> ss_next l)\<rparr>\<rparr>))"

definition build_loop ::
    "('s, 'w) controller_env \<Rightarrow> run_setup \<Rightarrow> ('s, 'w) local_app
     \<Rightarrow> (control_error, ('s, 'w) agent_env \<times> ('s, 'w) loop_state) result" where
  "build_loop ce setup w =
     (case ce_factory ce of
        None \<Rightarrow> Inl (ErrController ''app: agent loop factory is required'')
      | Some factory \<Rightarrow>
          (case factory setup w of
             Inl e \<Rightarrow> Inl (ErrController e)
           | Inr None \<Rightarrow> Inl (ErrController ''app: loop factory returned incomplete session'')
           | Inr (Some l) \<Rightarrow> Inr l))"

definition controller_start ::
    "('s, 'w) controller_env \<Rightarrow> nat \<Rightarrow> run_setup \<Rightarrow> (('s, 'w) local_app, (control_error, unit) result) activity" where
  "controller_start ce ctx setup =
     (let i = rid (su_run setup) in
      if_ok (inspect (\<lambda>w. if ctx \<in> set (ap_cancelled w) then Inl ErrContextCanceled else Inr ())) (\<lambda>_.
      if_ok (inspect (build_loop ce setup)) (\<lambda>(env, s).
      if_ok (atomically (add_session i (new_session env s (ce_redactor ce) setup ctx))) (\<lambda>n. do {
        x \<leftarrow> invoke n (\<lambda>env. run_agent env (su_run setup));
        finish_call i n (\<lambda>_. False) x
      }))))"

section \<open>Approving, rejecting, cancelling\<close>

text \<open>A grant that was not consumed is taken back.\<close>

definition approve_call :: "run_id \<Rightarrow> digest \<Rightarrow> ('s, 'w) loop_call" where
  "approve_call i d env s =
     (case resume_approval env i d (s\<lparr>ls_grants := map_option (grant d) (ls_grants s)\<rparr>) of
        (Inl e, s') \<Rightarrow> (Inl e, s'\<lparr>ls_grants := map_option (revoke d) (ls_grants s')\<rparr>)
      | (Inr res, s') \<Rightarrow> (Inr res, s'))"

definition controller_approve ::
    "run_id \<Rightarrow> digest \<Rightarrow> (('s, 'w) local_app, (control_error, unit) result) activity" where
  "controller_approve i d =
     if_ok (find_session i) (\<lambda>n. do {
       x \<leftarrow> invoke n (approve_call i d);
       finish_call i n (\<lambda>e. e = ErrLoop ErrApprovalNotGranted \<or> e = ErrLoopSessionBusy) x
     })"

definition controller_reject ::
    "run_id \<Rightarrow> digest \<Rightarrow> bool \<Rightarrow> (('s, 'w) local_app, (control_error, unit) result) activity" where
  "controller_reject i d terminate =
     if_ok (find_session i) (\<lambda>n. do {
       x \<leftarrow> invoke n (\<lambda>env. reject_approval env i d terminate);
       finish_call i n (\<lambda>e. e = ErrLoop ErrApprovalRejectionMismatch \<or> e = ErrLoopSessionBusy) x
     })"

text \<open>\<^verbatim>\<open>cancelAndWait\<close> waits until no call is in the session, or until the caller's context ends, which
  is taken to happen at the end of the schedule.\<close>

fun wait_inactive :: "nat \<Rightarrow> nat \<Rightarrow> (('s, 'w) local_app, (control_error, unit) result) activity" where
  "wait_inactive 0 n = fail ErrContextCanceled"
| "wait_inactive (Suc k) n = do {
     active \<leftarrow> inspect (\<lambda>w. case ss_objects (ap_loops w) n of None \<Rightarrow> False | Some se \<Rightarrow> se_active se);
     if active then wait_inactive k n else ok ()
   }"

definition cancel_and_wait :: "nat \<Rightarrow> (('s, 'w) local_app, (control_error, unit) result) activity" where
  "cancel_and_wait n = do {
     modify (update_session n (\<lambda>se. se\<lparr>se_cancelled := True\<rparr>));
     State (\<lambda>s. run_state (wait_inactive (Suc (length (fst s))) n) s)
   }"

definition controller_cancel :: "run_id \<Rightarrow> (('s, 'w) local_app, (control_error, unit) result) activity" where
  "controller_cancel i = do {
     found \<leftarrow> find_session i;
     case found of
       Inl _ \<Rightarrow> ok ()
     | Inr n \<Rightarrow> if_ok (cancel_and_wait n) (\<lambda>_. do { modify (delete_session i n); ok () })
   }"

definition agent_loop_controller :: "('s, 'w) controller_env \<Rightarrow> ('s, ('s, 'w) sessions) loop_controller" where
  "agent_loop_controller ce =
     \<lparr>lo_start = controller_start ce, lo_approve = controller_approve, lo_reject = controller_reject,
      lo_cancel = controller_cancel\<rparr>"

end
