(* ===== verification/Local_App.thy ===== *)
theory Local_App
  imports App_Store Loop_Controller
begin

text \<open>
  The local composition: the application service with the controller of governance loops on a
  shared store. The loops' sessions keep, of the runs whose actions wait for approval, that they
  are stored runs of the same repository; so all calls of the controller are steps of the service,
  and the contract of \<^verbatim>\<open>App_Correct\<close> is met on both stores.
\<close>

section \<open>Loops on the shared store\<close>

definition with_store_calls ::
    "(run \<Rightarrow> run_state \<Rightarrow> string \<Rightarrow> string \<Rightarrow> 's \<Rightarrow> (store_error, run_event) result \<times> 's)
     \<Rightarrow> (run \<Rightarrow> run_state \<Rightarrow> string \<Rightarrow> string \<Rightarrow> 's \<Rightarrow> (store_error, run_event) result \<times> 's)
     \<Rightarrow> (run_id \<Rightarrow> string \<Rightarrow> string \<Rightarrow> 's \<Rightarrow> (store_error, run_event) result \<times> 's)
     \<Rightarrow> ('s, 'w) agent_env \<Rightarrow> ('s, 'w) agent_env" where
  "with_store_calls u d a env = env\<lparr>e_update_if := u, e_update_detached := d, e_append := a\<rparr>"

text \<open>What the factory builds: a loop with the shared store, and nothing pending yet.\<close>

definition shared_store ::
    "(('s, 'w) agent_env \<Rightarrow> ('s, 'w) agent_env) \<Rightarrow> ('s, 'w) controller_env \<Rightarrow> ('s, 'w) controller_env" where
  "shared_store f ce = ce\<lparr>ce_factory := map_option (\<lambda>factory setup w.
     map_sum id (map_option (\<lambda>(env, s). (f env, s\<lparr>ls_pending := (\<lambda>_. None)\<rparr>))) (factory setup w)) (ce_factory ce)\<rparr>"

definition local_env ::
    "'s service_store \<Rightarrow> (('s, 'w) agent_env \<Rightarrow> ('s, 'w) agent_env) \<Rightarrow> ('s, 'w) controller_env
     \<Rightarrow> ('s, ('s, 'w) sessions) app_env \<Rightarrow> ('s, ('s, 'w) sessions) app_env" where
  "local_env so f ce env = env\<lparr>ae_store := so, ae_loops := agent_loop_controller (shared_store f ce)\<rparr>"

definition no_sessions :: "('s, 'w) sessions" where
  "no_sessions = \<lparr>ss_objects = (\<lambda>_. None), ss_next = 0, ss_table = (\<lambda>_. None)\<rparr>"

definition waiting_ok :: "(run_id \<Rightarrow> run option) \<Rightarrow> run_id \<Rightarrow> pending_approval \<Rightarrow> bool" where
  "waiting_ok runs i p \<longleftrightarrow> rid (pa_run p) = i \<and> (\<exists>c. runs i = Some c \<and> repo_root c = repo_root (pa_run p))"

definition session_ok ::
    "(('s, 'w) agent_env \<Rightarrow> ('s, 'w) agent_env) \<Rightarrow> (run_id \<Rightarrow> run option) \<Rightarrow> ('s, 'w) session \<Rightarrow> bool" where
  "session_ok f runs se \<longleftrightarrow> f (se_env se) = se_env se \<and> (\<forall>i p. ls_pending (se_loop se) i = Some p \<longrightarrow> waiting_ok runs i p)"

definition sessions_ok ::
    "(('s, 'w) agent_env \<Rightarrow> ('s, 'w) agent_env) \<Rightarrow> (run_id \<Rightarrow> run option) \<Rightarrow> ('s, 'w) sessions \<Rightarrow> bool" where
  "sessions_ok f runs l \<longleftrightarrow> (\<forall>n se. ss_objects l n = Some se \<longrightarrow> session_ok f runs se)"

definition local_view ::
    "('s \<Rightarrow> run_id \<Rightarrow> run option) \<Rightarrow> ('s \<Rightarrow> bool) \<Rightarrow> (('s, 'w) agent_env \<Rightarrow> ('s, 'w) agent_env)
     \<Rightarrow> lock_env \<Rightarrow> ('s, ('s, 'w) sessions) app_view" where
  "local_view lk good f lenv =
     \<lparr>av_lookup = lk, av_store_ok = good, av_loops_ok = (\<lambda>s. sessions_ok f (lk s)), av_locks = lenv\<rparr>"

lemma local_view_simps [simp]:
  "av_lookup (local_view lk good f lenv) = lk" "av_store_ok (local_view lk good f lenv) = good"
  "av_loops_ok (local_view lk good f lenv) = (\<lambda>s. sessions_ok f (lk s))" "av_locks (local_view lk good f lenv) = lenv"
  by (simp_all add: local_view_def)

lemma local_env_simps [simp]:
  "ae_store (local_env so f ce env) = so" "ae_loops (local_env so f ce env) = agent_loop_controller (shared_store f ce)"
  "ae_locks (local_env so f ce env) = ae_locks env"
  by (simp_all add: local_env_def)

lemma sessions_ok_evolves:
  assumes "sessions_ok f runs l" and "\<And>i c. runs i = Some c \<Longrightarrow> \<exists>c'. runs' i = Some c' \<and> repo_root c' = repo_root c"
  shows "sessions_ok f runs' l"
  unfolding sessions_ok_def session_ok_def waiting_ok_def
proof (intro allI impI conjI)
  fix n se i p
  assume "ss_objects l n = Some se"
  then have k: "session_ok f runs se" using assms(1) by (simp add: sessions_ok_def)
  then show "f (se_env se) = se_env se" by (simp add: session_ok_def)
  assume "ls_pending (se_loop se) i = Some p"
  then have w: "waiting_ok runs i p" using k by (simp add: session_ok_def)
  then show "rid (pa_run p) = i" by (simp add: waiting_ok_def)
  show "\<exists>c. runs' i = Some c \<and> repo_root c = repo_root (pa_run p)"
    using w assms(2) by (fastforce simp: waiting_ok_def)
qed

section \<open>The contract of the composition\<close>

locale local_contract =
  service_store_laws so lookup kept good
  + loop_store H lookup log kept update_if update_detached append good
  for H :: "string \<Rightarrow> digest" and so :: "'s service_store" and lookup log kept update_if update_detached append good +
  fixes ce :: "('s, 'w) controller_env" and env :: "('s, ('s, 'w) sessions) app_env"

sublocale local_contract \<subseteq>
  view: app_view_laws "local_env so (with_store_calls update_if update_detached append) ce env"
    "local_view lookup good (with_store_calls update_if update_detached append) (ae_locks env)" kept
proof (intro app_view_laws.intro app_view_laws_axioms.intro, goal_cases)
  case 1
  show ?case unfolding local_env_simps local_view_simps by (rule service_store_laws_axioms)
next
  case 2
  show ?case by simp
next
  case (3 s l s')
  show ?case
    unfolding local_view_simps by (rule sessions_ok_evolves [OF 3(1) [unfolded local_view_simps] 3(2) [unfolded local_view_simps]])
qed

context local_contract begin

abbreviation shared :: "('s, 'w) agent_env \<Rightarrow> ('s, 'w) agent_env" where
  "shared \<equiv> with_store_calls update_if update_detached append"

abbreviation av :: "('s, ('s, 'w) sessions) app_view" where
  "av \<equiv> local_view lookup good shared (ae_locks env)"

lemma shared_twice [simp]: "shared (shared e) = shared e"
  by (simp add: with_store_calls_def)

lemma shared_context [simp]:
  assumes "shared e = e"
  shows "shared (under_context c e) = under_context c e"
proof -
  have "shared (under_context c e) = under_context c (shared e)" by (simp add: with_store_calls_def under_context_def)
  then show ?thesis using assms by simp
qed

lemma shared_calls:
  assumes "shared e = e"
  shows "e_update_if e = update_if" and "e_update_detached e = update_detached" and "e_append e = append"
  using arg_cong [OF assms, of e_update_if] arg_cong [OF assms, of e_update_detached] arg_cong [OF assms, of e_append]
  by (simp_all add: with_store_calls_def)

section \<open>The store calls of a loop\<close>

text \<open>Where the service would be, had the loop stopped with its store as it is.\<close>

definition along :: "('s, ('s, 'w) sessions) app \<Rightarrow> run \<Rightarrow> 's \<Rightarrow> 'w \<Rightarrow> bool" where
  "along w r st v \<longleftrightarrow> app_steps av {} w (w\<lparr>ap_store := st\<rparr>) \<and> tracked av r (w\<lparr>ap_store := st\<rparr>)"

lemma along_good: "along w r st v \<Longrightarrow> good st"
  by (simp add: along_def tracked_def app_ok_def)

lemma along_same:
  assumes "along w r st v" and "good st'" and "lookup st' = lookup st"
  shows "along w r st' v'"
proof -
  let ?w = "w\<lparr>ap_store := st\<rparr>" and ?w' = "w\<lparr>ap_store := st'\<rparr>"
  have ok: "app_ok av ?w'"
    using view.ok_same_lookup [of ?w st'] assms by (simp add: along_def tracked_def)
  have "app_step av None ?w ?w'" by (rule tick) (use ok assms(3) in \<open>simp_all add: stored_def\<close>)
  then have "app_steps av {} w ?w'"
    using assms(1) by (auto simp: along_def intro: app_steps_trans app_steps_single)
  moreover have "known av r ?w'" using assms(1,3) by (simp add: along_def tracked_def known_def stored_def)
  ultimately show ?thesis using ok by (simp add: along_def tracked_def)
qed

lemma along_moved:
  assumes "along w r st v" and "transition (state r) to = Inr ()" and "good st'"
    and "\<exists>c. lookup st (rid r) = Some c \<and> state c = state r" and "lookup st' = (lookup st)(rid r \<mapsto> kept (r\<lparr>state := to\<rparr>))"
  shows "along w (r\<lparr>state := to\<rparr>) st' v'"
proof -
  let ?w = "w\<lparr>ap_store := st\<rparr>" and ?w' = "w\<lparr>ap_store := st'\<rparr>"
  obtain c where c: "lookup st (rid r) = Some c" "state c = state r" using assms(4) by blast
  have root: "repo_root c = repo_root r" using assms(1) c by (auto simp: along_def tracked_def known_def stored_def)
  have ok: "app_ok av ?w'"
    using view.ok_updated [of ?w st' "rid r" "kept (r\<lparr>state := to\<rparr>)"] assms c root
    by (simp add: along_def tracked_def stored_def kept_root)
  have "app_step av None ?w ?w'"
    by (rule moved [where c = c and i = "rid r" and c' = "kept (r\<lparr>state := to\<rparr>)"])
      (use ok c root assms(2,5) in \<open>simp_all add: stored_def kept_id kept_state kept_root\<close>)
  then have "app_steps av {} w ?w'"
    using assms(1) by (auto simp: along_def intro: app_steps_trans app_steps_single)
  moreover have "known av (r\<lparr>state := to\<rparr>) ?w'" using assms(5) by (simp add: known_def stored_def kept_root)
  ultimately show ?thesis using ok by (simp add: along_def tracked_def)
qed

lemma along_logic:
  fixes e :: "('s, 'w) agent_env"
  assumes "shared e = e"
  shows "loop_logic e (along w) b"
proof -
  note calls = shared_calls [OF assms]
  have update: "along w r st v \<Longrightarrow> run_log H lookup log kept u append good \<Longrightarrow> u (r\<lparr>state := to\<rparr>) (state r) t p st = (y, st')
      \<Longrightarrow> (y = Inl x \<longrightarrow> along w r st' v) \<and> (y = Inr ev \<longrightarrow> transition (state r) to = Inr () \<longrightarrow> along w (r\<lparr>state := to\<rparr>) st' v)"
    for u r st v to t p y st' x ev
    using along_good [of w r st v] run_log.inv_update [of H lookup log kept u append good st "r\<lparr>state := to\<rparr>" "state r" t p]
      run_log.update_Inl [of H lookup log kept u append good st "r\<lparr>state := to\<rparr>" "state r" t p x st']
      run_log.update_Inr [of H lookup log kept u append good st "r\<lparr>state := to\<rparr>" "state r" t p ev st']
    by (auto intro: along_same along_moved simp del: transition_Inr)
  have add: "along w r st v \<Longrightarrow> append (rid r) t p st = (y, st') \<Longrightarrow> along w r st' v" for r st v t p y st'
    using along_good [of w r st v] cancellable.inv_append [of st "rid r" t p] cancellable.append_Inl [of st "rid r" t p _ st']
      cancellable.append_Inr [of st "rid r" t p _ st']
    by (cases y) (auto intro: along_same)
  have frame: "along w r st v \<Longrightarrow> along w r st v'" for r st v v' by (simp add: along_def)
  show ?thesis
  proof (unfold_locales, goal_cases)
    case (1 r st v to t p x st')
    then show ?case using update [OF _ cancellable.run_log_axioms] calls by auto
  next
    case (2 r st v to t p ev st')
    then show ?case using update [OF _ cancellable.run_log_axioms] calls by auto
  next
    case (3 r st v t p x st')
    then show ?case using update [OF _ detached.run_log_axioms] calls by auto
  next
    case (4 r st v t p ev st')
    then show ?case using update [OF _ detached.run_log_axioms] calls by auto
  next
    case (5 r st v t p y st')
    then show ?case using add calls by auto
  next
    case (12 r st v x w' t p ev st')
    show ?case
      using update [OF frame [OF 12(1)] cancellable.run_log_axioms, of "StateFinalValidating" t p] 12 calls
      by (auto simp: may_step_iff)
  qed (erule frame)+
qed

section \<open>Calls into a session\<close>

text \<open>A call into a loop that is safe: it moves the service along its steps, and what is pending afterwards
  belongs to stored runs.\<close>

definition safe_call :: "(('s, ('s, 'w) sessions) app \<Rightarrow> bool) \<Rightarrow> ('s, 'w) loop_call \<Rightarrow> bool" where
  "safe_call Pre f \<longleftrightarrow>
     (\<forall>e s w x s'. shared e = e \<longrightarrow> app_ok av w \<longrightarrow> Pre w \<longrightarrow> ls_store s = ap_store w
        \<longrightarrow> (\<forall>i p. ls_pending s i = Some p \<longrightarrow> waiting_ok (stored av w) i p) \<longrightarrow> f e s = (x, s')
        \<longrightarrow> app_steps av {} w (w\<lparr>ap_store := ls_store s'\<rparr>) \<and> app_ok av (w\<lparr>ap_store := ls_store s'\<rparr>)
          \<and> (\<forall>i p. ls_pending s' i = Some p \<longrightarrow> waiting_ok (lookup (ls_store s')) i p))"

lemma steps_keep_waiting:
  assumes "waiting_ok (stored av w) i p" and "app_steps av {} w w'" and "app_ok av w"
  shows "waiting_ok (stored av w') i p"
proof -
  have "tracked av (pa_run p) w" using assms(1,3) by (auto simp: tracked_def known_def waiting_ok_def)
  then have "tracked av (pa_run p) w'" using assms(2) stable_tracked unfolding stable_def by blast
  then show ?thesis using assms(1) by (auto simp: tracked_def known_def waiting_ok_def)
qed

lemma along_result:
  assumes "result_ok (along w) (waiting_ok (stored av w)) b (x, s')" and "app_ok av w"
  shows "app_steps av {} w (w\<lparr>ap_store := ls_store s'\<rparr>) \<and> app_ok av (w\<lparr>ap_store := ls_store s'\<rparr>)
    \<and> (\<forall>i p. ls_pending s' i = Some p \<longrightarrow> waiting_ok (lookup (ls_store s')) i p)"
proof -
  let ?w = "w\<lparr>ap_store := ls_store s'\<rparr>"
  obtain r where a: "along w r (ls_store s') (ls_world s')" and own: "own_pending (waiting_ok (stored av w)) r s'"
    using assms(1) by (auto simp: result_ok_def holds_in_def)
  have st: "app_steps av {} w ?w" "tracked av r ?w" using a by (simp_all add: along_def)
  have "waiting_ok (lookup (ls_store s')) i p" if p: "ls_pending s' i = Some p" for i p
  proof -
    consider "waiting_ok (stored av w) i p" | x where "i = rid r" "pa_run p = r\<lparr>state := x\<rparr>"
      using own p by (auto simp: own_pending_def)
    then show ?thesis
    proof cases
      case 1
      from steps_keep_waiting [OF this st(1) assms(2)] show ?thesis by (simp add: stored_def)
    next
      case 2
      then show ?thesis using st(2) by (simp add: waiting_ok_def tracked_def known_def stored_def)
    qed
  qed
  then show ?thesis using st by (auto simp: tracked_def)
qed

lemma along_start:
  assumes "app_ok av w" and "known av r w" and "ls_store s = ap_store w"
    and "\<forall>i p. ls_pending s i = Some p \<longrightarrow> waiting_ok (stored av w) i p"
  shows "holds_in (along w) (waiting_ok (stored av w)) (ls_baselines s) r s"
  using assms by (simp add: holds_in_def along_def tracked_def own_pending_def)

lemma safe_run: "safe_call (known av r) (\<lambda>e. run_agent e r)"
  unfolding safe_call_def
proof (intro allI impI)
  fix e :: "('s, 'w) agent_env" and s w x s'
  assume a: "shared e = e" "app_ok av w" "known av r w" "ls_store s = ap_store w"
    "\<forall>i p. ls_pending s i = Some p \<longrightarrow> waiting_ok (stored av w) i p" "run_agent e r s = (x, s')"
  from loop_logic.run_ok [OF along_logic [OF a(1)] along_start [OF a(2-5)], of None] a(6)
  have "result_ok (along w) (waiting_ok (stored av w)) (ls_baselines s) (x, s')" by (simp add: run_agent_def)
  from along_result [OF this a(2)] show "app_steps av {} w (w\<lparr>ap_store := ls_store s'\<rparr>) \<and> app_ok av (w\<lparr>ap_store := ls_store s'\<rparr>)
    \<and> (\<forall>i p. ls_pending s' i = Some p \<longrightarrow> waiting_ok (lookup (ls_store s')) i p)" .
qed

lemma known_waiting: "waiting_ok (stored av w) i p \<Longrightarrow> known av (pa_run p) w"
  by (auto simp: waiting_ok_def known_def)

lemma resume_along:
  fixes e :: "('s, 'w) agent_env" and w :: "('s, ('s, 'w) sessions) app"
  assumes "shared e = e" and "app_ok av w" and "ls_store s = ap_store w"
    and "\<forall>i p. ls_pending s i = Some p \<longrightarrow> waiting_ok (stored av w) i p" and "resume_approval e i d s = (x, s')"
  shows "app_steps av {} w (w\<lparr>ap_store := ls_store s'\<rparr>) \<and> app_ok av (w\<lparr>ap_store := ls_store s'\<rparr>)
    \<and> (\<forall>i p. ls_pending s' i = Some p \<longrightarrow> waiting_ok (lookup (ls_store s')) i p)"
proof (cases "ls_pending s i")
  case None
  then have "s' = s" using assms(5) by (simp add: resume_approval_def)
  then show ?thesis using assms by (simp add: stored_def)
next
  case (Some p)
  have k: "known av (pa_run p) w" using assms(4) Some known_waiting by blast
  have "result_ok (along w) (waiting_ok (stored av w)) (ls_baselines s) (resume_approval e i d s)"
    by (rule loop_logic.resume_ok [OF along_logic [OF assms(1)] Some along_start [OF assms(2) k assms(3,4)]])
      (simp add: along_def)
  then show ?thesis using along_result assms(2,5) by simp
qed

lemma safe_approve: "safe_call (\<lambda>_. True) (approve_call i d)"
  unfolding safe_call_def
proof (intro allI impI)
  fix e :: "('s, 'w) agent_env" and s :: "('s, 'w) loop_state" and w x s'
  assume a: "shared e = e" "app_ok av w" "ls_store s = ap_store w"
    "\<forall>i p. ls_pending s i = Some p \<longrightarrow> waiting_ok (stored av w) i p" "approve_call i d e s = (x, s')"
  let ?s = "s\<lparr>ls_grants := map_option (grant d) (ls_grants s)\<rparr>"
  obtain y s1 where y: "resume_approval e i d ?s = (y, s1)" by (rule prod.exhaust)
  have "ls_store s' = ls_store s1 \<and> ls_pending s' = ls_pending s1"
    using a(5) y by (auto simp: approve_call_def split: sum.splits)
  then show "app_steps av {} w (w\<lparr>ap_store := ls_store s'\<rparr>) \<and> app_ok av (w\<lparr>ap_store := ls_store s'\<rparr>)
    \<and> (\<forall>i p. ls_pending s' i = Some p \<longrightarrow> waiting_ok (lookup (ls_store s')) i p)"
    using resume_along [OF a(1,2) _ _ y] a(3,4) by simp
qed

lemma safe_reject: "safe_call (\<lambda>_. True) (\<lambda>e. reject_approval e i d terminate)"
  unfolding safe_call_def
proof (intro allI impI)
  fix e :: "('s, 'w) agent_env" and s :: "('s, 'w) loop_state" and w x s'
  assume a: "shared e = e" "app_ok av w" "ls_store s = ap_store w"
    "\<forall>i p. ls_pending s i = Some p \<longrightarrow> waiting_ok (stored av w) i p" "reject_approval e i d terminate s = (x, s')"
  show "app_steps av {} w (w\<lparr>ap_store := ls_store s'\<rparr>) \<and> app_ok av (w\<lparr>ap_store := ls_store s'\<rparr>)
    \<and> (\<forall>i p. ls_pending s' i = Some p \<longrightarrow> waiting_ok (lookup (ls_store s')) i p)"
  proof (cases "ls_pending s i")
    case None
    then have "s' = s" using a(5) by (simp add: reject_approval_def)
    then show ?thesis using a by (simp add: stored_def)
  next
    case (Some p)
    have k: "known av (pa_run p) w" using a(4) Some known_waiting by blast
    have "result_ok (along w) (waiting_ok (stored av w)) (ls_baselines s) (reject_approval e i d terminate s)"
      by (rule loop_logic.reject_ok [OF along_logic [OF a(1)] Some along_start [OF a(2) k a(3,4)]])
    then show ?thesis using along_result a(2,5) by simp
  qed
qed

section \<open>The controller takes steps\<close>

text \<open>Changes of the sessions alone.\<close>

lemma sessions_tick:
  assumes "app_ok av w" and "ap_store w' = ap_store w" and "ap_leases w' = ap_leases w" and "ap_background w' = ap_background w"
    and "sessions_ok shared (stored av w) (ap_loops w')"
  shows "app_ok av w' \<and> app_steps av own w w'"
proof -
  have "app_ok av w'" using assms by (auto simp: app_ok_def known_def stored_def)
  moreover from this have "app_step av None w w'" using assms by (intro tick) (auto simp: stored_def)
  ultimately show ?thesis by (auto intro: app_steps_single)
qed

lemma guided_sessions:
  assumes "stable (app_steps av {}) P" and "\<And>w. P w \<Longrightarrow> app_ok av w"
    and "\<And>w. ap_store (snd (h w)) = ap_store w \<and> ap_leases (snd (h w)) = ap_leases w \<and> ap_background (snd (h w)) = ap_background w"
    and "\<And>w. P w \<Longrightarrow> sessions_ok shared (stored av w) (ap_loops w) \<Longrightarrow> sessions_ok shared (stored av w) (ap_loops (snd (h w)))"
  shows "under av {} P (atomically h) (\<lambda>_. P)"
proof (rule steps.guided_atomically [OF assms(1)])
  fix w assume p: "P w"
  have "sessions_ok shared (stored av w) (ap_loops w)" using assms(2) [OF p] by (simp add: app_ok_def stored_def)
  then have "app_ok av (snd (h w)) \<and> app_steps av {} w (snd (h w))"
    using assms(2) [OF p] assms(3) assms(4) [OF p] by (intro sessions_tick) simp_all
  then show "app_steps av {} w (snd (h w)) \<and> P (snd (h w))" using assms(1) p unfolding stable_def by blast
qed

lemma update_session_frame [simp]:
  "ap_store (update_session n g w) = ap_store w" "ap_leases (update_session n g w) = ap_leases w"
  "ap_background (update_session n g w) = ap_background w"
  by (simp_all add: update_session_def)

lemma update_session_ok:
  assumes "sessions_ok shared runs (ap_loops w)" and "\<And>se. session_ok shared runs se \<Longrightarrow> session_ok shared runs (g se)"
  shows "sessions_ok shared runs (ap_loops (update_session n g w))"
  using assms by (auto simp: sessions_ok_def update_session_def)

lemma flags_ok [simp]:
  "session_ok shared runs (se\<lparr>se_active := b\<rparr>) = session_ok shared runs se"
  "session_ok shared runs (se\<lparr>se_cancelled := b\<rparr>) = session_ok shared runs se"
  by (simp_all add: session_ok_def)

lemma guided_call_session:
  assumes "safe_call Pre f" and "stable (app_steps av {}) P" and "\<And>w. P w \<Longrightarrow> app_ok av w \<and> Pre w"
  shows "under av {} P (atomically (call_session n f)) (\<lambda>_. app_ok av)"
proof (rule steps.guided_atomically [OF assms(2)])
  fix w assume p: "P w"
  then have ok: "app_ok av w" "Pre w" using assms(3) by simp_all
  show "app_steps av {} w (snd (call_session n f w)) \<and> app_ok av (snd (call_session n f w))"
  proof (cases "ss_objects (ap_loops w) n")
    case None
    then show ?thesis using ok by (simp add: call_session_def)
  next
    case (Some se)
    let ?e = "under_context (session_cancelled w se) (se_env se)" and ?s = "(se_loop se)\<lparr>ls_store := ap_store w\<rparr>"
    obtain x s' where x: "f ?e ?s = (x, s')" by (rule prod.exhaust)
    have se: "session_ok shared (stored av w) se"
      using ok(1) Some by (simp add: app_ok_def sessions_ok_def stored_def)
    have c: "app_steps av {} w (w\<lparr>ap_store := ls_store s'\<rparr>) \<and> app_ok av (w\<lparr>ap_store := ls_store s'\<rparr>)
        \<and> (\<forall>i p. ls_pending s' i = Some p \<longrightarrow> waiting_ok (lookup (ls_store s')) i p)"
      using assms(1) [unfolded safe_call_def, rule_format, OF _ ok _ _ x] se by (simp add: session_ok_def)
    let ?w1 = "w\<lparr>ap_store := ls_store s'\<rparr>"
    have ss: "sessions_ok shared (stored av ?w1) (ap_loops ?w1)" using c by (simp add: app_ok_def stored_def)
    have new: "snd (call_session n f w) = update_session n (\<lambda>se. se\<lparr>se_loop := s'\<rparr>) ?w1"
      using Some x by (simp add: call_session_def)
    have "sessions_ok shared (stored av ?w1) (ap_loops (snd (call_session n f w)))"
      using ss c unfolding new by (intro update_session_ok) (auto simp: session_ok_def stored_def)
    then have "app_ok av (snd (call_session n f w)) \<and> app_steps av {} ?w1 (snd (call_session n f w))"
      using c by (intro sessions_tick) (simp_all add: new)
    then show ?thesis using c by (blast intro: app_steps_trans)
  qed
qed

lemma guided_invoke:
  assumes "safe_call Pre f" and "stable (app_steps av {}) P" and "\<And>w. P w \<Longrightarrow> app_ok av w \<and> Pre w"
  shows "under av {} P (invoke n f) (\<lambda>_. app_ok av)"
  unfolding invoke_def
proof (rule steps.guided_if_ok [where M = "\<lambda>_. P"])
  have "under av {} P (atomically (enter_session n)) (\<lambda>_. P)"
    using assms(2,3)
    by (intro guided_sessions) (auto simp: enter_session_def intro: update_session_ok split: option.splits)
  then show "under av {} P (atomically (enter_session n)) (\<lambda>x w. case x of Inl e \<Rightarrow> app_ok av w | Inr _ \<Rightarrow> P w)"
    by (rule steps.guided_weaken) (use assms(3) in \<open>auto split: sum.splits\<close>)
  have leave: "under av {} (app_ok av) (modify (leave_session n)) (\<lambda>_. app_ok av)"
    unfolding modify_def
    by (rule guided_sessions [OF stable_ok]) (auto simp: leave_session_def intro: update_session_ok)
  show "under av {} P (do { x \<leftarrow> atomically (call_session n f); modify (leave_session n); State_Monad.return x }) (\<lambda>_. app_ok av)"
    by (rule steps.guided_bind [OF guided_call_session [OF assms] steps.guided_bind [OF leave steps.guided_return]])
qed

lemma guided_delete: "under av {} (app_ok av) (modify (delete_session i n)) (\<lambda>_. app_ok av)"
  unfolding modify_def
proof (rule guided_sessions [OF stable_ok])
  fix w :: "('s, ('s, 'w) sessions) app"
  assume "sessions_ok shared (stored av w) (ap_loops w)"
  then show "sessions_ok shared (stored av w) (ap_loops (snd ((), delete_session i n w)))"
    unfolding delete_session_def Let_def snd_conv by (intro update_session_ok) (auto simp: sessions_ok_def)
qed (auto simp: delete_session_def Let_def)

lemma guided_finish: "under av {} (app_ok av) (finish_call i n refused x) (\<lambda>_. app_ok av)"
  unfolding finish_call_def
proof (rule steps.guided_bind)
  show "under av {} (app_ok av) (if (case x of Inl e \<Rightarrow> \<not> refused e | Inr res \<Rightarrow> terminal (lr_state res))
      then modify (delete_session i n) else State_Monad.return ()) (\<lambda>_. app_ok av)"
    using guided_delete by (auto intro: steps.guided_return)
  show "under av {} (app_ok av) (case x of Inl e \<Rightarrow> fail e | Inr _ \<Rightarrow> ok ()) (\<lambda>_. app_ok av)"
    by (cases x) (auto intro: steps.guided_return)
qed

lemma guided_session_call:
  assumes "safe_call (\<lambda>_. True) f"
  shows "under av {} (app_ok av) (if_ok (find_session i) (\<lambda>n. do { x \<leftarrow> invoke n f; finish_call i n refused x })) (\<lambda>_. app_ok av)"
proof (rule steps.guided_if_ok [where M = "\<lambda>_. app_ok av"])
  show "under av {} (app_ok av) (find_session i) (\<lambda>x w. case x of Inl e \<Rightarrow> app_ok av w | Inr n \<Rightarrow> app_ok av w)"
    unfolding find_session_def by (rule steps.guided_inspect [OF stable_ok]) (simp split: sum.splits)
  show "under av {} (app_ok av) (do { x \<leftarrow> invoke n f; finish_call i n refused x }) (\<lambda>_. app_ok av)" for n
    by (rule steps.guided_bind [OF guided_invoke [OF assms stable_ok] guided_finish]) simp
qed

lemma built_loop:
  assumes "build_loop (shared_store shared ce) setup w = Inr (e, s)"
  shows "shared e = e \<and> ls_pending s = (\<lambda>_. None)"
  using assms by (auto simp: build_loop_def shared_store_def map_sum_def map_option_case split: option.splits sum.splits prod.splits)

lemma new_session_ok:
  "shared e = e \<Longrightarrow> ls_pending s = (\<lambda>_. None) \<Longrightarrow> session_ok shared runs (new_session e s red setup ctx)"
  by (simp add: session_ok_def new_session_def bind_baselines_def bind_approval_redactor_def)

lemma guided_start_controller:
  "under av {} (tracked av (su_run setup)) (controller_start (shared_store shared ce) ctx setup) (\<lambda>_. app_ok av)"
proof -
  let ?r = "su_run setup" and ?i = "rid (su_run setup)"
  have tr: "tracked av ?r w \<Longrightarrow> app_ok av w \<and> known av ?r w" for w by (simp add: tracked_def)
  have run: "under av {} (tracked av ?r)
      (do { x \<leftarrow> invoke n (\<lambda>env. run_agent env ?r); finish_call ?i n (\<lambda>_. False) x }) (\<lambda>_. app_ok av)" for n
    by (rule steps.guided_bind [OF guided_invoke [OF safe_run stable_tracked tr] guided_finish])
  have add: "under av {} (\<lambda>w. (shared e = e \<and> ls_pending s = (\<lambda>_. None)) \<and> tracked av ?r w)
      (if_ok (atomically (add_session ?i (new_session e s red setup ctx))) (\<lambda>n. do {
         x \<leftarrow> invoke n (\<lambda>env. run_agent env ?r); finish_call ?i n (\<lambda>_. False) x })) (\<lambda>_. app_ok av)" for e s red
  proof (rule steps.guided_pure, rule steps.guided_if_ok [OF steps.guided_weaken run])
    assume e: "shared e = e \<and> ls_pending s = (\<lambda>_. None)"
    show "under av {} (tracked av ?r) (atomically (add_session ?i (new_session e s red setup ctx))) (\<lambda>_. tracked av ?r)"
    proof (rule guided_sessions [OF stable_tracked])
      fix w :: "('s, ('s, 'w) sessions) app"
      assume "sessions_ok shared (stored av w) (ap_loops w)"
      then show "sessions_ok shared (stored av w) (ap_loops (snd (add_session ?i (new_session e s red setup ctx) w)))"
        using e new_session_ok [of e s "stored av w" red "setup" ctx] by (auto simp: add_session_def Let_def sessions_ok_def)
    qed (auto simp: add_session_def Let_def tracked_def)
  qed (auto simp: tracked_def split: sum.splits)
  have build: "under av {} (tracked av ?r) (inspect (build_loop (shared_store shared ce) setup))
      (\<lambda>x w. case x of Inl e \<Rightarrow> app_ok av w
         | Inr b \<Rightarrow> (shared (fst b) = fst b \<and> ls_pending (snd b) = (\<lambda>_. None)) \<and> tracked av ?r w)"
    by (rule steps.guided_inspect [OF stable_tracked])
      (auto simp: tracked_def split: sum.splits dest: built_loop)
  have ctx: "under av {} (tracked av ?r) (inspect (\<lambda>w. if ctx \<in> set (ap_cancelled w) then Inl ErrContextCanceled else Inr ()))
      (\<lambda>x w. case x of Inl e \<Rightarrow> app_ok av w | Inr _ \<Rightarrow> tracked av ?r w)"
    by (rule steps.guided_inspect [OF stable_tracked]) (auto simp: tracked_def split: sum.splits)
  show ?thesis
    unfolding controller_start_def Let_def
    by (rule steps.guided_if_ok [OF ctx steps.guided_if_ok [OF build]]) (use add in \<open>simp add: case_prod_beta\<close>)
qed

lemma guided_wait: "under av {} (app_ok av) (wait_inactive k n) (\<lambda>_. app_ok av)"
proof (induction k)
  case 0
  show ?case unfolding wait_inactive.simps by (rule steps.guided_return)
next
  case (Suc k)
  have r: "under av {} (app_ok av) (if active then wait_inactive k n else ok ()) (\<lambda>_. app_ok av)" for active
    using Suc by (auto intro: steps.guided_return)
  show ?case
    unfolding wait_inactive.simps
    by (rule steps.guided_bind [OF steps.guided_inspect [where Q = "\<lambda>_. app_ok av", OF stable_ok] r])
qed

lemma guided_cancel_wait: "under av {} (app_ok av) (cancel_and_wait n) (\<lambda>_. app_ok av)"
  unfolding cancel_and_wait_def
proof (rule steps.guided_bind)
  show "under av {} (app_ok av) (modify (update_session n (\<lambda>se. se\<lparr>se_cancelled := True\<rparr>))) (\<lambda>_. app_ok av)"
    unfolding modify_def by (rule guided_sessions [OF stable_ok]) (auto intro: update_session_ok)
  show "under av {} (app_ok av) (State (\<lambda>s. run_state (wait_inactive (Suc (length (fst s))) n) s)) (\<lambda>_. app_ok av)"
    by (rule steps.guided_attempts) (rule guided_wait)
qed

lemma guided_cancel_controller: "under av {} (app_ok av) (controller_cancel i) (\<lambda>_. app_ok av)"
  unfolding controller_cancel_def
proof (rule steps.guided_bind [where M = "\<lambda>_. app_ok av"])
  show "under av {} (app_ok av) (find_session i) (\<lambda>_. app_ok av)"
    unfolding find_session_def by (rule steps.guided_inspect [OF stable_ok])
  fix x :: "(control_error, nat) result"
  have "under av {} (app_ok av) (if_ok (cancel_and_wait n) (\<lambda>_. do { modify (delete_session i n); ok () })) (\<lambda>_. app_ok av)" for n
    by (rule steps.guided_if_ok [OF steps.guided_weaken [OF guided_cancel_wait] steps.guided_bind [OF guided_delete steps.guided_return]])
      (auto split: sum.splits)
  then show "under av {} (app_ok av)
    (case x of Inl _ \<Rightarrow> ok () | Inr n \<Rightarrow> if_ok (cancel_and_wait n) (\<lambda>_. do { modify (delete_session i n); ok () })) (\<lambda>_. app_ok av)"
    by (cases x) (auto intro: steps.guided_return)
qed

end

sublocale local_contract \<subseteq>
  app: app_contract "local_env so (with_store_calls update_if update_detached append) ce env"
    "local_view lookup good (with_store_calls update_if update_detached append) (ae_locks env)" kept
proof (unfold_locales, unfold local_env_simps agent_loop_controller_def loop_controller.select_convs, goal_cases)
  case 1
  show ?case by (rule guided_start_controller)
next
  case (2 i digest)
  show ?case unfolding controller_approve_def by (rule guided_session_call [OF safe_approve])
next
  case (3 i digest terminate)
  show ?case unfolding controller_reject_def by (rule guided_session_call [OF safe_reject])
next
  case (4 i)
  show ?case by (rule guided_cancel_controller)
qed

section \<open>The two stores\<close>

interpretation local_memory: local_contract H "memory_service H" "\<lambda>w. map_of (ms_runs (mw_store w))"
  "\<lambda>w. ms_events (mw_store w)" "\<lambda>r. r" "memory_update_if H" "memory_update_detached H" "memory_append H"
  "\<lambda>w. store_ok H (mw_store w)" ce env
  for H :: "string \<Rightarrow> digest" and ce :: "(memory_world, 'w) controller_env" and env
  by (intro local_contract.intro memory_laws.service_store_laws_axioms memory_loop.loop_store_axioms)

interpretation local_sqlite: local_contract H "sqlite_service H" "\<lambda>w. find_run (sw_db w)"
  "\<lambda>w. events_of (sw_db w)" "\<lambda>r. load_run (store_run r)" "sqlite_update_if H" "sqlite_update_detached H" "sqlite_append H"
  "sqlite_inv H" ce env
  for H :: "string \<Rightarrow> digest" and ce :: "(sqlite_world, 'w) controller_env" and env
  by (intro local_contract.intro sqlite_laws.service_store_laws_axioms sqlite_loop.loop_store_axioms)

end
