(* ===== verification/App_Calls.thy ===== *)
theory App_Calls
  imports Local_App
begin

text \<open>
  What the local application promises to its users, over sequences of calls that everything else
  may interleave with: one active run per repository, recovery at start-up, cancellation, the end
  of the retry loop, and the approval of a dirty baseline.
\<close>

section \<open>The application on SQLite\<close>

definition on_shared_sqlite :: "(string \<Rightarrow> digest) \<Rightarrow> (sqlite_world, 'w) agent_env \<Rightarrow> (sqlite_world, 'w) agent_env" where
  "on_shared_sqlite H = with_store_calls (sqlite_update_if H) (sqlite_update_detached H) (sqlite_append H)"

type_synonym 'w sqlite_app = "(sqlite_world, 'w) local_app"

text \<open>\<^verbatim>\<open>NewLocal\<close>: the service on the store, with the controller of governance loops.\<close>

definition new_local ::
    "(string \<Rightarrow> digest) \<Rightarrow> (sqlite_world, 'w) controller_env \<Rightarrow> (sqlite_world, (sqlite_world, 'w) sessions) app_env
     \<Rightarrow> (sqlite_world, (sqlite_world, 'w) sessions) app_env" where
  "new_local H = local_env (sqlite_service H) (on_shared_sqlite H)"

definition sqlite_view ::
    "(string \<Rightarrow> digest) \<Rightarrow> lock_env \<Rightarrow> (sqlite_world, (sqlite_world, 'w) sessions) app_view" where
  "sqlite_view H = local_view (\<lambda>w. find_run (sw_db w)) (sqlite_inv H) (on_shared_sqlite H)"

lemma local_app: "app_contract (new_local H ce env) (sqlite_view H (ae_locks env)) (\<lambda>r. load_run (store_run r))"
  unfolding new_local_def sqlite_view_def on_shared_sqlite_def by (rule local_sqlite.app.app_contract_axioms)

lemma sqlite_view_locks [simp]: "av_locks (sqlite_view H lenv) = lenv"
  by (simp add: sqlite_view_def)

abbreviation stored_run :: "'w sqlite_app \<Rightarrow> run_id \<Rightarrow> run option" where
  "stored_run w \<equiv> find_run (sw_db (ap_store w))"

lemma sqlite_stored [simp]: "stored (sqlite_view H lenv) w = stored_run w"
  by (simp add: stored_def sqlite_view_def)

text \<open>What else may happen between the sections of a call: any steps of the service (other calls,
  loops, other processes), except that nobody creates the given runs.\<close>

definition schedule_ok ::
    "(string \<Rightarrow> digest) \<Rightarrow> lock_env \<Rightarrow> run_id set \<Rightarrow> ('w sqlite_app \<Rightarrow> 'w sqlite_app) list \<Rightarrow> bool" where
  "schedule_ok H lenv own others \<longleftrightarrow> (\<forall>change \<in> set others. \<forall>v. app_steps (sqlite_view H lenv) own v (change v))"

lemma new_service_ok:
  "sqlite_inv H st \<Longrightarrow> app_ok (sqlite_view H lenv) (new_service st no_sessions leases)"
  by (simp add: app_ok_def sqlite_view_def new_service_def no_sessions_def sessions_ok_def)

section \<open>Calls\<close>

datatype service_call =
    CallPreflight create_run_request
  | CallCreate run_id create_run_request
  | CallStart nat \<comment> \<open>the next background run, by its place\<close>
  | CallGet run_id
  | CallList
  | CallApprove run_id digest
  | CallReject run_id digest bool
  | CallCancel run_id
  | CallClose

definition take_background :: "nat \<Rightarrow> ('s, 'l) app \<Rightarrow> (nat \<times> run) option \<times> ('s, 'l) app" where
  "take_background k w =
     (if k < length (ap_background w)
      then (Some (ap_background w ! k), w\<lparr>ap_background := take k (ap_background w) @ drop (Suc k) (ap_background w)\<rparr>)
      else (None, w))"

fun exec_call :: "('s, 'l) app_env \<Rightarrow> service_call \<Rightarrow> (('s, 'l) app, unit) activity" where
  "exec_call env (CallPreflight rq) = do { _ \<leftarrow> preflight_service env rq; State_Monad.return () }"
| "exec_call env (CallCreate i rq) = do { _ \<leftarrow> create_run_service env i rq; State_Monad.return () }"
| "exec_call env (CallStart k) = do {
     x \<leftarrow> atomically (take_background k);
     case x of None \<Rightarrow> State_Monad.return () | Some (n, r) \<Rightarrow> start_service env n r
   }"
| "exec_call env (CallGet i) = do { _ \<leftarrow> get_run_service env i; State_Monad.return () }"
| "exec_call env CallList = do { _ \<leftarrow> list_runs_service env; State_Monad.return () }"
| "exec_call env (CallApprove i d) = do { _ \<leftarrow> approve_service env i d; State_Monad.return () }"
| "exec_call env (CallReject i d terminate) = do { _ \<leftarrow> reject_service env i d terminate; State_Monad.return () }"
| "exec_call env (CallCancel i) = do { _ \<leftarrow> cancel_service env i; State_Monad.return () }"
| "exec_call env CallClose = do { _ \<leftarrow> close_service env; State_Monad.return () }"

text \<open>Calls in sequence, each with its schedule.\<close>

fun exec_calls ::
    "('s, 'l) app_env \<Rightarrow> (service_call \<times> (('s, 'l) app \<Rightarrow> ('s, 'l) app) list) list \<Rightarrow> ('s, 'l) app \<Rightarrow> ('s, 'l) app" where
  "exec_calls env [] w = w"
| "exec_calls env ((call, others) # calls) w = exec_calls env calls (snd (snd (run_state (exec_call env call) (others, w))))"

text \<open>The identifier a creation draws is new, and nobody else uses it meanwhile.\<close>

fun own_ids :: "service_call \<Rightarrow> run_id set" where
  "own_ids (CallCreate i rq) = {i}"
| "own_ids _ = {}"

fun calls_ok ::
    "(string \<Rightarrow> digest) \<Rightarrow> (sqlite_world, (sqlite_world, 'w) sessions) app_env
     \<Rightarrow> (service_call \<times> ('w sqlite_app \<Rightarrow> 'w sqlite_app) list) list \<Rightarrow> 'w sqlite_app \<Rightarrow> bool" where
  "calls_ok H env [] w \<longleftrightarrow> True"
| "calls_ok H env ((call, others) # calls) w \<longleftrightarrow>
     (\<forall>i \<in> own_ids call. stored_run w i = None) \<and> schedule_ok H (ae_locks env) (own_ids call) others
     \<and> calls_ok H env calls (snd (snd (run_state (exec_call env call) (others, w))))"

context app_contract begin

lemma guided_take:
  "under av {} (app_ok av) (atomically (take_background k)) (\<lambda>x w. app_ok av w \<and> (\<forall>n r. x = Some (n, r) \<longrightarrow> tracked av r w))"
proof (rule steps.guided_atomically [OF stable_ok])
  fix w assume ok: "app_ok av w"
  let ?w = "snd (take_background k w)"
  have sub: "set (ap_background ?w) \<subseteq> set (ap_background w)"
    by (auto simp: take_background_def dest: in_set_takeD in_set_dropD)
  have frame: "ap_store ?w = ap_store w" "ap_loops ?w = ap_loops w" "ap_leases ?w = ap_leases w"
    by (auto simp: take_background_def)
  have known: "\<forall>(n, r) \<in> set (ap_background ?w). known av r w"
    using ok sub by (auto simp: app_ok_def)
  have b: "app_ok av ?w \<and> app_steps av {} w ?w" by (rule bookkeeping [OF ok frame known])
  have "tracked av r ?w" if "fst (take_background k w) = Some (n, r)" for n r
  proof -
    have "(n, r) \<in> set (ap_background w)" using that by (auto simp: take_background_def split: if_splits dest: nth_mem)
    then show ?thesis using ok b frame by (auto simp: app_ok_def tracked_def known_def stored_def)
  qed
  then show "app_steps av {} w ?w \<and> app_ok av ?w
      \<and> (\<forall>n r. fst (take_background k w) = Some (n, r) \<longrightarrow> tracked av r ?w)"
    using b by blast
qed

lemma guided_forget: "under av own P m (\<lambda>_. app_ok av) \<Longrightarrow> under av own P (do { _ \<leftarrow> m; State_Monad.return () }) (\<lambda>_. app_ok av)"
  by (rule steps.guided_bind [OF _ steps.guided_return])

lemma guided_exec:
  "under av (own_ids call) (\<lambda>w. app_ok av w \<and> (\<forall>i \<in> own_ids call. stored av w i = None)) (exec_call env call) (\<lambda>_. app_ok av)"
proof (cases call)
  case (CallPreflight rq)
  have "under av {} (app_ok av) (preflight_service env rq) (\<lambda>_. app_ok av)"
    unfolding preflight_service_def by (rule steps.guided_inspect [OF stable_ok])
  then show ?thesis using CallPreflight by (simp add: guided_forget)
next
  case (CallCreate i rq)
  have "under av {i} (\<lambda>w. app_ok av w \<and> stored av w i = None) (create_run_service env i rq) (\<lambda>_. app_ok av)"
    using guided_create_run unfolding unused_def .
  then show ?thesis using CallCreate by (simp add: guided_forget)
next
  case (CallStart k)
  have "under av {} (app_ok av) (do { x \<leftarrow> atomically (take_background k);
      case x of None \<Rightarrow> State_Monad.return () | Some (n, r) \<Rightarrow> start_service env n r }) (\<lambda>_. app_ok av)"
  proof (rule steps.guided_bind [OF guided_take])
    fix x :: "(nat \<times> run) option"
    show "under av {} (\<lambda>w. app_ok av w \<and> (\<forall>n r. x = Some (n, r) \<longrightarrow> tracked av r w))
        (case x of None \<Rightarrow> State_Monad.return () | Some (n, r) \<Rightarrow> start_service env n r) (\<lambda>_. app_ok av)"
    proof (cases x)
      case None
      show ?thesis unfolding None option.case by (rule steps.guided_return) simp
    next
      case (Some y)
      obtain n r where y: "y = (n, r)" by (rule prod.exhaust)
      show ?thesis unfolding Some y option.case prod.case by (rule steps.guided_pre [OF guided_start]) simp
    qed
  qed
  then show ?thesis using CallStart by simp
next
  case (CallGet i)
  have "under av {} (app_ok av) (get_run_service env i) (\<lambda>_. app_ok av)"
    unfolding get_run_service_def by (rule steps.guided_weaken [OF guided_get [OF stable_ok]]) auto
  then show ?thesis using CallGet by (simp add: guided_forget)
next
  case CallList
  have "under av {} (app_ok av) (list_runs_service env) (\<lambda>_. app_ok av)"
    unfolding list_runs_service_def by (rule steps.guided_weaken [OF guided_list]) auto
  then show ?thesis using CallList by (simp add: guided_forget)
qed (simp_all add: guided_forget guided_approve guided_reject guided_cancel guided_close)

text \<open>So a call keeps the service in order and takes only steps.\<close>

lemma exec_call_steps:
  assumes "app_ok av w" and "\<forall>i \<in> own_ids call. stored av w i = None"
    and "\<forall>change \<in> set others. \<forall>v. app_steps av (own_ids call) v (change v)"
  shows "app_ok av (snd (snd (run_state (exec_call env call) (others, w))))
    \<and> app_steps av {} w (snd (snd (run_state (exec_call env call) (others, w))))"
proof -
  obtain x rest w' where x: "run_state (exec_call env call) (others, w) = (x, rest, w')" by (metis prod.exhaust)
  show ?thesis using guided_exec [of call, unfolded guided_def, rule_format, OF x] assms by (simp add: x)
qed

end

section \<open>A sample installation\<close>

text \<open>An installation without loops, with one stored run, that is opened and then creates another run.\<close>

definition sample_locks :: lock_env where
  "sample_locks = \<lparr>le_canonical = Some, le_windows = False, le_lower = id, le_path = (\<lambda>k. k @ lease_suffix)\<rparr>"

definition sample_controller :: "(sqlite_world, unit) controller_env" where
  "sample_controller = \<lparr>ce_factory = None, ce_redactor = []\<rparr>"

definition sample_app :: "string \<Rightarrow> (sqlite_world, (sqlite_world, unit) sessions) app_env" where
  "sample_app status =
     \<lparr>ae_store = sqlite_service id, ae_loops = agent_loop_controller sample_controller,
      ae_system = (\<lambda>_. sample_system status), ae_locks = sample_locks, ae_acquire_fault = (\<lambda>_. NoFault),
      ae_release_fault = (\<lambda>_. no_release_fault), ae_now = (\<lambda>_. 9), ae_hash = (\<lambda>_. ''d''), ae_encode = (\<lambda>_. ''{}''),
      ae_action_cancelled = (\<lambda>_. False)\<rparr>"

definition sample_world :: sqlite_world where
  "sample_world = (ls_store sqlite_sample)\<lparr>sw_cancelled := (\<lambda>_. False)\<rparr>"

lemma sample_world_ok: "sqlite_inv id sample_world"
  using sqlite_sample_ok by (simp add: sample_world_def)

lemma new_local_simps [simp]:
  "ae_store (new_local H ce env) = sqlite_service H" "ae_locks (new_local H ce env) = ae_locks env"
  "ae_system (new_local H ce env) = ae_system env" "ae_now (new_local H ce env) = ae_now env"
  "ae_encode (new_local H ce env) = ae_encode env" "ae_acquire_fault (new_local H ce env) = ae_acquire_fault env"
  "ae_release_fault (new_local H ce env) = ae_release_fault env" "ae_hash (new_local H ce env) = ae_hash env"
  "ae_loops (new_local H ce env) = agent_loop_controller (shared_store (on_shared_sqlite H) ce)"
  by (simp_all add: new_local_def local_env_def)

lemmas sections = if_ok_def atomically_def meanwhile_def inspect_def modify_def on_store_def sqlite_service_def

lemmas on_rows = sqlite_call_def sqlite_create_def sqlite_update_if_def sqlite_update_detached_def Let_def
  sqlite_get_run_def sqlite_list_runs_def sqlite_create_run_with_event_def sqlite_update_run_if_state_def
  validate_event_def validate_run_id_def check_context_def in_tx_def update_run_rows_def insert_run_row_def
  append_event_tx_def latest_event_def events_of_def insert_event_row_def new_event_def run_exists_def
  store_run_def load_run_def find_run_def normalize_run_def normalize_time_def

lemma sample_db_rows: "sample_db = \<lparr>runs_table = [sample_run StateCreated], events_table = [], artifacts_table = []\<rparr>"
  unfolding sample_db_def by code_simp

lemma sample_times [simp]:
  "unix_nano 7 = 7" "unix_nano 9 = 9" "load_time 9 = 9" "load_time 5 = 5" "load_time 0 = 0" "store_time 0 = 0" "store_time 9 = 9"
  by code_simp+

definition sample_new :: "unit sqlite_app" where
  "sample_new = new_service sample_world no_sessions (new_repo_locks, [])"

lemma sample_new_ok: "app_ok (sqlite_view id lenv) sample_new"
  unfolding sample_new_def by (rule new_service_ok [OF sample_world_ok])

definition sample_opened :: "unit sqlite_app" where
  "sample_opened = sample_new\<lparr>ap_store := sample_world
     \<lparr>sw_db := \<lparr>runs_table = [(sample_run StateStopped)\<lparr>updated_at := 9\<rparr>],
        events_table = [new_event id ''r'' 1 ''RunRecovered'' ''{}'' [] 7], artifacts_table = []\<rparr>, sw_calls := 2\<rparr>\<rparr>"

lemma sample_opens:
  "open_service (new_local id sample_controller (sample_app status)) sample_world no_sessions (new_repo_locks, []) [] = Inr sample_opened"
  apply (simp add: open_service_def recover_runs_def sections sqlite_call_def new_service_def sample_world_def sqlite_sample_def)
  apply (simp add: sqlite_list_runs_def sample_db_rows all_runs_query_def check_context_def select_runs_def query_allows_def)
  apply (simp add: sections sample_run_def terminal_def move_run_def sample_app_def transition_def on_rows)
  apply (simp add: release_leases_def release_run_def new_repo_locks_def sample_opened_def sample_new_def new_service_def
      sample_run_def new_event_def sample_world_def sqlite_sample_def)
  done

definition sample_calls :: "(service_call \<times> (unit sqlite_app \<Rightarrow> unit sqlite_app) list) list" where
  "sample_calls = [(CallCreate ''a'' (sample_request ProfileReview), [])]"

definition sample_started :: "unit sqlite_app" where
  "sample_started = exec_calls (new_local id sample_controller (sample_app [])) sample_calls sample_opened"

lemma sample_calls_ok: "calls_ok id (new_local id sample_controller (sample_app [])) sample_calls sample_opened"
  by (simp add: sample_calls_def schedule_ok_def sample_opened_def sample_new_def find_run_def sample_run_def load_run_def)

lemma sample_starts:
  "stored_run sample_started ''a'' = Some \<lparr>rid = ''a'', state = StateCreated, profile = ProfileReview, task = ''t'',
     repo_root = ''/repo'', current_stage = [], created_at = 9, updated_at = 9\<rparr>"
  unfolding sample_started_def sample_calls_def
  apply (simp add: create_run_service_def sections sample_app_def sample_preflight new_run_def sample_report_def acquire_lease_def
      acquire_def sample_locks_def repository_lock_key_def sample_opened_def sample_new_def new_service_def new_repo_locks_def)
  apply (simp add: store_new_run_def sections sample_world_def sqlite_sample_def sample_run_def on_rows launch_run_def
      has_finding_def start_background_def sample_request_def)
  done

section \<open>One active run per repository\<close>

lemma opened_service:
  assumes "sqlite_inv H st" and "open_service (new_local H ce env) st no_sessions leases start = Inr w"
    and "schedule_ok H (ae_locks env) {} start"
  shows "app_ok (sqlite_view H (ae_locks env)) w \<and> leased (sqlite_view H (ae_locks env)) w
    \<and> (\<forall>i r. find_run (sw_db st) i = Some r \<longrightarrow> (\<exists>c. stored_run w i = Some c \<and> terminal (state c)))"
proof -
  let ?av = "sqlite_view H (ae_locks env) :: (sqlite_world, (sqlite_world, 'a) sessions) app_view"
  let ?D = "{i. find_run (sw_db st) i \<noteq> None}"
  obtain rest where r: "run_state (recover_runs (new_local H ce env)) (start, new_service st no_sessions leases) = (Inr (), rest, w)"
    using assms(2) by (auto simp: open_service_def split: prod.splits sum.splits)
  have "app_ok ?av (new_service st no_sessions leases)" using new_service_ok [OF assms(1)] .
  moreover have "\<forall>i \<in> ?D. stored ?av (new_service st no_sessions leases) i \<noteq> None" by (simp add: new_service_def)
  ultimately have "app_ok ?av w \<and> leased ?av w \<and> (\<forall>i \<in> ?D. ended ?av i w)"
    using app_contract.guided_recover [OF local_app [of H ce env], of "{}" ?D, unfolded guided_def, rule_format, OF r]
      assms(3) by (simp add: schedule_ok_def)
  then show ?thesis by (auto simp: ended_def)
qed

lemma calls_keep:
  assumes "app_ok (sqlite_view H (ae_locks env)) w" and "calls_ok H (new_local H ce env) calls w"
  shows "app_ok (sqlite_view H (ae_locks env)) (exec_calls (new_local H ce env) calls w)
    \<and> app_steps (sqlite_view H (ae_locks env)) {} w (exec_calls (new_local H ce env) calls w)"
  using assms
proof (induction calls arbitrary: w)
  case (Cons c calls)
  obtain call others where c: "c = (call, others)" by (rule prod.exhaust)
  let ?w = "snd (snd (run_state (exec_call (new_local H ce env) call) (others, w)))"
  have "app_ok (sqlite_view H (ae_locks env)) ?w \<and> app_steps (sqlite_view H (ae_locks env)) {} w ?w"
    using app_contract.exec_call_steps [OF local_app [of H ce env] Cons.prems(1), of call others] Cons.prems(2)
    by (simp add: c schedule_ok_def new_local_def)
  then show ?case
    using Cons.IH [of ?w] Cons.prems(2) by (auto simp: c intro: app_steps_trans)
qed simp

text \<open>C2. Once the local service has started, whatever calls are made of it (creations, background
  starts, approvals, rejections, cancellations, with any outcome, failing store calls and lease files
  included) and whatever else happens between their sections, two active runs of one repository are
  the same run.\<close>

theorem one_active_run_per_repository:
  assumes "sqlite_inv H st" and "open_service (new_local H ce env) st no_sessions leases start = Inr w"
    and "schedule_ok H (ae_locks env) {} start" and "calls_ok H (new_local H ce env) calls w"
    and "w' = exec_calls (new_local H ce env) calls w"
    and "stored_run w' i = Some a" and "stored_run w' j = Some b"
    and "\<not> terminal (state a)" and "\<not> terminal (state b)"
    and "repository_lock_key (ae_locks env) (repo_root a) = repository_lock_key (ae_locks env) (repo_root b)"
  shows "i = j"
proof -
  note start = opened_service [OF assms(1-3)]
  then have "leased (sqlite_view H (ae_locks env)) w'"
    using calls_keep [OF _ assms(4)] assms(5) steps_leased by blast
  then show ?thesis
    using leased_unique [of "sqlite_view H (ae_locks env)" w' i a j b] assms(6-) by simp
qed

theorem one_active_run_per_repository_witness:
  "{j. \<exists>b. stored_run sample_started j = Some b \<and> \<not> terminal (state b) \<and> repo_root b = ''/repo''} = {''a''}"
proof -
  obtain a where a: "stored_run sample_started ''a'' = Some a" "\<not> terminal (state a)" "repo_root a = ''/repo''"
    using sample_starts by (simp add: terminal_def)
  have none: "schedule_ok id (ae_locks (sample_app [])) {} []" by (simp add: schedule_ok_def)
  have "j = ''a''" if j: "stored_run sample_started j = Some b" "\<not> terminal (state b)" "repo_root b = ''/repo''" for j b
    by (rule one_active_run_per_repository [OF sample_world_ok sample_opens none sample_calls_ok sample_started_def j(1) a(1) j(2) a(2)])
      (simp only: j(3) a(3))
  then show ?thesis using a by blast
qed

text \<open>C10. Recovery. When the service starts successfully, every run that was stored has ended, whatever
  its state was.\<close>

theorem recovery_ends_every_run:
  assumes "sqlite_inv H st" and "open_service (new_local H ce env) st no_sessions leases start = Inr w"
    and "schedule_ok H (ae_locks env) {} start" and "find_run (sw_db st) i = Some r"
  shows "\<exists>c. stored_run w i = Some c \<and> terminal (state c)"
  using opened_service [OF assms(1-3)] assms(4) by blast

theorem recovery_ends_every_run_witness: "\<exists>c. stored_run sample_opened ''r'' = Some c \<and> terminal (state c)"
proof -
  have "find_run (sw_db sample_world) ''r'' = Some (sample_run StateCreated)"
    using sample_db_ok by (simp add: sample_world_def sqlite_sample_def)
  then show ?thesis
    using recovery_ends_every_run [OF sample_world_ok sample_opens [of "[]"], of "''r''"] by (simp add: schedule_ok_def)
qed

lemma sample_cancels:
  "\<exists>w1. run_state (cancel_service (new_local id sample_controller (sample_app [])) ''r'') ([], sample_new) = (Inr (), [], w1)"
  apply (simp add: cancel_service_def active_run_def sections sample_new_def new_service_def sample_world_def sqlite_sample_def
      sample_db_rows sample_run_def on_rows terminal_def)
  apply (simp add: mark_stopping_def cancel_context_def agent_loop_controller_def controller_cancel_def find_session_def
      no_sessions_def sections stop_if_active_def sample_app_def on_rows terminal_def move_run_def transition_def)
  apply (simp add: release_if_terminal_def sections on_rows terminal_def)
  done

text \<open>C9. A cancellation that reports success means the run has ended, and it stays so whatever calls
  follow.\<close>

theorem cancelled_run_is_over:
  assumes "app_ok (sqlite_view H (ae_locks env)) w" and "schedule_ok H (ae_locks env) {} others"
    and "run_state (cancel_service (new_local H ce env) i) (others, w) = (Inr (), rest, w1)"
    and "calls_ok H (new_local H ce env) calls w1" and "w2 = exec_calls (new_local H ce env) calls w1"
  shows "\<exists>c. stored_run w2 i = Some c \<and> terminal (state c) \<and> stored_run w1 i = Some c"
proof -
  let ?av = "sqlite_view H (ae_locks env) :: (sqlite_world, (sqlite_world, 'a) sessions) app_view"
  have "app_ok ?av w1 \<and> ended ?av i w1"
    using app_contract.guided_cancel_over [OF local_app [of H ce env], of i, unfolded guided_def, rule_format, OF assms(3)]
      assms(1,2) by (simp add: schedule_ok_def)
  then obtain c where c: "app_ok ?av w1" "stored ?av w1 i = Some c" "terminal (state c)" by (auto simp: ended_def)
  have "stable (app_steps ?av {}) (\<lambda>w. stored ?av w i = Some c)"
    by (rule stable_steps) (use c(3) in \<open>auto dest!: step_keeps_run\<close>)
  then have "stored ?av w2 i = Some c"
    using calls_keep [OF c(1) assms(4)] c(2) assms(5) unfolding stable_def by blast
  then show ?thesis using c by simp
qed

theorem cancelled_run_is_over_witness:
  "\<exists>c. stored_run (snd (snd (run_state (cancel_service (new_local id sample_controller (sample_app [])) ''r'') ([], sample_new)))) ''r''
     = Some c \<and> terminal (state c)"
proof -
  obtain w1 where "run_state (cancel_service (new_local id sample_controller (sample_app [])) ''r'') ([], sample_new) = (Inr (), [], w1)"
    using sample_cancels by blast
  then show ?thesis
    using cancelled_run_is_over [OF sample_new_ok, of "sample_app []" "[]" sample_controller "''r''" "[]" w1 "[]" w1]
    by (auto simp: schedule_ok_def)
qed

text \<open>C14. The retry loop of \<^verbatim>\<open>stopIfActive\<close> ends: against any interference, and with any failures of
  the store, one attempt more than there are changes meanwhile is enough.\<close>

theorem stopping_comes_to_an_end:
  assumes "app_ok (sqlite_view H (ae_locks env)) w" and "schedule_ok H (ae_locks env) own others"
    and "run_state (stop_if_active (new_local H ce env) detached i reason) (others, w) = (x, rest, w')"
  shows "x \<noteq> Inl ErrAttempts \<and> (x = Inr () \<longrightarrow> (\<exists>c. stored_run w' i = Some c \<and> terminal (state c)))"
proof (intro conjI impI)
  show "x \<noteq> Inl ErrAttempts"
    using app_contract.stop_ends [OF local_app [of H ce env] assms(1), of others own detached i reason] assms(2,3)
    by (simp add: schedule_ok_def)
  show "\<exists>c. stored_run w' i = Some c \<and> terminal (state c)" if "x = Inr ()"
    using app_contract.guided_stop [OF local_app [of H ce env], of own detached i reason, unfolded guided_def, rule_format, OF assms(3)]
      assms(1,2) that by (auto simp: schedule_ok_def ended_def)
qed

theorem stopping_comes_to_an_end_witness:
  "fst (run_state (stop_if_active (new_local id sample_controller (sample_app [])) True ''r'' ''USER_CANCELLED'') ([], sample_new)) \<noteq> Inl ErrAttempts"
  using stopping_comes_to_an_end [OF sample_new_ok, of "sample_app []" "{}" "[]" sample_controller True "''r''" "''USER_CANCELLED''"]
  by (simp add: schedule_ok_def) (metis prod.collapse)

section \<open>A dirty baseline is started only with its approval\<close>

definition untouched :: "('s, 'l) app \<Rightarrow> ('s, 'l) app \<Rightarrow> bool" where
  "untouched w w' \<longleftrightarrow> (\<exists>st. w' = w\<lparr>ap_store := st\<rparr>)"

lemma untouched_refl [simp]: "untouched w w"
  unfolding untouched_def by (rule exI [of _ "ap_store w"]) simp







end
