(* ===== verification/Http_Events.thy ===== *)
theory Http_Events
  imports Http_Safe App_Calls
begin

text \<open>
  The demo router does no more than read its fixed runs, and an event stream is the log: every event
  from the requested number on, once and in order, however the log grows while it is followed.
\<close>

section \<open>The demo router\<close>

text \<open>Two applications that read the given runs alike.\<close>

definition same_reads :: "run_id list \<Rightarrow> 'w api_calls \<Rightarrow> 'w api_calls \<Rightarrow> bool" where
  "same_reads fixed a b \<longleftrightarrow>
     (\<forall>q. q_ids q = Some fixed \<longrightarrow> ac_list_runs a q = ac_list_runs b q)
     \<and> (\<forall>i \<in> set fixed. ac_get a i = ac_get b i \<and> (\<forall>n. ac_list_events a i n = ac_list_events b i n))"

definition with_calls :: "'w api_calls \<Rightarrow> 'w credential_calls option \<Rightarrow> 'w http_env \<Rightarrow> 'w http_env" where
  "with_calls a cc env = env\<lparr>he_calls := a, he_credentials := cc\<rparr>"

lemma with_calls_simps [simp]:
  "he_calls (with_calls a cc env) = a" "he_random (with_calls a cc env) = he_random env"
  "he_json (with_calls a cc env) = he_json env" "he_error_json (with_calls a cc env) = he_error_json env"
  "he_json_valid (with_calls a cc env) = he_json_valid env" "he_event_json (with_calls a cc env) = he_event_json env"
  "he_action_cancelled (with_calls a cc env) = he_action_cancelled env" "he_ticks (with_calls a cc env) = he_ticks env"
  "he_writes (with_calls a cc env) = he_writes env" "he_is_ipv6 (with_calls a cc env) = he_is_ipv6 env"
  by (simp_all add: with_calls_def)

lemma with_calls_writes [simp]:
  "request_id (with_calls a cc env) = request_id env" "write_error (with_calls a cc env) = write_error env"
  "write_json (with_calls a cc env) = write_json env" "map_error (with_calls a cc env) = map_error env"
  "write_not_found (with_calls a cc env) = write_not_found env"
  "write_method_not_allowed (with_calls a cc env) = write_method_not_allowed env"
  "event_frame (with_calls a cc env) = event_frame env" "guard_error (with_calls a cc env) = guard_error env"
proof -
  show r: "request_id (with_calls a cc env) = request_id env" by (simp add: request_id_def random_token_def)
  show e: "write_error (with_calls a cc env) = write_error env" by (simp add: write_error_def fun_eq_iff)
  show "write_json (with_calls a cc env) = write_json env" by (simp add: write_json_def fun_eq_iff r e cong: option.case_cong)
  show "map_error (with_calls a cc env) = map_error env" by (simp add: map_error_def fun_eq_iff e cong: if_cong)
  show "write_not_found (with_calls a cc env) = write_not_found env" by (simp add: write_not_found_def e)
  show "write_method_not_allowed (with_calls a cc env) = write_method_not_allowed env" by (simp add: write_method_not_allowed_def e)
  show "event_frame (with_calls a cc env) = event_frame env" by (simp add: event_frame_def event_data_def fun_eq_iff)
  show "guard_error (with_calls a cc env) = guard_error env"
  proof -
    have o: "valid_origin (with_calls a cc env) = valid_origin env" by (simp add: valid_origin_def fun_eq_iff)
    show ?thesis unfolding guard_error_def o ..
  qed
qed

lemma with_calls_write_events [simp]: "write_events (with_calls a cc env) secrets es s = write_events env secrets es s"
  by (induction es arbitrary: s) (simp_all add: Let_def)

lemma with_calls_bootstrap [simp]: "bootstrap_http (with_calls a cc env) = bootstrap_http env"
  by (simp add: bootstrap_http_def fun_eq_iff cong: if_cong)

lemma follow_same:
  assumes "\<And>n. ac_list_events a i n = ac_list_events (he_calls env) i n"
  shows "follow_events (with_calls a cc env) i ticks s = follow_events env i ticks s"
proof (induction ticks arbitrary: s)
  case (Cons tick ticks)
  then show ?case by (cases tick) (simp_all add: assms Let_def cong: if_cong sum.case_cong)
qed simp

lemma events_same:
  assumes "\<And>n. ac_list_events a i n = ac_list_events (he_calls env) i n"
  shows "events_http (with_calls a cc env) rq req i = events_http env rq req i"
  by (simp add: events_http_def stream_events_def assms follow_same [OF assms] Let_def cong: sum.case_cong option.case_cong if_cong)

lemma demo_dispatch_same:
  assumes "ro_capabilities ro = demo_capabilities runs" and "same_reads (filter (\<lambda>i. i \<noteq> []) runs) a (he_calls env)"
  shows "dispatch (with_calls a cc env) ro rq req = dispatch env ro rq req"
proof -
  have runs: "allowed_run ro i \<Longrightarrow> ac_get a i = ac_get (he_calls env) i \<and> (\<forall>n. ac_list_events a i n = ac_list_events (he_calls env) i n)" for i
    using assms by (auto simp: allowed_run_def demo_capabilities_def same_reads_def split: if_splits)
  have one: "dispatch_run (with_calls a cc env) ro rq req i rest = dispatch_run env ro rq req i rest" for i rest
  proof (cases "allowed_run ro i")
    case True
    then show ?thesis
      using runs [of i] events_same [of a i env cc rq req] assms(1)
      by (simp add: dispatch_run_def routed_def demo_capabilities_def get_run_http_def Let_def split: list.split)
  next
    case False
    then show ?thesis by (simp add: dispatch_run_def routed_def Let_def split: list.split)
  qed
  have listed: "dispatch_runs (with_calls a cc env) ro rq req = dispatch_runs env ro rq req"
    using assms by (simp add: dispatch_runs_def list_runs_http_def demo_capabilities_def same_reads_def cong: option.case_cong if_cong)
  show ?thesis
    unfolding dispatch_def
    by (simp add: one listed assms(1) demo_capabilities_def routed_def dispatch_credentials_def split: list.split)
qed

text \<open>C19. What the demo router does does not depend on how runs are created, cancelled, approved, rejected
  or checked, on artifacts, on credentials, nor on any run but the fixed ones: it calls none of
  these, and only reads the fixed runs and their events.\<close>

theorem demo_router_only_reads:
  assumes "new_demo_router env op = Inr (ro, st0)" and "cp_fixed_runs (op_capabilities op) = Some runs"
    and "same_reads (filter (\<lambda>i. i \<noteq> []) runs) a (he_calls env)"
  shows "serve_http (with_calls a cc env) ro rq = serve_http env ro rq"
proof -
  have ro: "ro_capabilities ro = demo_capabilities runs" "\<not> ro_local ro"
    using assms(1,2) by (auto simp: new_demo_router_def new_router_def split: if_splits)
  show ?thesis
    unfolding serve_http_def
    by (simp add: demo_dispatch_same [OF ro(1) assms(3)] ro(2) cong: option.case_cong if_cong)
qed

definition sample_demo :: "router \<times> router_state" where
  "sample_demo = projr (new_demo_router sample_http (sample_options (demo_capabilities [''demo''])))"

theorem demo_router_only_reads_witness:
  "serve_http (with_calls (no_runs\<lparr>ac_get := (\<lambda>i. if i = ''demo'' then ac_get no_runs i else Pair (Inl (ApiStore ErrDatabase))),
       ac_cancel := (\<lambda>_. Pair (Inr ()))\<rparr>) None sample_http) (fst sample_demo) (sample_get ''/api/v1/runs/other'')
   = serve_http sample_http (fst sample_demo) (sample_get ''/api/v1/runs/other'')"
proof (rule demo_router_only_reads)
  show "new_demo_router sample_http (sample_options (demo_capabilities [''demo''])) = Inr (fst sample_demo, snd sample_demo)"
    by (simp add: sample_demo_def new_demo_router_def new_router_def demo_capabilities_def)
  show "cp_fixed_runs (op_capabilities (sample_options (demo_capabilities [''demo'']))) = Some [''demo'']"
    by (simp add: sample_options_def demo_capabilities_def)
qed (simp add: same_reads_def sample_http_def)

section \<open>Event streams\<close>

definition chunk_text :: "'w http_env \<Rightarrow> string list \<Rightarrow> run_event option \<Rightarrow> string" where
  "chunk_text env secrets c = (case c of None \<Rightarrow> heartbeat | Some e \<Rightarrow> event_frame env secrets e)"

text \<open>Meanwhile the log may grow, and anything else may happen.\<close>

definition growing :: "('w \<Rightarrow> bool) \<Rightarrow> ('w \<Rightarrow> run_event list) \<Rightarrow> 'w tick list \<Rightarrow> bool" where
  "growing good log ticks \<longleftrightarrow>
     (\<forall>change. TickHeartbeat change \<in> set ticks \<or> TickPoll change \<in> set ticks
        \<longrightarrow> (\<forall>w. good w \<longrightarrow> good (change w) \<and> prefix (log w) (log (change w))))"

text \<open>A store whose listings give a log that only grows; the events are numbered from 1.\<close>

locale event_source =
  fixes listing :: "run_id \<Rightarrow> nat \<Rightarrow> 'w \<Rightarrow> (api_error, run_event list) result \<times> 'w"
    and log :: "'w \<Rightarrow> run_id \<Rightarrow> run_event list" and good :: "'w \<Rightarrow> bool"
  assumes list_keeps: "good w \<Longrightarrow> listing i n w = (x, w') \<Longrightarrow> good w' \<and> log w' i = log w i"
    and list_gives: "good w \<Longrightarrow> listing i n w = (Inr es, w') \<Longrightarrow> 1 \<le> n \<Longrightarrow> es = drop (n - 1) (log w i)"
    and numbered: "good w \<Longrightarrow> k < length (log w i) \<Longrightarrow> ev_seq (log w i ! k) = k + 1"
    and bounded: "good w \<Longrightarrow> length (log w i) < max_uint64"
begin

text \<open>Where a stream is: its text is made of the events from its start up to the next one, and heartbeats.\<close>

definition following :: "'w http_env \<Rightarrow> string list \<Rightarrow> run_id \<Rightarrow> nat \<Rightarrow> 'w \<Rightarrow> stream \<Rightarrow> bool" where
  "following env secrets i start w s \<longleftrightarrow> 1 \<le> start \<and> start \<le> sm_next s
     \<and> (\<exists>chunks. sm_text s = concat (map (chunk_text env secrets) chunks)
          \<and> List.map_filter id chunks = take (sm_next s - start) (drop (start - 1) (log w i)))
     \<and> (start < sm_next s \<longrightarrow> sm_next s - 1 \<le> length (log w i))"

lemma following_grows:
  assumes "following env secrets i start w s" and "prefix (log w i) (log w' i)"
  shows "following env secrets i start w' s"
proof -
  obtain more where more: "log w' i = log w i @ more" using assms(2) by (auto simp: prefix_def)
  have "take (sm_next s - start) (drop (start - 1) (log w' i)) = take (sm_next s - start) (drop (start - 1) (log w i))"
    using assms(1) by (cases "start < sm_next s") (auto simp: following_def more)
  then show ?thesis using assms(1) by (auto simp: following_def more)
qed

lemma write_follows:
  assumes "good w" and "following env secrets i start w s" and "es = drop (sm_next s - 1) (log w i)"
  shows "following env secrets i start w (write_events env secrets es s)"
  using assms(2,3)
proof (induction es arbitrary: s)
  case (Cons e es)
  let ?n = "sm_next s"
  have n: "1 \<le> ?n" "start \<le> ?n" using Cons.prems(1) by (auto simp: following_def)
  have len: "?n - 1 < length (log w i)" using Cons.prems(2) by (metis drop_all linorder_not_less list.distinct(1))
  then have "drop (?n - 1) (log w i) = log w i ! (?n - 1) # drop ?n (log w i)"
    using n by (metis Cons_nth_drop_Suc Suc_diff_1 less_le_trans zero_less_one)
  then have e: "e = log w i ! (?n - 1)" and es: "es = drop ?n (log w i)" using Cons.prems(2) by simp_all
  have seq: "ev_seq e = ?n" using numbered [OF assms(1) len] e n by simp
  then have small: "ev_seq e \<noteq> max_uint64" using bounded [OF assms(1), of i] len by simp
  let ?s = "s\<lparr>sm_text := sm_text s @ event_frame env secrets e, sm_room := sm_room s - 1, sm_next := ev_seq e + 1\<rparr>"
  obtain chunks where c: "sm_text s = concat (map (chunk_text env secrets) chunks)"
      "List.map_filter id chunks = take (?n - start) (drop (start - 1) (log w i))"
    using Cons.prems(1) by (auto simp: following_def)
  have "take (Suc (?n - start)) (drop (start - 1) (log w i)) = take (?n - start) (drop (start - 1) (log w i)) @ [e]"
    using len n Cons.prems(1) e by (subst take_Suc_conv_app_nth) (auto simp: following_def)
  then have "List.map_filter id (chunks @ [Some e]) = take (sm_next ?s - start) (drop (start - 1) (log w i))"
    using c(2) n by (simp add: seq Suc_diff_le map_filter_def)
  moreover have "sm_text ?s = concat (map (chunk_text env secrets) (chunks @ [Some e]))"
    using c(1) by (simp add: chunk_text_def)
  moreover have "1 \<le> start" "start \<le> sm_next ?s" "sm_next ?s - 1 \<le> length (log w i)"
    using Cons.prems(1) n len by (auto simp: following_def seq)
  ultimately have "following env secrets i start w ?s" unfolding following_def by blast
  then show ?case
    using Cons.IH [of ?s] Cons.prems(1) es small seq by (simp add: Let_def following_def)
qed simp

lemma following_heartbeat:
  assumes "following env secrets i start w s"
  shows "following env secrets i start w (s\<lparr>sm_text := sm_text s @ heartbeat, sm_room := n\<rparr>)"
proof -
  obtain chunks where c: "sm_text s = concat (map (chunk_text env secrets) chunks)"
      "List.map_filter id chunks = take (sm_next s - start) (drop (start - 1) (log w i))"
    using assms by (auto simp: following_def)
  then have "sm_text s @ heartbeat = concat (map (chunk_text env secrets) (chunks @ [None]))
      \<and> List.map_filter id (chunks @ [None]) = take (sm_next s - start) (drop (start - 1) (log w i))"
    by (simp add: chunk_text_def map_filter_def)
  then show ?thesis using assms unfolding following_def by (auto intro!: exI [of _ "chunks @ [None]"])
qed

lemma follow_follows:
  assumes "ac_list_events (he_calls env) = listing" and "growing good (\<lambda>w. log w i) ticks" and "good w"
    and "following env (st_redactor st) i start w s"
    and "run_state (follow_events env i ticks s) (st, w) = (s', st', w')"
  shows "good w' \<and> following env (st_redactor st) i start w' s'"
  using assms(2-)
proof (induction ticks arbitrary: w s)
  case (Cons tick ticks)
  have grow: "growing good (\<lambda>w. log w i) ticks" using Cons.prems(1) by (auto simp: growing_def)
  show ?case
  proof (cases tick)
    case (TickHeartbeat change)
    have c: "good (change w)" "prefix (log w i) (log (change w) i)"
      using Cons.prems(1,2) TickHeartbeat by (auto simp: growing_def)
    let ?s = "s\<lparr>sm_text := sm_text s @ heartbeat, sm_room := sm_room s - 1\<rparr>"
    have f: "following env (st_redactor st) i start (change w) s" by (rule following_grows [OF Cons.prems(3) c(2)])
    then have b: "following env (st_redactor st) i start (change w) ?s" by (rule following_heartbeat)
    show ?thesis
    proof (cases "sm_room s = 0")
      case True
      then have "s' = s\<lparr>sm_open := False\<rparr>" "w' = change w" using Cons.prems(4) TickHeartbeat by (auto simp: call_world_def)
      then show ?thesis using f c by (simp add: following_def)
    next
      case False
      then have "run_state (follow_events env i ticks ?s) (st, change w) = (s', st', w')"
        using Cons.prems(4) TickHeartbeat by (simp add: call_world_def)
      then show ?thesis by (rule Cons.IH [OF grow c(1) b])
    qed
  next
    case (TickPoll change)
    have c: "good (change w)" "prefix (log w i) (log (change w) i)"
      using Cons.prems(1,2) TickPoll by (auto simp: growing_def)
    have f: "following env (st_redactor st) i start (change w) s" by (rule following_grows [OF Cons.prems(3) c(2)])
    obtain x v where x: "listing i (sm_next s) (change w) = (x, v)" by (rule prod.exhaust)
    have v: "good v" "log v i = log (change w) i" using list_keeps [OF c(1) x] by simp_all
    have fv: "following env (st_redactor st) i start v s" using f v(2) by (simp add: following_def)
    show ?thesis
    proof (cases x)
      case (Inl e)
      then have "s' = s\<lparr>sm_open := False\<rparr>" "w' = v" using Cons.prems(4) TickPoll x assms(1) by (auto simp: call_world_def)
      then show ?thesis using fv v by (simp add: following_def)
    next
      case (Inr es)
      have es: "es = drop (sm_next s - 1) (log v i)"
        using list_gives [OF c(1) x [unfolded Inr]] fv v(2) by (auto simp: following_def)
      let ?s = "write_events env (st_redactor st) es s"
      have fs: "following env (st_redactor st) i start v ?s" by (rule write_follows [OF v(1) fv es])
      show ?thesis
      proof (cases "sm_open ?s")
        case True
        then have "run_state (follow_events env i ticks ?s) (st, v) = (s', st', w')"
          using Cons.prems(4) TickPoll x Inr assms(1) by (simp add: call_world_def Let_def)
        then show ?thesis by (rule Cons.IH [OF grow v(1) fs])
      next
        case False
        then have "s' = ?s \<and> w' = v" using Cons.prems(4) TickPoll x Inr assms(1) by (auto simp: call_world_def Let_def)
        then show ?thesis using fs v by simp
      qed
    qed
  qed
qed simp

lemma events_follow:
  assumes "ac_list_events (he_calls env) = listing" and "growing good (\<lambda>w. log w i) (he_ticks env rq)" and "good w"
    and "last_event_sequence (hr_header rq ''Last-Event-ID'') = Some start" and "rs_headers rs = event_headers"
    and "run_state (events_http env rq req i) (st, w) = (rs, st', w')"
  shows "\<exists>chunks n. rs_body rs = concat (map (chunk_text env (st_redactor st)) chunks)
    \<and> List.map_filter id chunks = take n (drop (start - 1) (log w' i))"
proof -
  have no: "rs_headers rs' \<noteq> event_headers"
    if "run_state (write_error env status c message req) (st1, w1) = (rs', st2, w2)" for status c message st1 w1 rs' st2 w2
    using that by (auto simp: write_error_def write_text_def base_headers_def event_headers_def)
  have no_map: "rs_headers rs' \<noteq> event_headers"
    if "run_state (map_error env e req) (st1, w1) = (rs', st2, w2)" for e st1 w1 rs' st2 w2
    using that unfolding map_error_def by (auto split: if_splits dest: no)
  obtain x v where x: "listing i start w = (x, v)" by (rule prod.exhaust)
  have v: "good v" "log v i = log w i" using list_keeps [OF assms(3) x] by simp_all
  have start: "1 \<le> start" using assms(4) by (auto simp: last_event_sequence_def split: if_splits option.splits)
  obtain es where es: "x = Inr es" and fl: "hr_flushes rq"
    using assms(1,4,5,6) x by (cases x) (auto simp: events_http_def call_world_def split: if_splits dest: no no_map)
  let ?fresh = "\<lparr>sm_text = [], sm_room = he_writes env rq, sm_next = start, sm_open = True\<rparr>"
  let ?s = "write_events env (st_redactor st) es ?fresh"
  have f0: "following env (st_redactor st) i start v ?fresh"
    unfolding following_def using start by (intro conjI exI [of _ "[]"]) (simp_all add: map_filter_def)
  have f: "following env (st_redactor st) i start v ?s"
    by (rule write_follows [OF v(1) f0]) (simp add: list_gives [OF assms(3) x [unfolded es] start] v(2))
  obtain s' st2 w2 where s': "run_state (stream_events env rq i start es) (st, v) = (s', st2, w2)" by (metis prod.exhaust)
  have "following env (st_redactor st) i start w2 s'"
  proof (cases "sm_open ?s")
    case True
    then have "run_state (follow_events env i (he_ticks env rq) ?s) (st, v) = (s', st2, w2)"
      using s' by (simp add: stream_events_def Let_def)
    from follow_follows [OF assms(1,2) v(1) f this] show ?thesis by simp
  next
    case False
    then have "s' = ?s \<and> w2 = v" using s' by (auto simp: stream_events_def Let_def)
    then show ?thesis using f by simp
  qed
  moreover have "rs_body rs = sm_text s' \<and> w' = w2"
    using assms(1,4,6) x es fl s' by (auto simp: events_http_def call_world_def)
  ultimately show ?thesis unfolding following_def by metis
qed

end

section \<open>The SQLite store\<close>

definition sqlite_listing :: "run_id \<Rightarrow> nat \<Rightarrow> sqlite_world \<Rightarrow> (api_error, run_event list) result \<times> sqlite_world" where
  "sqlite_listing i n w = sqlite_call (\<lambda>f db. map_sum ApiStore id (sqlite_list_events f (sw_cancelled w (sw_calls w)) i n db)) w"

text \<open>The store is in order and no log is longer than SQLite can number.\<close>

definition sqlite_logs_ok :: "(string \<Rightarrow> digest) \<Rightarrow> sqlite_world \<Rightarrow> bool" where
  "sqlite_logs_ok H w \<longleftrightarrow> sqlite_inv H w \<and> (\<forall>i. int (length (events_of (sw_db w) i)) \<le> max_int64)"

lemma from_number:
  assumes "map ev_seq es = [1 ..< Suc (length es)]" and "1 \<le> n"
  shows "filter (\<lambda>e. n \<le> ev_seq e) es = drop (n - 1) es"
  using assms(1)
proof (induction es rule: rev_induct)
  case (snoc e es)
  then have "map ev_seq es = [1 ..< Suc (length es)]" "ev_seq e = Suc (length es)" by simp_all
  then show ?case using snoc.IH assms(2) by auto
qed simp

lemma sqlite_numbered:
  assumes "sqlite_inv H w"
  shows "map ev_seq (events_of (sw_db w) i) = [1 ..< Suc (length (events_of (sw_db w) i))]"
  by (rule valid_log_seq [OF sqlite_log.inv_log [OF assms]])

interpretation sqlite_events: event_source sqlite_listing "\<lambda>w. events_of (sw_db w)" "sqlite_logs_ok H"
  for H :: "string \<Rightarrow> digest"
proof (unfold_locales, goal_cases)
  case (1 w i n x w')
  then show ?case by (auto simp: sqlite_listing_def sqlite_call_def sqlite_logs_ok_def sqlite_inv_def)
next
  case (2 w i n es w')
  let ?es = "events_of (sw_db w) i"
  have m: "map ev_seq ?es = [1 ..< Suc (length ?es)]"
    by (rule sqlite_numbered [of H]) (use 2(1) in \<open>simp add: sqlite_logs_ok_def\<close>)
  have "es = (if max_int64 < int n then [] else filter (\<lambda>e. n \<le> ev_seq e) ?es)"
    using 2(2) by (auto simp: sqlite_listing_def sqlite_call_def sqlite_list_events_def map_sum_def validate_run_id_def check_context_def
        split: if_splits sum.splits)
  moreover have "drop (n - 1) ?es = []" if "max_int64 < int n"
  proof -
    have "int (length ?es) \<le> max_int64" using 2(1) by (simp add: sqlite_logs_ok_def)
    then have "length ?es < n" using that by linarith
    then show ?thesis by simp
  qed
  ultimately show ?case using from_number [OF m 2(3)] by simp
next
  case (3 w k i)
  let ?es = "events_of (sw_db w) i"
  have m: "map ev_seq ?es = [1 ..< Suc (length ?es)]"
    by (rule sqlite_numbered [of H]) (use 3(1) in \<open>simp add: sqlite_logs_ok_def\<close>)
  have "ev_seq (?es ! k) = map ev_seq ?es ! k" using 3(2) by simp
  also have "\<dots> = [1 ..< Suc (length ?es)] ! k" by (simp only: m)
  also have "\<dots> = k + 1" using 3(2) by (simp del: upt_Suc)
  finally show ?case .
next
  case (4 w i)
  then have "int (length (events_of (sw_db w) i)) < 2 ^ 64 - 1" by (auto simp: sqlite_logs_ok_def int64_bounds dest: spec [of _ i])
  then show ?case by (simp add: max_uint64_def)
qed

text \<open>C17. The event stream of a run is its log, from the event after \<^verbatim>\<open>Last-Event-ID\<close> on: whatever happens
  to the store meanwhile (as long as logs only grow), whenever writes or store calls fail and the
  request ends, what was sent is a sequence of frames and heartbeats in which the frames are
  consecutive events of the log, none missing, none twice.\<close>

theorem stream_is_the_log:
  assumes "ac_list_events (he_calls env) = sqlite_listing" and "sqlite_logs_ok H w"
    and "growing (sqlite_logs_ok H) (\<lambda>w. events_of (sw_db w) i) (he_ticks env rq)"
    and "last_event_sequence (hr_header rq ''Last-Event-ID'') = Some start" and "rs_headers rs = event_headers"
    and "run_state (events_http env rq req i) (st, w) = (rs, st', w')"
  shows "\<exists>chunks n. rs_body rs = concat (map (chunk_text env (st_redactor st)) chunks)
    \<and> List.map_filter id chunks = take n (drop (start - 1) (events_of (sw_db w') i))"
  by (rule sqlite_events.events_follow [OF assms(1,3,2,4-6)])

definition sample_stream :: "sqlite_world http_env" where
  "sample_stream =
     \<lparr>he_calls = \<lparr>ac_create = undefined, ac_get = undefined, ac_cancel = undefined, ac_approve = undefined, ac_reject = undefined,
        ac_preflight = undefined, ac_list_runs = undefined, ac_list_events = sqlite_listing, ac_get_artifact = undefined\<rparr>,
      he_credentials = None, he_random = (\<lambda>_. None), he_reads = (\<lambda>_ _. (ReadEnd, ReadEnd)), he_json = (\<lambda>_. None),
      he_error_json = (\<lambda>c _ _. c), he_json_valid = (\<lambda>_. True), he_event_json = (\<lambda>_ _. None), he_is_ipv6 = (\<lambda>_. False),
      he_action_cancelled = (\<lambda>_. False), he_ticks = (\<lambda>_. [TickPoll id]), he_writes = (\<lambda>_. 10)\<rparr>"

theorem stream_is_the_log_witness:
  "\<exists>chunks n. rs_body (fst (run_state (events_http sample_stream (sample_get []) [] ''r'') (snd sample_made, sample_world)))
     = concat (map (chunk_text sample_stream (st_redactor (snd sample_made))) chunks)
   \<and> List.map_filter id chunks = take n (drop 0 (events_of (sw_db
       (snd (snd (run_state (events_http sample_stream (sample_get []) [] ''r'') (snd sample_made, sample_world))))) ''r''))"
proof -
  let ?run = "run_state (events_http sample_stream (sample_get []) [] ''r'') (snd sample_made, sample_world)"
  have start: "last_event_sequence (hr_header (sample_get []) ''Last-Event-ID'') = Some 1" by (simp add: last_event_sequence_def sample_get_def trim_space_def trim_left.simps)
  have ok: "sqlite_logs_ok id sample_world"
    using sample_world_ok by (simp add: sqlite_logs_ok_def sample_world_def sqlite_sample_def sample_db_rows events_of_def int64_bounds)
  have grow: "growing (sqlite_logs_ok id) (\<lambda>w. events_of (sw_db w) ''r'') (he_ticks sample_stream (sample_get []))"
    by (simp add: growing_def sample_stream_def)
  have stream: "rs_headers (fst ?run) = event_headers"
    using start
    by (simp add: events_http_def sample_stream_def call_world_def sqlite_listing_def sqlite_call_def sample_world_def sqlite_sample_def
        sqlite_list_events_def validate_run_id_def check_context_def sample_db_rows run_exists_def sample_run_def events_of_def int64_bounds
        sample_get_def stream_events_def split: prod.split)
  have "?run = (fst ?run, fst (snd ?run), snd (snd ?run))" by (simp only: prod.collapse)
  from stream_is_the_log [OF _ ok grow start stream this] show ?thesis by (simp add: sample_stream_def)
qed

end
