(* ===== verification/Provider.thy ===== *)
theory Provider
  imports Preflight Agent_Loop
begin

text \<open>
  Package \<^verbatim>\<open>internal/provider\<close>: the connections to the model services. \<^verbatim>\<open>httpclient.go\<close> decides which
  endpoints may be used, asks for the credential and makes one POST request; \<^verbatim>\<open>openai.go\<close> and
  \<^verbatim>\<open>anthropic.go\<close> build the requests and decode the responses; \<^verbatim>\<open>provider.go\<close> has their types.

  Parameters, in the record \<^verbatim>\<open>network\<close>, are the source of the credentials, one exchange of a request
  for a response, the resolution of a redirect's location against the URL of its request, the
  number of exchanges that fit in the timeout of the client, and the encoder and the decoder of JSON
  texts; exchanges and the source act on a world of type \<^typ>\<open>'w\<close>. Following redirects
  (\<^verbatim>\<open>http.Client.Do\<close>) is modelled, because \<^verbatim>\<open>newHTTPProvider\<close> replaces its policy; cookies, proxies and
  the Referer header are not. The theorem says where the credential can go.
\<close>

section \<open>Requests and responses\<close>

datatype provider_error = ErrAuthentication | ErrRateLimited | ErrInvalidResponse | ErrTransport

record context_item =
  ci_kind :: string
  ci_label :: string
  ci_content :: string
  ci_sha256 :: string

record provider_request =
  pq_task :: string
  pq_context :: "context_item list"
  pq_last_feedback :: "structured_feedback option"
  pq_allowed_actions :: "string list"

record token_usage =
  us_input :: int
  us_output :: int

record provider_options =
  po_model :: string
  po_max_tokens :: int
  po_confirm_custom_endpoint :: bool

record provider_response =
  pr_decision :: agent_decision
  pr_usage :: token_usage

definition empty_decision :: agent_decision where
  "empty_decision = \<lparr>version = [], action_of = \<lparr>kind = [], args = None\<rparr>, expected_outcome = []\<rparr>"

definition provider_valid_decision :: "agent_decision \<Rightarrow> bool" where
  "provider_valid_decision d \<longleftrightarrow> version d = ''1'' \<and> kind (action_of d) \<noteq> [] \<and> args (action_of d) \<noteq> None"

section \<open>The network\<close>

record sent =
  se_method :: string
  se_scheme :: string
  se_host :: string
  se_path :: string
  se_headers :: "(string \<times> string) list"
  se_body :: string

record reply =
  re_status :: int
  re_location :: string
  re_content_type :: string
  re_body :: string \<comment> \<open>as much as is read before an error\<close>
  re_read_fails :: bool

record 'w network =
  nw_credential :: "string \<Rightarrow> string \<Rightarrow> 'w \<Rightarrow> (cred_error, string) result \<times> 'w"
  nw_url_ok :: "string \<Rightarrow> string \<Rightarrow> string \<Rightarrow> bool" \<comment> \<open>\<^verbatim>\<open>NewRequest\<close> parses the URL of a scheme, a host and a path\<close>
  nw_exchange :: "sent \<Rightarrow> 'w \<Rightarrow> reply option \<times> 'w"
  nw_resolve :: "sent \<Rightarrow> string \<Rightarrow> (string \<times> string \<times> string) option" \<comment> \<open>scheme, host and the rest\<close>
  nw_exchanges :: nat
  nw_request_json :: "provider_request \<Rightarrow> json"
  nw_marshal :: "json \<Rightarrow> string"
  nw_unmarshal :: "string \<Rightarrow> json option" \<comment> \<open>numbers as they are spelled\<close>

section \<open>Endpoints\<close>

record http_provider =
  hp_endpoint :: url
  hp_kind :: string

definition max_response_bytes :: nat where
  "max_response_bytes = 2 ^ 20"

definition safe_credential_transport :: "system \<Rightarrow> url \<Rightarrow> bool" where
  "safe_credential_transport sy u \<longleftrightarrow>
     (if u_scheme u = ''https'' then True
      else if u_scheme u \<noteq> ''http'' then False
      else sy_loopback sy (url_hostname u))"

definition known_endpoint :: "string \<Rightarrow> url \<Rightarrow> bool" where
  "known_endpoint k u \<longleftrightarrow>
     (if url_port u \<noteq> [] \<and> url_port u \<noteq> ''443'' then False
      else
        (let host = trim_suffix (to_lower (url_hostname u)) ''.'' in
         if k = ''openai'' then host = ''api.openai.com''
         else if k = ''anthropic'' then host = ''api.anthropic.com'' else False))"

definition new_http_provider :: "system \<Rightarrow> string \<Rightarrow> string \<Rightarrow> provider_options \<Rightarrow> (provider_error, http_provider) result" where
  "new_http_provider sy endpoint k op =
     (case parse_request_uri (sy_is_ipv6 sy) endpoint of
        None \<Rightarrow> Inl ErrTransport
      | Some u \<Rightarrow>
          if u_scheme u = [] \<or> u_host u = [] \<or> u_user u \<or> u_raw_query u \<noteq> [] \<or> u_fragment u \<noteq> []
            \<or> \<not> safe_credential_transport sy u then Inl ErrTransport
          else if \<not> known_endpoint k u \<and> \<not> po_confirm_custom_endpoint op then Inl ErrTransport
          else Inr \<lparr>hp_endpoint = u, hp_kind = k\<rparr>)"

section \<open>One request\<close>

text \<open>\<^verbatim>\<open>strings.TrimRight(path, "/")\<close>.\<close>

definition trim_right_slashes :: "string \<Rightarrow> string" where
  "trim_right_slashes p = rev (dropWhile (\<lambda>c. c = slash) (rev p))"

definition request_path :: "string \<Rightarrow> string \<Rightarrow> string" where
  "request_path endpoint_path path =
     (let base = trim_right_slashes endpoint_path in
      if has_suffix base ''/v1'' \<and> has_prefix path ''/v1/'' then base @ drop 3 path
      else if base \<noteq> [] \<and> has_prefix path (base @ ''/'') then path
      else base @ path)"

text \<open>The request a redirect asks for: 307 and 308 repeat the request, the others make it a GET
  request without a body. On the same host no other header is dropped.\<close>

definition redirected :: "sent \<Rightarrow> int \<Rightarrow> string \<Rightarrow> string \<Rightarrow> string \<Rightarrow> sent" where
  "redirected s status scheme host rest =
     (if status = 307 \<or> status = 308 then s\<lparr>se_scheme := scheme, se_host := host, se_path := rest\<rparr>
      else \<lparr>se_method = ''GET'', se_scheme = scheme, se_host = host, se_path = rest,
            se_headers = filter (\<lambda>(h, _). h \<noteq> ''Content-Type'') (se_headers s), se_body = []\<rparr>)"

text \<open>\<^verbatim>\<open>Do\<close> with the policy of \<^verbatim>\<open>newHTTPProvider\<close>, which stops at a redirect to another host or scheme
  and hands out the redirecting response. There is no limit but the timeout.\<close>

primrec follow_redirects :: "'w network \<Rightarrow> http_provider \<Rightarrow> nat \<Rightarrow> sent \<Rightarrow> 'w \<Rightarrow> reply option \<times> 'w" where
  "follow_redirects nw p 0 s w = (None, w)"
| "follow_redirects nw p (Suc n) s w =
     (case nw_exchange nw s w of
        (None, w') \<Rightarrow> (None, w')
      | (Some r, w') \<Rightarrow>
          if re_status r \<notin> {301, 302, 303, 307, 308} \<or> re_location r = [] then (Some r, w')
          else
            (case nw_resolve nw s (re_location r) of
               None \<Rightarrow> (None, w')
             | Some (scheme, host, rest) \<Rightarrow>
                 if host \<noteq> u_host (hp_endpoint p) \<or> scheme \<noteq> u_scheme (hp_endpoint p) then (Some r, w')
                 else follow_redirects nw p n (redirected s (re_status r) scheme host rest) w'))"

text \<open>What the response must be.\<close>

definition accept_reply :: "reply \<Rightarrow> (provider_error, string) result" where
  "accept_reply r =
     (if re_read_fails r \<or> max_response_bytes < length (re_body r) then Inl ErrInvalidResponse
      else if re_status r = 401 then Inl ErrAuthentication
      else if re_status r = 429 then Inl ErrRateLimited
      else if re_status r < 200 \<or> 300 \<le> re_status r then Inl ErrTransport
      else if \<not> contains (to_lower (re_content_type r)) ''application/json'' then Inl ErrInvalidResponse
      else Inr (re_body r))"

definition post ::
    "'w network \<Rightarrow> http_provider \<Rightarrow> string \<Rightarrow> string \<Rightarrow> (string \<Rightarrow> (string \<times> string) list) \<Rightarrow> 'w
     \<Rightarrow> (provider_error, string) result \<times> 'w" where
  "post nw p path body headers w =
     (let u = hp_endpoint p in
      if u_scheme u = [] \<or> u_host u = [] then (Inl ErrTransport, w)
      else
        (case nw_credential nw (hp_kind p) (u_host u) w of
           (Inl e, w1) \<Rightarrow> (Inl ErrAuthentication, w1)
         | (Inr key, w1) \<Rightarrow>
             let target = request_path (u_path u) path in
             if \<not> nw_url_ok nw (u_scheme u) (u_host u) target then (Inl ErrTransport, w1)
             else
               (case follow_redirects nw p (nw_exchanges nw)
                   \<lparr>se_method = ''POST'', se_scheme = u_scheme u, se_host = u_host u, se_path = target,
                    se_headers = (''Content-Type'', ''application/json'') # headers key, se_body = body\<rparr> w1 of
                  (None, w2) \<Rightarrow> (Inl ErrTransport, w2)
                | (Some r, w2) \<Rightarrow> (accept_reply r, w2))))"

section \<open>Decoding\<close>

text \<open>Decoding a JSON value into a variable: its new value, and whether there was no error. Every member
  of an object whose key names a field is decoded into that field as it is by then, in source order;
  an exact match is preferred to one up to letter case.\<close>

type_synonym 'a decoder = "json \<Rightarrow> 'a \<Rightarrow> 'a \<times> bool"

definition find_field :: "(string \<times> 'a decoder) list \<Rightarrow> string \<Rightarrow> 'a decoder option" where
  "find_field fs k =
     (case map_of fs k of
        Some d \<Rightarrow> Some d
      | None \<Rightarrow> map_of (map (\<lambda>(n, d). (fold_key n, d)) fs) (fold_key k))"

fun decode_members :: "(string \<times> 'a decoder) list \<Rightarrow> (string \<times> json) list \<Rightarrow> 'a \<times> bool \<Rightarrow> 'a \<times> bool" where
  "decode_members fs [] acc = acc"
| "decode_members fs ((k, v) # kvs) (a, fine) =
     (case find_field fs k of
        None \<Rightarrow> decode_members fs kvs (a, fine)
      | Some d \<Rightarrow> (let (a', fine') = d v a in decode_members fs kvs (a', fine \<and> fine')))"

fun decode_object :: "(string \<times> 'a decoder) list \<Rightarrow> 'a decoder" where
  "decode_object fs (JObj kvs) a = decode_members fs kvs (a, True)"
| "decode_object fs JNull a = (a, True)"
| "decode_object fs _ a = (a, False)"

fun decode_string :: "string decoder" where
  "decode_string (JStr s) _ = (s, True)"
| "decode_string JNull a = (a, True)"
| "decode_string _ a = (a, False)"

definition int_literal :: "string \<Rightarrow> int option" where
  "int_literal s =
     (let negative = has_prefix s ''-''; digits = (if negative then tl s else s); v = decimal_value digits in
      if digits = [] \<or> \<not> list_all ascii_digit digits then None
      else if negative then (if v \<le> 2 ^ 63 then Some (- v) else None)
      else if v < 2 ^ 63 then Some v else None)"

fun decode_int :: "int decoder" where
  "decode_int (JNum n) a = (case int_literal n of Some i \<Rightarrow> (i, True) | None \<Rightarrow> (a, False))"
| "decode_int JNull a = (a, True)"
| "decode_int _ a = (a, False)"

text \<open>A field of a record, by the function that updates it.\<close>

definition part :: "('a \<Rightarrow> 'b) \<Rightarrow> (('b \<Rightarrow> 'b) \<Rightarrow> 'a \<Rightarrow> 'a) \<Rightarrow> 'b decoder \<Rightarrow> 'a decoder" where
  "part get put d v a = (let (b, fine) = d v (get a) in (put (\<lambda>_. b) a, fine))"

text \<open>A slice: its cells, those after its length included, and its length. The elements of an array are
  decoded into the cells that are there, then into new ones.\<close>

type_synonym 'a cells = "'a list \<times> nat"

fun decode_cells :: "'a \<Rightarrow> 'a decoder \<Rightarrow> json list \<Rightarrow> 'a list \<Rightarrow> 'a list \<times> bool" where
  "decode_cells z d [] cells = (cells, True)"
| "decode_cells z d (v # vs) [] =
     (let (c, fine) = d v z; (cs, fine') = decode_cells z d vs [] in (c # cs, fine \<and> fine'))"
| "decode_cells z d (v # vs) (c # cells) =
     (let (c', fine) = d v c; (cs, fine') = decode_cells z d vs cells in (c' # cs, fine \<and> fine'))"

fun decode_slice :: "'a \<Rightarrow> 'a decoder \<Rightarrow> 'a cells decoder" where
  "decode_slice z d (JArr []) a = (([], 0), True)"
| "decode_slice z d (JArr vs) a = (let (cells, fine) = decode_cells z d vs (fst a) in ((cells, length vs), fine))"
| "decode_slice z d JNull a = (([], 0), True)"
| "decode_slice z d _ a = (a, False)"

text \<open>\<^verbatim>\<open>AgentDecision\<close>; its arguments take any value as it is, null included.\<close>

definition decode_args :: "json option decoder" where
  "decode_args v a = (Some v, True)"

definition decode_action :: "action decoder" where
  "decode_action = decode_object [(''kind'', part kind kind_update decode_string), (''args'', part args args_update decode_args)]"

definition decode_decision :: "agent_decision decoder" where
  "decode_decision = decode_object
     [(''version'', part version version_update decode_string), (''action'', part action_of action_of_update decode_action),
      (''expected_outcome'', part expected_outcome expected_outcome_update decode_string)]"

text \<open>The text of the model's answer as a decision.\<close>

definition read_decision :: "'w network \<Rightarrow> string \<Rightarrow> agent_decision option" where
  "read_decision nw answer =
     (case nw_unmarshal nw answer of
        None \<Rightarrow> None
      | Some j \<Rightarrow>
          (case decode_decision j empty_decision of (d, fine) \<Rightarrow> if fine \<and> provider_valid_decision d then Some d else None))"

section \<open>OpenAI\<close>

record model_provider =
  mp_http :: http_provider
  mp_options :: provider_options

definition new_openai :: "system \<Rightarrow> string \<Rightarrow> provider_options \<Rightarrow> (provider_error, model_provider) result" where
  "new_openai sy endpoint op =
     map_sum id (\<lambda>h. \<lparr>mp_http = h, mp_options = op\<rparr>) (new_http_provider sy endpoint ''openai'' op)"

definition openai_payload :: "'w network \<Rightarrow> provider_options \<Rightarrow> provider_request \<Rightarrow> json" where
  "openai_payload nw op rq = JObj
     [(''messages'', JArr
        [JObj [(''content'', JStr ''Return one canonical JSON AgentDecision.''), (''role'', JStr ''system'')],
         JObj [(''content'', nw_request_json nw rq), (''role'', JStr ''user'')]]),
      (''model'', JStr (po_model op))]"

record openai_reply =
  oa_choices :: "string cells" \<comment> \<open>the content of each message\<close>
  oa_usage :: token_usage

definition decode_openai :: "openai_reply decoder" where
  "decode_openai = decode_object
     [(''choices'', part oa_choices oa_choices_update
         (decode_slice [] (decode_object [(''message'', decode_object [(''content'', decode_string)])]))),
      (''usage'', part oa_usage oa_usage_update (decode_object
         [(''prompt_tokens'', part us_input us_input_update decode_int),
          (''completion_tokens'', part us_output us_output_update decode_int)]))]"

definition openai_headers :: "string \<Rightarrow> (string \<times> string) list" where
  "openai_headers key = [(''Authorization'', ''Bearer '' @ key)]"

definition decide_openai ::
    "'w network \<Rightarrow> model_provider \<Rightarrow> provider_request \<Rightarrow> 'w \<Rightarrow> (provider_error, provider_response) result \<times> 'w" where
  "decide_openai nw mp rq w =
     (case post nw (mp_http mp) ''/v1/chat/completions'' (nw_marshal nw (openai_payload nw (mp_options mp) rq)) openai_headers w of
        (Inl e, w') \<Rightarrow> (Inl e, w')
      | (Inr data, w') \<Rightarrow>
          (case map_option (\<lambda>j. decode_openai j \<lparr>oa_choices = ([], 0), oa_usage = \<lparr>us_input = 0, us_output = 0\<rparr>\<rparr>)
              (nw_unmarshal nw data) of
             None \<Rightarrow> Inl ErrInvalidResponse
           | Some (out, fine) \<Rightarrow>
               if \<not> fine \<or> snd (oa_choices out) = 0 then Inl ErrInvalidResponse
               else
                 (case read_decision nw (hd (fst (oa_choices out))) of
                    None \<Rightarrow> Inl ErrInvalidResponse
                  | Some d \<Rightarrow> Inr \<lparr>pr_decision = d, pr_usage = oa_usage out\<rparr>), w'))"

section \<open>Anthropic\<close>

definition new_anthropic :: "system \<Rightarrow> string \<Rightarrow> provider_options \<Rightarrow> (provider_error, model_provider) result" where
  "new_anthropic sy endpoint op =
     map_sum id (\<lambda>h. \<lparr>mp_http = h, mp_options = op\<rparr>) (new_http_provider sy endpoint ''anthropic'' op)"

definition int_text :: "int \<Rightarrow> string" where
  "int_text i = (if i < 0 then ''-'' @ nat_string (nat (- i)) else nat_string (nat i))"

definition anthropic_payload :: "'w network \<Rightarrow> provider_options \<Rightarrow> provider_request \<Rightarrow> json" where
  "anthropic_payload nw op rq = JObj
     [(''max_tokens'', JNum (int_text (po_max_tokens op))),
      (''messages'', JArr [JObj [(''content'', nw_request_json nw rq), (''role'', JStr ''user'')]]),
      (''model'', JStr (po_model op)),
      (''system'', JStr ''Return one canonical JSON AgentDecision.'')]"

record anthropic_block =
  ab_type :: string
  ab_text :: string

record anthropic_reply =
  an_content :: "anthropic_block cells"
  an_usage :: token_usage

definition decode_anthropic :: "anthropic_reply decoder" where
  "decode_anthropic = decode_object
     [(''content'', part an_content an_content_update
         (decode_slice \<lparr>ab_type = [], ab_text = []\<rparr> (decode_object
            [(''type'', part ab_type ab_type_update decode_string), (''text'', part ab_text ab_text_update decode_string)]))),
      (''usage'', part an_usage an_usage_update (decode_object
         [(''input_tokens'', part us_input us_input_update decode_int),
          (''output_tokens'', part us_output us_output_update decode_int)]))]"

definition anthropic_headers :: "string \<Rightarrow> (string \<times> string) list" where
  "anthropic_headers key = [(''X-Api-Key'', key), (''Anthropic-Version'', ''2023-06-01'')]"

definition decide_anthropic ::
    "'w network \<Rightarrow> model_provider \<Rightarrow> provider_request \<Rightarrow> 'w \<Rightarrow> (provider_error, provider_response) result \<times> 'w" where
  "decide_anthropic nw mp rq w =
     (case post nw (mp_http mp) ''/v1/messages'' (nw_marshal nw (anthropic_payload nw (mp_options mp) rq)) anthropic_headers w of
        (Inl e, w') \<Rightarrow> (Inl e, w')
      | (Inr data, w') \<Rightarrow>
          (case map_option (\<lambda>j. decode_anthropic j \<lparr>an_content = ([], 0), an_usage = \<lparr>us_input = 0, us_output = 0\<rparr>\<rparr>)
              (nw_unmarshal nw data) of
             None \<Rightarrow> Inl ErrInvalidResponse
           | Some (out, fine) \<Rightarrow>
               if \<not> fine \<or> snd (an_content out) = 0 then Inl ErrInvalidResponse
               else if ab_type (hd (fst (an_content out))) \<noteq> ''text'' then Inl ErrInvalidResponse
               else
                 (case read_decision nw (ab_text (hd (fst (an_content out)))) of
                    None \<Rightarrow> Inl ErrInvalidResponse
                  | Some d \<Rightarrow> Inr \<lparr>pr_decision = d, pr_usage = an_usage out\<rparr>), w'))"

section \<open>The choice of the local composition\<close>

text \<open>\<^verbatim>\<open>localProvider\<close> of \<^verbatim>\<open>cmd/ai4se-harness/local.go\<close>; the message of the first error
  quotes the name. The methods \<^verbatim>\<open>Decide\<close> are told apart by the kind their constructors set.\<close>

datatype local_provider_error = UnsupportedProvider string | ProviderFails provider_error

definition local_provider :: "system \<Rightarrow> create_run_request \<Rightarrow> (local_provider_error, model_provider) result" where
  "local_provider sy rq =
     (let op = \<lparr>po_model = rq_model rq, po_max_tokens = 0, po_confirm_custom_endpoint = rq_confirm_custom_endpoint rq\<rparr> in
      if rq_provider rq = ''openai'' then map_sum ProviderFails id (new_openai sy (rq_endpoint rq) op)
      else if rq_provider rq = ''anthropic'' then map_sum ProviderFails id (new_anthropic sy (rq_endpoint rq) op)
      else Inl (UnsupportedProvider (rq_provider rq)))"

definition decide ::
    "'w network \<Rightarrow> model_provider \<Rightarrow> provider_request \<Rightarrow> 'w \<Rightarrow> (provider_error, provider_response) result \<times> 'w" where
  "decide nw mp = (if hp_kind (mp_http mp) = ''openai'' then decide_openai nw mp else decide_anthropic nw mp)"

definition payload_of :: "'w network \<Rightarrow> model_provider \<Rightarrow> provider_request \<Rightarrow> json" where
  "payload_of nw mp =
     (if hp_kind (mp_http mp) = ''openai'' then openai_payload nw (mp_options mp) else anthropic_payload nw (mp_options mp))"

section \<open>Where the credential goes\<close>

text \<open>A network that records what is asked of it.\<close>

datatype net_event = Asked string string "(cred_error, string) result" | Exchanged sent "reply option"

definition recording :: "'w network \<Rightarrow> ('w \<times> net_event list) network" where
  "recording nw =
     \<lparr>nw_credential = (\<lambda>k host (w, log). let (x, w') = nw_credential nw k host w in (x, w', log @ [Asked k host x])),
      nw_url_ok = nw_url_ok nw,
      nw_exchange = (\<lambda>s (w, log). let (r, w') = nw_exchange nw s w in (r, w', log @ [Exchanged s r])),
      nw_resolve = nw_resolve nw, nw_exchanges = nw_exchanges nw, nw_request_json = nw_request_json nw,
      nw_marshal = nw_marshal nw, nw_unmarshal = nw_unmarshal nw\<rparr>"

lemma recording_simps [simp]:
  "nw_url_ok (recording nw) = nw_url_ok nw" "nw_resolve (recording nw) = nw_resolve nw"
  "nw_exchanges (recording nw) = nw_exchanges nw" "nw_request_json (recording nw) = nw_request_json nw"
  "nw_marshal (recording nw) = nw_marshal nw" "nw_unmarshal (recording nw) = nw_unmarshal nw"
  "nw_credential (recording nw) k host (w, log) = (let (x, w') = nw_credential nw k host w in (x, w', log @ [Asked k host x]))"
  "nw_exchange (recording nw) s (w, log) = (let (r, w') = nw_exchange nw s w in (r, w', log @ [Exchanged s r]))"
  by (simp_all add: recording_def)

text \<open>The recording changes nothing.\<close>

lemma recorded_redirects:
  "follow_redirects (recording nw) p n s (w, log) = (r, w', log') \<Longrightarrow> follow_redirects nw p n s w = (r, w')"
proof (induction n arbitrary: s w log)
  case (Suc n)
  then show ?case by (auto split: prod.splits option.splits if_splits)
qed simp

lemma recorded_post:
  "post (recording nw) p path body headers (w, log) = (x, w', log') \<Longrightarrow> post nw p path body headers w = (x, w')"
  by (auto simp: post_def Let_def split: if_splits prod.splits sum.splits option.splits dest: recorded_redirects)

lemma recorded_read [simp]: "read_decision (recording nw) = read_decision nw"
  by (simp add: read_decision_def fun_eq_iff)

lemma recorded_payloads:
  "openai_payload (recording nw) op rq = openai_payload nw op rq" "anthropic_payload (recording nw) op rq = anthropic_payload nw op rq"
  by (simp_all add: openai_payload_def anthropic_payload_def)

lemma recorded_decide:
  assumes "decide (recording nw) mp rq (w, log) = (x, w', log')"
  shows "decide nw mp rq w = (x, w')"
  using assms unfolding decide_def decide_openai_def decide_anthropic_def recorded_read recorded_payloads recording_simps
  by (auto split: if_splits prod.splits sum.splits dest!: recorded_post)

text \<open>A request that stays at the endpoint and carries nothing but the given headers and body.\<close>

definition at_endpoint :: "url \<Rightarrow> (string \<times> string) set \<Rightarrow> string \<Rightarrow> sent \<Rightarrow> bool" where
  "at_endpoint u headers body s \<longleftrightarrow>
     se_scheme s = u_scheme u \<and> se_host s = u_host u \<and> set (se_headers s) \<subseteq> headers \<and> se_body s \<in> {body, []}"

lemma redirects_stay:
  assumes "at_endpoint (hp_endpoint p) headers body s"
    and "follow_redirects (recording nw) p n s (w, log) = (r, w', log')"
  shows "\<exists>ex. log' = log @ map (\<lambda>(s, r). Exchanged s r) ex \<and> length ex \<le> n
    \<and> list_all (\<lambda>(s, r). at_endpoint (hp_endpoint p) headers body s) ex
    \<and> (r \<noteq> None \<longrightarrow> ex \<noteq> [] \<and> snd (List.last ex) = r)"
  using assms
proof (induction n arbitrary: s w log)
  case 0
  then show ?case by simp
next
  case (Suc n)
  obtain rep v where e: "nw_exchange nw s w = (rep, v)" by (rule prod.exhaust)
  have "(r = rep \<or> r = None) \<and> log' = log @ [Exchanged s rep]
    \<or> (\<exists>a rest. rep = Some a \<and> follow_redirects (recording nw) p n
         (redirected s (re_status a) (u_scheme (hp_endpoint p)) (u_host (hp_endpoint p)) rest) (v, log @ [Exchanged s rep])
           = (r, w', log'))"
  proof (cases rep)
    case (Some a)
    show ?thesis
    proof (cases "re_status a \<notin> {301, 302, 303, 307, 308} \<or> re_location a = []")
      case False
      then show ?thesis
        using Suc.prems(2) e Some by (cases "nw_resolve nw s (re_location a)") (auto split: if_splits)
    qed (use Suc.prems(2) e Some in auto)
  qed (use Suc.prems(2) e in auto)
  then show ?case
  proof (elim disjE exE conjE)
    fix a rest
    assume a: "rep = Some a" "follow_redirects (recording nw) p n (redirected s (re_status a) (u_scheme (hp_endpoint p))
        (u_host (hp_endpoint p)) rest) (v, log @ [Exchanged s rep]) = (r, w', log')"
    have "at_endpoint (hp_endpoint p) headers body (redirected s (re_status a) (u_scheme (hp_endpoint p))
        (u_host (hp_endpoint p)) rest)"
      using Suc.prems(1) by (auto simp: at_endpoint_def redirected_def)
    from Suc.IH [OF this a(2)] obtain ex where "log' = (log @ [Exchanged s rep]) @ map (\<lambda>(s, r). Exchanged s r) ex" "length ex \<le> n"
        "list_all (\<lambda>(s, r). at_endpoint (hp_endpoint p) headers body s) ex" "r \<noteq> None \<longrightarrow> ex \<noteq> [] \<and> snd (List.last ex) = r"
      by blast
    then show ?case using Suc.prems(1) by (intro exI [of _ "(s, rep) # ex"]) auto
  qed (use Suc.prems(1) in \<open>auto intro!: exI [of _ "[(s, rep)]"]\<close>)
qed

lemma accepted_reply:
  "accept_reply r = Inr data \<longleftrightarrow> data = re_body r \<and> \<not> re_read_fails r \<and> length (re_body r) \<le> max_response_bytes
     \<and> 200 \<le> re_status r \<and> re_status r < 300 \<and> contains (to_lower (re_content_type r)) ''application/json''"
  by (auto simp: accept_reply_def)

text \<open>What one request leaves in the record.\<close>

definition post_record ::
    "url \<Rightarrow> string \<Rightarrow> (string \<Rightarrow> (string \<times> string) list) \<Rightarrow> string \<Rightarrow> nat \<Rightarrow> (provider_error, string) result \<Rightarrow> net_event list \<Rightarrow> bool" where
  "post_record u k headers body n x events \<longleftrightarrow>
     (\<exists>ex c. events = Asked k (u_host u) c # map (\<lambda>(s, r). Exchanged s r) ex \<and> length ex \<le> n
        \<and> list_all (\<lambda>(s, r). \<exists>key. c = Inr key
             \<and> at_endpoint u (insert (''Content-Type'', ''application/json'') (set (headers key))) body s) ex
        \<and> (\<forall>data. x = Inr data \<longrightarrow> ex \<noteq> [] \<and> (\<exists>r. snd (List.last ex) = Some r \<and> accept_reply r = Inr data)))"

lemma post_recorded:
  assumes "u_scheme (hp_endpoint p) \<noteq> []" and "u_host (hp_endpoint p) \<noteq> []"
    and "post (recording nw) p path body headers (w, []) = (x, w', events)"
  shows "post_record (hp_endpoint p) (hp_kind p) headers body (nw_exchanges nw) x events"
proof -
  let ?u = "hp_endpoint p"
  obtain c v where c: "nw_credential nw (hp_kind p) (u_host ?u) w = (c, v)" by (rule prod.exhaust)
  show ?thesis
  proof (cases "\<exists>key. c = Inr key \<and> nw_url_ok nw (u_scheme ?u) (u_host ?u) (request_path (u_path ?u) path)")
    case False
    then have "events = [Asked (hp_kind p) (u_host ?u) c] \<and> (\<forall>data. x \<noteq> Inr data)"
      using assms c by (cases c) (auto simp: post_def Let_def split: if_splits)
    then show ?thesis unfolding post_record_def by (intro exI [of _ "[]"]) auto
  next
    case True
    then obtain key where key: "c = Inr key" "nw_url_ok nw (u_scheme ?u) (u_host ?u) (request_path (u_path ?u) path)" by blast
    let ?s = "\<lparr>se_method = ''POST'', se_scheme = u_scheme ?u, se_host = u_host ?u, se_path = request_path (u_path ?u) path,
        se_headers = (''Content-Type'', ''application/json'') # headers key, se_body = body\<rparr>"
    let ?headers = "insert (''Content-Type'', ''application/json'') (set (headers key))"
    obtain r where r: "follow_redirects (recording nw) p (nw_exchanges nw) ?s (v, [Asked (hp_kind p) (u_host ?u) c]) = (r, w', events)"
        "x = (case r of None \<Rightarrow> Inl ErrTransport | Some r \<Rightarrow> accept_reply r)"
      using assms c key by (auto simp: post_def Let_def split: prod.splits option.splits)
    have "at_endpoint ?u ?headers body ?s" by (simp add: at_endpoint_def)
    from redirects_stay [OF this r(1)] obtain ex where ex: "events = Asked (hp_kind p) (u_host ?u) c # map (\<lambda>(s, r). Exchanged s r) ex"
        "length ex \<le> nw_exchanges nw" "list_all (\<lambda>(s, r). at_endpoint ?u ?headers body s) ex"
        "r \<noteq> None \<longrightarrow> ex \<noteq> [] \<and> snd (List.last ex) = r"
      by auto
    have "list_all (\<lambda>(s, r). \<exists>key. c = Inr key
        \<and> at_endpoint ?u (insert (''Content-Type'', ''application/json'') (set (headers key))) body s) ex"
      using ex(3) key(1) by (simp add: list_all_iff)
    moreover have "\<forall>data. x = Inr data \<longrightarrow> ex \<noteq> [] \<and> (\<exists>r. snd (List.last ex) = Some r \<and> accept_reply r = Inr data)"
      using ex(4) r(2) by (cases r) auto
    ultimately show ?thesis using ex(1,2) unfolding post_record_def by blast
  qed
qed

lemma new_http_provider_Inr:
  assumes "new_http_provider sy endpoint k op = Inr h"
  shows "parse_request_uri (sy_is_ipv6 sy) endpoint = Some (hp_endpoint h) \<and> hp_kind h = k
    \<and> u_scheme (hp_endpoint h) \<noteq> [] \<and> u_host (hp_endpoint h) \<noteq> []
    \<and> safe_credential_transport sy (hp_endpoint h) \<and> (known_endpoint k (hp_endpoint h) \<or> po_confirm_custom_endpoint op)"
  using assms by (auto simp: new_http_provider_def split: option.splits if_splits)

lemma local_provider_Inr:
  assumes "local_provider sy rq = Inr mp"
  shows "rq_provider rq \<in> {''openai'', ''anthropic''} \<and> hp_kind (mp_http mp) = rq_provider rq
    \<and> (\<exists>op. po_confirm_custom_endpoint op = rq_confirm_custom_endpoint rq
        \<and> new_http_provider sy (rq_endpoint rq) (rq_provider rq) op = Inr (mp_http mp))"
proof -
  have lifted: "\<exists>z. y = Inr z \<and> x = f z" if "map_sum e f y = Inr x" for e f y x using that by (cases y) auto
  let ?op = "\<lparr>po_model = rq_model rq, po_max_tokens = 0, po_confirm_custom_endpoint = rq_confirm_custom_endpoint rq\<rparr>"
  have k: "rq_provider rq \<in> {''openai'', ''anthropic''}" using assms by (auto simp: local_provider_def Let_def split: if_splits)
  then have h: "new_http_provider sy (rq_endpoint rq) (rq_provider rq) ?op = Inr (mp_http mp)"
    using assms by (auto simp: local_provider_def new_openai_def new_anthropic_def Let_def split: if_splits dest!: lifted)
  then show ?thesis using k new_http_provider_Inr [OF h] by (intro conjI exI [of _ ?op]) auto
qed

lemma read_decision_valid: "read_decision nw answer = Some d \<Longrightarrow> valid_decision d"
  by (auto simp: read_decision_def provider_valid_decision_def valid_decision_def split: option.splits prod.splits if_splits)

lemma decide_recorded:
  assumes "u_scheme (hp_endpoint (mp_http mp)) \<noteq> []" and "u_host (hp_endpoint (mp_http mp)) \<noteq> []"
    and "decide (recording nw) mp rq (w, []) = (x, w', events)"
  shows "\<exists>y. post_record (hp_endpoint (mp_http mp)) (hp_kind (mp_http mp))
        (if hp_kind (mp_http mp) = ''openai'' then openai_headers else anthropic_headers)
        (nw_marshal nw (payload_of nw mp rq)) (nw_exchanges nw) y events
      \<and> (\<forall>resp. x = Inr resp \<longrightarrow> (\<exists>data. y = Inr data) \<and> valid_decision (pr_decision resp))"
proof -
  show ?thesis
  proof (cases "hp_kind (mp_http mp) = ''openai''")
    case True
    obtain y v where y: "post (recording nw) (mp_http mp) ''/v1/chat/completions''
        (nw_marshal nw (openai_payload nw (mp_options mp) rq)) openai_headers (w, []) = (y, v)" by (rule prod.exhaust)
    have "v = (w', events) \<and> (\<forall>resp. x = Inr resp \<longrightarrow> (\<exists>data. y = Inr data) \<and> valid_decision (pr_decision resp))"
      using assms(3) True y unfolding decide_def decide_openai_def recorded_payloads recording_simps
      by (auto split: sum.splits option.splits prod.splits if_splits dest: read_decision_valid)
    then show ?thesis using post_recorded [OF assms(1,2), of nw _ _ _ w y w' events] y True by (auto simp: payload_of_def)
  next
    case False
    obtain y v where y: "post (recording nw) (mp_http mp) ''/v1/messages''
        (nw_marshal nw (anthropic_payload nw (mp_options mp) rq)) anthropic_headers (w, []) = (y, v)" by (rule prod.exhaust)
    have "v = (w', events) \<and> (\<forall>resp. x = Inr resp \<longrightarrow> (\<exists>data. y = Inr data) \<and> valid_decision (pr_decision resp))"
      using assms(3) False y unfolding decide_def decide_anthropic_def recorded_payloads recording_simps
      by (auto split: sum.splits option.splits prod.splits if_splits dest: read_decision_valid)
    then show ?thesis using post_recorded [OF assms(1,2), of nw _ _ _ w y w' events] y False by (auto simp: payload_of_def)
  qed
qed

text \<open>C20. Whatever the network answers, a decision asks for one credential, that of the provider at the
  endpoint's host, and sends every request, redirected ones included, to the scheme and host of the
  endpoint of the run's request, which is HTTPS or a loopback address, and is the known one of the
  provider unless the request confirmed another. The requests carry no headers but the provider's
  own, with the credential the source returned, and the body is the encoded request or empty.
  A decision that is returned is one the governance loop takes as well-formed, read from a complete
  JSON response of at most 1 MiB with a status of success. At most as many requests are sent as fit
  in the timeout.\<close>

theorem credential_stays_at_endpoint:
  assumes "local_provider sy rq = Inr mp" and "decide (recording nw) mp q (w, []) = (x, w', events)"
  shows "let u = hp_endpoint (mp_http mp); k = rq_provider rq in
      parse_request_uri (sy_is_ipv6 sy) (rq_endpoint rq) = Some u
      \<and> (u_scheme u = ''https'' \<or> u_scheme u = ''http'' \<and> sy_loopback sy (url_hostname u))
      \<and> (known_endpoint k u \<or> rq_confirm_custom_endpoint rq)
      \<and> (\<exists>ex c. events = Asked k (u_host u) c # map (\<lambda>(s, r). Exchanged s r) ex \<and> length ex \<le> nw_exchanges nw
          \<and> list_all (\<lambda>(s, r). \<exists>key. c = Inr key \<and> at_endpoint u (insert (''Content-Type'', ''application/json'')
               (set (if k = ''openai'' then openai_headers key else anthropic_headers key))) (nw_marshal nw (payload_of nw mp q)) s) ex
          \<and> (\<forall>resp. x = Inr resp \<longrightarrow> valid_decision (pr_decision resp) \<and> ex \<noteq> []
               \<and> (\<exists>r. snd (List.last ex) = Some r \<and> 200 \<le> re_status r \<and> re_status r < 300 \<and> \<not> re_read_fails r
                    \<and> length (re_body r) \<le> 2 ^ 20 \<and> contains (to_lower (re_content_type r)) ''application/json'')))"
proof -
  obtain op where op: "po_confirm_custom_endpoint op = rq_confirm_custom_endpoint rq"
      "new_http_provider sy (rq_endpoint rq) (rq_provider rq) op = Inr (mp_http mp)"
    and k: "hp_kind (mp_http mp) = rq_provider rq"
    using local_provider_Inr [OF assms(1)] by blast
  note made = new_http_provider_Inr [OF op(2)]
  obtain y where y: "post_record (hp_endpoint (mp_http mp)) (rq_provider rq)
        (if rq_provider rq = ''openai'' then openai_headers else anthropic_headers)
        (nw_marshal nw (payload_of nw mp q)) (nw_exchanges nw) y events"
      "\<forall>resp. x = Inr resp \<longrightarrow> (\<exists>data. y = Inr data) \<and> valid_decision (pr_decision resp)"
    using decide_recorded [OF _ _ assms(2)] made k by auto
  have headers: "(if rq_provider rq = ''openai'' then openai_headers else anthropic_headers) key
      = (if rq_provider rq = ''openai'' then openai_headers key else anthropic_headers key)" for key by simp
  obtain ex c where r: "events = Asked (rq_provider rq) (u_host (hp_endpoint (mp_http mp))) c # map (\<lambda>(s, r). Exchanged s r) ex"
      "length ex \<le> nw_exchanges nw"
      "list_all (\<lambda>(s, r). \<exists>key. c = Inr key \<and> at_endpoint (hp_endpoint (mp_http mp)) (insert (''Content-Type'', ''application/json'')
         (set (if rq_provider rq = ''openai'' then openai_headers key else anthropic_headers key))) (nw_marshal nw (payload_of nw mp q)) s) ex"
      "\<forall>data. y = Inr data \<longrightarrow> ex \<noteq> [] \<and> (\<exists>r. snd (List.last ex) = Some r \<and> accept_reply r = Inr data)"
    using y(1) unfolding post_record_def headers by blast
  have good: "valid_decision (pr_decision resp) \<and> ex \<noteq> [] \<and> (\<exists>r. snd (List.last ex) = Some r \<and> 200 \<le> re_status r
      \<and> re_status r < 300 \<and> \<not> re_read_fails r \<and> length (re_body r) \<le> 2 ^ 20
      \<and> contains (to_lower (re_content_type r)) ''application/json'')" if "x = Inr resp" for resp
    using r(4) y(2) that unfolding accepted_reply max_response_bytes_def by blast
  have "u_scheme (hp_endpoint (mp_http mp)) = ''https''
      \<or> u_scheme (hp_endpoint (mp_http mp)) = ''http'' \<and> sy_loopback sy (url_hostname (hp_endpoint (mp_http mp)))"
    using made by (auto simp: safe_credential_transport_def split: if_splits)
  then show ?thesis unfolding Let_def using made op(1) r(1-3) good by blast
qed

text \<open>A service that first redirects to itself, then to another host: the second redirect is not
  followed, and its response is refused.\<close>

definition sample_network :: "nat network" where
  "sample_network =
     \<lparr>nw_credential = (\<lambda>_ _ n. (Inr ''key'', n)), nw_url_ok = (\<lambda>_ _ _. True),
      nw_exchange = (\<lambda>_ n. (Some \<lparr>re_status = 307, re_location = (if n = 0 then ''/v2'' else ''https://elsewhere''),
         re_content_type = [], re_body = [], re_read_fails = False\<rparr>, Suc n)),
      nw_resolve = (\<lambda>s l. Some (''https'', if l = ''/v2'' then se_host s else ''elsewhere'', l)), nw_exchanges = 5,
      nw_request_json = (\<lambda>rq. JStr (pq_task rq)), nw_marshal = (\<lambda>_. ''payload''), nw_unmarshal = (\<lambda>_. None)\<rparr>"

definition sample_url :: url where
  "sample_url = \<lparr>u_scheme = ''https'', u_user = False, u_host = ''api.openai.com'', u_path = [], u_raw_query = [], u_fragment = []\<rparr>"

definition sample_provider :: model_provider where
  "sample_provider =
     \<lparr>mp_http = \<lparr>hp_endpoint = sample_url, hp_kind = ''openai''\<rparr>,
      mp_options = \<lparr>po_model = ''m'', po_max_tokens = 0, po_confirm_custom_endpoint = False\<rparr>\<rparr>"

definition sample_question :: provider_request where
  "sample_question = \<lparr>pq_task = ''t'', pq_context = [], pq_last_feedback = None, pq_allowed_actions = []\<rparr>"

lemma sample_local_provider: "local_provider (sample_system []) (sample_request ProfileReview) = Inr sample_provider"
proof -
  have u: "parse_request_uri (\<lambda>_. False) ''https://api.openai.com'' = Some sample_url" by code_simp
  have k: "known_endpoint ''openai'' sample_url" by code_simp
  have "sy_is_ipv6 (sample_system []) = (\<lambda>_. False)" by (simp add: sample_system_def)
  then show ?thesis
    using u k by (simp add: local_provider_def sample_request_def new_openai_def new_http_provider_def
      safe_credential_transport_def sample_provider_def sample_url_def)
qed

lemma sample_decide:
  "length (snd (snd (decide (recording sample_network) sample_provider sample_question (0, [])))) = 3"
proof -
  have refused: "accept_reply \<lparr>re_status = 307, re_location = l, re_content_type = [], re_body = [], re_read_fails = False\<rparr>
      = Inl ErrTransport" for l by (simp add: accept_reply_def)
  show ?thesis
    by (simp add: decide_def decide_openai_def post_def sample_provider_def sample_url_def sample_network_def
      numeral_eq_Suc [of "num.Bit1 num.One"] eval_nat_numeral request_path_def redirected_def refused)
qed

definition at_openai :: "net_event \<Rightarrow> bool" where
  "at_openai e = (case e of Asked k host c \<Rightarrow> k = ''openai'' \<and> host = ''api.openai.com''
     | Exchanged s r \<Rightarrow> se_scheme s = ''https'' \<and> se_host s = ''api.openai.com'' \<and> se_body s \<in> {''payload'', []})"

theorem credential_stays_at_endpoint_witness:
  "let events = snd (snd (decide (recording sample_network) sample_provider sample_question (0, []))) in
   length events = 3 \<and> list_all at_openai events"
proof -
  let ?run = "decide (recording sample_network) sample_provider sample_question (0, [])"
  have "?run = (fst ?run, fst (snd ?run), snd (snd ?run))" by (simp only: prod.collapse)
  note stays = credential_stays_at_endpoint [OF sample_local_provider this]
  have "list_all at_openai (snd (snd ?run))"
    using stays unfolding Let_def
    by (elim conjE exE) (auto simp: at_openai_def at_endpoint_def list_all_iff sample_provider_def sample_url_def
      sample_request_def sample_network_def)
  then show ?thesis using sample_decide by (simp add: Let_def)
qed

end
