(* ===== verification/Spec2Isabelle.thy ===== *)
theory Spec2Isabelle
  imports Budget Policy_Approval Workspace Patch_Policy Tools_Correct Search Sqlite_Correct Config Feedback_Correct Validation Repo_Lock Vault Keyring_Store Agent_Bounds Agent_Approvals Http_Events Provider
begin

text \<open>
  \<^bold>\<open>A verification library of the coding-agent harness.\<close>

  The harness lets a language model work on a Git repository under governance. A run has a task, a
  permission profile and budgets. In a loop (\<^verbatim>\<open>internal/agent\<close>) a provider proposes an action; the
  policy engine (\<^verbatim>\<open>internal/policy\<close>) denies it, allows it or asks an operator; a tool
  (\<^verbatim>\<open>internal/tools\<close>, confined by \<^verbatim>\<open>internal/workspace\<close>) or a configured check
  (\<^verbatim>\<open>internal/executor\<close>, \<^verbatim>\<open>internal/validation\<close>, \<^verbatim>\<open>internal/config\<close>) carries it out; its observation becomes
  redacted and bounded feedback (\<^verbatim>\<open>internal/feedback\<close>) for the next turn; budgets and the detector of missing
  progress (\<^verbatim>\<open>internal/budget\<close>) end the run. Every change of state (\<^verbatim>\<open>internal/domain\<close>) is a
  compare-and-swap of the store (\<^verbatim>\<open>internal/store\<close>, in memory or SQLite) with an event in a hash chain. The
  application service (\<^verbatim>\<open>internal/app\<close>) creates runs after a preflight, holds one lease per repository, keeps
  the loops' sessions, answers approvals, cancels, and recovers at start-up; \<^verbatim>\<open>internal/httpapi\<close> offers it to
  a browser, \<^verbatim>\<open>internal/credentials\<close> stores the keys and \<^verbatim>\<open>internal/provider\<close> uses them.

  \<^bold>\<open>Which theory models which part\<close> (paths are under \<^verbatim>\<open>src/\<close>). A function of the source is a definition
  named after it in the style of HOL (\<^verbatim>\<open>ResumeApproval\<close> is \<^verbatim>\<open>resume_approval\<close>), a struct is a record, an
  enumeration a datatype, an error the left value of a sum.

  \<^item> Go itself: \<^theory_text>\<open>Prelude\<close> (strings and paths), \<^theory_text>\<open>Utf8\<close>, \<^theory_text>\<open>Regex\<close> (leftmost-first matching),
    \<^theory_text>\<open>Go_Json\<close> (decoding into maps and structs), \<^theory_text>\<open>Go_Url\<close>.
  \<^item> \<^verbatim>\<open>internal/domain\<close>: \<^theory_text>\<open>Domain\<close>. \<^verbatim>\<open>internal/budget\<close>: \<^theory_text>\<open>Budget\<close>. \<^verbatim>\<open>internal/config\<close>: \<^theory_text>\<open>Config\<close>.
  \<^item> \<^verbatim>\<open>internal/policy\<close>: \<^theory_text>\<open>Policy\<close> (classification, verdicts, grants), \<^theory_text>\<open>Policy_Paths\<close> (what a path that is
    not denied is), \<^theory_text>\<open>Policy_Approval\<close> (digests and single use).
  \<^item> \<^verbatim>\<open>internal/workspace/path.go\<close>: \<^theory_text>\<open>Workspace\<close>. \<^verbatim>\<open>internal/tools\<close>: \<^theory_text>\<open>Tools\<close> and \<^theory_text>\<open>Tools_Correct\<close> (reading,
    creating, patching, the registry), \<^theory_text>\<open>Search\<close>, \<^theory_text>\<open>Patch_Headers\<close>, and \<^theory_text>\<open>Patch_Policy\<close>, which compares the
    parser of patches with the scan of the policy.
  \<^item> \<^verbatim>\<open>internal/storeport\<close> and \<^verbatim>\<open>internal/store\<close>: \<^theory_text>\<open>Store\<close> (the port, events, the store in memory),
    \<^theory_text>\<open>Store_Log\<close>, \<^theory_text>\<open>Store_Queries\<close>; \<^theory_text>\<open>Sqlite_Store\<close> (rows, statements, transactions, failing driver
    calls), \<^theory_text>\<open>Sqlite_Refines\<close>, \<^theory_text>\<open>Sqlite_Correct\<close>.
  \<^item> \<^verbatim>\<open>internal/feedback\<close>: \<^theory_text>\<open>Redact\<close>, \<^theory_text>\<open>Feedback\<close>, \<^theory_text>\<open>Feedback_Correct\<close>.
  \<^item> \<^verbatim>\<open>internal/agent\<close>: \<^theory_text>\<open>Approval_Request\<close> (\<^verbatim>\<open>approval.go\<close>, \<^verbatim>\<open>context.go\<close>), \<^theory_text>\<open>Agent_Loop\<close>
    (\<^verbatim>\<open>loop.go\<close>), with its properties in \<^theory_text>\<open>Agent_Logic\<close>, \<^theory_text>\<open>Agent_Safety\<close>, \<^theory_text>\<open>Agent_Bounds\<close>,
    \<^theory_text>\<open>Agent_Store\<close>, \<^theory_text>\<open>Agent_Approvals\<close>.
  \<^item> \<^verbatim>\<open>internal/executor/local.go\<close>: \<^theory_text>\<open>Executor\<close>. \<^verbatim>\<open>internal/validation\<close> and the loop's executor and validator
    in \<^verbatim>\<open>cmd/ai4se-harness/local.go\<close>: \<^theory_text>\<open>Validation\<close>.
  \<^item> \<^verbatim>\<open>internal/app\<close>: \<^theory_text>\<open>Repo_Lock\<close> (\<^verbatim>\<open>repolock.go\<close>), \<^theory_text>\<open>Preflight\<close> (\<^verbatim>\<open>preflight.go\<close>), \<^theory_text>\<open>App_Service\<close>
    (\<^verbatim>\<open>service.go\<close>), \<^theory_text>\<open>Loop_Controller\<close> (\<^verbatim>\<open>composition_local.go\<close>); \<^theory_text>\<open>App_Steps\<close>, \<^theory_text>\<open>App_Correct\<close>,
    \<^theory_text>\<open>App_Store\<close>, \<^theory_text>\<open>Local_App\<close> and \<^theory_text>\<open>App_Calls\<close> prove what they promise together.
  \<^item> \<^verbatim>\<open>internal/credentials\<close>: \<^theory_text>\<open>Credential_Store\<close> (\<^verbatim>\<open>store.go\<close>), \<^theory_text>\<open>Credential_Service\<close> (\<^verbatim>\<open>service.go\<close>),
    \<^theory_text>\<open>Keyring_Store\<close> (\<^verbatim>\<open>keyring.go\<close>), \<^theory_text>\<open>Vault\<close> (\<^verbatim>\<open>vault.go\<close>).
  \<^item> \<^verbatim>\<open>internal/httpapi\<close>: \<^theory_text>\<open>Http_Router\<close> (types, writers), \<^theory_text>\<open>Http_Handlers\<close> (handlers, dispatch, guards),
    \<^theory_text>\<open>Http_Safe\<close> and \<^theory_text>\<open>Http_Events\<close> (what they guarantee).
  \<^item> \<^verbatim>\<open>internal/provider\<close>: \<^theory_text>\<open>Provider\<close>, with the choice of the provider in \<^verbatim>\<open>cmd/ai4se-harness/local.go\<close>.

  \<^bold>\<open>State.\<close> The loop's state (\<^verbatim>\<open>loop_state\<close>) has its tracker, detector, grants and pending approvals, beside a
  store of type \<^typ>\<open>'s\<close> and a world of type \<^typ>\<open>'w\<close> on which the calls of its environment act. The service's
  state (\<^verbatim>\<open>app_state\<close>) has the store, the loops, the maps under its mutex, the owned leases and the
  directory of lease files; what other goroutines and processes do is a schedule of state changes, of which
  any number happens before each section of a call. The router's state is that of the bootstrap token and of
  the redactor's secrets.

  \<^bold>\<open>Contracts.\<close> Where one part relies on another its lemmas rest on a locale, which is interpreted on the model
  of the other part.

  \<^item> \<^verbatim>\<open>grant_store\<close> (approvals given, spent and withdrawn) on the approval store of the policy.
  \<^item> \<^verbatim>\<open>run_log\<close> (a run and its log change together or not at all) on both stores, SQLite with failing driver
    calls; \<^verbatim>\<open>loop_store\<close>, what the loop needs of it twice, on both; \<^verbatim>\<open>service_store_laws\<close>, what the service
    needs, on both; \<^verbatim>\<open>event_source\<close>, what an event stream needs, on SQLite.
  \<^item> \<^verbatim>\<open>call_frame\<close>, \<^verbatim>\<open>handler_frame\<close>, \<^verbatim>\<open>decision_frame\<close>, \<^verbatim>\<open>run_frame\<close>: what parts of the loop leave alone, each
    extending the one before; interpreted on the budget left, the tally of calls and the grants.
  \<^item> \<^verbatim>\<open>loop_logic\<close>: a predicate every call of the loop keeps holds when the loop returns; interpreted for the
    executed actions, the final validation and the checks behind a success.
  \<^item> \<^verbatim>\<open>interleaving\<close>, \<^verbatim>\<open>app_view_laws\<close>, \<^verbatim>\<open>app_contract\<close>: how the service's calls compose under interference, and
    what they need of the store and of the loop controller; \<^verbatim>\<open>local_contract\<close> gives the latter two
    (\<^verbatim>\<open>sublocale\<close>) for the controller of governance loops, on both stores.
  \<^item> \<^verbatim>\<open>credential_backend\<close> and \<^verbatim>\<open>clean_backend\<close>, with \<^verbatim>\<open>credential_pair\<close> and \<^verbatim>\<open>clean_pair\<close> for two of
    them: interpreted on the store in memory; for the keyring store and the vault they are theorems.
  \<^item> \<^verbatim>\<open>response_rule\<close>: a rule every writer of responses keeps holds of the router; interpreted for the secrets
    and for the session cookie.

  \<^bold>\<open>What is shown.\<close> Governance: only actions the policy allows, or whose request an operator granted once, are
  executed; a run succeeds only after its final validation and, in the local composition, only if all required
  checks ran last and exited with 0; the loop returns, within its budgets. Paths: what is not denied stays in the
  repository, outside the Git directory and away from credential material, and a resolved path does so after
  all links. Stores: hash-chained logs without orphans, compare-and-swap, SQLite refines the store in memory and is
  atomic, the stored run agrees with the loop's result. Service: at most one active run per repository, recovery and
  cancellation end runs for good, a dirty baseline needs its own approval. Secrets: registered ones are in
  no feedback, approval request or API response; the vault and the keyring give back what was stored; the
  provider's key goes to the confirmed endpoint only. HTTP: an unguarded request changes nothing, the
  bootstrap token opens one session, an event stream is the log.

  \<^bold>\<open>Termination and bounds.\<close> No definition has fuel that its code has not. The governance loop is recursive on the budget
  left (decisions and repairs), which every iteration decreases; the pipeline on the stages left; the bounded
  walk on the entries pending; functions on strings on their length. The retry loop of \<^verbatim>\<open>stopIfActive\<close> and the
  wait for an inactive session are bounded by the schedule: one attempt more than there are changes in it, and
  \<^verbatim>\<open>stopping_comes_to_an_end\<close> shows that this bound is never what ends them. An event stream runs over the
  finite list of what its \<^verbatim>\<open>select\<close> chooses until the client leaves, and redirects over the exchanges that
  fit in the client's timeout: these two have no other bound in the code.

  \<^bold>\<open>Parameters\<close> stand for what is not in the sources: SHA-256, Argon2 and XChaCha20-Poly1305, the SQLite driver, the
  TOML decoder, the keyring, Git and other processes, symbolic links and failing system calls, the clock, the
  random source, the network, configured regular expressions, the JSON codec where texts matter, and durations.
  Of them the theorems assume what their documentation says: the cipher opens what it sealed, the keyring is
  a map whatever calls fail, \<^verbatim>\<open>git apply --check\<close> writes nothing, following links gives an absolute path. SHA-256 is
  not assumed free of collisions: where one matters the statement names it.

  \<^bold>\<open>Not modelled.\<close> Operations under a mutex are single steps; so are an operation on the lease directory and a call
  into a loop session. The code's check and removal of a lease are two calls of the file system, between which
  another process may act: \<^verbatim>\<open>release_race\<close> in \<^theory_text>\<open>Repo_Lock\<close> shows the consequence. The platform files (permissions,
  replacing files, process groups and job objects), the opening and migration of the database, Windows paths,
  the parsing of flags, the servers of the command line and its polling, the scripted demonstration, the
  test doubles and the web front end are left out: they are input and output, or not part of what a harness
  decides. Integers are unbounded where the code only counts below a limit that is an int; where a sum can wrap, the
  wrap-around is written out or the text of the definition says so. Numbers beyond the range of a float64, which
  \<^verbatim>\<open>json.Unmarshal\<close> into \<^verbatim>\<open>any\<close> refuses, are accepted by the model.
\<close>

end
